(* ===== verification/Prelude.thy ===== *)
theory Prelude
  imports Complex_Main "HOL-Library.Word"
begin

unbundle bit_operations_syntax

text \<open>
  Shared vocabulary of the development: exceptions as values of a sum type, Node.js
  \<^verbatim>\<open>Buffer\<close>s as byte lists with their range-checked reads and writes, the remainder
  operator of JavaScript, and the interface of a wire codec (a locale that the
  components with an encoder and a decoder interpret).

  Conventions.  A JavaScript \<^verbatim>\<open>number\<close> that the code uses as an integer is an
  \<^typ>\<open>int\<close> (an offset or a length that cannot be negative is a \<^typ>\<open>nat\<close>); a
  \<^verbatim>\<open>number\<close> used as a quotient (a time in seconds) is a \<^typ>\<open>rat\<close>; a 32-bit bit
  pattern is a \<^typ>\<open>32 word\<close>.  An exception is an \<open>Inl\<close>.
\<close>

declare add_2_eq_Suc [simp del] add_2_eq_Suc' [simp del]

section \<open>Exceptions\<close>

text \<open>\<open>RangeError\<close> is what a Node.js buffer access out of range raises; \<open>Error\<close> carries
  the message of an explicit \<^verbatim>\<open>throw\<close>.\<close>

datatype js_error = RangeError | TypeError string | Error string

type_synonym 'a result = "js_error + 'a"

definition rbind :: "'e + 'a \<Rightarrow> ('a \<Rightarrow> 'e + 'b) \<Rightarrow> 'e + 'b" where
  "rbind r f = (case r of Inl e \<Rightarrow> Inl e | Inr x \<Rightarrow> f x)"

named_theorems wire_simps \<open>range-checked reads and writes of buffers\<close>
named_theorems roundtrip \<open>decode-after-encode laws\<close>
named_theorems inv_intros \<open>preservation of a component's invariant\<close>

lemma rbind_simps [simp]:
  "rbind (Inl e) f = Inl e"
  "rbind (Inr x) f = f x"
  by (simp_all add: rbind_def)

lemma rbind_eq_Inr [simp]: "rbind r f = Inr y \<longleftrightarrow> (\<exists>x. r = Inr x \<and> f x = Inr y)"
  by (cases r) auto

lemma rbind_eq_Inl: "rbind r f = Inl e \<longleftrightarrow> r = Inl e \<or> (\<exists>x. r = Inr x \<and> f x = Inl e)"
  by (cases r) auto

lemma rbind_cong [fundef_cong]:
  "r = r' \<Longrightarrow> (\<And>x. r' = Inr x \<Longrightarrow> f x = g x) \<Longrightarrow> rbind r f = rbind r' g"
  by (cases r') auto

text \<open>\<open>rmap f xs\<close> is \<^verbatim>\<open>xs.map(f)\<close> for a callback that may throw.\<close>

fun rmap :: "('a \<Rightarrow> 'e + 'b) \<Rightarrow> 'a list \<Rightarrow> 'e + 'b list" where
  "rmap f [] = Inr []"
| "rmap f (x # xs) = rbind (f x) (\<lambda>y. rbind (rmap f xs) (\<lambda>ys. Inr (y # ys)))"

lemma rmap_Inr_length: "rmap f xs = Inr ys \<Longrightarrow> length ys = length xs"
  by (induction xs arbitrary: ys) auto

lemma rmap_total: "(\<And>x. x \<in> set xs \<Longrightarrow> f x = Inr (g x)) \<Longrightarrow> rmap f xs = Inr (map g xs)"
  by (induction xs) auto

section \<open>JavaScript arithmetic\<close>

text \<open>The remainder operator \<^verbatim>\<open>%\<close> takes the sign of the dividend.\<close>

definition js_rem :: "int \<Rightarrow> int \<Rightarrow> int" where
  "js_rem a m = (if a < 0 then - ((- a) mod m) else a mod m)"

lemma js_rem_nonneg [simp]: "0 \<le> a \<Longrightarrow> js_rem a m = a mod m"
  by (simp add: js_rem_def)

section \<open>Buffers\<close>

type_synonym byte = "8 word"
type_synonym buffer = "byte list"

text \<open>\<^verbatim>\<open>buf.slice(s, e)\<close> for non-negative bounds: clamped to the buffer, empty when
  \<open>e \<le> s\<close>.  Both \<^verbatim>\<open>slice\<close> and \<^verbatim>\<open>subarray\<close>.\<close>

definition buf_slice :: "'a list \<Rightarrow> nat \<Rightarrow> nat \<Rightarrow> 'a list" where
  "buf_slice b s e = take (e - s) (drop s b)"

text \<open>Big-endian value of a byte string and the big-endian bytes of a value.\<close>

fun be_int :: "buffer \<Rightarrow> int" where
  "be_int [] = 0"
| "be_int (b # bs) = uint b * 256 ^ length bs + be_int bs"

primrec be_bytes :: "nat \<Rightarrow> int \<Rightarrow> buffer" where
  "be_bytes 0 v = []"
| "be_bytes (Suc n) v = word_of_int (v div 256 ^ n) # be_bytes n v"

lemma length_be_bytes [simp]: "length (be_bytes n v) = n"
  by (induction n) auto

lemma be_int_nonneg [simp]: "0 \<le> be_int bs"
  by (induction bs) auto

lemma be_int_bound: "be_int bs < 256 ^ length bs"
proof (induction bs)
  case Nil
  then show ?case by simp
next
  case (Cons b bs)
  have "uint b * 256 ^ length bs \<le> 255 * 256 ^ length bs"
    using uint_lt2p [of b] by (intro mult_right_mono) auto
  with Cons have "be_int (b # bs) < 255 * 256 ^ length bs + 256 ^ length bs"
    by (simp only: be_int.simps)
  then show ?case by simp
qed

lemma be_bytes_int: "be_int (be_bytes n v) = v mod 256 ^ n"
proof (induction n)
  case 0
  then show ?case by simp
next
  case (Suc n)
  have "v mod (256 ^ n * 256) = 256 ^ n * (v div 256 ^ n mod 256) + v mod 256 ^ n"
    by (rule zmod_zmult2_eq) simp
  with Suc show ?case
    by (simp add: uint_word_of_int mult.commute)
qed

lemma be_int_inj: "length xs = length ys \<Longrightarrow> be_int xs = be_int ys \<Longrightarrow> xs = ys"
proof (induction xs ys rule: list_induct2)
  case Nil
  then show ?case by simp
next
  case (Cons x xs y ys)
  let ?m = "256 ^ length xs :: int"
  have eq: "be_int xs + uint x * ?m = be_int ys + uint y * ?m"
    using Cons by (simp add: add.commute)
  have bound: "be_int xs < ?m" "be_int ys < ?m"
    using be_int_bound [of xs] be_int_bound [of ys] Cons.hyps by simp_all
  have "uint x = (be_int xs + uint x * ?m) div ?m"
    using bound by simp
  also have "\<dots> = uint y"
    unfolding eq using bound by simp
  finally have "uint x = uint y" .
  with eq Cons.IH show ?case by (simp add: word_uint_eq_iff)
qed

text \<open>\<^verbatim>\<open>buf.readUIntBE(pos, n)\<close>, \<^verbatim>\<open>readUInt8\<close>, \<^verbatim>\<open>readUInt16BE\<close>, \<^verbatim>\<open>readUInt32BE\<close>: a read past
  the end raises a \<open>RangeError\<close>.  The writes raise one for a value out of range; writing
  at increasing offsets of a fresh buffer is modelled as concatenation.\<close>

definition readUIntBE :: "nat \<Rightarrow> buffer \<Rightarrow> nat \<Rightarrow> int result" where
  "readUIntBE n b pos =
     (if pos + n \<le> length b then Inr (be_int (buf_slice b pos (pos + n))) else Inl RangeError)"

definition writeUIntBE :: "nat \<Rightarrow> int \<Rightarrow> buffer result" where
  "writeUIntBE n v = (if 0 \<le> v \<and> v < 256 ^ n then Inr (be_bytes n v) else Inl RangeError)"

abbreviation readUInt8 :: "buffer \<Rightarrow> nat \<Rightarrow> int result" where
  "readUInt8 \<equiv> readUIntBE 1"
abbreviation readUInt16BE :: "buffer \<Rightarrow> nat \<Rightarrow> int result" where
  "readUInt16BE \<equiv> readUIntBE 2"
abbreviation readUInt32BE :: "buffer \<Rightarrow> nat \<Rightarrow> int result" where
  "readUInt32BE \<equiv> readUIntBE 4"
abbreviation writeUInt8 :: "int \<Rightarrow> buffer result" where
  "writeUInt8 \<equiv> writeUIntBE 1"
abbreviation writeUInt16BE :: "int \<Rightarrow> buffer result" where
  "writeUInt16BE \<equiv> writeUIntBE 2"
abbreviation writeUInt32BE :: "int \<Rightarrow> buffer result" where
  "writeUInt32BE \<equiv> writeUIntBE 4"

text \<open>The little-endian variants reverse the bytes.\<close>

definition readUInt32LE :: "buffer \<Rightarrow> nat \<Rightarrow> int result" where
  "readUInt32LE b pos =
     (if pos + 4 \<le> length b then Inr (be_int (rev (buf_slice b pos (pos + 4)))) else Inl RangeError)"

definition writeUInt32LE :: "int \<Rightarrow> buffer result" where
  "writeUInt32LE v = rbind (writeUIntBE 4 v) (\<lambda>b. Inr (rev b))"

lemma length_slice [simp]: "length (buf_slice b s e) = min e (length b) - s"
  by (auto simp: buf_slice_def)

lemma slice_append [wire_simps]:
  "buf_slice (xs @ ys) s e =
     (if e \<le> length xs then buf_slice xs s e
      else if length xs \<le> s then buf_slice ys (s - length xs) (e - length xs)
      else drop s xs @ take (e - length xs) ys)"
  by (auto simp: buf_slice_def)

lemma slice_all [wire_simps]: "length b \<le> e \<Longrightarrow> buf_slice b 0 e = b"
  by (simp add: buf_slice_def)

lemma readUIntBE_append_first:
  "length xs = n \<Longrightarrow> readUIntBE n (xs @ ys) 0 = Inr (be_int xs)"
  by (simp add: readUIntBE_def buf_slice_def)

lemma readUIntBE_append_later:
  "length xs \<le> pos \<Longrightarrow> readUIntBE n (xs @ ys) pos = readUIntBE n ys (pos - length xs)"
  by (auto simp: readUIntBE_def buf_slice_def)

lemma readUIntBE_Cons:
  "0 < pos \<Longrightarrow> readUIntBE n (x # ys) pos = readUIntBE n ys (pos - 1)"
  using readUIntBE_append_later [of "[x]" pos n ys] by simp

lemma read_written [wire_simps]:
  "0 \<le> v \<Longrightarrow> v < 256 ^ n \<Longrightarrow> readUIntBE n (be_bytes n v @ ys) 0 = Inr v"
  by (simp add: readUIntBE_append_first be_bytes_int)

lemma read_written_only [wire_simps]:
  "0 \<le> v \<Longrightarrow> v < 256 ^ n \<Longrightarrow> readUIntBE n (be_bytes n v) 0 = Inr v"
  using read_written [of v n "[]"] by simp

lemma read_after_written [wire_simps]:
  "n \<le> pos \<Longrightarrow> readUIntBE k (be_bytes n v @ ys) pos = readUIntBE k ys (pos - n)"
  by (simp add: readUIntBE_append_later)

lemma drop_written [wire_simps]:
  "n \<le> k \<Longrightarrow> drop k (be_bytes n v @ ys) = drop (k - n) ys"
  by simp

lemma writeUIntBE_ok [wire_simps]:
  "0 \<le> v \<Longrightarrow> v < 256 ^ n \<Longrightarrow> writeUIntBE n v = Inr (be_bytes n v)"
  by (simp add: writeUIntBE_def)

lemma writeUIntBE_Inr: "writeUIntBE n v = Inr b \<longleftrightarrow> 0 \<le> v \<and> v < 256 ^ n \<and> b = be_bytes n v"
  by (auto simp: writeUIntBE_def)

lemma writeUIntBE_Inl: "writeUIntBE n v = Inl e \<longleftrightarrow> e = RangeError \<and> (v < 0 \<or> 256 ^ n \<le> v)"
  by (auto simp: writeUIntBE_def)

lemma readUIntBE_Inr_bounds:
  assumes "readUIntBE n b pos = Inr v"
  shows "0 \<le> v \<and> v < 256 ^ n \<and> pos + n \<le> length b"
proof -
  from assms have len: "pos + n \<le> length b" and v: "v = be_int (buf_slice b pos (pos + n))"
    by (auto simp: readUIntBE_def split: if_splits)
  with be_int_bound [of "buf_slice b pos (pos + n)"] show ?thesis by simp
qed

lemma read_write_LE [wire_simps]:
  assumes "0 \<le> v" "v < 256 ^ 4" and "length xs = pos"
  shows "readUInt32LE (xs @ rev (be_bytes 4 v) @ ys) pos = Inr v"
  using assms by (simp add: readUInt32LE_def buf_slice_def be_bytes_int)

text \<open>The ranges of unsigned fields.\<close>

definition u8_ok :: "int \<Rightarrow> bool" where "u8_ok v \<longleftrightarrow> 0 \<le> v \<and> v < 2 ^ 8"
definition u16_ok :: "int \<Rightarrow> bool" where "u16_ok v \<longleftrightarrow> 0 \<le> v \<and> v < 2 ^ 16"
definition u32_ok :: "int \<Rightarrow> bool" where "u32_ok v \<longleftrightarrow> 0 \<le> v \<and> v < 2 ^ 32"

lemma u16_okD: "u16_ok v \<Longrightarrow> 0 \<le> v" "u16_ok v \<Longrightarrow> v < 256 ^ 2"
  by (auto simp: u16_ok_def)

lemma u32_okD: "u32_ok v \<Longrightarrow> 0 \<le> v" "u32_ok v \<Longrightarrow> v < 256 ^ 4"
  by (auto simp: u32_ok_def)

lemma writeUInt16BE_ok [wire_simps]: "u16_ok v \<Longrightarrow> writeUInt16BE v = Inr (be_bytes 2 v)"
  and writeUInt32BE_ok [wire_simps]: "u32_ok v \<Longrightarrow> writeUInt32BE v = Inr (be_bytes 4 v)"
  and read16_ok [wire_simps]: "u16_ok v \<Longrightarrow> readUInt16BE (be_bytes 2 v @ ys) 0 = Inr v"
  and read32_ok [wire_simps]: "u32_ok v \<Longrightarrow> readUInt32BE (be_bytes 4 v @ ys) 0 = Inr v"
  and read16_only [wire_simps]: "u16_ok v \<Longrightarrow> readUInt16BE (be_bytes 2 v) 0 = Inr v"
  and read32_only [wire_simps]: "u32_ok v \<Longrightarrow> readUInt32BE (be_bytes 4 v) 0 = Inr v"
  using u16_okD u32_okD by (simp_all add: writeUIntBE_ok read_written read_written_only)

lemma writeUInt8_ok [wire_simps]: "u8_ok v \<Longrightarrow> writeUInt8 v = Inr (be_bytes 1 v)"
  and read8_ok [wire_simps]: "u8_ok v \<Longrightarrow> readUInt8 (be_bytes 1 v @ ys) 0 = Inr v"
  by (simp_all add: u8_ok_def writeUIntBE_ok read_written del: One_nat_def)

section \<open>The interface of a wire codec\<close>

text \<open>
  A serializer and a parser over the values that the format can carry.  What every
  codec of the program promises is that a value that is valid for the format
  serializes without an exception and parses back to itself.
\<close>

locale wire_codec =
  fixes enc :: "'a \<Rightarrow> buffer result"
    and dec :: "buffer \<Rightarrow> 'a result"
    and valid :: "'a \<Rightarrow> bool"
  assumes enc_ok: "valid x \<Longrightarrow> \<exists>b. enc x = Inr b"
    and dec_enc: "valid x \<Longrightarrow> enc x = Inr b \<Longrightarrow> dec b = Inr x"
begin

lemma enc_inj: "valid x \<Longrightarrow> valid y \<Longrightarrow> enc x = enc y \<Longrightarrow> x = y"
  using enc_ok dec_enc by (metis sum.inject(2))

lemma codec_roundtrip: "valid x \<Longrightarrow> rbind (enc x) dec = Inr x"
  using enc_ok dec_enc by fastforce

lemma dec_total_on_image: "valid x \<Longrightarrow> enc x = Inr b \<Longrightarrow> dec b \<noteq> Inl e"
  using dec_enc by fastforce

end

end
