(* ===== verification/Sctp_Param.thy ===== *)
theory Sctp_Param
  imports Prelude
begin

text \<open>
  The re-configuration parameters of RFC 6525 (\<^verbatim>\<open>packages/sctp/src/param.ts\<close>): their
  wire format, the parsers, and that each parser inverts its serializer.
\<close>

datatype stream_param =
    OutgoingSSNResetRequestParam (requestSequence: int) (responseSequence: int) (lastTsn: int)
      (reset_streams: "int list")
  | StreamAddOutgoingParam (requestSequence: int) (newStreams: int)
  | ReconfigResponseParam (responseSequence: int) (reconfig_result: int)

definition ReconfigResultSuccessPerformed :: int where "ReconfigResultSuccessPerformed = 1"
definition BadSequenceNumber :: int where "BadSequenceNumber = 5"

fun param_type :: "stream_param \<Rightarrow> int" where
  "param_type (OutgoingSSNResetRequestParam _ _ _ _) = 13"
| "param_type (StreamAddOutgoingParam _ _) = 17"
| "param_type (ReconfigResponseParam _ _) = 16"

definition OutgoingSSNResetRequestParam_bytes :: "int \<Rightarrow> int \<Rightarrow> int \<Rightarrow> int list \<Rightarrow> buffer result" where
  "OutgoingSSNResetRequestParam_bytes req res tsn streams =
     rbind (writeUInt32BE req) (\<lambda>b0.
     rbind (writeUInt32BE res) (\<lambda>b4.
     rbind (writeUInt32BE tsn) (\<lambda>b8.
     rbind (rmap writeUInt16BE streams) (\<lambda>bufs.
     Inr (b0 @ b4 @ b8 @ concat bufs)))))"

text \<open>\<^verbatim>\<open>for (let pos = 12; pos < data.length; pos += 2)\<close>: an odd tail makes the read throw.\<close>

function parse_stream_ids :: "buffer \<Rightarrow> nat \<Rightarrow> int list result" where
  "parse_stream_ids data pos =
     (if pos < length data then
        rbind (readUInt16BE data pos) (\<lambda>s.
        rbind (parse_stream_ids data (pos + 2)) (\<lambda>ss. Inr (s # ss)))
      else Inr [])"
  by pat_completeness auto
termination
  by (relation "measure (\<lambda>(data, pos). length data - pos)") auto

declare parse_stream_ids.simps [simp del]

definition OutgoingSSNResetRequestParam_parse :: "buffer \<Rightarrow> stream_param result" where
  "OutgoingSSNResetRequestParam_parse data =
     rbind (readUInt32BE data 0) (\<lambda>req.
     rbind (readUInt32BE data 4) (\<lambda>res.
     rbind (readUInt32BE data 8) (\<lambda>tsn.
     rbind (parse_stream_ids data 12) (\<lambda>ss.
     Inr (OutgoingSSNResetRequestParam req res tsn ss)))))"

definition StreamAddOutgoingParam_bytes :: "int \<Rightarrow> int \<Rightarrow> buffer result" where
  "StreamAddOutgoingParam_bytes req n =
     rbind (writeUInt32BE req) (\<lambda>b0.
     rbind (writeUInt16BE n) (\<lambda>b4.
     rbind (writeUInt16BE 0) (\<lambda>b6. Inr (b0 @ b4 @ b6))))"

definition StreamAddOutgoingParam_parse :: "buffer \<Rightarrow> stream_param result" where
  "StreamAddOutgoingParam_parse data =
     rbind (readUInt32BE data 0) (\<lambda>req.
     rbind (readUInt16BE data 4) (\<lambda>n. Inr (StreamAddOutgoingParam req n)))"

definition ReconfigResponseParam_bytes :: "int \<Rightarrow> int \<Rightarrow> buffer result" where
  "ReconfigResponseParam_bytes res result_code =
     rbind (writeUInt32BE res) (\<lambda>b0.
     rbind (writeUInt32BE result_code) (\<lambda>b4. Inr (b0 @ b4)))"

definition ReconfigResponseParam_parse :: "buffer \<Rightarrow> stream_param result" where
  "ReconfigResponseParam_parse data =
     rbind (readUInt32BE data 0) (\<lambda>res.
     rbind (readUInt32BE data 4) (\<lambda>code. Inr (ReconfigResponseParam res code)))"

fun stream_param_bytes :: "stream_param \<Rightarrow> buffer result" where
  "stream_param_bytes (OutgoingSSNResetRequestParam req res tsn ss) =
     OutgoingSSNResetRequestParam_bytes req res tsn ss"
| "stream_param_bytes (StreamAddOutgoingParam req n) = StreamAddOutgoingParam_bytes req n"
| "stream_param_bytes (ReconfigResponseParam res code) = ReconfigResponseParam_bytes res code"

text \<open>The table of parsers by parameter type; an unknown type has no entry.\<close>

definition RECONFIG_PARAM_BY_TYPES :: "int \<Rightarrow> (buffer \<Rightarrow> stream_param result) option" where
  "RECONFIG_PARAM_BY_TYPES t =
     (if t = 13 then Some OutgoingSSNResetRequestParam_parse
      else if t = 16 then Some ReconfigResponseParam_parse
      else if t = 17 then Some StreamAddOutgoingParam_parse
      else None)"

section \<open>Round trips\<close>

definition valid_stream_param :: "stream_param \<Rightarrow> bool" where
  "valid_stream_param p = (case p of
       OutgoingSSNResetRequestParam req res tsn ss \<Rightarrow>
         u32_ok req \<and> u32_ok res \<and> u32_ok tsn \<and> list_all u16_ok ss
     | StreamAddOutgoingParam req n \<Rightarrow> u32_ok req \<and> u16_ok n
     | ReconfigResponseParam res code \<Rightarrow> u32_ok res \<and> u32_ok code)"

definition stream_param_parse :: "int \<Rightarrow> buffer \<Rightarrow> stream_param result" where
  "stream_param_parse t b = (case RECONFIG_PARAM_BY_TYPES t of None \<Rightarrow> Inl (Error ''type'') | Some f \<Rightarrow> f b)"

lemma rmap_u16: "list_all u16_ok ss \<Longrightarrow> rmap writeUInt16BE ss = Inr (map (be_bytes 2) ss)"
  by (rule rmap_total) (auto simp: list_all_iff wire_simps)

lemma parse_stream_ids_written:
  "list_all u16_ok ss \<Longrightarrow> length pre = pos \<Longrightarrow>
   parse_stream_ids (pre @ concat (map (be_bytes 2) ss)) pos = Inr ss"
proof (induction ss arbitrary: pre pos)
  case Nil
  then show ?case by (simp add: parse_stream_ids.simps)
next
  case (Cons s ss)
  then have "parse_stream_ids ((pre @ be_bytes 2 s) @ concat (map (be_bytes 2) ss)) (pos + 2) = Inr ss"
    by (intro Cons.IH) auto
  with Cons.prems show ?case
    by (subst parse_stream_ids.simps) (simp add: readUIntBE_append_later wire_simps)
qed

lemma stream_param_bytes_ok: "valid_stream_param p \<Longrightarrow> \<exists>b. stream_param_bytes p = Inr b"
  by (cases p)
    (auto simp: valid_stream_param_def OutgoingSSNResetRequestParam_bytes_def StreamAddOutgoingParam_bytes_def
      ReconfigResponseParam_bytes_def rmap_u16 wire_simps)

lemma stream_param_roundtrip [roundtrip]:
  assumes "valid_stream_param p" and "stream_param_bytes p = Inr b"
  shows "stream_param_parse (param_type p) b = Inr p"
proof (cases p)
  case (OutgoingSSNResetRequestParam req res tsn ss)
  with assms have b: "b = be_bytes 4 req @ be_bytes 4 res @ be_bytes 4 tsn @ concat (map (be_bytes 2) ss)"
    by (simp add: valid_stream_param_def OutgoingSSNResetRequestParam_bytes_def rmap_u16 wire_simps)
  have "parse_stream_ids ((be_bytes 4 req @ be_bytes 4 res @ be_bytes 4 tsn) @ concat (map (be_bytes 2) ss)) 12 = Inr ss"
    using assms OutgoingSSNResetRequestParam
    by (intro parse_stream_ids_written) (auto simp: valid_stream_param_def)
  with OutgoingSSNResetRequestParam assms b show ?thesis
    by (simp add: stream_param_parse_def RECONFIG_PARAM_BY_TYPES_def OutgoingSSNResetRequestParam_parse_def
        valid_stream_param_def wire_simps)
next
  case (StreamAddOutgoingParam req n)
  with assms show ?thesis
    by (auto simp: stream_param_parse_def RECONFIG_PARAM_BY_TYPES_def StreamAddOutgoingParam_parse_def
        StreamAddOutgoingParam_bytes_def valid_stream_param_def wire_simps)
next
  case (ReconfigResponseParam res code)
  with assms show ?thesis
    by (auto simp: stream_param_parse_def RECONFIG_PARAM_BY_TYPES_def ReconfigResponseParam_parse_def
        ReconfigResponseParam_bytes_def valid_stream_param_def wire_simps)
qed

interpretation rp_reset: wire_codec stream_param_bytes "stream_param_parse 13"
    "\<lambda>p. valid_stream_param p \<and> param_type p = 13"
  using stream_param_bytes_ok stream_param_roundtrip by unfold_locales fastforce+

interpretation rp_add: wire_codec stream_param_bytes "stream_param_parse 17"
    "\<lambda>p. valid_stream_param p \<and> param_type p = 17"
  using stream_param_bytes_ok stream_param_roundtrip by unfold_locales fastforce+

interpretation rp_response: wire_codec stream_param_bytes "stream_param_parse 16"
    "\<lambda>p. valid_stream_param p \<and> param_type p = 16"
  using stream_param_bytes_ok stream_param_roundtrip by unfold_locales fastforce+

end
