(* ===== verification/Crc.thy ===== *)
theory Crc
  imports Prelude
begin

unbundle bit_operations_syntax

text \<open>
  The checksums of \<^verbatim>\<open>packages/common/src/crc.ts\<close>: the 256-entry table, the fifteen
  derived tables and the loop that consumes sixteen bytes per iteration.  All values are
  32-bit patterns (the bitwise operators of JavaScript and its \<^verbatim>\<open>Int32Array\<close> work on
  them), so they are words of 32 bits.  The slice-by-16 loop is proved equal to the
  bit-at-a-time definition of the reflected CRC, for every buffer and seed.
\<close>

section \<open>The code\<close>

type_synonym u32 = "32 word"

definition POLY_CRC32 :: u32 where "POLY_CRC32 = 0xedb88320"
definition POLY_CRC32C :: u32 where "POLY_CRC32C = 0x82f63b78"

text \<open>One line \<^verbatim>\<open>c = c & 1 ? polynomial ^ (c >>> 1) : c >>> 1\<close>; a table entry is eight of them.\<close>

definition crc_bit :: "u32 \<Rightarrow> u32 \<Rightarrow> u32" where
  "crc_bit polynomial c = (if c AND 1 \<noteq> 0 then polynomial XOR drop_bit 1 c else drop_bit 1 c)"

definition generateCRCTable :: "u32 \<Rightarrow> u32 list" where
  "generateCRCTable polynomial = map (\<lambda>n. (crc_bit polynomial ^^ 8) (word_of_nat n)) [0..<256]"

text \<open>\<^verbatim>\<open>v = (v >>> 8) ^ table0[v & 0xff]\<close>, iterated along each column of the 4096-entry array;
  row \<open>k\<close> (\<open>1 \<le> k < 16\<close>) of the array is the \<open>k\<close>-th derived table.\<close>

definition slice_step :: "u32 list \<Rightarrow> u32 \<Rightarrow> u32" where
  "slice_step table0 v = drop_bit 8 v XOR table0 ! unat (v AND 0xff)"

definition generateSliceBy16Tables :: "u32 list \<Rightarrow> u32 list list" where
  "generateSliceBy16Tables table0 =
     map (\<lambda>k. map (\<lambda>n. (slice_step table0 ^^ k) (table0 ! n)) [0..<256]) [1..<16]"

definition byte32 :: "byte \<Rightarrow> u32" where
  "byte32 b = ucast b"

text \<open>The first loop of \<^verbatim>\<open>crcBuffer\<close>: sixteen lookups per iteration, the first four mixed
  with the running value.  \<open>ts ! (k - 1)\<close> is the table the source calls \<^verbatim>\<open>t\<close>\<open>k\<close>.\<close>

function crc_loop16 :: "u32 list \<Rightarrow> u32 list list \<Rightarrow> u32 \<Rightarrow> buffer \<Rightarrow> u32 \<times> buffer" where
  "crc_loop16 table0 ts crc v =
     (if 16 \<le> length v then
        crc_loop16 table0 ts
          (ts ! 14 ! unat (byte32 (v ! 0) XOR (crc AND 255))
           XOR ts ! 13 ! unat (byte32 (v ! 1) XOR (drop_bit 8 crc AND 255))
           XOR ts ! 12 ! unat (byte32 (v ! 2) XOR (drop_bit 16 crc AND 255))
           XOR ts ! 11 ! unat (byte32 (v ! 3) XOR drop_bit 24 crc)
           XOR ts ! 10 ! unat (v ! 4)
           XOR ts ! 9 ! unat (v ! 5)
           XOR ts ! 8 ! unat (v ! 6)
           XOR ts ! 7 ! unat (v ! 7)
           XOR ts ! 6 ! unat (v ! 8)
           XOR ts ! 5 ! unat (v ! 9)
           XOR ts ! 4 ! unat (v ! 10)
           XOR ts ! 3 ! unat (v ! 11)
           XOR ts ! 2 ! unat (v ! 12)
           XOR ts ! 1 ! unat (v ! 13)
           XOR ts ! 0 ! unat (v ! 14)
           XOR table0 ! unat (v ! 15))
          (drop 16 v)
      else (crc, v))"
  by pat_completeness auto
termination
  by (relation "measure (\<lambda>(t, ts, c, v). length v)") auto

declare crc_loop16.simps [simp del]

fun crc_loop1 :: "u32 list \<Rightarrow> u32 \<Rightarrow> buffer \<Rightarrow> u32" where
  "crc_loop1 table0 crc [] = crc"
| "crc_loop1 table0 crc (b # v) =
     crc_loop1 table0 (drop_bit 8 crc XOR table0 ! unat ((crc XOR byte32 b) AND 0xff)) v"

definition crcBuffer :: "buffer \<Rightarrow> u32 \<Rightarrow> u32 list \<Rightarrow> u32 list list \<Rightarrow> u32" where
  "crcBuffer v seed table0 tables16 =
     (let crc = seed XOR - 1; (crc, rest) = crc_loop16 table0 tables16 crc v
      in NOT (crc_loop1 table0 crc rest))"

definition table32 :: "u32 list" where "table32 = generateCRCTable POLY_CRC32"
definition tables32By16 :: "u32 list list" where
  "tables32By16 = generateSliceBy16Tables table32"
definition table32c :: "u32 list" where "table32c = generateCRCTable POLY_CRC32C"
definition tables32cBy16 :: "u32 list list" where
  "tables32cBy16 = generateSliceBy16Tables table32c"

definition crc32 :: "buffer \<Rightarrow> u32 \<Rightarrow> u32" where
  "crc32 input seed = crcBuffer input seed table32 tables32By16"

definition crc32c :: "buffer \<Rightarrow> u32 \<Rightarrow> u32" where
  "crc32c input seed = crcBuffer input seed table32c tables32cBy16"

section \<open>The reference definition\<close>

text \<open>The reflected CRC, one message bit at a time: no table.\<close>

definition crc_byte :: "u32 \<Rightarrow> u32 \<Rightarrow> byte \<Rightarrow> u32" where
  "crc_byte polynomial crc b = (crc_bit polynomial ^^ 8) (crc XOR byte32 b)"

definition crc_reference :: "u32 \<Rightarrow> buffer \<Rightarrow> u32 \<Rightarrow> u32" where
  "crc_reference polynomial v seed = NOT (foldl (crc_byte polynomial) (NOT seed) v)"

section \<open>The tables compute the reference\<close>

lemma and_one_bit: "(x :: u32) AND 1 \<noteq> 0 \<longleftrightarrow> bit x 0"
  by (simp add: and_one_eq bit_0 flip: even_iff_mod_2_eq_zero)

lemma crc_bit_linear: "crc_bit p (x XOR y) = crc_bit p x XOR crc_bit p y"
proof -
  have xx: "(a XOR b) XOR (a XOR c) = b XOR c" for a b c :: u32
    by (metis xor.assoc xor.commute xor_self_eq xor.left_neutral)
  have "(x XOR y) AND 1 \<noteq> 0 \<longleftrightarrow> (x AND 1 \<noteq> 0) \<noteq> (y AND 1 \<noteq> 0)"
    by (simp only: and_one_bit bit_xor_iff)
  then show ?thesis
    by (auto simp: crc_bit_def drop_bit_xor xx ac_simps)
qed

abbreviation crc_shift :: "u32 \<Rightarrow> u32 \<Rightarrow> u32" where
  "crc_shift p \<equiv> crc_bit p ^^ 8"

lemma crc_bits_linear: "(crc_bit p ^^ n) (x XOR y) = (crc_bit p ^^ n) x XOR (crc_bit p ^^ n) y"
  by (induction n) (auto simp: crc_bit_linear)

lemma crc_bits_clear:
  "take_bit n x = 0 \<Longrightarrow> (crc_bit p ^^ n) x = drop_bit n x"
proof (induction n arbitrary: x)
  case 0
  then show ?case by simp
next
  case (Suc n)
  have low: "\<not> bit x k" if "k < Suc n" for k
    using Suc.prems that by (metis bit_take_bit_iff bit_0_eq bot_apply bot_bool_def)
  then have tb: "take_bit n (drop_bit 1 x) = 0"
    by (auto simp: bit_eq_iff bit_take_bit_iff bit_drop_bit_eq)
  have "crc_bit p x = drop_bit 1 x"
    using low [of 0] and_one_bit [of x] by (simp add: crc_bit_def)
  then have "(crc_bit p ^^ Suc n) x = (crc_bit p ^^ n) (drop_bit 1 x)"
    by (simp add: funpow_swap1)
  also have "\<dots> = drop_bit n (drop_bit 1 x)" by (rule Suc.IH [OF tb])
  finally show ?case by simp
qed

lemma split_low: "(x :: u32) = (x AND NOT 0xff) XOR (x AND 0xff)"
  by (rule bit_eqI) (auto simp: bit_simps)

lemma mask8: "(0xff :: u32) = mask 8"
  by (simp add: mask_eq_exp_minus_1)

lemma unat_and_255: "unat ((x :: u32) AND 0xff) < 256"
proof -
  have "unat (x AND 0xff) \<le> unat (0xff :: u32)"
    by (rule word_and_le1 [THEN word_le_nat_alt [THEN iffD1]])
  then show ?thesis by simp
qed

lemma table_nth: "unat x < 256 \<Longrightarrow> generateCRCTable p ! unat x = crc_shift p x"
  by (simp add: generateCRCTable_def)

lemma slice_step_shift: "slice_step (generateCRCTable p) v = crc_shift p v"
proof -
  have "crc_shift p v = crc_shift p (v AND NOT 0xff) XOR crc_shift p (v AND 0xff)"
    using split_low [of v] crc_bits_linear [of 8 p "v AND NOT 0xff" "v AND 0xff"] by simp
  also have "crc_shift p (v AND NOT 0xff) = drop_bit 8 (v AND NOT 0xff)"
    by (rule crc_bits_clear) (auto simp: bit_eq_iff bit_simps mask8)
  also have "drop_bit 8 (v AND NOT 0xff) = drop_bit 8 v"
    by (rule bit_eqI) (auto simp: bit_simps mask8 dest: bit_imp_le_length)
  finally show ?thesis
    by (simp add: slice_step_def table_nth unat_and_255)
qed

lemma byte32_and: "byte32 b AND 0xff = byte32 b"
  by (rule bit_eqI) (auto simp: byte32_def mask8 bit_simps dest: bit_imp_le_length)

lemma crc_loop1_reference: "crc_loop1 (generateCRCTable p) crc v = foldl (crc_byte p) crc v"
proof (induction v arbitrary: crc)
  case Nil
  then show ?case by simp
next
  case (Cons b v)
  have "drop_bit 8 (byte32 b) = 0"
    by (rule bit_eqI) (auto simp: byte32_def bit_simps dest: bit_imp_le_length)
  then have "drop_bit 8 crc XOR generateCRCTable p ! unat ((crc XOR byte32 b) AND 0xff) = crc_byte p crc b"
    using slice_step_shift [of p "crc XOR byte32 b"] by (simp add: slice_step_def crc_byte_def drop_bit_xor)
  with Cons show ?case by simp
qed

lemma table_slice_nth:
  assumes "k < 15" and "unat x < 256"
  shows "generateSliceBy16Tables (generateCRCTable p) ! k ! unat x = (crc_shift p ^^ (k + 2)) x"
proof -
  have "slice_step (generateCRCTable p) = crc_shift p"
    by (rule ext) (rule slice_step_shift)
  moreover have "(crc_shift p ^^ Suc k) (crc_shift p x) = (crc_shift p ^^ (k + 2)) x"
    by (simp add: funpow_swap1 add_2_eq_Suc')
  ultimately show ?thesis
    using assms by (simp add: generateSliceBy16Tables_def table_nth del: funpow.simps)
qed

lemma crc_shifts_linear: "(crc_shift p ^^ n) (x XOR y) = (crc_shift p ^^ n) x XOR (crc_shift p ^^ n) y"
  by (simp add: funpow_mult crc_bits_linear)

lemma crc_shifts_zero [simp]: "(crc_shift p ^^ n) 0 = 0"
  using crc_shifts_linear [of n p 0 0] by simp

text \<open>One byte of the running value at a time: the low byte meets \<open>n + 1\<close> shifts, the
  rest \<open>n\<close>.\<close>

lemma crc_shifts_peel:
  "(crc_shift p ^^ Suc n) c = (crc_shift p ^^ Suc n) (c AND 0xff) XOR (crc_shift p ^^ n) (drop_bit 8 c)"
proof -
  have "crc_shift p c = crc_shift p (c AND 0xff) XOR drop_bit 8 c"
    using slice_step_shift [of p c] unat_and_255 [of c]
    by (simp add: slice_step_def table_nth xor.commute)
  then show ?thesis
    by (simp only: funpow_Suc_right comp_apply crc_shifts_linear)
qed

lemma foldl_crc_byte: "foldl (crc_byte p) c bs = (crc_shift p ^^ length bs) c XOR foldl (crc_byte p) 0 bs"
proof (induction bs arbitrary: c)
  case Nil
  then show ?case by simp
next
  case (Cons b bs)
  have "foldl (crc_byte p) c (b # bs) =
      (crc_shift p ^^ length bs) (crc_byte p c b) XOR foldl (crc_byte p) 0 bs"
    using Cons [of "crc_byte p c b"] by simp
  also have "(crc_shift p ^^ length bs) (crc_byte p c b) =
      (crc_shift p ^^ Suc (length bs)) c XOR (crc_shift p ^^ length bs) (crc_byte p 0 b)"
    by (simp only: crc_byte_def funpow_Suc_right comp_apply crc_bits_linear xor.left_neutral crc_shifts_linear)
  finally show ?case
    using Cons [of "crc_byte p 0 b"] by (simp add: xor.assoc)
qed

lemma foldl_crc_byte_Cons:
  "foldl (crc_byte p) 0 (b # bs) =
     (crc_shift p ^^ Suc (length bs)) (byte32 b) XOR foldl (crc_byte p) 0 bs"
  using foldl_crc_byte [of p "crc_byte p 0 b" bs]
  by (simp add: crc_byte_def funpow_swap1)

lemma unat_byte_less: "unat (b :: byte) < 256"
  using unsigned_less [of b, where 'a = nat] by simp

lemma unat_byte32: "unat (byte32 b) = unat b"
  using unat_byte_less [of b] by (simp add: byte32_def unsigned_ucast_eq take_bit_nat_eq_self)

lemma unat_xor_less:
  assumes "unat (x :: u32) < 256" and "unat y < 256"
  shows "unat (x XOR y) < 256"
proof -
  have "take_bit 8 (unat x XOR unat y) = unat x XOR unat y"
    using assms by (simp add: take_bit_xor take_bit_nat_eq_self)
  then show ?thesis
    using take_bit_nat_less_exp [of 8 "unat x XOR unat y"] by (simp add: unsigned_xor_eq)
qed

lemma unat_drop24: "unat (drop_bit 24 (x :: u32)) < 256"
  using unsigned_less [of x, where 'a = nat]
  by (simp only: unat_drop_bit_eq) (simp add: drop_bit_nat_eq less_mult_imp_div_less drop_bit_eq_div)

lemma take_16: "16 \<le> length v \<Longrightarrow> take 16 v =
    [v ! 0, v ! 1, v ! 2, v ! 3, v ! 4, v ! 5, v ! 6, v ! 7, v ! 8, v ! 9, v ! 10, v ! 11,
     v ! 12, v ! 13, v ! 14, v ! 15]"
  by (rule nth_equalityI) (auto simp: less_Suc_eq numeral_eq_Suc)

text \<open>The sixteen lookups of one iteration are the sixteen reference steps.\<close>

lemma crc_16_bytes:
  fixes p c v
  defines "T \<equiv> generateCRCTable p"
  defines "ts \<equiv> generateSliceBy16Tables (generateCRCTable p)"
  assumes "16 \<le> length v"
  shows "ts ! 14 ! unat (byte32 (v ! 0) XOR (c AND 255))
     XOR ts ! 13 ! unat (byte32 (v ! 1) XOR (drop_bit 8 c AND 255))
     XOR ts ! 12 ! unat (byte32 (v ! 2) XOR (drop_bit 16 c AND 255))
     XOR ts ! 11 ! unat (byte32 (v ! 3) XOR drop_bit 24 c)
     XOR ts ! 10 ! unat (v ! 4) XOR ts ! 9 ! unat (v ! 5) XOR ts ! 8 ! unat (v ! 6)
     XOR ts ! 7 ! unat (v ! 7) XOR ts ! 6 ! unat (v ! 8) XOR ts ! 5 ! unat (v ! 9)
     XOR ts ! 4 ! unat (v ! 10) XOR ts ! 3 ! unat (v ! 11) XOR ts ! 2 ! unat (v ! 12)
     XOR ts ! 1 ! unat (v ! 13) XOR ts ! 0 ! unat (v ! 14) XOR T ! unat (v ! 15)
   = foldl (crc_byte p) c (take 16 v)"
proof -
  define L where "L n x = (crc_shift p ^^ n) x" for n x
  have T: "T ! unat (b :: byte) = L 1 (byte32 b)" for b
    using table_nth [of "byte32 b" p] by (simp add: T_def L_def unat_byte32 unat_byte_less)
  have ts_b: "k < 15 \<Longrightarrow> ts ! k ! unat (b :: byte) = L (k + 2) (byte32 b)" for k b
    using table_slice_nth [of k "byte32 b" p] by (simp only: ts_def L_def unat_byte32 unat_byte_less)
  have ts_x: "k < 15 \<Longrightarrow> unat y < 256 \<Longrightarrow>
      ts ! k ! unat (byte32 b XOR y) = L (k + 2) (byte32 b) XOR L (k + 2) y" for k b y
    using table_slice_nth [of k "byte32 b XOR y" p]
    by (simp only: ts_def L_def unat_byte32 unat_byte_less unat_xor_less crc_shifts_linear)
  have peel: "L (Suc n) x = L (Suc n) (x AND 255) XOR L n (drop_bit 8 x)" for n x
    unfolding L_def by (rule crc_shifts_peel)
  have peel16: "L 16 c = L 16 (c AND 255) XOR (L 15 (drop_bit 8 c AND 255) XOR
      (L 14 (drop_bit 16 c AND 255) XOR L 13 (drop_bit 24 c)))"
    using peel [of 15 c] peel [of 14 "drop_bit 8 c"] peel [of 13 "drop_bit 16 c"] by simp
  have Cons: "foldl (crc_byte p) 0 (b # bs) = L (Suc (length bs)) (byte32 b) XOR foldl (crc_byte p) 0 bs"
    for b bs unfolding L_def by (rule foldl_crc_byte_Cons)
  have "foldl (crc_byte p) c (take 16 v) = L 16 c XOR foldl (crc_byte p) 0 (take 16 v)"
    using assms(3) by (subst foldl_crc_byte) (simp add: L_def)
  also have "\<dots> = L 16 c XOR (L 16 (byte32 (v ! 0)) XOR (L 15 (byte32 (v ! 1)) XOR (L 14 (byte32 (v ! 2))
      XOR (L 13 (byte32 (v ! 3)) XOR (L 12 (byte32 (v ! 4)) XOR (L 11 (byte32 (v ! 5)) XOR
      (L 10 (byte32 (v ! 6)) XOR (L 9 (byte32 (v ! 7)) XOR (L 8 (byte32 (v ! 8)) XOR
      (L 7 (byte32 (v ! 9)) XOR (L 6 (byte32 (v ! 10)) XOR (L 5 (byte32 (v ! 11)) XOR
      (L 4 (byte32 (v ! 12)) XOR (L 3 (byte32 (v ! 13)) XOR (L 2 (byte32 (v ! 14)) XOR
      L 1 (byte32 (v ! 15)))))))))))))))))"
    unfolding take_16 [OF assms(3)] Cons by (simp add: eval_nat_numeral)
  finally show ?thesis
    using unat_and_255 unat_drop24 
    by (simp add: peel16 T ts_b ts_x ac_simps flip: numeral_2_eq_2)
qed

lemma crc_loop16_reference:
  "crc_loop16 (generateCRCTable p) (generateSliceBy16Tables (generateCRCTable p)) c v = (c', rest) \<Longrightarrow>
   foldl (crc_byte p) c' rest = foldl (crc_byte p) c v"
proof (induction "length v" arbitrary: c v rule: less_induct)
  case less
  show ?case
  proof (cases "16 \<le> length v")
    case False
    with less.prems show ?thesis by (simp add: crc_loop16.simps [of _ _ c v])
  next
    case True
    with less.prems have "crc_loop16 (generateCRCTable p) (generateSliceBy16Tables (generateCRCTable p))
        (foldl (crc_byte p) c (take 16 v)) (drop 16 v) = (c', rest)"
      unfolding crc_16_bytes [OF True, of p c, symmetric] by (subst (asm) crc_loop16.simps) (simp only: if_True)
    then have "foldl (crc_byte p) c' rest = foldl (crc_byte p) (foldl (crc_byte p) c (take 16 v)) (drop 16 v)"
      using True by (intro less.hyps) auto
    then show ?thesis by (simp flip: foldl_append)
  qed
qed

lemma crcBuffer_reference:
  "crcBuffer v seed (generateCRCTable p) (generateSliceBy16Tables (generateCRCTable p)) =
   crc_reference p v seed"
  using crc_loop16_reference
  by (auto simp: crcBuffer_def crc_reference_def crc_loop1_reference split: prod.splits)

text \<open>
  C38. The slice-by-16 checksums are the reflected CRC-32 and CRC-32C: for every buffer
  and every seed, the sixteen-tables loop followed by the one-table loop returns the value
  of the bit-at-a-time definition with the respective polynomial.
\<close>

theorem crc_slice_by_16_correct:
  "crc32c v seed = crc_reference POLY_CRC32C v seed \<and> crc32 v seed = crc_reference POLY_CRC32 v seed"
  by (simp add: crc32c_def crc32_def tables32cBy16_def table32c_def tables32By16_def table32_def
      crcBuffer_reference)

section \<open>Detection of a corrupted byte\<close>

lemma crc_bit_top: "bit p 31 \<Longrightarrow> bit (crc_bit p x) 31 \<longleftrightarrow> bit x 0"
  using and_one_bit [of x] by (auto simp: crc_bit_def bit_simps dest: bit_imp_le_length)

lemma xor_cancel: "(a :: u32) XOR b = a XOR c \<Longrightarrow> b = c" "b XOR a = c XOR a \<Longrightarrow> b = c"
proof -
  have *: "a XOR b = a XOR c \<Longrightarrow> b = c" for a b c :: u32
    by (metis xor.assoc xor_self_eq xor.left_neutral)
  show "a XOR b = a XOR c \<Longrightarrow> b = c" by (rule *)
  show "b XOR a = c XOR a \<Longrightarrow> b = c" using * [of a b c] by (simp add: xor.commute)
qed

lemma crc_bit_inj:
  assumes "bit p 31" and eq: "crc_bit p x = crc_bit p y"
  shows "x = y"
proof -
  have b0: "bit x 0 \<longleftrightarrow> bit y 0"
    using crc_bit_top [OF assms(1), of x] crc_bit_top [OF assms(1), of y] eq by simp
  then have "drop_bit 1 x = drop_bit 1 y"
    using eq and_one_bit [of x] and_one_bit [of y]
    by (auto simp: crc_bit_def dest: xor_cancel split: if_splits)
  then have "bit x (Suc n) \<longleftrightarrow> bit y (Suc n)" for n
    by (metis bit_drop_bit_eq comp_apply plus_1_eq_Suc)
  with b0 show ?thesis
    by (intro bit_eqI) (metis not0_implies_Suc)
qed

lemma crc_bits_inj: "bit p 31 \<Longrightarrow> (crc_bit p ^^ n) x = (crc_bit p ^^ n) y \<Longrightarrow> x = y"
  by (induction n) (auto dest: crc_bit_inj)

lemma byte32_inj: "byte32 a = byte32 b \<Longrightarrow> a = b"
  by (metis unat_byte32 word_unat_eq_iff)

lemma crc_byte_inj_state: "bit p 31 \<Longrightarrow> crc_byte p c b = crc_byte p d b \<Longrightarrow> c = d"
  unfolding crc_byte_def by (rule xor_cancel(2), rule crc_bits_inj)

lemma crc_byte_inj_byte: "bit p 31 \<Longrightarrow> crc_byte p c a = crc_byte p c b \<Longrightarrow> a = b"
  unfolding crc_byte_def by (rule byte32_inj, rule xor_cancel(1), rule crc_bits_inj)

lemma foldl_crc_byte_inj: "bit p 31 \<Longrightarrow> foldl (crc_byte p) c ys = foldl (crc_byte p) d ys \<Longrightarrow> c = d"
  by (induction ys arbitrary: c d) (auto dest: crc_byte_inj_state)

lemma crc32c_detects_byte:
  assumes "i < length v" and "v ! i \<noteq> x"
  shows "crc32c (v[i := x]) seed \<noteq> crc32c v seed"
proof
  let ?p = POLY_CRC32C
  have top: "bit ?p 31" by (simp add: POLY_CRC32C_def)
  assume eq: "crc32c (v[i := x]) seed = crc32c v seed"
  have "crc_reference ?p (v[i := x]) seed = crc_reference ?p v seed"
    using eq by (simp add: crc32c_def tables32cBy16_def table32c_def crcBuffer_reference)
  then have "foldl (crc_byte ?p) (NOT seed) (v[i := x]) = foldl (crc_byte ?p) (NOT seed) v"
    by (metis crc_reference_def bit.double_compl)
  then have "foldl (crc_byte ?p) (foldl (crc_byte ?p) (NOT seed) (take i v @ [x])) (drop (Suc i) v) =
      foldl (crc_byte ?p) (foldl (crc_byte ?p) (NOT seed) (take i v @ [v ! i])) (drop (Suc i) v)"
    using assms(1) by (simp add: upd_conv_take_nth_drop flip: foldl_append)
      (simp add: id_take_nth_drop [symmetric])
  from foldl_crc_byte_inj [OF top this] have "x = v ! i"
    by (auto dest: crc_byte_inj_byte [OF top])
  with assms(2) show False by simp
qed

end
