(* ===== verification/Sctp_Chunk.thy ===== *)
theory Sctp_Chunk
  imports Sctp_Param Crc
begin

text \<open>
  SCTP packets (\<^verbatim>\<open>packages/sctp/src/chunk.ts\<close>): the chunk classes as a datatype, the
  \<^verbatim>\<open>bytes\<close> getters, the constructors that parse a body, the parameter lists, and
  \<^verbatim>\<open>parsePacket\<close> / \<^verbatim>\<open>serializePacket\<close> with the CRC-32C checksum.

  A parser returns \<open>None\<close> where the code does not return: the loops of
  \<^verbatim>\<open>decodeParams\<close> and \<^verbatim>\<open>parsePacket\<close> advance by a length read from the wire, and a
  length of zero repeats the iteration for ever.
\<close>

section \<open>Data\<close>

type_synonym params = "(int \<times> buffer) list"

definition SCTP_PADDING_MULTIPLE :: nat where "SCTP_PADDING_MULTIPLE = 4"
definition SCTP_COMMON_HEADER_SIZE :: nat where "SCTP_COMMON_HEADER_SIZE = 12"
definition SCTP_CHUNK_HEADER_SIZE :: nat where "SCTP_CHUNK_HEADER_SIZE = 4"
definition SCTP_DATA_FIXED_HEADER_SIZE :: nat where "SCTP_DATA_FIXED_HEADER_SIZE = 12"
definition SCTP_DATA_CHUNK_HEADER_SIZE :: nat where
  "SCTP_DATA_CHUNK_HEADER_SIZE = SCTP_CHUNK_HEADER_SIZE + SCTP_DATA_FIXED_HEADER_SIZE"

lemmas sctp_sizes = SCTP_PADDING_MULTIPLE_def SCTP_COMMON_HEADER_SIZE_def SCTP_CHUNK_HEADER_SIZE_def
  SCTP_DATA_FIXED_HEADER_SIZE_def SCTP_DATA_CHUNK_HEADER_SIZE_def

record init_chunk =
  init_flags :: int
  initiateTag :: int
  init_advertisedRwnd :: int
  outboundStreams :: int
  inboundStreams :: int
  initialTsn :: int
  init_params :: params

record forward_tsn_chunk =
  fwd_flags :: int
  fwd_cumulativeTsn :: int
  fwd_streams :: "(int \<times> int) list"

text \<open>\<open>dc_id\<close> is the identity of the JavaScript object: \<^verbatim>\<open>sendWaiters\<close> compares chunks by
  reference.\<close>

record data_chunk =
  dc_id :: nat
  flags :: int
  tsn :: int
  streamId :: int
  streamSeqNum :: int
  protocol :: int
  userData :: buffer
  abandoned :: bool
  acked :: bool
  misses :: int
  retransmit :: bool
  sentCount :: int
  bookSize :: int
  expiry :: "rat option"
  maxRetransmits :: "int option"
  sentTime :: "rat option"

record sack_chunk =
  sack_flags :: int
  gaps :: "(int \<times> int) list"
  duplicates :: "int list"
  sack_cumulativeTsn :: int
  sack_advertisedRwnd :: int

datatype chunk =
    DataChunk data_chunk
  | InitChunk init_chunk
  | InitAckChunk init_chunk
  | SackChunk sack_chunk
  | HeartbeatChunk int params
  | HeartbeatAckChunk int params
  | AbortChunk int params
  | ShutdownChunk int int
  | ShutdownAckChunk int buffer
  | ErrorChunk int params
  | CookieEchoChunk int buffer
  | CookieAckChunk int buffer
  | ShutdownCompleteChunk int buffer
  | ReconfigChunk int params
  | ForwardTsnChunk forward_tsn_chunk

fun chunk_type :: "chunk \<Rightarrow> int" where
  "chunk_type (DataChunk _) = 0"
| "chunk_type (InitChunk _) = 1"
| "chunk_type (InitAckChunk _) = 2"
| "chunk_type (SackChunk _) = 3"
| "chunk_type (HeartbeatChunk _ _) = 4"
| "chunk_type (HeartbeatAckChunk _ _) = 5"
| "chunk_type (AbortChunk _ _) = 6"
| "chunk_type (ShutdownChunk _ _) = 7"
| "chunk_type (ShutdownAckChunk _ _) = 8"
| "chunk_type (ErrorChunk _ _) = 9"
| "chunk_type (CookieEchoChunk _ _) = 10"
| "chunk_type (CookieAckChunk _ _) = 11"
| "chunk_type (ShutdownCompleteChunk _ _) = 14"
| "chunk_type (ReconfigChunk _ _) = 130"
| "chunk_type (ForwardTsnChunk _) = 192"

section \<open>Padding and parameter lists\<close>

definition padL :: "nat \<Rightarrow> nat" where
  "padL l = (let m = l mod SCTP_PADDING_MULTIPLE in if m \<noteq> 0 then SCTP_PADDING_MULTIPLE - m else 0)"

fun encodeParams_loop :: "buffer \<Rightarrow> buffer \<Rightarrow> params \<Rightarrow> buffer result" where
  "encodeParams_loop body padding [] = Inr body"
| "encodeParams_loop body padding ((t, v) # ps) =
     (let len = length v + 4 in
      rbind (writeUInt16BE t) (\<lambda>h0.
      rbind (writeUInt16BE (int len)) (\<lambda>h2.
      encodeParams_loop (body @ padding @ h0 @ h2 @ v) (replicate (padL len) 0) ps)))"

definition encodeParams :: "params \<Rightarrow> buffer result" where
  "encodeParams ps = encodeParams_loop [] [] ps"

partial_function (option) decodeParams_loop :: "buffer \<Rightarrow> nat \<Rightarrow> params \<Rightarrow> params result option" where
  "decodeParams_loop body pos ps =
     (if int pos \<le> int (length body) - 4 then
        (case readUInt16BE body pos of Inl e \<Rightarrow> Some (Inl e) | Inr t \<Rightarrow>
        (case readUInt16BE body (pos + 2) of Inl e \<Rightarrow> Some (Inl e) | Inr len \<Rightarrow>
         decodeParams_loop body (pos + (nat len + padL (nat len)))
           (ps @ [(t, buf_slice body (pos + 4) (pos + nat len))])))
      else Some (Inr ps))"

definition decodeParams :: "buffer \<Rightarrow> params result option" where
  "decodeParams body = decodeParams_loop body 0 []"

section \<open>Serialization\<close>

text \<open>\<^verbatim>\<open>Chunk.bytes\<close> over the \<^verbatim>\<open>body\<close> getter of the class.\<close>

definition chunk_bytes_of_body :: "int \<Rightarrow> int \<Rightarrow> buffer \<Rightarrow> buffer result" where
  "chunk_bytes_of_body ty fl body =
     rbind (writeUInt8 ty) (\<lambda>h0.
     rbind (writeUInt8 fl) (\<lambda>h1.
     rbind (writeUInt16BE (int (length body + SCTP_CHUNK_HEADER_SIZE))) (\<lambda>h2.
     Inr (h0 @ h1 @ h2 @ body @ replicate (padL (length body)) 0))))"

definition init_body :: "init_chunk \<Rightarrow> buffer result" where
  "init_body c =
     rbind (writeUInt32BE (initiateTag c)) (\<lambda>b0.
     rbind (writeUInt32BE (init_advertisedRwnd c)) (\<lambda>b4.
     rbind (writeUInt16BE (outboundStreams c)) (\<lambda>b8.
     rbind (writeUInt16BE (inboundStreams c)) (\<lambda>b10.
     rbind (writeUInt32BE (initialTsn c)) (\<lambda>b12.
     rbind (encodeParams (init_params c)) (\<lambda>ps.
     Inr ((b0 @ b4 @ b8 @ b10 @ b12) @ ps)))))))"

definition write_u16_pair :: "int \<times> int \<Rightarrow> buffer result" where
  "write_u16_pair p = rbind (writeUInt16BE (fst p)) (\<lambda>b0. rbind (writeUInt16BE (snd p)) (\<lambda>b2. Inr (b0 @ b2)))"

definition forward_tsn_body :: "forward_tsn_chunk \<Rightarrow> buffer result" where
  "forward_tsn_body c =
     rbind (writeUInt32BE (fwd_cumulativeTsn c)) (\<lambda>b0.
     rbind (rmap write_u16_pair (fwd_streams c)) (\<lambda>bufs. Inr (b0 @ concat bufs)))"

definition data_bytes :: "data_chunk \<Rightarrow> buffer result" where
  "data_bytes c =
     (let len = SCTP_DATA_CHUNK_HEADER_SIZE + length (userData c) in
      rbind (writeUInt8 0) (\<lambda>h0.
      rbind (writeUInt8 (flags c)) (\<lambda>h1.
      rbind (writeUInt16BE (int len)) (\<lambda>h2.
      rbind (writeUInt32BE (tsn c)) (\<lambda>h4.
      rbind (writeUInt16BE (streamId c)) (\<lambda>h8.
      rbind (writeUInt16BE (streamSeqNum c)) (\<lambda>h10.
      rbind (writeUInt32BE (protocol c)) (\<lambda>h12.
      let data = (h0 @ h1 @ h2 @ h4 @ h8 @ h10 @ h12) @ userData c in
      Inr (if len mod 4 \<noteq> 0 then data @ replicate (padL len) 0 else data)))))))))"

definition sack_bytes :: "sack_chunk \<Rightarrow> buffer result" where
  "sack_bytes c =
     (let len = 16 + 4 * (length (gaps c) + length (duplicates c)) in
      rbind (writeUInt8 3) (\<lambda>h0.
      rbind (writeUInt8 (sack_flags c)) (\<lambda>h1.
      rbind (writeUInt16BE (int len)) (\<lambda>h2.
      rbind (writeUInt32BE (sack_cumulativeTsn c)) (\<lambda>h4.
      rbind (writeUInt32BE (sack_advertisedRwnd c)) (\<lambda>h8.
      rbind (writeUInt16BE (int (length (gaps c)))) (\<lambda>h12.
      rbind (writeUInt16BE (int (length (duplicates c)))) (\<lambda>h14.
      rbind (rmap write_u16_pair (gaps c)) (\<lambda>gs.
      rbind (rmap writeUInt32BE (duplicates c)) (\<lambda>ds.
      Inr ((h0 @ h1 @ h2 @ h4 @ h8 @ h12 @ h14) @ concat gs @ concat ds)))))))))))"

fun chunk_bytes :: "chunk \<Rightarrow> buffer result" where
  "chunk_bytes (DataChunk c) = data_bytes c"
| "chunk_bytes (SackChunk c) = sack_bytes c"
| "chunk_bytes (InitChunk c) = rbind (init_body c) (chunk_bytes_of_body 1 (init_flags c))"
| "chunk_bytes (InitAckChunk c) = rbind (init_body c) (chunk_bytes_of_body 2 (init_flags c))"
| "chunk_bytes (ForwardTsnChunk c) = rbind (forward_tsn_body c) (chunk_bytes_of_body 192 (fwd_flags c))"
| "chunk_bytes (HeartbeatChunk fl ps) = rbind (encodeParams ps) (chunk_bytes_of_body 4 fl)"
| "chunk_bytes (HeartbeatAckChunk fl ps) = rbind (encodeParams ps) (chunk_bytes_of_body 5 fl)"
| "chunk_bytes (AbortChunk fl ps) = rbind (encodeParams ps) (chunk_bytes_of_body 6 fl)"
| "chunk_bytes (ErrorChunk fl ps) = rbind (encodeParams ps) (chunk_bytes_of_body 9 fl)"
| "chunk_bytes (ReconfigChunk fl ps) = rbind (encodeParams ps) (chunk_bytes_of_body 130 fl)"
| "chunk_bytes (ShutdownChunk fl cum) = rbind (writeUInt32BE cum) (chunk_bytes_of_body 7 fl)"
| "chunk_bytes (ShutdownAckChunk fl body) = chunk_bytes_of_body 8 fl body"
| "chunk_bytes (CookieEchoChunk fl body) = chunk_bytes_of_body 10 fl body"
| "chunk_bytes (CookieAckChunk fl body) = chunk_bytes_of_body 11 fl body"
| "chunk_bytes (ShutdownCompleteChunk fl body) = chunk_bytes_of_body 14 fl body"

definition serializePacket :: "int \<Rightarrow> int \<Rightarrow> int \<Rightarrow> chunk \<Rightarrow> buffer result" where
  "serializePacket sourcePort destinationPort verificationTag c =
     rbind (writeUInt16BE sourcePort) (\<lambda>h0.
     rbind (writeUInt16BE destinationPort) (\<lambda>h2.
     rbind (writeUInt32BE verificationTag) (\<lambda>h4.
     let header = h0 @ h2 @ h4 in
     rbind (chunk_bytes c) (\<lambda>body.
     rbind (writeUInt32LE (uint (crc32c (header @ [0, 0, 0, 0] @ body) 0))) (\<lambda>checkSumBuf.
     Inr (header @ checkSumBuf @ body))))))"

section \<open>Parsing\<close>

text \<open>The constructors applied to a body.  The bookkeeping fields of a parsed \<^verbatim>\<open>DataChunk\<close>
  have their initial values.\<close>

definition new_data_chunk :: "nat \<Rightarrow> int \<Rightarrow> data_chunk" where
  "new_data_chunk i fl = \<lparr>dc_id = i, flags = fl, tsn = 0, streamId = 0, streamSeqNum = 0, protocol = 0,
     userData = [], abandoned = False, acked = False, misses = 0, retransmit = False, sentCount = 0,
     bookSize = 0, expiry = None, maxRetransmits = None, sentTime = None\<rparr>"

definition parse_data :: "int \<Rightarrow> buffer \<Rightarrow> data_chunk result" where
  "parse_data fl body =
     rbind (readUInt32BE body 0) (\<lambda>t.
     rbind (readUInt16BE body 4) (\<lambda>sid.
     rbind (readUInt16BE body 6) (\<lambda>ssn.
     rbind (readUInt32BE body 8) (\<lambda>ppid.
     Inr ((new_data_chunk 0 fl)\<lparr>tsn := t, streamId := sid, streamSeqNum := ssn, protocol := ppid,
            userData := drop 12 body\<rparr>)))))"

definition parse_init :: "int \<Rightarrow> buffer \<Rightarrow> init_chunk result option" where
  "parse_init fl body =
     (case
       (rbind (readUInt32BE body 0) (\<lambda>tag.
        rbind (readUInt32BE body 4) (\<lambda>rwnd.
        rbind (readUInt16BE body 8) (\<lambda>outb.
        rbind (readUInt16BE body 10) (\<lambda>inb.
        rbind (readUInt32BE body 12) (\<lambda>tsn0.
        Inr \<lparr>init_flags = fl, initiateTag = tag, init_advertisedRwnd = rwnd, outboundStreams = outb,
             inboundStreams = inb, initialTsn = tsn0, init_params = []\<rparr>)))))) of
        Inl e \<Rightarrow> Some (Inl e)
      | Inr c \<Rightarrow> map_option (\<lambda>r. rbind r (\<lambda>ps. Inr (c\<lparr>init_params := ps\<rparr>))) (decodeParams (drop 16 body)))"

text \<open>The gap blocks and the duplicates of a SACK: \<open>n\<close> reads from \<open>pos\<close> on.\<close>

fun read_u16_pairs :: "nat \<Rightarrow> buffer \<Rightarrow> nat \<Rightarrow> (int \<times> int) list result" where
  "read_u16_pairs 0 body pos = Inr []"
| "read_u16_pairs (Suc n) body pos =
     rbind (readUInt16BE body pos) (\<lambda>a.
     rbind (readUInt16BE body (pos + 2)) (\<lambda>b.
     rbind (read_u16_pairs n body (pos + 4)) (\<lambda>xs. Inr ((a, b) # xs))))"

fun read_u32s :: "nat \<Rightarrow> buffer \<Rightarrow> nat \<Rightarrow> int list result" where
  "read_u32s 0 body pos = Inr []"
| "read_u32s (Suc n) body pos =
     rbind (readUInt32BE body pos) (\<lambda>a.
     rbind (read_u32s n body (pos + 4)) (\<lambda>xs. Inr (a # xs)))"

definition parse_sack :: "int \<Rightarrow> buffer \<Rightarrow> sack_chunk result" where
  "parse_sack fl body =
     rbind (readUInt32BE body 0) (\<lambda>cum.
     rbind (readUInt32BE body 4) (\<lambda>rwnd.
     rbind (readUInt16BE body 8) (\<lambda>nbGaps.
     rbind (readUInt16BE body 10) (\<lambda>nbDuplicates.
     rbind (read_u16_pairs (nat nbGaps) body 12) (\<lambda>gs.
     rbind (read_u32s (nat nbDuplicates) body (12 + 4 * nat nbGaps)) (\<lambda>ds.
     Inr \<lparr>sack_flags = fl, gaps = gs, duplicates = ds, sack_cumulativeTsn = cum,
          sack_advertisedRwnd = rwnd\<rparr>))))))"

text \<open>\<^verbatim>\<open>while (pos < body.length)\<close> reads two 16-bit numbers: a tail that is no multiple of
  four throws.\<close>

function parse_fwd_streams :: "buffer \<Rightarrow> nat \<Rightarrow> (int \<times> int) list result" where
  "parse_fwd_streams body pos =
     (if pos < length body then
        rbind (readUInt16BE body pos) (\<lambda>a.
        rbind (readUInt16BE body (pos + 2)) (\<lambda>b.
        rbind (parse_fwd_streams body (pos + 4)) (\<lambda>xs. Inr ((a, b) # xs))))
      else Inr [])"
  by pat_completeness auto
termination
  by (relation "measure (\<lambda>(body, pos). length body - pos)") auto

declare parse_fwd_streams.simps [simp del]

definition parse_forward_tsn :: "int \<Rightarrow> buffer \<Rightarrow> forward_tsn_chunk result" where
  "parse_forward_tsn fl body =
     rbind (readUInt32BE body 0) (\<lambda>cum.
     rbind (parse_fwd_streams body 4) (\<lambda>ss.
     Inr \<lparr>fwd_flags = fl, fwd_cumulativeTsn = cum, fwd_streams = ss\<rparr>))"

definition with_params :: "(params \<Rightarrow> chunk) \<Rightarrow> buffer \<Rightarrow> chunk result option" where
  "with_params C body = map_option (\<lambda>r. rbind r (\<lambda>ps. Inr (C ps))) (decodeParams body)"

text \<open>\<^verbatim>\<open>CHUNK_BY_TYPE\<close>: the class of a chunk type and its constructor; an unknown type
  throws.\<close>

definition parse_chunk :: "int \<Rightarrow> int \<Rightarrow> buffer \<Rightarrow> chunk result option" where
  "parse_chunk ty fl body =
     (if ty = 0 then Some (rbind (parse_data fl body) (\<lambda>c. Inr (DataChunk c)))
      else if ty = 1 then map_option (\<lambda>r. rbind r (\<lambda>c. Inr (InitChunk c))) (parse_init fl body)
      else if ty = 2 then map_option (\<lambda>r. rbind r (\<lambda>c. Inr (InitAckChunk c))) (parse_init fl body)
      else if ty = 3 then Some (rbind (parse_sack fl body) (\<lambda>c. Inr (SackChunk c)))
      else if ty = 4 then with_params (HeartbeatChunk fl) body
      else if ty = 5 then with_params (HeartbeatAckChunk fl) body
      else if ty = 6 then with_params (AbortChunk fl) body
      else if ty = 7 then Some (rbind (readUInt32BE body 0) (\<lambda>cum. Inr (ShutdownChunk fl cum)))
      else if ty = 8 then Some (Inr (ShutdownAckChunk fl body))
      else if ty = 9 then with_params (ErrorChunk fl) body
      else if ty = 10 then Some (Inr (CookieEchoChunk fl body))
      else if ty = 11 then Some (Inr (CookieAckChunk fl body))
      else if ty = 14 then Some (Inr (ShutdownCompleteChunk fl body))
      else if ty = 130 then with_params (ReconfigChunk fl) body
      else if ty = 192 then Some (rbind (parse_forward_tsn fl body) (\<lambda>c. Inr (ForwardTsnChunk c)))
      else Some (Inl (Error ''unknown'')))"

partial_function (option) parse_chunks_loop :: "buffer \<Rightarrow> nat \<Rightarrow> chunk list \<Rightarrow> chunk list result option" where
  "parse_chunks_loop data pos chunks =
     (if pos + 4 \<le> length data then
        (case readUInt8 data pos of Inl e \<Rightarrow> Some (Inl e) | Inr chunkType \<Rightarrow>
        (case readUInt8 data (pos + 1) of Inl e \<Rightarrow> Some (Inl e) | Inr chunkFlags \<Rightarrow>
        (case readUInt16BE data (pos + 2) of Inl e \<Rightarrow> Some (Inl e) | Inr chunkLength \<Rightarrow>
        (case parse_chunk chunkType chunkFlags (buf_slice data (pos + 4) (pos + nat chunkLength)) of
           None \<Rightarrow> None
         | Some (Inl e) \<Rightarrow> Some (Inl e)
         | Some (Inr c) \<Rightarrow>
             parse_chunks_loop data (pos + (nat chunkLength + padL (nat chunkLength))) (chunks @ [c])))))
      else Some (Inr chunks))"

definition parsePacket :: "buffer \<Rightarrow> (int \<times> int \<times> int \<times> chunk list) result option" where
  "parsePacket data =
     (if length data < SCTP_COMMON_HEADER_SIZE
      then Some (Inl (Error ''SCTP packet length is less than 12 bytes''))
      else case
        rbind (readUInt16BE data 0) (\<lambda>sourcePort.
        rbind (readUInt16BE data 2) (\<lambda>destinationPort.
        rbind (readUInt32BE data 4) (\<lambda>verificationTag.
        rbind (readUInt32LE data 8) (\<lambda>checkSum.
        let expect = uint (crc32c (buf_slice data 0 8 @ [0, 0, 0, 0] @ drop SCTP_COMMON_HEADER_SIZE data) 0)
        in if checkSum \<noteq> expect then Inl (Error ''SCTP packet has invalid checksum'')
           else Inr (sourcePort, destinationPort, verificationTag))))) of
        Inl e \<Rightarrow> Some (Inl e)
      | Inr (sourcePort, destinationPort, verificationTag) \<Rightarrow>
          map_option (\<lambda>r. rbind r (\<lambda>chunks. Inr (sourcePort, destinationPort, verificationTag, chunks)))
            (parse_chunks_loop data SCTP_COMMON_HEADER_SIZE []))"

end
