(* ===== verification/Number.thy ===== *)
theory Number
  imports Prelude
begin

text \<open>
  Fixed-width arithmetic and serial-number comparison
  (\<^verbatim>\<open>packages/common/src/number.ts\<close>).  The comparisons of the program (TSN, SSN and RTP
  sequence numbers) are proved to be serial-number arithmetic: they order any window of
  numbers shorter than half the number space exactly as the distances from the window's
  base do.  The laws are stated once in the locale \<open>serial_number\<close> and interpreted at 16
  and at 32 bits.
\<close>

section \<open>Definitions\<close>

definition uint8Add :: "int \<Rightarrow> int \<Rightarrow> int" where
  "uint8Add a b = (a + b) AND 0xff"

definition uint16Add :: "int \<Rightarrow> int \<Rightarrow> int" where
  "uint16Add a b = (a + b) AND 0xffff"

definition uint32Add :: "int \<Rightarrow> int \<Rightarrow> int" where
  "uint32Add a b = (a + b) AND 0xffffffff"

definition uint24 :: "int \<Rightarrow> int" where
  "uint24 v = v AND 0xffffff"

definition uint16Gt :: "int \<Rightarrow> int \<Rightarrow> bool" where
  "uint16Gt a b = (let halfMod = 0x8000 in
     (a < b \<and> b - a > halfMod) \<or> (a > b \<and> a - b < halfMod))"

definition uint16Gte :: "int \<Rightarrow> int \<Rightarrow> bool" where
  "uint16Gte a b = (a = b \<or> uint16Gt a b)"

definition uint32Gt :: "int \<Rightarrow> int \<Rightarrow> bool" where
  "uint32Gt a b = (let halfMod = 0x80000000 in
     (a < b \<and> b - a > halfMod) \<or> (a > b \<and> a - b < halfMod))"

definition uint32Gte :: "int \<Rightarrow> int \<Rightarrow> bool" where
  "uint32Gte a b = (a = b \<or> uint32Gt a b)"

section \<open>The additions are addition modulo the width\<close>

lemma uint8Add_mod: "uint8Add a b = (a + b) mod 2 ^ 8"
  using take_bit_eq_mask [of 8 "a + b"] by (simp add: uint8Add_def take_bit_eq_mod mask_eq_exp_minus_1)

lemma uint16Add_mod: "uint16Add a b = (a + b) mod 2 ^ 16"
  using take_bit_eq_mask [of 16 "a + b"] by (simp add: uint16Add_def take_bit_eq_mod mask_eq_exp_minus_1)

lemma uint32Add_mod: "uint32Add a b = (a + b) mod 2 ^ 32"
  using take_bit_eq_mask [of 32 "a + b"] by (simp add: uint32Add_def take_bit_eq_mod mask_eq_exp_minus_1)

lemma uint24_mod: "uint24 v = v mod 2 ^ 24"
  using take_bit_eq_mask [of 24 v] by (simp add: uint24_def take_bit_eq_mod mask_eq_exp_minus_1)

section \<open>Serial-number comparison\<close>

lemma mod_diff_cases:
  fixes a b m :: int
  assumes "0 \<le> a" "a < m" "0 \<le> b" "b < m"
  shows "(a - b) mod m = (if b \<le> a then a - b else a - b + m)"
proof (cases "b \<le> a")
  case True
  with assms show ?thesis by simp
next
  case False
  have "(a - b) mod m = (a - b + m) mod m" by simp
  also have "\<dots> = a - b + m"
    using assms False by (intro mod_pos_pos_trivial) linarith+
  finally show ?thesis using False by simp
qed

text \<open>
  \<open>gt\<close> compares two numbers of a space of \<open>2 * half\<close> numbers; what the clients rely on
  is that it holds exactly when the forward distance is positive and below \<open>half\<close>.
\<close>

locale serial_number =
  fixes gt :: "int \<Rightarrow> int \<Rightarrow> bool" and half :: int
  assumes half_pos: "0 < half"
    and gt_distance: "0 \<le> a \<Longrightarrow> a < 2 * half \<Longrightarrow> 0 \<le> b \<Longrightarrow> b < 2 * half \<Longrightarrow>
      gt a b \<longleftrightarrow> 0 < (a - b) mod (2 * half) \<and> (a - b) mod (2 * half) < half"
begin

lemma gt_offset:
  assumes "d - e < half" and "e - d < half"
  shows "gt ((b + d) mod (2 * half)) ((b + e) mod (2 * half)) \<longleftrightarrow> e < d"
proof -
  have "((b + d) mod (2 * half) - (b + e) mod (2 * half)) mod (2 * half) = (d - e) mod (2 * half)"
    by (simp add: mod_diff_eq)
  moreover have "0 < (d - e) mod (2 * half) \<and> (d - e) mod (2 * half) < half \<longleftrightarrow> e < d"
  proof (cases "e < d")
    case True
    with assms half_pos show ?thesis by (simp add: mod_pos_pos_trivial)
  next
    case False
    show ?thesis
    proof (cases "e = d")
      case True
      then show ?thesis by simp
    next
      case neq: False
      have "(d - e) mod (2 * half) = (d - e + 2 * half) mod (2 * half)" by simp
      also have "\<dots> = d - e + 2 * half"
        using False neq assms half_pos by (intro mod_pos_pos_trivial) linarith+
      finally show ?thesis using False neq assms by simp
    qed
  qed
  ultimately show ?thesis
    using half_pos by (subst gt_distance) auto
qed

lemma gt_irrefl: "0 \<le> a \<Longrightarrow> a < 2 * half \<Longrightarrow> \<not> gt a a"
  by (simp add: gt_distance)

lemma gt_succ: "1 < half \<Longrightarrow> 0 \<le> a \<Longrightarrow> a < 2 * half \<Longrightarrow> gt ((a + 1) mod (2 * half)) a"
  using gt_offset [of 1 0 a] by simp

lemma gt_asym:
  assumes "0 \<le> a" "a < 2 * half" "0 \<le> b" "b < 2 * half" and "gt a b"
  shows "\<not> gt b a"
proof
  assume "gt b a"
  with assms have 1: "0 < (a - b) mod (2 * half)" "(a - b) mod (2 * half) < half"
      "0 < (b - a) mod (2 * half)" "(b - a) mod (2 * half) < half"
    by (auto simp: gt_distance)
  have "((a - b) mod (2 * half) + (b - a) mod (2 * half)) mod (2 * half) = 0"
    by (simp add: mod_add_eq)
  moreover have "((a - b) mod (2 * half) + (b - a) mod (2 * half)) mod (2 * half)
      = (a - b) mod (2 * half) + (b - a) mod (2 * half)"
    using 1 by (intro mod_pos_pos_trivial) linarith+
  ultimately show False using 1 by linarith
qed

lemma gt_connex:
  assumes "0 \<le> a" "a < 2 * half" "0 \<le> b" "b < 2 * half"
    and "a \<noteq> b" and "(a - b) mod (2 * half) \<noteq> half"
  shows "gt a b \<or> gt b a"
  using assms mod_diff_cases [of a "2 * half" b] mod_diff_cases [of b "2 * half" a]
  by (auto simp: gt_distance split: if_splits)

end

lemma serial_compare:
  fixes half :: int
  assumes "0 < half" "0 \<le> a" "a < 2 * half" "0 \<le> b" "b < 2 * half"
  shows "(a < b \<and> b - a > half) \<or> (a > b \<and> a - b < half) \<longleftrightarrow>
    0 < (a - b) mod (2 * half) \<and> (a - b) mod (2 * half) < half"
  using assms mod_diff_cases [of a "2 * half" b] by auto

interpretation u16: serial_number uint16Gt "0x8000"
  by unfold_locales (use serial_compare [of "0x8000"] in \<open>auto simp: uint16Gt_def Let_def\<close>)

interpretation u32: serial_number uint32Gt "0x80000000"
  by unfold_locales (use serial_compare [of "0x80000000"] in \<open>auto simp: uint32Gt_def Let_def\<close>)

end
