(* ===== verification/Sctp_Inbound.thy ===== *)
theory Sctp_Inbound
  imports Sctp_Chunk Number
begin

unbundle bit_operations_syntax

text \<open>
  Reassembly of inbound messages: the class \<^verbatim>\<open>InboundStream\<close> and the TSN helpers of
  \<^verbatim>\<open>packages/sctp/src/sctp.ts\<close>.  Proved: insertion keeps the queue sorted and refuses
  exactly the duplicates; no byte is lost or invented by delivery and pruning; a run of
  messages fragmented by a sender is delivered whole, in order; and the case in which the
  delivery loop leaves a complete message in the queue.
\<close>

section \<open>Definitions\<close>

definition SCTP_DATA_LAST_FRAG :: int where "SCTP_DATA_LAST_FRAG = 0x01"
definition SCTP_DATA_FIRST_FRAG :: int where "SCTP_DATA_FIRST_FRAG = 0x02"
definition SCTP_DATA_UNORDERED :: int where "SCTP_DATA_UNORDERED = 0x04"
definition SCTP_TSN_MODULO :: int where "SCTP_TSN_MODULO = 2 ^ 32"

definition tsnMinusOne :: "int \<Rightarrow> int" where
  "tsnMinusOne a = js_rem (a - 1) SCTP_TSN_MODULO"

definition tsnPlusOne :: "int \<Rightarrow> int" where
  "tsnPlusOne a = js_rem (a + 1) SCTP_TSN_MODULO"

record inbound_stream =
  reassembly :: "data_chunk list"
  streamSequenceNumber :: int

definition new_InboundStream :: inbound_stream where
  "new_InboundStream = \<lparr>reassembly = [], streamSequenceNumber = 0\<rparr>"

text \<open>The \<^verbatim>\<open>for\<close> loop of \<^verbatim>\<open>addChunk\<close>: it splices the chunk in before the first greater TSN.
  When there is none the chunk is dropped silently.\<close>

fun insert_chunk :: "data_chunk \<Rightarrow> data_chunk list \<Rightarrow> data_chunk list result" where
  "insert_chunk c [] = Inr []"
| "insert_chunk c (v # vs) =
     (if tsn v = tsn c then Inl (Error ''duplicate chunk in reassembly'')
      else if uint32Gt (tsn v) (tsn c) then Inr (c # v # vs)
      else rbind (insert_chunk c vs) (\<lambda>r. Inr (v # r)))"

definition addChunk :: "data_chunk \<Rightarrow> inbound_stream \<Rightarrow> inbound_stream result" where
  "addChunk c s =
     (if reassembly s = [] \<or> uint32Gt (tsn c) (tsn (last (reassembly s)))
      then Inr (s\<lparr>reassembly := reassembly s @ [c]\<rparr>)
      else rbind (insert_chunk c (reassembly s)) (\<lambda>r. Inr (s\<lparr>reassembly := r\<rparr>)))"

type_synonym message = "int \<times> int \<times> buffer"

text \<open>
  The loop of \<^verbatim>\<open>popMessages\<close>.  The array is kept split at the loop variables: with
  \<^verbatim>\<open>startPos\<close> undefined (\<open>None\<close>) it is \<open>pre @ rest\<close> with \<^verbatim>\<open>pos = pre.length\<close>; otherwise it
  is \<open>pre @ cur @ rest\<close> with \<^verbatim>\<open>startPos = pre.length\<close> and \<^verbatim>\<open>pos = startPos + cur.length\<close>, and
  \<open>Some (cur, expectedTsn, ordered)\<close>.  The result is the list of yielded messages and the
  final stream.
\<close>

fun pop_loop :: "int \<Rightarrow> data_chunk list \<Rightarrow> (data_chunk list \<times> int \<times> bool) option \<Rightarrow> data_chunk list
    \<Rightarrow> message list \<times> inbound_stream" where
  "pop_loop ssn pre st [] =
     ([], \<lparr>reassembly = pre @ (case st of None \<Rightarrow> [] | Some (cur, _, _) \<Rightarrow> cur), streamSequenceNumber = ssn\<rparr>)"
| "pop_loop ssn pre st (chunk # rest) =
     (let ordered = (case st of None \<Rightarrow> flags chunk AND SCTP_DATA_UNORDERED = 0 | Some (_, _, ord) \<Rightarrow> ord);
          cur = (case st of None \<Rightarrow> [] | Some (cur, _, _) \<Rightarrow> cur);
          expectedTsn = (case st of None \<Rightarrow> tsn chunk | Some (_, e, _) \<Rightarrow> e);
          break = ([], \<lparr>reassembly = pre @ cur @ chunk # rest, streamSequenceNumber = ssn\<rparr>)
      in if st = None \<and> flags chunk AND SCTP_DATA_FIRST_FRAG = 0
         then (if ordered then break else pop_loop ssn (pre @ [chunk]) None rest)
         else if st = None \<and> ordered \<and> uint16Gt (streamSeqNum chunk) ssn then break
         else if st \<noteq> None \<and> tsn chunk \<noteq> expectedTsn
         then (if ordered then break else pop_loop ssn (pre @ cur @ [chunk]) None rest)
         else if flags chunk AND SCTP_DATA_LAST_FRAG \<noteq> 0
         then (let data = concat (map userData (cur @ [chunk]));
                   ssn' = (if ordered \<and> streamSeqNum chunk = ssn then uint16Add ssn 1 else ssn);
                   (ms, s) = pop_loop ssn' pre (Some ([], tsnPlusOne expectedTsn, ordered)) rest
               in ((streamId chunk, protocol chunk, data) # ms, s))
         else pop_loop ssn pre (Some (cur @ [chunk], tsnPlusOne expectedTsn, ordered)) rest)"

definition popMessages :: "inbound_stream \<Rightarrow> message list \<times> inbound_stream" where
  "popMessages s = pop_loop (streamSequenceNumber s) [] None (reassembly s)"

text \<open>The loop of \<^verbatim>\<open>pruneChunks\<close>: the size of the prefix it consumes and what is left.\<close>

fun prune_loop :: "int \<Rightarrow> data_chunk list \<Rightarrow> nat \<times> data_chunk list" where
  "prune_loop t [] = (0, [])"
| "prune_loop t (c # cs) =
     (if uint32Gte t (tsn c) then (let (size, rest) = prune_loop t cs in (length (userData c) + size, rest))
      else (0, c # cs))"

definition pruneChunks :: "int \<Rightarrow> inbound_stream \<Rightarrow> nat \<times> inbound_stream" where
  "pruneChunks t s = (let (size, rest) = prune_loop t (reassembly s) in (size, s\<lparr>reassembly := rest\<rparr>))"

section \<open>Conservation of bytes\<close>

definition chunk_sum :: "data_chunk list \<Rightarrow> nat" where
  "chunk_sum cs = sum_list (map (\<lambda>c. length (userData c)) cs)"

definition buffered :: "inbound_stream \<Rightarrow> nat" where
  "buffered s = chunk_sum (reassembly s)"

definition delivered :: "message list \<Rightarrow> nat" where
  "delivered ms = sum_list (map (\<lambda>(_, _, d). length d) ms)"

lemma chunk_sum_simps [simp]:
  "chunk_sum [] = 0" "chunk_sum (c # cs) = length (userData c) + chunk_sum cs"
  "chunk_sum (xs @ ys) = chunk_sum xs + chunk_sum ys"
  by (simp_all add: chunk_sum_def)

lemma delivered_simps [simp]:
  "delivered [] = 0" "delivered ((a, b, d) # ms) = length d + delivered ms"
  by (simp_all add: delivered_def)

lemma length_concat_userData: "length (concat (map userData cs)) = chunk_sum cs"
  by (induction cs) auto

definition st_chunks :: "(data_chunk list \<times> int \<times> bool) option \<Rightarrow> data_chunk list" where
  "st_chunks st = (case st of None \<Rightarrow> [] | Some (cur, _, _) \<Rightarrow> cur)"

lemma st_chunks_simps [simp]: "st_chunks None = []" "st_chunks (Some (cur, e, ord)) = cur"
  by (simp_all add: st_chunks_def)

lemma pop_loop_bytes:
  "pop_loop ssn pre st rest = (ms, s) \<Longrightarrow>
   delivered ms + buffered s = chunk_sum pre + chunk_sum (st_chunks st) + chunk_sum rest"
proof (induction rest arbitrary: ssn pre st ms s)
  case Nil
  then show ?case by (auto simp: buffered_def split: option.splits)
next
  case (Cons chunk rest)
  from Cons.prems show ?case
    unfolding pop_loop.simps Let_def
    by (auto simp: buffered_def [of "\<lparr>reassembly = _, streamSequenceNumber = _\<rparr>"] length_concat_userData
        split: if_splits prod.splits option.splits dest!: Cons.IH)
qed

lemma popMessages_bytes: "popMessages s = (ms, s') \<Longrightarrow> delivered ms + buffered s' = buffered s"
  using pop_loop_bytes unfolding popMessages_def by (fastforce simp: buffered_def)

lemma prune_loop_bytes: "prune_loop t cs = (n, rest) \<Longrightarrow> n + chunk_sum rest = chunk_sum cs"
  by (induction cs arbitrary: n) (auto split: if_splits prod.splits)

lemma pruneChunks_bytes: "pruneChunks t s = (n, s') \<Longrightarrow> n + buffered s' = buffered s"
  by (auto simp: pruneChunks_def buffered_def dest: prune_loop_bytes split: prod.splits)

lemma insert_chunk_bytes:
  "insert_chunk c cs = Inr r \<Longrightarrow> chunk_sum r \<le> chunk_sum cs + length (userData c)"
  by (induction cs arbitrary: r) (auto split: if_splits)

lemma addChunk_bytes: "addChunk c s = Inr s' \<Longrightarrow> buffered s' \<le> buffered s + length (userData c)"
  by (auto simp: addChunk_def buffered_def dest: insert_chunk_bytes split: if_splits)

section \<open>Ordered insertion\<close>

text \<open>
  The window of the reassembly queue: TSNs at a serial distance below \<open>2 ^ 31\<close> from a
  base (the cumulative TSN of the receiver), strictly increasing in that distance.
\<close>

definition tsn_dist :: "int \<Rightarrow> int \<Rightarrow> int" where
  "tsn_dist base t = (t - base) mod 2 ^ 32"

definition in_window :: "int \<Rightarrow> int \<Rightarrow> bool" where
  "in_window base t \<longleftrightarrow> u32_ok t \<and> tsn_dist base t < 2 ^ 31"

definition tsn_sorted :: "int \<Rightarrow> data_chunk list \<Rightarrow> bool" where
  "tsn_sorted base cs \<longleftrightarrow> list_all (\<lambda>c. in_window base (tsn c)) cs \<and>
     sorted_wrt (\<lambda>a b. tsn_dist base (tsn a) < tsn_dist base (tsn b)) cs"

lemma tsn_dist_bounds: "0 \<le> tsn_dist base t" "tsn_dist base t < 2 ^ 32"
  by (simp_all add: tsn_dist_def)

lemma tsn_of_dist: "u32_ok t \<Longrightarrow> t = (base + tsn_dist base t) mod 2 ^ 32"
  by (simp add: tsn_dist_def u32_ok_def mod_add_right_eq)

lemma uint32Gt_window:
  assumes "in_window base a" and "in_window base b"
  shows "uint32Gt a b \<longleftrightarrow> tsn_dist base b < tsn_dist base a"
proof -
  have "tsn_dist base a - tsn_dist base b < 2 ^ 31" "tsn_dist base b - tsn_dist base a < 2 ^ 31"
    using assms tsn_dist_bounds(1) [of base a] tsn_dist_bounds(1) [of base b]
    by (auto simp: in_window_def)
  then have "uint32Gt ((base + tsn_dist base a) mod 2 ^ 32) ((base + tsn_dist base b) mod 2 ^ 32)
      \<longleftrightarrow> tsn_dist base b < tsn_dist base a"
    using u32.gt_offset [of "tsn_dist base a" "tsn_dist base b" base] by simp
  with assms show ?thesis
    using tsn_of_dist [of a base] tsn_of_dist [of b base] by (simp add: in_window_def)
qed

lemma tsn_dist_inj: "u32_ok a \<Longrightarrow> u32_ok b \<Longrightarrow> tsn_dist base a = tsn_dist base b \<Longrightarrow> a = b"
  using tsn_of_dist by metis

lemma insert_chunk_sorted:
  assumes "tsn_sorted base cs" and "in_window base (tsn c)"
    and "cs \<noteq> []" and "\<not> uint32Gt (tsn c) (tsn (last cs))"
  shows "if tsn c \<in> tsn ` set cs then insert_chunk c cs = Inl (Error ''duplicate chunk in reassembly'')
    else \<exists>r. insert_chunk c cs = Inr r \<and> tsn_sorted base r \<and> set r = insert c (set cs)"
  using assms
proof (induction cs)
  case Nil
  then show ?case by simp
next
  case (Cons v vs)
  from Cons.prems have v: "in_window base (tsn v)" and vs: "tsn_sorted base vs"
    and less: "\<And>x. x \<in> set vs \<Longrightarrow> tsn_dist base (tsn v) < tsn_dist base (tsn x)"
    by (auto simp: tsn_sorted_def)
  have gt: "uint32Gt (tsn v) (tsn c) \<longleftrightarrow> tsn_dist base (tsn c) < tsn_dist base (tsn v)"
    by (rule uint32Gt_window [OF v Cons.prems(2)])
  consider "tsn v = tsn c" | "tsn v \<noteq> tsn c" "uint32Gt (tsn v) (tsn c)"
    | "tsn v \<noteq> tsn c" "\<not> uint32Gt (tsn v) (tsn c)" by blast
  then show ?case
  proof cases
    case 1
    then show ?thesis by simp
  next
    case 2
    then have "tsn c \<notin> tsn ` set (v # vs)"
      using gt less by (fastforce simp: image_iff)
    moreover have "tsn_sorted base (c # v # vs)"
      using 2 gt less Cons.prems by (fastforce simp: tsn_sorted_def)
    ultimately show ?thesis using 2 by simp
  next
    case 3
    have "tsn_dist base (tsn v) < tsn_dist base (tsn c)"
      using 3 gt tsn_dist_inj [of "tsn v" "tsn c" base] v Cons.prems(2)
      by (auto simp: in_window_def not_less le_less)
    moreover have "vs \<noteq> []"
      using 3 Cons.prems uint32Gt_window [OF Cons.prems(2) v] calculation by auto
    ultimately show ?thesis
      using 3 Cons.IH [OF vs Cons.prems(2)] Cons.prems(4) less v
      by (auto simp: tsn_sorted_def)
  qed
qed

lemma tsn_sorted_snoc:
  assumes "tsn_sorted base cs" "in_window base (tsn c)"
    and "cs = [] \<or> uint32Gt (tsn c) (tsn (last cs))"
  shows "tsn_sorted base (cs @ [c])" "tsn c \<notin> tsn ` set cs"
proof -
  have less: "tsn_dist base (tsn x) < tsn_dist base (tsn c)" if x: "x \<in> set cs" for x
  proof -
    have cs: "cs = butlast cs @ [last cs]" using x by (metis append_butlast_last_id empty_iff empty_set)
    have lw: "in_window base (tsn (last cs))"
      using assms(1) x by (metis list_all_iff last_in_set tsn_sorted_def empty_iff empty_set)
    have "uint32Gt (tsn c) (tsn (last cs))" using assms(3) x by auto
    then have "tsn_dist base (tsn (last cs)) < tsn_dist base (tsn c)"
      using uint32Gt_window [OF assms(2) lw] by simp
    moreover have "sorted_wrt (\<lambda>a b. tsn_dist base (tsn a) < tsn_dist base (tsn b)) (butlast cs @ [last cs])"
      using assms(1) cs by (simp add: tsn_sorted_def)
    then have "x = last cs \<or> tsn_dist base (tsn x) < tsn_dist base (tsn (last cs))"
      using x cs by (metis UnE empty_iff insert_iff list.set(1,2) set_append sorted_wrt_append)
    ultimately show ?thesis by auto
  qed
  then show "tsn c \<notin> tsn ` set cs" by fastforce
  show "tsn_sorted base (cs @ [c])"
    using assms less by (auto simp: tsn_sorted_def sorted_wrt_append)
qed

text \<open>\<^verbatim>\<open>addChunk\<close> on a window: exactly the duplicates are refused, every other chunk is put at
  its place.\<close>

lemma addChunk_window:
  assumes "tsn_sorted base (reassembly s)" and "in_window base (tsn c)"
  shows "if tsn c \<in> tsn ` set (reassembly s)
    then addChunk c s = Inl (Error ''duplicate chunk in reassembly'')
    else \<exists>r. addChunk c s = Inr (s\<lparr>reassembly := r\<rparr>) \<and> tsn_sorted base r \<and> set r = insert c (set (reassembly s))"
proof (cases "reassembly s = [] \<or> uint32Gt (tsn c) (tsn (last (reassembly s)))")
  case True
  with tsn_sorted_snoc [OF assms this] show ?thesis
    by (auto simp: addChunk_def intro!: exI [of _ "reassembly s @ [c]"])
next
  case False
  with insert_chunk_sorted [OF assms, of] show ?thesis
    by (auto simp: addChunk_def split: if_splits)
qed

lemma tsn_sorted_unique:
  assumes "tsn_sorted base xs" "tsn_sorted base ys" "set xs = set ys"
  shows "xs = ys"
proof -
  let ?f = "\<lambda>c. tsn_dist base (tsn c)"
  have inj: "inj_on ?f (set zs)" if z: "tsn_sorted base zs" for zs
  proof -
    have "sorted_wrt (<) (map ?f zs)" using z by (simp add: tsn_sorted_def sorted_wrt_map)
    then have "distinct (map ?f zs)" by (simp add: strict_sorted_iff)
    then show ?thesis by (simp add: distinct_map)
  qed
  have "sorted_wrt (<) (map ?f xs)" "sorted_wrt (<) (map ?f ys)" "set (map ?f ys) = set (map ?f xs)"
    using assms by (simp_all add: tsn_sorted_def sorted_wrt_map)
  then have "map ?f xs = map ?f ys" by (metis strict_sorted_equal)
  then show ?thesis using inj [OF assms(1)] assms(3) by (metis map_inj_on sup.idem)
qed

section \<open>Delivery of messages\<close>

text \<open>\<open>frag_tail e cs\<close>: the remaining fragments of a message, with consecutive TSNs from \<open>e\<close>
  on, only the last one flagged as last.\<close>

fun frag_tail :: "int \<Rightarrow> data_chunk list \<Rightarrow> bool" where
  "frag_tail e [] = False"
| "frag_tail e [c] = (tsn c = e \<and> flags c AND SCTP_DATA_LAST_FRAG \<noteq> 0)"
| "frag_tail e (c # cs) = (tsn c = e \<and> flags c AND SCTP_DATA_LAST_FRAG = 0 \<and> frag_tail (tsnPlusOne e) cs)"

text \<open>An ordered message: its first fragment carries the first-fragment flag, the ordered
  flag and its sequence number.\<close>

definition message_run :: "int \<Rightarrow> data_chunk list \<Rightarrow> bool" where
  "message_run ssn cs \<longleftrightarrow> cs \<noteq> [] \<and> flags (hd cs) AND SCTP_DATA_FIRST_FRAG \<noteq> 0 \<and>
     list_all (\<lambda>c. flags c AND SCTP_DATA_FIRST_FRAG = 0) (tl cs) \<and>
     list_all (\<lambda>c. flags c AND SCTP_DATA_UNORDERED = 0 \<and> streamSeqNum c = ssn) cs \<and>
     frag_tail (tsn (hd cs)) cs"

definition message_of :: "data_chunk list \<Rightarrow> message" where
  "message_of cs = (streamId (last cs), protocol (last cs), concat (map userData cs))"

lemma frag_tail_nonempty [simp]: "frag_tail e cs \<Longrightarrow> cs \<noteq> []"
  by (cases cs) auto

lemma pop_loop_message:
  assumes "frag_tail e cs"
  shows "pop_loop ssn pre (Some (cur, e, True)) (cs @ rest) =
    (let ssn' = (if streamSeqNum (last cs) = ssn then uint16Add ssn 1 else ssn);
         (ms, s) = pop_loop ssn' pre (Some ([], (tsnPlusOne ^^ length cs) e, True)) rest
     in (message_of (cur @ cs) # ms, s))"
  using assms
proof (induction e cs arbitrary: cur rule: frag_tail.induct)
  case (1 e)
  then show ?case by simp
next
  case (2 e c)
  then show ?case by (simp add: message_of_def Let_def)
next
  case (3 e c c' cs)
  then have "pop_loop ssn pre (Some (cur, e, True)) ((c # c' # cs) @ rest) =
      pop_loop ssn pre (Some (cur @ [c], tsnPlusOne e, True)) ((c' # cs) @ rest)"
    by simp
  with 3 show ?case
    by (simp add: message_of_def funpow_swap1 Let_def del: pop_loop.simps)
qed

text \<open>Entering the loop at the first fragment of the next expected message is the same as
  being in the middle of a message with nothing collected.\<close>

lemma pop_loop_enter:
  assumes "message_run ssn cs" and "0 \<le> ssn" "ssn < 2 ^ 16"
  shows "pop_loop ssn pre None (cs @ rest) = pop_loop ssn pre (Some ([], tsn (hd cs), True)) (cs @ rest)"
proof -
  have "\<not> uint16Gt ssn ssn" using u16.gt_irrefl [of ssn] assms(2,3) by simp
  with assms(1) show ?thesis
    by (cases cs) (auto simp: message_run_def Let_def)
qed

lemma popMessages_one:
  assumes "message_run (streamSequenceNumber s) cs" and "reassembly s = cs"
    and "0 \<le> streamSequenceNumber s" "streamSequenceNumber s < 2 ^ 16"
  shows "popMessages s =
    ([message_of cs], s\<lparr>reassembly := [], streamSequenceNumber := uint16Add (streamSequenceNumber s) 1\<rparr>)"
proof -
  have ft: "frag_tail (tsn (hd cs)) cs" and l: "streamSeqNum (last cs) = streamSequenceNumber s"
    using assms(1) by (auto simp: message_run_def list_all_iff)
  have "popMessages s = pop_loop (streamSequenceNumber s) [] (Some ([], tsn (hd cs), True)) (cs @ [])"
    using pop_loop_enter [OF assms(1,3,4), of "[]" "[]"] by (simp add: popMessages_def assms(2))
  also have "\<dots> = ([message_of cs],
      \<lparr>reassembly = [], streamSequenceNumber = uint16Add (streamSequenceNumber s) 1\<rparr>)"
    unfolding pop_loop_message [OF ft] by (simp add: l)
  finally show ?thesis by simp
qed

text \<open>An incomplete message stays in the queue: \<open>xs\<close> is a proper part of the fragments.\<close>

lemma frag_tail_tsns:
  "frag_tail e cs \<Longrightarrow> c \<in> set cs \<Longrightarrow> \<exists>i < length cs. tsn c = (tsnPlusOne ^^ i) e"
proof (induction e cs rule: frag_tail.induct)
  case (3 e d d' cs)
  show ?case
  proof (cases "c = d")
    case True
    with 3 show ?thesis by (intro exI [of _ 0]) auto
  next
    case False
    with 3 obtain i where "i < length (d' # cs)" "tsn c = (tsnPlusOne ^^ i) (tsnPlusOne e)" by auto
    then show ?thesis by (intro exI [of _ "Suc i"]) (auto simp: funpow_swap1)
  qed
qed auto

lemma tsnPlusOne_pow: "u32_ok e \<Longrightarrow> (tsnPlusOne ^^ i) e = (e + int i) mod 2 ^ 32"
  by (induction i) (auto simp: tsnPlusOne_def SCTP_TSN_MODULO_def u32_ok_def mod_simps algebra_simps)

lemma tsn_dist_pow: "u32_ok e \<Longrightarrow> int i < 2 ^ 32 \<Longrightarrow> tsn_dist e ((tsnPlusOne ^^ i) e) = int i"
  by (simp add: tsnPlusOne_pow tsn_dist_def mod_simps)

lemma pop_loop_incomplete:
  assumes "frag_tail e cs" and "filter P cs \<noteq> cs" and "int (length cs) < 2 ^ 31" and "u32_ok e"
  shows "pop_loop ssn pre (Some (cur, e, True)) (filter P cs) =
    ([], \<lparr>reassembly = pre @ cur @ filter P cs, streamSequenceNumber = ssn\<rparr>)"
  using assms
proof (induction e cs arbitrary: cur rule: frag_tail.induct)
  case (1 e)
  then show ?case by simp
next
  case (2 e c)
  then show ?case by (auto split: if_splits)
next
  case (3 e c c' cs)
  have e': "u32_ok (tsnPlusOne e)"
    using 3 by (simp add: tsnPlusOne_def SCTP_TSN_MODULO_def u32_ok_def)
  show ?case
  proof (cases "P c")
    case True
    have "filter P (c' # cs) \<noteq> c' # cs" using "3.prems"(2) True by auto
    then have "pop_loop ssn pre (Some (cur @ [c], tsnPlusOne e, True)) (filter P (c' # cs)) =
        ([], \<lparr>reassembly = pre @ (cur @ [c]) @ filter P (c' # cs), streamSequenceNumber = ssn\<rparr>)"
      using 3 e' by (intro "3.IH") auto
    moreover have "filter P (c # c' # cs) = c # filter P (c' # cs)" using True by simp
    moreover have "tsn c = e" "flags c AND SCTP_DATA_LAST_FRAG = 0" using "3.prems"(1) by simp_all
    ultimately show ?thesis by (simp del: filter.simps)
  next
    case False
    show ?thesis
    proof (cases "filter P (c' # cs)")
      case Nil
      with False show ?thesis by simp
    next
      case (Cons d ds)
      then have "d \<in> set (filter P (c' # cs))" by simp
      then have "d \<in> set (c' # cs)" by (auto split: if_splits)
      with 3 obtain i where i: "i < length (c' # cs)" "tsn d = (tsnPlusOne ^^ i) (tsnPlusOne e)"
        by (metis frag_tail.simps(3) frag_tail_tsns)
      have "tsn_dist e (tsn d) = int (Suc i)"
        using i "3.prems" tsn_dist_pow [of e "Suc i"] by (simp add: funpow_swap1)
      then have "tsn d \<noteq> e" by (auto simp: tsn_dist_def)
      with False Cons show ?thesis by simp
    qed
  qed
qed

lemma frag_tail_nth: "frag_tail e cs \<Longrightarrow> i < length cs \<Longrightarrow> tsn (cs ! i) = (tsnPlusOne ^^ i) e"
proof (induction e cs arbitrary: i rule: frag_tail.induct)
  case (3 e d d' cs)
  then show ?case by (cases i) (auto simp: funpow_swap1)
qed auto

lemma u32_ok_pow: "u32_ok e \<Longrightarrow> u32_ok ((tsnPlusOne ^^ i) e)"
  by (simp add: tsnPlusOne_pow) (simp add: u32_ok_def)

lemma message_run_sorted:
  assumes "frag_tail e cs" and "u32_ok e" and "int (length cs) < 2 ^ 31"
  shows "tsn_sorted e cs"
proof -
  have "tsn_dist e (tsn (cs ! i)) = int i" if "i < length cs" for i
    using that assms by (simp add: frag_tail_nth tsn_dist_pow)
  then show ?thesis
    using assms unfolding tsn_sorted_def list_all_length sorted_wrt_iff_nth_less in_window_def
    by (auto simp: frag_tail_nth u32_ok_pow)
qed

lemma tsn_sorted_filter: "tsn_sorted base cs \<Longrightarrow> tsn_sorted base (filter P cs)"
  by (auto simp: tsn_sorted_def list_all_iff sorted_wrt_filter)

lemma tsn_sorted_inj: "tsn_sorted base cs \<Longrightarrow> a \<in> set cs \<Longrightarrow> b \<in> set cs \<Longrightarrow> tsn a = tsn b \<Longrightarrow> a = b"
proof -
  assume "tsn_sorted base cs" and ab: "a \<in> set cs" "b \<in> set cs" "tsn a = tsn b"
  then have s: "sorted_wrt (\<lambda>a b. tsn_dist base (tsn a) < tsn_dist base (tsn b)) cs"
    by (simp add: tsn_sorted_def)
  from ab obtain i j where i: "i < length cs" "cs ! i = a" and j: "j < length cs" "cs ! j = b"
    by (metis in_set_conv_nth)
  have "\<not> i < j" using sorted_wrt_nth_less [OF s, of i j] i j ab(3) by auto
  moreover have "\<not> j < i" using sorted_wrt_nth_less [OF s, of j i] i j ab(3) by auto
  ultimately show "a = b" using i j by (metis linorder_neqE_nat)
qed

lemma popMessages_incomplete:
  assumes run: "message_run (streamSequenceNumber s) cs" and tsn: "u32_ok (tsn (hd cs))"
    and len: "int (length cs) < 2 ^ 31" and ssn: "0 \<le> streamSequenceNumber s" "streamSequenceNumber s < 2 ^ 16"
    and part: "reassembly s = filter P cs" "filter P cs \<noteq> cs"
  shows "popMessages s = ([], s)"
proof (cases "filter P cs")
  case Nil
  with part show ?thesis by (cases s) (simp add: popMessages_def)
next
  case (Cons d ds)
  obtain c rest where cs: "cs = c # rest" using run by (cases cs) (auto simp: message_run_def)
  have ft: "frag_tail (tsn c) cs" using run cs by (simp add: message_run_def)
  show ?thesis
  proof (cases "P c")
    case True
    then have "popMessages s = pop_loop (streamSequenceNumber s) [] (Some ([], tsn c, True)) (filter P cs)"
      using run u16.gt_irrefl [of "streamSequenceNumber s"] ssn cs
      unfolding popMessages_def part(1) by (auto simp: message_run_def Let_def)
    then show ?thesis
      using pop_loop_incomplete [OF ft part(2) len, of "streamSequenceNumber s" "[]" "[]"] tsn cs part(1) by simp
  next
    case False
    with Cons cs have "d \<in> set rest" by (metis filter.simps(2) filter_is_subset list.set_intros(1) subsetD)
    then have "flags d AND SCTP_DATA_FIRST_FRAG = 0" "flags d AND SCTP_DATA_UNORDERED = 0"
      using run cs by (auto simp: message_run_def list_all_iff)
    then have "popMessages s = ([], \<lparr>reassembly = d # ds, streamSequenceNumber = streamSequenceNumber s\<rparr>)"
      by (simp add: popMessages_def part(1) Cons)
    then show ?thesis using part(1) Cons by simp
  qed
qed

text \<open>The receive path over a sequence of chunks of one stream: add, then deliver.\<close>

fun receive_all :: "inbound_stream \<Rightarrow> data_chunk list \<Rightarrow> (message list \<times> inbound_stream) result" where
  "receive_all s [] = Inr ([], s)"
| "receive_all s (c # cs) =
     rbind (addChunk c s) (\<lambda>s1. let (ms, s2) = popMessages s1 in
     rbind (receive_all s2 cs) (\<lambda>(ms', s3). Inr (ms @ ms', s3)))"

lemma receive_all_step:
  assumes run: "message_run (streamSequenceNumber s) cs" and tsn: "u32_ok (tsn (hd cs))"
    and len: "int (length cs) < 2 ^ 31" and ssn: "0 \<le> streamSequenceNumber s" "streamSequenceNumber s < 2 ^ 16"
  shows "reassembly s = filter (\<lambda>c. c \<in> S) cs \<Longrightarrow> S \<inter> set ys = {} \<Longrightarrow> S \<union> set ys = set cs \<Longrightarrow>
    distinct ys \<Longrightarrow> ys \<noteq> [] \<Longrightarrow> receive_all s ys =
    Inr ([message_of cs], s\<lparr>reassembly := [], streamSequenceNumber := uint16Add (streamSequenceNumber s) 1\<rparr>)"
  using run ssn
proof (induction ys arbitrary: s S)
  case Nil
  then show ?case by simp
next
  case (Cons y ys)
  have ft: "frag_tail (tsn (hd cs)) cs" using Cons.prems by (simp add: message_run_def)
  have so: "tsn_sorted (tsn (hd cs)) cs" by (rule message_run_sorted [OF ft tsn len])
  then have so': "tsn_sorted (tsn (hd cs)) (reassembly s)" by (simp add: Cons.prems(1) tsn_sorted_filter)
  have y: "y \<in> set cs" "y \<notin> S" using Cons.prems(2,3) by auto
  then have w: "in_window (tsn (hd cs)) (tsn y)" using so by (auto simp: tsn_sorted_def list_all_iff)
  have new: "tsn y \<notin> tsn ` set (reassembly s)"
    using y tsn_sorted_inj [OF so] by (auto simp: Cons.prems(1) image_iff)
  from addChunk_window [OF so' w] new obtain r where
    add: "addChunk y s = Inr (s\<lparr>reassembly := r\<rparr>)" and r: "tsn_sorted (tsn (hd cs)) r"
      "set r = insert y (set (reassembly s))" by auto
  have "r = filter (\<lambda>c. c \<in> insert y S) cs"
    by (rule tsn_sorted_unique [OF r(1) tsn_sorted_filter [OF so]]) (auto simp: r(2) Cons.prems(1) y)
  let ?s = "s\<lparr>reassembly := r\<rparr>"
  note r' = \<open>r = _\<close>
  show ?case
  proof (cases "ys = []")
    case True
    with Cons.prems have "r = cs" unfolding r' by (intro filter_True) auto
    then have "popMessages ?s = ([message_of cs],
        s\<lparr>reassembly := [], streamSequenceNumber := uint16Add (streamSequenceNumber s) 1\<rparr>)"
      using popMessages_one [of ?s cs] Cons.prems by simp
    with True add show ?thesis by simp
  next
    case False
    have "filter (\<lambda>c. c \<in> insert y S) cs \<noteq> cs"
    proof -
      obtain z where "z \<in> set ys" using False by (cases ys) auto
      then have "z \<in> set cs" "z \<notin> insert y S" using Cons.prems by auto
      then show ?thesis by (metis (mono_tags, lifting) filter_id_conv)
    qed
    then have "popMessages ?s = ([], ?s)"
      using Cons.prems tsn len by (intro popMessages_incomplete [of _ cs "\<lambda>c. c \<in> insert y S"]) (auto simp: r')
    moreover have "receive_all ?s ys = Inr ([message_of cs],
        ?s\<lparr>reassembly := [], streamSequenceNumber := uint16Add (streamSequenceNumber ?s) 1\<rparr>)"
      using Cons.prems False y by (intro Cons.IH [of _ "insert y S"]) (auto simp: r')
    ultimately show ?thesis using add by simp
  qed
qed

section \<open>Claims\<close>

text \<open>C6: the fragments of the next expected ordered message, arriving on its stream in any
  order, are delivered as exactly one message, the concatenation of their user data in TSN
  order; the queue is empty afterwards and the next sequence number is expected.\<close>

theorem message_reassembled:
  assumes "message_run (streamSequenceNumber s) cs" "reassembly s = []"
    "u32_ok (tsn (hd cs))" "int (length cs) < 2 ^ 31" "u16_ok (streamSequenceNumber s)"
    "distinct ys" "set ys = set cs"
  shows "receive_all s ys =
    Inr ([message_of cs], s\<lparr>streamSequenceNumber := uint16Add (streamSequenceNumber s) 1\<rparr>)"
proof -
  have "ys \<noteq> []" using assms(1,7) by (auto simp: message_run_def)
  then have "receive_all s ys = Inr ([message_of cs],
      s\<lparr>reassembly := [], streamSequenceNumber := uint16Add (streamSequenceNumber s) 1\<rparr>)"
    using assms by (intro receive_all_step [where S = "{}"]) (auto simp: u16_ok_def)
  then show ?thesis using assms(2) by simp
qed

definition sample_fragments :: "data_chunk list" where
  "sample_fragments =
     [(new_data_chunk 0 2)\<lparr>tsn := 4294967295, streamId := 1, protocol := 51, userData := [1, 2]\<rparr>,
      (new_data_chunk 0 0)\<lparr>tsn := 0, streamId := 1, protocol := 51, userData := [3]\<rparr>,
      (new_data_chunk 0 1)\<lparr>tsn := 1, streamId := 1, protocol := 51, userData := [4, 5]\<rparr>]"

theorem message_reassembled_witness:
  "receive_all new_InboundStream (rev sample_fragments) =
    Inr ([(1, 51, [1, 2, 3, 4, 5])], new_InboundStream\<lparr>streamSequenceNumber := 1\<rparr>)"
proof -
  have "receive_all new_InboundStream (rev sample_fragments) = Inr ([message_of sample_fragments],
      new_InboundStream\<lparr>streamSequenceNumber := uint16Add (streamSequenceNumber new_InboundStream) 1\<rparr>)"
    by (rule message_reassembled [OF _ _ _ _ _ _ set_rev])
      (simp_all add: sample_fragments_def message_run_def new_InboundStream_def new_data_chunk_def u32_ok_def u16_ok_def
        SCTP_DATA_FIRST_FRAG_def SCTP_DATA_LAST_FRAG_def SCTP_DATA_UNORDERED_def tsnPlusOne_def SCTP_TSN_MODULO_def)
  then show ?thesis
    by (simp add: message_of_def sample_fragments_def new_data_chunk_def new_InboundStream_def uint16Add_def)
qed

text \<open>The delivery loop does not forget the position after a message.  With two complete
  ordered messages in the queue that are next in sequence, whose TSNs are not adjacent (the
  TSNs between them belong to other streams), one pass delivers the first only; the second
  is deliverable, and a further pass delivers it, but no pass runs until another chunk of the
  stream arrives.\<close>

theorem popMessages_stalls:
  assumes "message_run n [c]" "message_run (uint16Add n 1) [d]" "u16_ok n" "tsn d \<noteq> tsnPlusOne (tsn c)"
  shows "popMessages \<lparr>reassembly = [c, d], streamSequenceNumber = n\<rparr> =
      ([message_of [c]], \<lparr>reassembly = [d], streamSequenceNumber = uint16Add n 1\<rparr>) \<and>
    popMessages \<lparr>reassembly = [d], streamSequenceNumber = uint16Add n 1\<rparr> =
      ([message_of [d]], \<lparr>reassembly = [], streamSequenceNumber = uint16Add (uint16Add n 1) 1\<rparr>)"
proof
  have m: "0 \<le> uint16Add n 1 \<and> uint16Add n 1 < 2 ^ 16"
    using assms(3) by (simp add: uint16Add_mod u16_ok_def)
  show "popMessages \<lparr>reassembly = [d], streamSequenceNumber = uint16Add n 1\<rparr> =
      ([message_of [d]], \<lparr>reassembly = [], streamSequenceNumber = uint16Add (uint16Add n 1) 1\<rparr>)"
    using popMessages_one [of "\<lparr>reassembly = [d], streamSequenceNumber = uint16Add n 1\<rparr>" "[d]"] assms m by simp
  have "pop_loop n [] None ([c] @ [d]) = pop_loop n [] (Some ([], tsn (hd [c]), True)) ([c] @ [d])"
    by (rule pop_loop_enter) (use assms in \<open>auto simp: u16_ok_def\<close>)
  also have "\<dots> = ([message_of [c]], \<lparr>reassembly = [d], streamSequenceNumber = uint16Add n 1\<rparr>)"
    using assms by (subst pop_loop_message) (auto simp: message_run_def)
  finally show "popMessages \<lparr>reassembly = [c, d], streamSequenceNumber = n\<rparr> =
      ([message_of [c]], \<lparr>reassembly = [d], streamSequenceNumber = uint16Add n 1\<rparr>)"
    by (simp add: popMessages_def)
qed

theorem popMessages_stalls_witness:
  "popMessages \<lparr>reassembly = [(new_data_chunk 0 3)\<lparr>tsn := 1, userData := [7]\<rparr>,
      (new_data_chunk 0 3)\<lparr>tsn := 3, streamSeqNum := 1, userData := [8]\<rparr>], streamSequenceNumber = 0\<rparr> =
    ([(0, 0, [7])], \<lparr>reassembly = [(new_data_chunk 0 3)\<lparr>tsn := 3, streamSeqNum := 1, userData := [8]\<rparr>], streamSequenceNumber = 1\<rparr>)"
  using popMessages_stalls [of 0 "(new_data_chunk 0 3)\<lparr>tsn := 1, userData := [7]\<rparr>"
      "(new_data_chunk 0 3)\<lparr>tsn := 3, streamSeqNum := 1, userData := [8]\<rparr>"]
  by (simp add: message_run_def new_data_chunk_def u16_ok_def message_of_def uint16Add_def
      SCTP_DATA_FIRST_FRAG_def SCTP_DATA_LAST_FRAG_def SCTP_DATA_UNORDERED_def tsnPlusOne_def SCTP_TSN_MODULO_def)

end
