(* ===== verification/Sctp_State.thy ===== *)
theory Sctp_State
  imports Sctp_Inbound "HOL-Library.AList" "HOL-Library.List_Lexorder"
begin

text \<open>
  The state of an SCTP association (\<^verbatim>\<open>class SCTP\<close> of \<^verbatim>\<open>packages/sctp/src/sctp.ts\<close>), its
  constants, timers and connection states.

  Every method is a function from state to state.  What the object does to its environment
  is appended to the field \<open>out\<close>: packets handed to the transport, events, resolved
  \<^verbatim>\<open>send()\<close> promises.  What it takes from its environment is the record \<open>env\<close>: the clock
  \<^verbatim>\<open>Date.now()\<close>, the HMAC of \<^verbatim>\<open>node:crypto\<close> and whether the transport accepts a
  packet.  A method runs to its end before the next one starts: an \<^verbatim>\<open>await\<close> of a send is
  modelled as the send returning.  A timer is \<open>None\<close> when its handle is undefined and
  \<open>Some delay\<close> (milliseconds) when it is armed.  The JavaScript \<^verbatim>\<open>Set\<close> of out-of-order TSNs
  is the list of its elements in insertion order; an object keyed by numbers is an
  association list.
\<close>

section \<open>States, events and the environment\<close>

datatype sctp_state = CLOSED | COOKIE_WAIT | COOKIE_ECHOED | ESTABLISHED | SHUTDOWN_PENDING
  | SHUTDOWN_SENT | SHUTDOWN_RECEIVED | SHUTDOWN_ACK_SENT

datatype conn_state = st_new | st_closed | st_connected | st_connecting

datatype sctp_out =
    SendPacket buffer
  | OnReceive int int buffer
  | OnReconfigStreams "int list"
  | StateChanged conn_state
  | OnSackReceived
  | Flush
  | SendResolved nat
  | ListenersRemoved

datatype immediate = SendTimer1Chunk | SendTimer2Chunk

record env =
  date_now :: int
  hmac_sha1 :: "buffer \<Rightarrow> buffer \<Rightarrow> buffer"
  transport_ok :: "buffer \<Rightarrow> bool"

definition COOKIE_LENGTH :: nat where "COOKIE_LENGTH = 24"
definition COOKIE_LIFETIME :: int where "COOKIE_LIFETIME = 60"
definition MAX_STREAMS :: int where "MAX_STREAMS = 65535"
definition DEFAULT_SCTP_MTU :: int where "DEFAULT_SCTP_MTU = 1191"
definition SCTP_MAX_ASSOCIATION_RETRANS :: nat where "SCTP_MAX_ASSOCIATION_RETRANS = 10"
definition SCTP_MAX_INIT_RETRANS :: nat where "SCTP_MAX_INIT_RETRANS = 8"
definition SCTP_RTO_ALPHA :: rat where "SCTP_RTO_ALPHA = 1 / 8"
definition SCTP_RTO_BETA :: rat where "SCTP_RTO_BETA = 1 / 4"
definition SCTP_RTO_INITIAL :: rat where "SCTP_RTO_INITIAL = 3"
definition SCTP_RTO_MIN :: rat where "SCTP_RTO_MIN = 1"
definition SCTP_RTO_MAX :: rat where "SCTP_RTO_MAX = 60"
definition SCTP_HEARTBEAT_INTERVAL :: rat where "SCTP_HEARTBEAT_INTERVAL = 30"
definition SCTP_SACK_DELAY_MS :: rat where "SCTP_SACK_DELAY_MS = 200"
definition RECONFIG_MAX_STREAMS :: nat where "RECONFIG_MAX_STREAMS = 135"
definition SCTP_STATE_COOKIE :: int where "SCTP_STATE_COOKIE = 0x0007"
definition SCTP_SUPPORTED_CHUNK_EXT :: int where "SCTP_SUPPORTED_CHUNK_EXT = 0x8008"
definition SCTP_PRSCTP_SUPPORTED :: int where "SCTP_PRSCTP_SUPPORTED = 0xc000"

section \<open>MTU and payload size\<close>

definition maxPayloadSizeForMtu :: "int \<Rightarrow> int \<Rightarrow> int" where
  "maxPayloadSizeForMtu mtu dataChunkHeaderSize =
     (let headerSize = int SCTP_COMMON_HEADER_SIZE + dataChunkHeaderSize
      in if mtu \<le> headerSize then 0
         else let payloadBudget = mtu - headerSize
              in payloadBudget - js_rem payloadBudget (int SCTP_PADDING_MULTIPLE))"

definition validateSctpMtu :: "int \<Rightarrow> unit result" where
  "validateSctpMtu mtu =
     (if \<not> (\<bar>mtu\<bar> < 2 ^ 53) \<or> mtu \<le> 0 then Inl (Error ''SCTP MTU must be a positive integer'')
      else if maxPayloadSizeForMtu mtu (int SCTP_DATA_CHUNK_HEADER_SIZE) = 0
      then Inl (Error ''SCTP MTU is too small for a DATA chunk'')
      else Inr ())"

section \<open>The association\<close>

record sctp =
  associationState :: sctp_state
  started :: bool
  connectionState :: conn_state
  isServer :: bool
  isStopping :: bool
  isClosed :: bool
  transportAttached :: bool
  hmacKey :: buffer
  localPartialReliability :: bool
  localPort :: int
  localVerificationTag :: int
  remoteExtensions :: "int list"
  remotePartialReliability :: bool
  remotePort :: "int option"
  remoteVerificationTag :: int
  advertisedRwnd :: int
  peerAdvertisedRwnd :: int
  inboundStreamMap :: "(int \<times> inbound_stream) list"
  inboundStreamsCount :: int
  inboundStreamsMax :: int
  lastReceivedTsn :: "int option"
  sackDuplicates :: "int list"
  sackMisOrdered :: "int list"
  sackNeeded :: bool
  sackPacketCount :: int
  sackHasNewDataInPacket :: bool
  sackImmediate :: bool
  sackTimeout :: "rat option"
  cwnd :: int
  sctp_mtu :: int
  maxPayloadSize :: int
  fastRecoveryExit :: "int option"
  fastRecoveryTransmit :: bool
  forwardTsnChunk :: "forward_tsn_chunk option"
  flightSize :: int
  outboundQueue :: "data_chunk list"
  sendWaiters :: "nat list"
  outboundStreamSeq :: "(int \<times> int) list"
  outboundStreamsCount :: int
  localTsn :: int
  lastSackedTsn :: int
  advancedPeerAckTsn :: int
  partialBytesAcked :: int
  sentQueue :: "data_chunk list"
  transmitting :: bool
  transmitRequested :: bool
  reconfigRequestSeq :: int
  reconfigResponseSeq :: int
  reconfigRequest :: "stream_param option"
  reconfigQueue :: "int list"
  srtt :: "rat option"
  rttvar :: "rat option"
  rto :: rat
  timer1Handle :: "rat option"
  timer1Chunk :: "chunk option"
  timer1Failures :: nat
  timer2Handle :: "rat option"
  timer2Chunk :: "chunk option"
  timer2Failures :: nat
  timer3Handle :: "rat option"
  timerReconfigHandle :: "rat option"
  timerReconfigFailures :: nat
  timerHeartbeatHandle :: "rat option"
  heartbeatInterval :: rat
  ssthresh :: "int option"
  immediates :: "immediate list"
  nextId :: nat
  out :: "sctp_out list"

text \<open>The constructor, with the random values it draws as arguments.  It throws for an MTU
  that cannot carry data.\<close>

definition new_SCTP :: "int \<Rightarrow> int \<Rightarrow> buffer \<Rightarrow> int \<Rightarrow> int \<Rightarrow> sctp result" where
  "new_SCTP port mtu key tag tsn0 =
     rbind (validateSctpMtu mtu) (\<lambda>_.
     let payload = maxPayloadSizeForMtu mtu (int SCTP_DATA_CHUNK_HEADER_SIZE) in
     Inr \<lparr>associationState = CLOSED, started = False, connectionState = st_new, isServer = True,
       isStopping = False, isClosed = False, transportAttached = True, hmacKey = key,
       localPartialReliability = True, localPort = port, localVerificationTag = tag,
       remoteExtensions = [], remotePartialReliability = True, remotePort = None,
       remoteVerificationTag = 0, advertisedRwnd = 1024 * 1024, peerAdvertisedRwnd = 1024 * 1024,
       inboundStreamMap = [], inboundStreamsCount = 0, inboundStreamsMax = MAX_STREAMS,
       lastReceivedTsn = None, sackDuplicates = [], sackMisOrdered = [], sackNeeded = False,
       sackPacketCount = 0, sackHasNewDataInPacket = False, sackImmediate = False, sackTimeout = None,
       cwnd = 3 * payload, sctp_mtu = mtu, maxPayloadSize = payload, fastRecoveryExit = None,
       fastRecoveryTransmit = False, forwardTsnChunk = None, flightSize = 0, outboundQueue = [],
       sendWaiters = [], outboundStreamSeq = [], outboundStreamsCount = MAX_STREAMS, localTsn = tsn0,
       lastSackedTsn = tsnMinusOne tsn0, advancedPeerAckTsn = tsnMinusOne tsn0, partialBytesAcked = 0,
       sentQueue = [], transmitting = False, transmitRequested = False, reconfigRequestSeq = tsn0,
       reconfigResponseSeq = 0, reconfigRequest = None, reconfigQueue = [], srtt = None, rttvar = None,
       rto = SCTP_RTO_INITIAL, timer1Handle = None, timer1Chunk = None, timer1Failures = 0,
       timer2Handle = None, timer2Chunk = None, timer2Failures = 0, timer3Handle = None,
       timerReconfigHandle = None, timerReconfigFailures = 0, timerHeartbeatHandle = None,
       heartbeatInterval = SCTP_HEARTBEAT_INTERVAL, ssthresh = None, immediates = [], nextId = 0,
       out = []\<rparr>)"

definition SCTP_client :: "int \<Rightarrow> int \<Rightarrow> buffer \<Rightarrow> int \<Rightarrow> int \<Rightarrow> sctp result" where
  "SCTP_client port mtu key tag tsn0 = rbind (new_SCTP port mtu key tag tsn0) (\<lambda>s. Inr (s\<lparr>isServer := False\<rparr>))"

definition SCTP_server :: "int \<Rightarrow> int \<Rightarrow> buffer \<Rightarrow> int \<Rightarrow> int \<Rightarrow> sctp result" where
  "SCTP_server port mtu key tag tsn0 = rbind (new_SCTP port mtu key tag tsn0) (\<lambda>s. Inr (s\<lparr>isServer := True\<rparr>))"

definition isStopped :: "sctp \<Rightarrow> bool" where
  "isStopped s = (isStopping s \<or> isClosed s)"

definition peerRwnd :: "sctp \<Rightarrow> int" where
  "peerRwnd s = max 0 (peerAdvertisedRwnd s - flightSize s)"

definition maxChannels :: "sctp \<Rightarrow> int option" where
  "maxChannels s = (if inboundStreamsCount s > 0
     then Some (min (inboundStreamsCount s) (outboundStreamsCount s)) else None)"

definition emit :: "sctp_out \<Rightarrow> sctp \<Rightarrow> sctp" where
  "emit e s = s\<lparr>out := out s @ [e]\<rparr>"

section \<open>Sending a chunk\<close>

text \<open>\<^verbatim>\<open>sendChunk\<close>: nothing once the connection is closed; otherwise the exception it raises
  (or the rejection of the transport), if any, and the new state.\<close>

definition sendChunk :: "env \<Rightarrow> chunk \<Rightarrow> sctp \<Rightarrow> js_error option \<times> sctp" where
  "sendChunk env c s =
     (if connectionState s = st_closed then (None, s)
      else case remotePort s of
        None \<Rightarrow> (Some (Error ''invalid remote port''), s)
      | Some rp \<Rightarrow>
        (case serializePacket (localPort s) rp (remoteVerificationTag s) c of
           Inl e \<Rightarrow> (Some e, s)
         | Inr packet \<Rightarrow>
             if transport_ok env packet then (None, emit (SendPacket packet) s)
             else (Some (Error ''send''), s)))"

text \<open>\<^verbatim>\<open>await this.sendChunk(c).catch(log)\<close>\<close>

definition sendChunk_logged :: "env \<Rightarrow> chunk \<Rightarrow> sctp \<Rightarrow> sctp" where
  "sendChunk_logged env c s = snd (sendChunk env c s)"

section \<open>Timers\<close>

definition timer1Start :: "chunk \<Rightarrow> sctp \<Rightarrow> js_error option \<times> sctp" where
  "timer1Start c s =
     (if timer1Handle s \<noteq> None then (Some (Error ''''), s)
      else (None, s\<lparr>timer1Chunk := Some c, timer1Failures := 0, timer1Handle := Some (rto s * 1000)\<rparr>))"

definition timer1Cancel :: "sctp \<Rightarrow> sctp" where
  "timer1Cancel s = (if timer1Handle s \<noteq> None then s\<lparr>timer1Handle := None, timer1Chunk := None\<rparr> else s)"

definition t2Start :: "chunk \<Rightarrow> sctp \<Rightarrow> js_error option \<times> sctp" where
  "t2Start c s =
     (if timer2Handle s \<noteq> None then (Some (Error ''''), s)
      else (None, s\<lparr>timer2Chunk := Some c, timer2Failures := 0, timer2Handle := Some (rto s * 1000)\<rparr>))"

definition timer2Cancel :: "sctp \<Rightarrow> sctp" where
  "timer2Cancel s = (if timer2Handle s \<noteq> None then s\<lparr>timer2Handle := None, timer2Chunk := None\<rparr> else s)"

definition timer3Start :: "sctp \<Rightarrow> js_error option \<times> sctp" where
  "timer3Start s =
     (if isStopped s then (None, s)
      else if timer3Handle s \<noteq> None then (Some (Error ''''), s)
      else (None, s\<lparr>timer3Handle := Some (rto s * 1000)\<rparr>))"

definition timer3Cancel :: "sctp \<Rightarrow> sctp" where
  "timer3Cancel s = (if timer3Handle s \<noteq> None then s\<lparr>timer3Handle := None\<rparr> else s)"

definition timer3Restart :: "sctp \<Rightarrow> sctp" where
  "timer3Restart s =
     (if isStopped s then s
      else let s = timer3Cancel s in s\<lparr>timer3Handle := Some (rto s * 1000)\<rparr>)"

definition timerReconfigHandleStart :: "sctp \<Rightarrow> sctp" where
  "timerReconfigHandleStart s =
     (if isStopped s then s
      else if timerReconfigHandle s \<noteq> None then s
      else s\<lparr>timerReconfigFailures := 0, timerReconfigHandle := Some (rto s * 1000)\<rparr>)"

definition timerReconfigCancel :: "sctp \<Rightarrow> sctp" where
  "timerReconfigCancel s =
     (if timerReconfigHandle s \<noteq> None then s\<lparr>timerReconfigHandle := None, timerReconfigFailures := 0\<rparr> else s)"

definition heartbeatStart :: "sctp \<Rightarrow> sctp" where
  "heartbeatStart s =
     (if timerHeartbeatHandle s \<noteq> None \<or> associationState s \<noteq> ESTABLISHED then s
      else s\<lparr>timerHeartbeatHandle := Some ((rto s + heartbeatInterval s) * 1000)\<rparr>)"

definition heartbeatCancel :: "sctp \<Rightarrow> sctp" where
  "heartbeatCancel s = (if timerHeartbeatHandle s \<noteq> None then s\<lparr>timerHeartbeatHandle := None\<rparr> else s)"

definition heartbeatRestart :: "sctp \<Rightarrow> sctp" where
  "heartbeatRestart s = heartbeatStart (heartbeatCancel s)"

definition setHeartbeatInterval :: "rat \<Rightarrow> sctp \<Rightarrow> js_error option \<times> sctp" where
  "setHeartbeatInterval interval s =
     (if interval \<le> 0 then (Some (Error ''heartbeat interval must be > 0''), s)
      else (None, heartbeatRestart (s\<lparr>heartbeatInterval := interval\<rparr>)))"

section \<open>Association and connection states\<close>

definition setConnectionState :: "conn_state \<Rightarrow> sctp \<Rightarrow> sctp" where
  "setConnectionState st s = emit (StateChanged st) (s\<lparr>connectionState := st\<rparr>)"

definition releaseSendWaiters :: "sctp \<Rightarrow> sctp" where
  "releaseSendWaiters s = s\<lparr>sendWaiters := [], out := out s @ map SendResolved (sendWaiters s)\<rparr>"

definition removeAllListeners :: "sctp \<Rightarrow> sctp" where
  "removeAllListeners s = emit ListenersRemoved s"

definition setState :: "sctp_state \<Rightarrow> sctp \<Rightarrow> sctp" where
  "setState st s0 =
     (let s = (if st \<noteq> associationState s0 then s0\<lparr>associationState := st\<rparr> else s0)
      in if st = ESTABLISHED then
           heartbeatStart (setConnectionState st_connected (s\<lparr>isStopping := False, isClosed := False\<rparr>))
         else if st = CLOSED then
           (let s = s\<lparr>isClosed := True\<rparr>;
                s = heartbeatCancel (timerReconfigCancel (timer3Cancel (timer2Cancel (timer1Cancel s))));
                s = (if sackTimeout s \<noteq> None then s\<lparr>sackTimeout := None\<rparr> else s)
            in releaseSendWaiters (removeAllListeners (setConnectionState st_closed s)))
         else s)"

definition setRemotePort :: "int \<Rightarrow> sctp \<Rightarrow> sctp" where
  "setRemotePort port s = s\<lparr>remotePort := Some port\<rparr>"

section \<open>The default sort order\<close>

text \<open>\<^verbatim>\<open>[...set].sort()\<close> without a comparator compares the decimal representations of the
  numbers as strings.\<close>

fun decimal_digits :: "nat \<Rightarrow> nat list" where
  "decimal_digits n = (if n < 10 then [n] else decimal_digits (n div 10) @ [n mod 10])"

declare decimal_digits.simps [simp del]

definition js_string_key :: "int \<Rightarrow> nat list" where
  "js_string_key t = (if t < 0 then 45 # map ((+) 48) (decimal_digits (nat (- t)))
     else map ((+) 48) (decimal_digits (nat t)))"

definition js_sort :: "int list \<Rightarrow> int list" where
  "js_sort ts = sort_key js_string_key ts"

text \<open>Comparisons with \<^verbatim>\<open>this.lastReceivedTsn\<close>, which is \<^verbatim>\<open>undefined\<close> until the handshake: every
  comparison with \<^verbatim>\<open>undefined\<close> is false.\<close>

definition gt_last :: "int \<Rightarrow> int option \<Rightarrow> bool" where
  "gt_last x l = (case l of None \<Rightarrow> False | Some t \<Rightarrow> uint32Gt x t)"

definition last_gte :: "int option \<Rightarrow> int \<Rightarrow> bool" where
  "last_gte l x = (case l of None \<Rightarrow> False | Some t \<Rightarrow> uint32Gte t x)"

end
