(* ===== verification/Sctp_Receive.thy ===== *)
theory Sctp_Receive
  imports Sctp_State
begin

text \<open>
  The receive path of the association: cumulative-TSN bookkeeping, DATA and FORWARD-TSN
  chunks, and the selective acknowledgements.
\<close>

section \<open>Definitions\<close>

text \<open>The loop that advances the cumulative TSN over the (sorted) out-of-order set.\<close>

fun advance_tsn :: "int option \<Rightarrow> int list \<Rightarrow> int option" where
  "advance_tsn l [] = l"
| "advance_tsn l (t # ts) = (if Some t = map_option tsnPlusOne l then advance_tsn (Some t) ts else l)"

definition markReceived :: "int \<Rightarrow> sctp \<Rightarrow> bool \<times> sctp" where
  "markReceived t s =
     (if last_gte (lastReceivedTsn s) t \<or> t \<in> set (sackMisOrdered s)
      then (True, s\<lparr>sackDuplicates := sackDuplicates s @ [t]\<rparr>)
      else let mis = sackMisOrdered s @ [t];
               l = advance_tsn (lastReceivedTsn s) (js_sort mis)
           in (False, s\<lparr>lastReceivedTsn := l,
                sackDuplicates := filter (\<lambda>x. gt_last x l) (sackDuplicates s),
                sackMisOrdered := filter (\<lambda>x. gt_last x l) mis\<rparr>))"

definition getInboundStream :: "int \<Rightarrow> sctp \<Rightarrow> inbound_stream \<times> sctp" where
  "getInboundStream sid s =
     (case map_of (inboundStreamMap s) sid of
        Some st \<Rightarrow> (st, s)
      | None \<Rightarrow> (new_InboundStream,
          s\<lparr>inboundStreamMap := AList.update sid new_InboundStream (inboundStreamMap s)\<rparr>))"

definition receive :: "message \<Rightarrow> sctp \<Rightarrow> sctp" where
  "receive m s = (case m of (sid, ppid, data) \<Rightarrow> emit (OnReceive sid ppid data) s)"

text \<open>\<^verbatim>\<open>for (const message of inboundStream.popMessages()) { advertisedRwnd += ...; receive(...) }\<close>\<close>

definition deliver :: "int \<Rightarrow> inbound_stream \<Rightarrow> sctp \<Rightarrow> sctp" where
  "deliver sid st s =
     (let (ms, st') = popMessages st;
          s = s\<lparr>inboundStreamMap := AList.update sid st' (inboundStreamMap s)\<rparr>
      in foldl (\<lambda>s m. receive m (s\<lparr>advertisedRwnd := advertisedRwnd s + int (length (snd (snd m)))\<rparr>)) s ms)"

definition receiveDataChunk :: "data_chunk \<Rightarrow> sctp \<Rightarrow> js_error option \<times> sctp" where
  "receiveDataChunk c s0 =
     (let s = s0\<lparr>sackNeeded := True\<rparr>;
          (dup, s) = markReceived (tsn c) s
      in if dup then (None, s\<lparr>sackImmediate := True\<rparr>)
         else let s = s\<lparr>sackHasNewDataInPacket := True\<rparr>;
                  s = s\<lparr>sackImmediate := True\<rparr>;
                  s = (if flags c AND SCTP_DATA_LAST_FRAG = 0 then s\<lparr>sackImmediate := True\<rparr> else s);
                  s = (if length (sackMisOrdered s) > 0 then s\<lparr>sackImmediate := True\<rparr> else s);
                  (st, s) = getInboundStream (streamId c) s
              in case addChunk c st of
                   Inl e \<Rightarrow> (Some e, s)
                 | Inr st' \<Rightarrow>
                     (None, deliver (streamId c) st'
                       (s\<lparr>advertisedRwnd := advertisedRwnd s - int (length (userData c))\<rparr>)))"

fun forward_streams :: "(int \<times> int) list \<Rightarrow> sctp \<Rightarrow> sctp" where
  "forward_streams [] s = s"
| "forward_streams ((sid, ssn) # xs) s =
     (let (st, s) = getInboundStream sid s
      in forward_streams xs (deliver sid (st\<lparr>streamSequenceNumber := uint16Add ssn 1\<rparr>) s))"

fun prune_streams :: "int \<Rightarrow> (int \<times> inbound_stream) list \<Rightarrow> nat \<times> (int \<times> inbound_stream) list" where
  "prune_streams t [] = (0, [])"
| "prune_streams t ((sid, st) # xs) =
     (let (n, st') = pruneChunks t st; (m, ys) = prune_streams t xs in (n + m, (sid, st') # ys))"

definition receiveForwardTsnChunk :: "forward_tsn_chunk \<Rightarrow> sctp \<Rightarrow> sctp" where
  "receiveForwardTsnChunk c s0 =
     (let s = s0\<lparr>sackNeeded := True, sackImmediate := True\<rparr>
      in if last_gte (lastReceivedTsn s) (fwd_cumulativeTsn c) then s
         else let l0 = Some (fwd_cumulativeTsn c);
                  mis = filter (\<lambda>x. gt_last x l0) (sackMisOrdered s);
                  l = advance_tsn l0 (js_sort mis);
                  s = s\<lparr>lastReceivedTsn := l,
                        sackDuplicates := filter (\<lambda>x. gt_last x l) (sackDuplicates s),
                        sackMisOrdered := filter (\<lambda>x. gt_last x l) mis\<rparr>;
                  s = forward_streams (fwd_streams c) s;
                  (n, streams) = prune_streams (the l) (inboundStreamMap s)
              in s\<lparr>advertisedRwnd := advertisedRwnd s + int n, inboundStreamMap := streams\<rparr>)"

text \<open>The gap blocks of \<^verbatim>\<open>sendSack\<close>: consecutive TSNs extend the last block.\<close>

fun sack_gaps :: "int \<Rightarrow> int option \<Rightarrow> (int \<times> int) list \<Rightarrow> int list \<Rightarrow> (int \<times> int) list" where
  "sack_gaps l gapNext gs [] = gs"
| "sack_gaps l gapNext gs (t # ts) =
     (let pos = js_rem (t - l) SCTP_TSN_MODULO;
          gs' = (if gapNext = Some t then butlast gs @ [(fst (last gs), pos)] else gs @ [(pos, pos)])
      in sack_gaps l (Some (tsnPlusOne t)) gs' ts)"

definition build_sack :: "int \<Rightarrow> sctp \<Rightarrow> sack_chunk" where
  "build_sack l s = \<lparr>sack_flags = 0, gaps = sack_gaps l None [] (js_sort (sackMisOrdered s)),
     duplicates = sackDuplicates s, sack_cumulativeTsn = l, sack_advertisedRwnd = max 0 (advertisedRwnd s)\<rparr>"

text \<open>Before the handshake the cumulative TSN is undefined and serializing the SACK throws,
  which is logged.\<close>

definition sendSack :: "env \<Rightarrow> sctp \<Rightarrow> sctp" where
  "sendSack env s =
     (if isStopped s then s
      else if \<not> sackNeeded s then s
      else let s = (case lastReceivedTsn s of
                      None \<Rightarrow> s
                    | Some l \<Rightarrow> sendChunk_logged env (SackChunk (build_sack l s)) s)
           in s\<lparr>sackDuplicates := [], sackNeeded := False, sackPacketCount := 0, sackImmediate := False\<rparr>)"

definition scheduleSack :: "env \<Rightarrow> sctp \<Rightarrow> sctp" where
  "scheduleSack env s =
     (if isStopped s then s
      else if \<not> sackNeeded s then s
      else if sackImmediate s then
        sendSack env (if sackTimeout s \<noteq> None then s\<lparr>sackTimeout := None\<rparr> else s)
      else if sackTimeout s \<noteq> None then s
      else s\<lparr>sackTimeout := Some SCTP_SACK_DELAY_MS\<rparr>)"

text \<open>The callback of the delayed acknowledgement.\<close>

definition sackTimeoutExpired :: "env \<Rightarrow> sctp \<Rightarrow> sctp" where
  "sackTimeoutExpired env s = sendSack env (s\<lparr>sackTimeout := None\<rparr>)"

section \<open>The receive window\<close>

text \<open>Bytes held in the reassembly queues of all streams.\<close>

definition buffered_total :: "sctp \<Rightarrow> nat" where
  "buffered_total s = sum_list (map (\<lambda>(_, st). buffered st) (inboundStreamMap s))"

definition rwnd_inv :: "sctp \<Rightarrow> bool" where
  "rwnd_inv s \<longleftrightarrow> distinct (map fst (inboundStreamMap s)) \<and>
     advertisedRwnd s + int (buffered_total s) \<le> 1024 * 1024"

lemma sum_update_buffered:
  assumes "distinct (map fst m)"
  shows "sum_list (map (\<lambda>(_, st). buffered st) (AList.update k v m)) +
      (case map_of m k of None \<Rightarrow> 0 | Some st \<Rightarrow> buffered st)
    = sum_list (map (\<lambda>(_, st). buffered st) m) + buffered v"
  using assms by (induction m) (auto simp: map_of_eq_None_iff [symmetric] split: option.splits)

lemma distinct_update_fst: "distinct (map fst m) \<Longrightarrow> distinct (map fst (AList.update k v m))"
  by (rule distinct_update)

lemma buffered_new [simp]: "buffered new_InboundStream = 0"
  by (simp add: buffered_def new_InboundStream_def)

lemma receive_frame [simp]:
  "inboundStreamMap (receive m s) = inboundStreamMap s" "advertisedRwnd (receive m s) = advertisedRwnd s"
  by (simp_all add: receive_def emit_def split: prod.splits)

lemma foldl_receive:
  "let s' = foldl (\<lambda>s m. receive m (s\<lparr>advertisedRwnd := advertisedRwnd s + int (length (snd (snd m)))\<rparr>)) s ms in
   inboundStreamMap s' = inboundStreamMap s \<and> advertisedRwnd s' = advertisedRwnd s + int (delivered ms)"
  by (induction ms arbitrary: s) (auto simp: Let_def delivered_def split: prod.splits)

lemma deliver_rwnd:
  assumes "distinct (map fst (inboundStreamMap s))" and "map_of (inboundStreamMap s) sid = Some st0"
  shows "distinct (map fst (inboundStreamMap (deliver sid st s)))"
    and "advertisedRwnd (deliver sid st s) + int (buffered_total (deliver sid st s)) + int (buffered st0)
      = advertisedRwnd s + int (buffered_total s) + int (buffered st)"
proof -
  obtain ms st' where pop: "popMessages st = (ms, st')" by fastforce
  let ?s = "s\<lparr>inboundStreamMap := AList.update sid st' (inboundStreamMap s)\<rparr>"
  have m: "inboundStreamMap (deliver sid st s) = AList.update sid st' (inboundStreamMap s)"
    and r: "advertisedRwnd (deliver sid st s) = advertisedRwnd s + int (delivered ms)"
    using foldl_receive [of ?s ms] by (simp_all add: deliver_def pop Let_def)
  show "distinct (map fst (inboundStreamMap (deliver sid st s)))"
    unfolding m by (rule distinct_update_fst [OF assms(1)])
  show "advertisedRwnd (deliver sid st s) + int (buffered_total (deliver sid st s)) + int (buffered st0)
      = advertisedRwnd s + int (buffered_total s) + int (buffered st)"
    using sum_update_buffered [OF assms(1), of sid st'] popMessages_bytes [OF pop] assms(2)
    unfolding buffered_total_def m r by simp
qed

lemma getInboundStream_spec:
  assumes "getInboundStream sid s = (st, s')" and "distinct (map fst (inboundStreamMap s))"
  shows "distinct (map fst (inboundStreamMap s'))" "map_of (inboundStreamMap s') sid = Some st"
    "buffered_total s' = buffered_total s" "advertisedRwnd s' = advertisedRwnd s"
proof -
  have "distinct (map fst (inboundStreamMap s')) \<and> map_of (inboundStreamMap s') sid = Some st \<and>
    buffered_total s' = buffered_total s \<and> advertisedRwnd s' = advertisedRwnd s"
  proof (cases "map_of (inboundStreamMap s) sid")
    case None
    with assms sum_update_buffered [OF assms(2), of sid new_InboundStream] show ?thesis
      by (auto simp: getInboundStream_def buffered_total_def update_conv' distinct_update_fst)
  next
    case (Some a)
    with assms show ?thesis by (auto simp: getInboundStream_def)
  qed
  then show "distinct (map fst (inboundStreamMap s'))" "map_of (inboundStreamMap s') sid = Some st"
    "buffered_total s' = buffered_total s" "advertisedRwnd s' = advertisedRwnd s" by blast+
qed

lemma markReceived_frame:
  assumes "markReceived t s = (dup, s')"
  shows "inboundStreamMap s' = inboundStreamMap s" "advertisedRwnd s' = advertisedRwnd s"
  using assms by (auto simp: markReceived_def Let_def split: if_splits)

lemma rwnd_inv_cong:
  "inboundStreamMap s' = inboundStreamMap s \<Longrightarrow> advertisedRwnd s' = advertisedRwnd s \<Longrightarrow> rwnd_inv s' = rwnd_inv s"
  by (simp add: rwnd_inv_def buffered_total_def)

lemma receiveDataChunk_rwnd:
  assumes "rwnd_inv s"
  shows "rwnd_inv (snd (receiveDataChunk c s))"
proof -
  obtain dup s1 where mr: "markReceived (tsn c) (s\<lparr>sackNeeded := True\<rparr>) = (dup, s1)" by fastforce
  have s1: "rwnd_inv s1"
    using assms markReceived_frame [OF mr] by (simp add: rwnd_inv_cong [of s1 s])
  show ?thesis
  proof (cases dup)
    case True
    with s1 show ?thesis by (simp add: receiveDataChunk_def mr Let_def rwnd_inv_cong [of "s1\<lparr>sackImmediate := _\<rparr>" s1])
  next
    case False
    let ?s2 = "s1\<lparr>sackHasNewDataInPacket := True, sackImmediate := True\<rparr>"
    have s2: "rwnd_inv ?s2" using s1 by (simp add: rwnd_inv_cong [of ?s2 s1])
    obtain st s3 where g: "getInboundStream (streamId c) ?s2 = (st, s3)" by fastforce
    note gs = getInboundStream_spec [OF g]
    from s2 have d: "distinct (map fst (inboundStreamMap ?s2))" by (simp add: rwnd_inv_def)
    have s3: "rwnd_inv s3" using s2 gs [OF d] by (simp add: rwnd_inv_def)
    have eq: "receiveDataChunk c s = (case addChunk c st of Inl e \<Rightarrow> (Some e, s3)
        | Inr st' \<Rightarrow> (None, deliver (streamId c) st'
            (s3\<lparr>advertisedRwnd := advertisedRwnd s3 - int (length (userData c))\<rparr>)))"
      using False g by (simp add: receiveDataChunk_def mr Let_def)
    show ?thesis
    proof (cases "addChunk c st")
      case (Inl e)
      with eq s3 show ?thesis by simp
    next
      case (Inr st')
      let ?s4 = "s3\<lparr>advertisedRwnd := advertisedRwnd s3 - int (length (userData c))\<rparr>"
      have "distinct (map fst (inboundStreamMap ?s4))" "map_of (inboundStreamMap ?s4) (streamId c) = Some st"
        using gs [OF d] by simp_all
      from deliver_rwnd [OF this, of st'] addChunk_bytes [OF Inr] s3
      show ?thesis unfolding eq Inr by (simp add: rwnd_inv_def buffered_total_def)
    qed
  qed
qed

lemma forward_streams_rwnd: "rwnd_inv s \<Longrightarrow> rwnd_inv (forward_streams xs s)"
proof (induction xs arbitrary: s)
  case Nil
  then show ?case by simp
next
  case (Cons x xs)
  obtain sid ssn where x: "x = (sid, ssn)" by (cases x)
  obtain st s1 where g: "getInboundStream sid s = (st, s1)" by fastforce
  from Cons.prems have d: "distinct (map fst (inboundStreamMap s))" by (simp add: rwnd_inv_def)
  note gs = getInboundStream_spec [OF g d]
  let ?st = "st\<lparr>streamSequenceNumber := uint16Add ssn 1\<rparr>"
  have "rwnd_inv (deliver sid ?st s1)"
    using deliver_rwnd [OF gs(1,2), of ?st] Cons.prems gs by (simp add: rwnd_inv_def buffered_def)
  with Cons.IH x g show ?case by simp
qed

lemma prune_streams_bytes:
  "prune_streams t m = (n, m') \<Longrightarrow> map fst m' = map fst m \<and>
   n + sum_list (map (\<lambda>(_, st). buffered st) m') = sum_list (map (\<lambda>(_, st). buffered st) m)"
proof (induction m arbitrary: n m')
  case Nil
  then show ?case by simp
next
  case (Cons x m)
  then show ?case by (cases x) (fastforce dest: pruneChunks_bytes split: prod.splits)
qed

lemma receiveForwardTsnChunk_rwnd:
  assumes "rwnd_inv s"
  shows "rwnd_inv (receiveForwardTsnChunk c s)"
proof (cases "last_gte (lastReceivedTsn s) (fwd_cumulativeTsn c)")
  case True
  with assms show ?thesis
    by (simp add: receiveForwardTsnChunk_def Let_def rwnd_inv_def buffered_total_def)
next
  case False
  define mis where "mis = filter (\<lambda>x. gt_last x (Some (fwd_cumulativeTsn c))) (sackMisOrdered s)"
  define l where "l = advance_tsn (Some (fwd_cumulativeTsn c)) (js_sort mis)"
  define s1 where "s1 = s\<lparr>sackNeeded := True, sackImmediate := True, lastReceivedTsn := l,
    sackDuplicates := filter (\<lambda>x. gt_last x l) (sackDuplicates s),
    sackMisOrdered := filter (\<lambda>x. gt_last x l) mis\<rparr>"
  define s2 where "s2 = forward_streams (fwd_streams c) s1"
  obtain n streams where p: "prune_streams (the l) (inboundStreamMap s2) = (n, streams)" by fastforce
  have eq: "receiveForwardTsnChunk c s = s2\<lparr>advertisedRwnd := advertisedRwnd s2 + int n, inboundStreamMap := streams\<rparr>"
    using False p by (simp add: receiveForwardTsnChunk_def Let_def s2_def s1_def mis_def l_def)
  have "rwnd_inv s1" using assms by (simp add: s1_def rwnd_inv_def buffered_total_def)
  then have "rwnd_inv s2" unfolding s2_def by (rule forward_streams_rwnd)
  with prune_streams_bytes [OF p] show ?thesis
    unfolding eq by (simp add: rwnd_inv_def buffered_total_def)
qed

section \<open>Cumulative acknowledgement\<close>





lemma decimal_digits_nonempty [simp]: "decimal_digits n \<noteq> []"
  by (subst decimal_digits.simps) simp











text \<open>The default sort compares strings: once the TSNs on both sides of a power of ten are in
  the out-of-order set, the cumulative TSN never advances again.\<close>

lemma advance_tsn_hd:
  assumes "ts \<noteq> []" "hd ts \<noteq> tsnPlusOne l"
  shows "advance_tsn (Some l) ts = Some l"
  using assms by (cases ts) auto

lemma js_sort_hd:
  assumes "a \<in> set ts" "js_string_key a < js_string_key b"
  shows "js_sort ts \<noteq> [] \<and> hd (js_sort ts) \<noteq> b"
proof -
  have ne: "js_sort ts \<noteq> []" using assms(1) by (auto simp: js_sort_def dest: arg_cong [of _ _ set])
  moreover have "js_string_key (hd (js_sort ts)) \<le> js_string_key a"
  proof -
    have "sorted (map js_string_key (js_sort ts))" "a \<in> set (js_sort ts)" using assms(1) by (simp_all add: js_sort_def)
    then show ?thesis using ne by (cases "js_sort ts") auto
  qed
  ultimately show ?thesis using assms(2) by auto
qed

definition stuck_at :: "int \<Rightarrow> int \<Rightarrow> sctp \<Rightarrow> bool" where
  "stuck_at l a s \<longleftrightarrow> lastReceivedTsn s = Some l \<and> a \<in> set (sackMisOrdered s) \<and> uint32Gt a l \<and>
     js_string_key a < js_string_key (tsnPlusOne l)"

lemma markReceived_stuck:
  assumes "stuck_at l a s"
  shows "stuck_at l a (snd (markReceived t s))"
proof (cases "last_gte (lastReceivedTsn s) t \<or> t \<in> set (sackMisOrdered s)")
  case True
  with assms show ?thesis by (simp add: markReceived_def stuck_at_def)
next
  case False
  let ?m = "sackMisOrdered s @ [t]"
  have a: "a \<in> set ?m" "js_string_key a < js_string_key (tsnPlusOne l)" "lastReceivedTsn s = Some l"
    using assms by (auto simp: stuck_at_def)
  have "advance_tsn (Some l) (js_sort ?m) = Some l"
    using js_sort_hd [OF a(1,2)] by (intro advance_tsn_hd) auto
  with False a show ?thesis using assms by (auto simp: markReceived_def stuck_at_def Let_def gt_last_def)
qed

definition mark_all :: "int list \<Rightarrow> sctp \<Rightarrow> sctp" where
  "mark_all ts s = foldl (\<lambda>s t. snd (markReceived t s)) s ts"




section \<open>Gap blocks\<close>

definition gap_tsns :: "(int \<times> int) list \<Rightarrow> int set" where
  "gap_tsns gs = (\<Union>(a, b) \<in> set gs. {a..b})"

lemma gap_tsns_append [simp]: "gap_tsns (xs @ ys) = gap_tsns xs \<union> gap_tsns ys"
  by (simp add: gap_tsns_def)

lemma gap_tsns_one [simp]: "gap_tsns [(a, b)] = {a..b}"
  by (simp add: gap_tsns_def)



section \<open>Claims\<close>


definition sctp_sample :: sctp where
  "sctp_sample = projr (new_SCTP 5000 1200 [1, 2, 3] 7 100)"



text \<open>The sort of the out-of-order TSNs compares decimal strings.  Once a received TSN \<open>a\<close> is
  in the out-of-order set whose string is smaller than that of the next expected TSN (across a
  power of ten, or across the wrap-around of the TSN space), the cumulative TSN is stuck:
  whatever is received afterwards, the missing TSN included, it never advances.\<close>

theorem cumulative_ack_stuck:
  assumes "lastReceivedTsn s = Some l" "a \<in> set (sackMisOrdered s)" "uint32Gt a l"
    "js_string_key a < js_string_key (tsnPlusOne l)"
  shows "lastReceivedTsn (mark_all ts s) = Some l"
proof -
  have "stuck_at l a s" using assms by (simp add: stuck_at_def)
  then have "stuck_at l a (mark_all ts s)"
  proof (induction ts arbitrary: s)
    case (Cons t ts)
    from Cons.IH [OF markReceived_stuck [OF Cons.prems]] show ?case by (simp add: mark_all_def)
  qed (simp add: mark_all_def)
  then show ?thesis by (simp add: stuck_at_def)
qed

theorem cumulative_ack_stuck_witness:
  "lastReceivedTsn (mark_all [9, 11, 12] (sctp_sample\<lparr>lastReceivedTsn := Some 8, sackMisOrdered := [10]\<rparr>)) = Some 8"
  by (rule cumulative_ack_stuck [where a = 10])
    (simp_all add: uint32Gt_def js_string_key_def decimal_digits.simps tsnPlusOne_def SCTP_TSN_MODULO_def)

end
