(* ===== verification/Sctp_Send.thy ===== *)
theory Sctp_Send
  imports Sctp_Receive
begin

text \<open>
  The send path of the association: \<^verbatim>\<open>send\<close> (fragmentation), \<^verbatim>\<open>transmit\<close>, selective
  acknowledgements, the retransmission timer, congestion control, partial reliability and the
  retransmission time-out.  The FIFO queues \<^verbatim>\<open>outboundQueue\<close>, \<^verbatim>\<open>sentQueue\<close> and
  \<^verbatim>\<open>sendWaiters\<close> are their contents as lists (theory \<open>Fifo_Queue\<close> proves the class
  correct against that view); a waiter is the identity of the chunk it waits for.
  Floating-point times are exact rationals.
\<close>

section \<open>Definitions\<close>

definition flightSizeIncrease :: "data_chunk \<Rightarrow> sctp \<Rightarrow> sctp" where
  "flightSizeIncrease c s = s\<lparr>flightSize := flightSize s + bookSize c\<rparr>"

definition flightSizeDecrease :: "data_chunk \<Rightarrow> sctp \<Rightarrow> sctp" where
  "flightSizeDecrease c s = s\<lparr>flightSize := max 0 (flightSize s - bookSize c)\<rparr>"

definition now_seconds :: "env \<Rightarrow> rat" where
  "now_seconds env = of_int (date_now env) / 1000"

text \<open>\<^verbatim>\<open>!this.srtt\<close> holds for \<^verbatim>\<open>undefined\<close> and for zero.\<close>

definition updateRto :: "rat \<Rightarrow> sctp \<Rightarrow> sctp" where
  "updateRto R s =
     (let (sr, rv) = (case srtt s of
            None \<Rightarrow> (R, R / 2)
          | Some sr0 \<Rightarrow>
              if sr0 = 0 then (R, R / 2)
              else ((1 - SCTP_RTO_ALPHA) * sr0 + SCTP_RTO_ALPHA * R,
                    (1 - SCTP_RTO_BETA) * the (rttvar s) + SCTP_RTO_BETA * \<bar>sr0 - R\<bar>))
      in s\<lparr>rttvar := Some rv, srtt := Some sr, rto := max SCTP_RTO_MIN (min (sr + 4 * rv) SCTP_RTO_MAX)\<rparr>)"

subsection \<open>Partial reliability\<close>

definition abandon :: "data_chunk \<Rightarrow> data_chunk" where
  "abandon c = c\<lparr>abandoned := True, retransmit := False\<rparr>"

text \<open>The two loops of \<^verbatim>\<open>maybeAbandon\<close>, from a position back to the last fragment of the
  previous message and forward to the last fragment.\<close>

fun abandon_back :: "nat \<Rightarrow> data_chunk list \<Rightarrow> data_chunk list" where
  "abandon_back pos q =
     (let q' = q[pos := abandon (q ! pos)]
      in if flags (q ! pos) AND SCTP_DATA_LAST_FRAG \<noteq> 0 then q'
         else case pos of 0 \<Rightarrow> q' | Suc p \<Rightarrow> abandon_back p q')"

declare abandon_back.simps [simp del]

fun abandon_forward :: "data_chunk list \<Rightarrow> data_chunk list" where
  "abandon_forward [] = []"
| "abandon_forward (c # cs) =
     abandon c # (if flags c AND SCTP_DATA_LAST_FRAG \<noteq> 0 then cs else abandon_forward cs)"

fun first_index :: "('a \<Rightarrow> bool) \<Rightarrow> 'a list \<Rightarrow> nat option" where
  "first_index P [] = None"
| "first_index P (x # xs) = (if P x then Some 0 else map_option Suc (first_index P xs))"

text \<open>\<^verbatim>\<open>maybeAbandon(chunk)\<close> for the chunk at index \<open>i\<close> of the sent queue.  A zero or undefined
  limit is no limit.\<close>

definition abandon_due :: "env \<Rightarrow> data_chunk \<Rightarrow> bool" where
  "abandon_due env c \<longleftrightarrow>
     (case maxRetransmits c of None \<Rightarrow> False | Some m \<Rightarrow> m \<noteq> 0 \<and> m < sentCount c) \<or>
     (case expiry c of None \<Rightarrow> False | Some e \<Rightarrow> e \<noteq> 0 \<and> e < now_seconds env)"

definition maybeAbandon :: "env \<Rightarrow> nat \<Rightarrow> sctp \<Rightarrow> bool \<times> sctp" where
  "maybeAbandon env i s =
     (let c = sentQueue s ! i
      in if abandoned c then (True, s)
         else if \<not> abandon_due env c then (False, s)
         else case first_index (\<lambda>v. chunk_type (DataChunk v) = chunk_type (DataChunk c)) (sentQueue s) of
                None \<Rightarrow> (True, s)
              | Some chunkPos \<Rightarrow>
                  let q = abandon_back chunkPos (sentQueue s);
                      q = take chunkPos q @ abandon_forward (drop chunkPos q)
                  in (True, s\<lparr>sentQueue := q\<rparr>))"

text \<open>The loop over the abandoned prefix of the sent queue: the sequence numbers of the skipped
  ordered messages by stream, the last TSN, how many were removed, and what is left.\<close>

fun abandoned_prefix :: "data_chunk list \<Rightarrow> (int \<times> int) list \<Rightarrow> int \<Rightarrow> nat
    \<Rightarrow> (int \<times> int) list \<times> int \<times> nat \<times> data_chunk list" where
  "abandoned_prefix [] streams t n = (streams, t, n, [])"
| "abandoned_prefix (c # q) streams t n =
     (if abandoned c
      then abandoned_prefix q
        (if flags c AND SCTP_DATA_UNORDERED = 0 then AList.update (streamId c) (streamSeqNum c) streams else streams)
        (tsn c) (Suc n)
      else (streams, t, n, c # q))"

definition updateAdvancedPeerAckPoint :: "sctp \<Rightarrow> sctp" where
  "updateAdvancedPeerAckPoint s0 =
     (let s = (if uint32Gt (lastSackedTsn s0) (advancedPeerAckTsn s0)
               then s0\<lparr>advancedPeerAckTsn := lastSackedTsn s0\<rparr> else s0);
          (streams, t, n, q) = abandoned_prefix (sentQueue s) [] (advancedPeerAckTsn s) 0;
          s = s\<lparr>sentQueue := q, advancedPeerAckTsn := t\<rparr>
      in if n \<noteq> 0
         then s\<lparr>forwardTsnChunk := Some \<lparr>fwd_flags = 0, fwd_cumulativeTsn = t, fwd_streams = sort_key fst streams\<rparr>\<rparr>
         else s)"

subsection \<open>Transmission\<close>

definition resolveSendWaiters :: "data_chunk \<Rightarrow> sctp \<Rightarrow> sctp" where
  "resolveSendWaiters c s =
     (case sendWaiters s of
        [] \<Rightarrow> s
      | w # ws \<Rightarrow> if w = dc_id c then emit (SendResolved w) (s\<lparr>sendWaiters := ws\<rparr>) else s)"

text \<open>The retransmission loop of \<^verbatim>\<open>transmitOnce\<close> over the sent queue.\<close>

fun retransmit_loop :: "env \<Rightarrow> int \<Rightarrow> bool \<Rightarrow> data_chunk list \<Rightarrow> sctp \<Rightarrow> data_chunk list \<times> sctp" where
  "retransmit_loop env cw earliest [] s = ([], s)"
| "retransmit_loop env cw earliest (c # q) s =
     (if retransmit c then
        (if \<not> fastRecoveryTransmit s \<and> flightSize s \<ge> cw then (c # q, s)
         else let s = (if fastRecoveryTransmit s then s\<lparr>fastRecoveryTransmit := False\<rparr> else s);
                  s = flightSizeIncrease c s;
                  c' = c\<lparr>misses := 0, retransmit := False, sentCount := sentCount c + 1\<rparr>;
                  s = sendChunk_logged env (DataChunk c') s;
                  s = (if earliest then timer3Restart s else s);
                  (q', s) = retransmit_loop env cw False q s
              in (c' # q', s))
      else let (q', s) = retransmit_loop env cw False q s in (c # q', s))"

text \<open>The loop that drains the outbound queue.\<close>

fun drain_loop :: "env \<Rightarrow> int \<Rightarrow> data_chunk list \<Rightarrow> sctp \<Rightarrow> sctp" where
  "drain_loop env cw [] s = s"
| "drain_loop env cw (c # q) s =
     (if \<not> (flightSize s < cw \<and> peerRwnd s > 0) then s
      else if bookSize c > peerRwnd s \<and> flightSize s > 0 then s
      else let s = s\<lparr>outboundQueue := q\<rparr>;
               c' = c\<lparr>sentCount := sentCount c + 1, sentTime := Some (now_seconds env)\<rparr>;
               s = s\<lparr>sentQueue := sentQueue s @ [c']\<rparr>;
               s = resolveSendWaiters c s;
               s = flightSizeIncrease c s;
               s = sendChunk_logged env (DataChunk c') s;
               s = (if timer3Handle s = None then snd (timer3Start s) else s)
           in drain_loop env cw q s)"

text \<open>The head of \<^verbatim>\<open>transmitOnce\<close>: a pending FORWARD TSN is sent, and the congestion window is
  limited to a burst.\<close>

definition send_forward_tsn :: "env \<Rightarrow> sctp \<Rightarrow> sctp" where
  "send_forward_tsn env s =
     (case forwardTsnChunk s of
        None \<Rightarrow> s
      | Some f \<Rightarrow>
          (let s = (sendChunk_logged env (ForwardTsnChunk f) s)\<lparr>forwardTsnChunk := None\<rparr>
           in if timer3Handle s = None then snd (timer3Start s) else s))"

definition burst_cwnd :: "sctp \<Rightarrow> int" where
  "burst_cwnd s =
     (let burstSize = (if fastRecoveryExit s \<noteq> None then 2 * maxPayloadSize s else 4 * maxPayloadSize s)
      in min (flightSize s + burstSize) (cwnd s))"

definition transmitOnce :: "env \<Rightarrow> sctp \<Rightarrow> sctp" where
  "transmitOnce env s0 =
     (if isStopped s0 then s0
      else let s = send_forward_tsn env s0;
               cw = burst_cwnd s;
               (q, s) = retransmit_loop env cw True (sentQueue s) s;
               s = s\<lparr>sentQueue := q\<rparr>;
               s = drain_loop env cw (outboundQueue s) s
           in emit Flush s)"

text \<open>\<^verbatim>\<open>transmit\<close>.  Its do-while loop runs again when a call of \<^verbatim>\<open>transmit\<close> came in while
  \<^verbatim>\<open>transmitOnce\<close> was awaiting the transport; a handler that runs to its end raises no such
  request (lemma \<open>transmitOnce_request\<close>), so the body runs once.\<close>

definition transmit :: "env \<Rightarrow> sctp \<Rightarrow> sctp" where
  "transmit env s =
     (if isStopped s then s
      else if transmitting s then s\<lparr>transmitRequested := True\<rparr>
      else let s = transmitOnce env (s\<lparr>transmitting := True, transmitRequested := False\<rparr>)
           in s\<lparr>transmitting := False\<rparr>)"

subsection \<open>Sending a message\<close>

text \<open>The fragmentation loop; \<open>i\<close> is the index of the fragment of \<open>n\<close>, \<open>data\<close> what is left
  from \<^verbatim>\<open>pos\<close> on.\<close>

definition data_flags :: "bool \<Rightarrow> nat \<Rightarrow> nat \<Rightarrow> int" where
  "data_flags ordered n i =
     (let f = (if \<not> ordered then SCTP_DATA_UNORDERED else 0);
          f = (if i = 0 then f OR SCTP_DATA_FIRST_FRAG else f)
      in if i = n - 1 then f OR SCTP_DATA_LAST_FRAG else f)"

definition fragment_count :: "nat \<Rightarrow> nat \<Rightarrow> nat" where
  "fragment_count len mp = (len + mp - 1) div mp"

fun fragment_loop :: "nat \<Rightarrow> nat \<Rightarrow> nat \<Rightarrow> data_chunk \<Rightarrow> bool \<Rightarrow> nat \<Rightarrow> int \<Rightarrow> nat \<Rightarrow> buffer \<Rightarrow> data_chunk list" where
  "fragment_loop 0 n mp proto ordered i t ident data = []"
| "fragment_loop (Suc k) n mp proto ordered i t ident data =
     proto\<lparr>dc_id := ident, flags := data_flags ordered n i, tsn := t, userData := take mp data,
       bookSize := int (length (take mp data))\<rparr>
     # fragment_loop k n mp proto ordered (Suc i) (tsnPlusOne t) (Suc ident) (drop mp data)"

definition make_fragments :: "int \<Rightarrow> int \<Rightarrow> buffer \<Rightarrow> rat option \<Rightarrow> int option \<Rightarrow> bool \<Rightarrow> int \<Rightarrow> sctp \<Rightarrow> data_chunk list" where
  "make_fragments sid ppId data expi retr ordered ssn s =
     (let mp = nat (maxPayloadSize s);
          n = fragment_count (length data) mp;
          proto = (new_data_chunk 0 0)\<lparr>streamId := sid, streamSeqNum := ssn, protocol := ppId,
                     expiry := expi, maxRetransmits := retr\<rparr>
      in fragment_loop n n mp proto ordered 0 (localTsn s) (nextId s) data)"

text \<open>\<^verbatim>\<open>this.outboundStreamSeq[streamId] || 0\<close>\<close>

definition next_ssn :: "int \<Rightarrow> sctp \<Rightarrow> int" where
  "next_ssn sid s = (case map_of (outboundStreamSeq s) sid of None \<Rightarrow> 0 | Some n \<Rightarrow> n)"

definition send :: "env \<Rightarrow> int \<Rightarrow> int \<Rightarrow> buffer \<Rightarrow> rat option \<Rightarrow> int option \<Rightarrow> bool \<Rightarrow> sctp \<Rightarrow> sctp" where
  "send env sid ppId data expi retr ordered s =
     (let ssn = (if ordered then next_ssn sid s else 0);
          chunks = make_fragments sid ppId data expi retr ordered ssn s;
          s = s\<lparr>localTsn := (tsnPlusOne ^^ length chunks) (localTsn s), nextId := nextId s + length chunks,
                outboundQueue := outboundQueue s @ chunks\<rparr>;
          s = (if ordered then s\<lparr>outboundStreamSeq := AList.update sid (uint16Add ssn 1) (outboundStreamSeq s)\<rparr> else s);
          s = (if chunks \<noteq> [] \<and> \<not> isStopped s then s\<lparr>sendWaiters := sendWaiters s @ [dc_id (last chunks)]\<rparr> else s)
      in transmit env s)"

definition sendResetRequest :: "env \<Rightarrow> int \<Rightarrow> sctp \<Rightarrow> sctp" where
  "sendResetRequest env sid s =
     (let s = s\<lparr>outboundQueue := outboundQueue s @ [(new_data_chunk (nextId s) 0)\<lparr>streamId := sid\<rparr>],
                nextId := Suc (nextId s)\<rparr>
      in if timer3Handle s = None then transmit env s else s)"

subsection \<open>Selective acknowledgements\<close>

text \<open>The loop over the cumulatively acknowledged chunks.  A chunk in the sent queue has a
  \<^verbatim>\<open>sentTime\<close> (invariant \<open>send_inv\<close>).\<close>

fun ack_loop :: "env \<Rightarrow> nat \<Rightarrow> int \<Rightarrow> data_chunk list \<Rightarrow> sctp \<Rightarrow> nat \<times> int \<times> sctp" where
  "ack_loop env done doneBytes [] s = (done, doneBytes, s)"
| "ack_loop env done doneBytes (c # q) s =
     (if \<not> uint32Gte (lastSackedTsn s) (tsn c) then (done, doneBytes, s)
      else let s = s\<lparr>sentQueue := q\<rparr>;
               done = Suc done;
               (doneBytes, s) = (if \<not> acked c then (doneBytes + bookSize c, flightSizeDecrease c s) else (doneBytes, s));
               s = (if done = 1 \<and> sentCount c = 1
                    then (case sentTime c of None \<Rightarrow> s | Some t \<Rightarrow> updateRto (now_seconds env - t) s) else s)
           in ack_loop env done doneBytes q s)"

definition gap_seen :: "int \<Rightarrow> (int \<times> int) list \<Rightarrow> int list" where
  "gap_seen cum gs = concat (map (\<lambda>(a, b). map (\<lambda>pos. js_rem (cum + pos) SCTP_TSN_MODULO) [a..b]) gs)"

definition highest_seen :: "int list \<Rightarrow> int option" where
  "highest_seen seen = (if seen = [] then None else Some (last seen))"

text \<open>Chunks acknowledged by gap blocks: the updated queue, the bytes, the highest newly
  acknowledged TSN and the state.\<close>

fun gap_ack_loop :: "int option \<Rightarrow> int set \<Rightarrow> int \<Rightarrow> int \<Rightarrow> data_chunk list \<Rightarrow> sctp
    \<Rightarrow> data_chunk list \<times> int \<times> int \<times> sctp" where
  "gap_ack_loop h seen hna doneBytes [] s = ([], hna, doneBytes, s)"
| "gap_ack_loop h seen hna doneBytes (c # q) s =
     (if gt_last (tsn c) h then (c # q, hna, doneBytes, s)
      else if tsn c \<in> seen \<and> \<not> acked c
      then (let (q', hna', b, s') = gap_ack_loop h seen (tsn c) (doneBytes + bookSize c) q (flightSizeDecrease c s)
            in (c\<lparr>acked := True\<rparr> # q', hna', b, s'))
      else (let (q', hna', b, s') = gap_ack_loop h seen hna doneBytes q s in (c # q', hna', b, s')))"

text \<open>Striking the missing chunks before the highest newly acknowledged one, by index since
  \<^verbatim>\<open>maybeAbandon\<close> changes other elements of the queue.\<close>

definition upd_sent :: "nat \<Rightarrow> (data_chunk \<Rightarrow> data_chunk) \<Rightarrow> sctp \<Rightarrow> sctp" where
  "upd_sent i f s = s\<lparr>sentQueue := (sentQueue s)[i := f (sentQueue s ! i)]\<rparr>"

definition strike :: "env \<Rightarrow> nat \<Rightarrow> sctp \<Rightarrow> bool \<times> sctp" where
  "strike env i s0 =
     (let s = upd_sent i (\<lambda>c. c\<lparr>misses := misses c + 1\<rparr>) s0
      in if misses (sentQueue s ! i) = 3
         then (let s = upd_sent i (\<lambda>c. c\<lparr>misses := 0\<rparr>) s;
                   (ab, s) = maybeAbandon env i s;
                   s = (if \<not> ab then upd_sent i (\<lambda>c. c\<lparr>retransmit := True\<rparr>) s else s);
                   s = upd_sent i (\<lambda>c. c\<lparr>acked := False\<rparr>) s
               in (True, flightSizeDecrease (sentQueue s ! i) s))
         else (False, s))"

fun strike_loop :: "env \<Rightarrow> int \<Rightarrow> int set \<Rightarrow> nat list \<Rightarrow> bool \<Rightarrow> sctp \<Rightarrow> bool \<times> sctp" where
  "strike_loop env hna seen [] loss s = (loss, s)"
| "strike_loop env hna seen (i # is) loss s =
     (if uint32Gt (tsn (sentQueue s ! i)) hna then (loss, s)
      else if tsn (sentQueue s ! i) \<notin> seen
      then (let (l, s) = strike env i s in strike_loop env hna seen is (loss \<or> l) s)
      else strike_loop env hna seen is loss s)"

definition handle_gaps :: "env \<Rightarrow> sack_chunk \<Rightarrow> int \<Rightarrow> sctp \<Rightarrow> bool \<times> int \<times> sctp" where
  "handle_gaps env c doneBytes s =
     (if gaps c = [] then (False, doneBytes, s)
      else let seen = gap_seen (sack_cumulativeTsn c) (gaps c);
               (q, hna, doneBytes, s) =
                 gap_ack_loop (highest_seen seen) (set seen) (sack_cumulativeTsn c) doneBytes (sentQueue s) s;
               s = s\<lparr>sentQueue := q\<rparr>;
               (loss, s) = strike_loop env hna (set seen) [0..<length (sentQueue s)] False s
           in (loss, doneBytes, s))"

definition adjust_cwnd :: "sack_chunk \<Rightarrow> nat \<Rightarrow> int \<Rightarrow> bool \<Rightarrow> bool \<Rightarrow> sctp \<Rightarrow> sctp" where
  "adjust_cwnd c done doneBytes cwndFullyUtilized loss s =
     (case fastRecoveryExit s of
        None \<Rightarrow>
          (let s = (if done \<noteq> 0 \<and> cwndFullyUtilized
                 then (if (case ssthresh s of None \<Rightarrow> False | Some th \<Rightarrow> cwnd s \<le> th)
                       then s\<lparr>cwnd := cwnd s + min doneBytes (maxPayloadSize s)\<rparr>
                       else let s = s\<lparr>partialBytesAcked := partialBytesAcked s + doneBytes\<rparr>
                            in if partialBytesAcked s \<ge> cwnd s
                               then s\<lparr>partialBytesAcked := partialBytesAcked s - cwnd s, cwnd := cwnd s + maxPayloadSize s\<rparr>
                               else s)
                 else s)
           in if loss
              then (let th = max (cwnd s div 2) (4 * maxPayloadSize s)
                    in s\<lparr>ssthresh := Some th, cwnd := th, partialBytesAcked := 0,
                         fastRecoveryExit := Some (tsn (last (sentQueue s))), fastRecoveryTransmit := True\<rparr>)
              else s)
      | Some e \<Rightarrow> if uint32Gte (sack_cumulativeTsn c) e then s\<lparr>fastRecoveryExit := None\<rparr> else s)"

definition receiveSackChunk :: "env \<Rightarrow> sack_chunk \<Rightarrow> sctp \<Rightarrow> sctp" where
  "receiveSackChunk env c s =
     (if uint32Gt (lastSackedTsn s) (sack_cumulativeTsn c) then s
      else let s = s\<lparr>lastSackedTsn := sack_cumulativeTsn c\<rparr>;
               cwndFullyUtilized = (flightSize s \<ge> cwnd s);
               (done, doneBytes, s) = ack_loop env 0 0 (sentQueue s) s;
               (loss, doneBytes, s) = handle_gaps env c doneBytes s;
               s = adjust_cwnd c done doneBytes cwndFullyUtilized loss s;
               s = (if sentQueue s = [] then timer3Cancel s else if done > 0 then timer3Restart s else s);
               s = s\<lparr>peerAdvertisedRwnd := sack_advertisedRwnd c\<rparr>;
               s = updateAdvancedPeerAckPoint s;
               s = emit OnSackReceived s
           in transmit env s)"

subsection \<open>The retransmission timer\<close>

definition mark_retransmit :: "env \<Rightarrow> nat \<Rightarrow> sctp \<Rightarrow> sctp" where
  "mark_retransmit env i s =
     (let (ab, s) = maybeAbandon env i s
      in if \<not> ab then upd_sent i (\<lambda>c. c\<lparr>retransmit := True\<rparr>) s else s)"

definition timer3Expired :: "env \<Rightarrow> sctp \<Rightarrow> sctp" where
  "timer3Expired env s =
     (if isStopped s then s
      else let s = s\<lparr>timer3Handle := None\<rparr>;
               s = foldl (\<lambda>s i. mark_retransmit env i s) s [0..<length (sentQueue s)];
               s = updateAdvancedPeerAckPoint s;
               s = s\<lparr>fastRecoveryExit := None, flightSize := 0, partialBytesAcked := 0\<rparr>;
               s = s\<lparr>ssthresh := Some (max (cwnd s div 2) (4 * maxPayloadSize s))\<rparr>;
               s = s\<lparr>cwnd := maxPayloadSize s\<rparr>
           in transmit env s)"

end
