(* ===== verification/Sctp_Handler.thy ===== *)
theory Sctp_Handler
  imports Sctp_Send
begin

text \<open>
  The handlers of the association: the packet handler and its dispatch over chunk types, the
  four-way handshake with its cookie, stream re-configuration, timer callbacks, start, stop
  and abort.  A handler that can raise an exception returns it beside the state it leaves.
\<close>

section \<open>Sequencing with exceptions\<close>

type_synonym outcome = "js_error option \<times> sctp"

definition andThen :: "outcome \<Rightarrow> (sctp \<Rightarrow> outcome) \<Rightarrow> outcome" where
  "andThen r f = (case r of (Some e, s) \<Rightarrow> (Some e, s) | (None, s) \<Rightarrow> f s)"

section \<open>Re-configuration of streams\<close>

definition sendReconfigParam :: "env \<Rightarrow> stream_param \<Rightarrow> sctp \<Rightarrow> outcome" where
  "sendReconfigParam env p s =
     (case stream_param_bytes p of
        Inl e \<Rightarrow> (Some e, s)
      | Inr b \<Rightarrow> (None, sendChunk_logged env (ReconfigChunk 0 [(param_type p, b)]) s))"

text \<open>\<^verbatim>\<open>[...new Set(xs)]\<close>: the elements in the order of their first occurrence.\<close>

definition js_unique :: "int list \<Rightarrow> int list" where
  "js_unique xs = rev (remdups (rev xs))"

definition transmitReconfigRequest :: "env \<Rightarrow> sctp \<Rightarrow> outcome" where
  "transmitReconfigRequest env s =
     (if length (reconfigQueue s) > 0 \<and> associationState s = ESTABLISHED \<and> reconfigRequest s = None
      then let uniqueStreams = js_unique (reconfigQueue s);
               streams = take RECONFIG_MAX_STREAMS uniqueStreams;
               s = s\<lparr>reconfigQueue := drop RECONFIG_MAX_STREAMS uniqueStreams\<rparr>;
               param = OutgoingSSNResetRequestParam (reconfigRequestSeq s) (reconfigResponseSeq s)
                         (tsnMinusOne (localTsn s)) streams;
               s = s\<lparr>reconfigRequestSeq := tsnPlusOne (reconfigRequestSeq s)\<rparr>;
               s = s\<lparr>reconfigRequest := Some param\<rparr>
           in andThen (sendReconfigParam env param s) (\<lambda>s. (None, timerReconfigHandleStart s))
      else (None, s))"

text \<open>The callback of \<^verbatim>\<open>p.streams.map\<close> for one stream.\<close>

definition close_inbound :: "sctp \<Rightarrow> int \<Rightarrow> sctp" where
  "close_inbound s sid =
     (let s = s\<lparr>inboundStreamMap := AList.delete sid (inboundStreamMap s)\<rparr>
      in case map_of (outboundStreamSeq s) sid of
           None \<Rightarrow> s
         | Some n \<Rightarrow> if n \<noteq> 0 \<and> sid \<notin> set (reconfigQueue s)
             then s\<lparr>reconfigQueue := reconfigQueue s @ [sid]\<rparr> else s)"

definition receiveReconfigParam :: "env \<Rightarrow> stream_param \<Rightarrow> sctp \<Rightarrow> outcome" where
  "receiveReconfigParam env p s =
     (case p of
        OutgoingSSNResetRequestParam req res lt streams \<Rightarrow>
          (let s = s\<lparr>reconfigResponseSeq := req\<rparr>
           in andThen (sendReconfigParam env (ReconfigResponseParam req ReconfigResultSuccessPerformed) s)
             (\<lambda>s. andThen (transmitReconfigRequest env (foldl close_inbound s streams))
             (\<lambda>s. (None, emit (OnReconfigStreams streams) s))))
      | ReconfigResponseParam resSeq code \<Rightarrow>
          (if code \<noteq> ReconfigResultSuccessPerformed then (None, s)
           else case reconfigRequest s of
                  None \<Rightarrow> (None, s)
                | Some r \<Rightarrow>
                    if resSeq = requestSequence r
                    then let streamIds = reset_streams r;
                             s = s\<lparr>outboundStreamSeq := foldl (\<lambda>m sid. AList.delete sid m) (outboundStreamSeq s) streamIds\<rparr>;
                             s = emit (OnReconfigStreams streamIds) s;
                             s = timerReconfigCancel (s\<lparr>reconfigRequest := None\<rparr>);
                             s = s\<lparr>rto := SCTP_RTO_INITIAL, timerReconfigFailures := 0\<rparr>
                         in if length (reconfigQueue s) > 0 then transmitReconfigRequest env s else (None, s)
                    else (None, s))
      | StreamAddOutgoingParam req n \<Rightarrow>
          (let s = s\<lparr>inboundStreamsCount := inboundStreamsCount s + n, reconfigResponseSeq := req\<rparr>
           in sendReconfigParam env (ReconfigResponseParam req 1) s))"

fun reconfig_params :: "env \<Rightarrow> params \<Rightarrow> sctp \<Rightarrow> outcome" where
  "reconfig_params env [] s = (None, s)"
| "reconfig_params env ((ty, body) # ps) s =
     (case RECONFIG_PARAM_BY_TYPES ty of
        None \<Rightarrow> reconfig_params env ps s
      | Some parse \<Rightarrow>
          (case parse body of
             Inl e \<Rightarrow> (Some e, s)
           | Inr p \<Rightarrow> andThen (receiveReconfigParam env p s) (reconfig_params env ps)))"

section \<open>The handshake\<close>

definition getExtensions :: "params \<Rightarrow> sctp \<Rightarrow> sctp" where
  "getExtensions ps s =
     foldl (\<lambda>s (k, v).
       if k = SCTP_PRSCTP_SUPPORTED then s\<lparr>remotePartialReliability := True\<rparr>
       else if k = SCTP_SUPPORTED_CHUNK_EXT then s\<lparr>remoteExtensions := map uint v\<rparr> else s) s ps"

definition setExtensions :: "sctp \<Rightarrow> params" where
  "setExtensions s =
     (let (ps, ext) = (if localPartialReliability s then ([(SCTP_PRSCTP_SUPPORTED, [])], [192]) else ([], []))
      in ps @ [(SCTP_SUPPORTED_CHUNK_EXT, ext @ [130])])"

definition init :: "env \<Rightarrow> sctp \<Rightarrow> sctp" where
  "init env s =
     (let c = InitChunk \<lparr>init_flags = 0, initiateTag = localVerificationTag s,
                init_advertisedRwnd = advertisedRwnd s, outboundStreams = outboundStreamsCount s,
                inboundStreams = inboundStreamsMax s, initialTsn = localTsn s, init_params = setExtensions s\<rparr>
      in snd (andThen (sendChunk env c s) (\<lambda>s.
           andThen (timer1Start c s) (\<lambda>s. (None, setState COOKIE_WAIT s)))))"

definition start :: "env \<Rightarrow> int option \<Rightarrow> sctp \<Rightarrow> sctp" where
  "start env remote s =
     (if started s then s
      else let s = setConnectionState st_connecting (s\<lparr>started := True\<rparr>);
               s = (case remote of Some p \<Rightarrow> if p \<noteq> 0 then setRemotePort p s else s | None \<Rightarrow> s)
           in if \<not> isServer s then init env s else s)"

text \<open>What INIT and INIT ACK have in common: the peer's parameters are recorded.\<close>

definition learn_peer :: "init_chunk \<Rightarrow> sctp \<Rightarrow> sctp" where
  "learn_peer c s =
     (let s = s\<lparr>lastReceivedTsn := Some (tsnMinusOne (initialTsn c)),
                reconfigResponseSeq := tsnMinusOne (initialTsn c),
                remoteVerificationTag := initiateTag c,
                ssthresh := Some (init_advertisedRwnd c),
                peerAdvertisedRwnd := init_advertisedRwnd c\<rparr>;
          s = getExtensions (init_params c) s
      in s\<lparr>inboundStreamsCount := min (outboundStreams c) (inboundStreamsMax s),
           outboundStreamsCount := min (outboundStreamsCount s) (inboundStreams c)\<rparr>)"

definition now_floor :: "env \<Rightarrow> int" where
  "now_floor env = date_now env div 1000"

definition receiveInit :: "env \<Rightarrow> init_chunk \<Rightarrow> sctp \<Rightarrow> outcome" where
  "receiveInit env c s =
     (if \<not> isServer s then (None, s)
      else let s = learn_peer c s
           in case writeUInt32BE (now_floor env) of
                Inl e \<Rightarrow> (Some e, s)
              | Inr cookieTime \<Rightarrow>
                  let cookie = cookieTime @ hmac_sha1 env (hmacKey s) cookieTime;
                      ack = InitAckChunk \<lparr>init_flags = 0, initiateTag = localVerificationTag s,
                        init_advertisedRwnd = advertisedRwnd s, outboundStreams = outboundStreamsCount s,
                        inboundStreams = inboundStreamsCount s, initialTsn = localTsn s,
                        init_params = setExtensions s @ [(SCTP_STATE_COOKIE, cookie)]\<rparr>
                  in (None, sendChunk_logged env ack s))"

definition receiveInitAck :: "env \<Rightarrow> init_chunk \<Rightarrow> sctp \<Rightarrow> outcome" where
  "receiveInitAck env c s =
     (if associationState s \<noteq> COOKIE_WAIT then (None, s)
      else let s = learn_peer c (timer1Cancel s);
               echo = CookieEchoChunk 0 (case map_of (init_params c) SCTP_STATE_COOKIE of None \<Rightarrow> [] | Some v \<Rightarrow> v);
               s = sendChunk_logged env echo s
           in andThen (timer1Start echo s) (\<lambda>s. (None, setState COOKIE_ECHOED s)))"

definition cookie_valid :: "env \<Rightarrow> sctp \<Rightarrow> buffer \<Rightarrow> bool" where
  "cookie_valid env s cookie \<longleftrightarrow>
     length cookie = COOKIE_LENGTH \<and> drop 4 cookie = hmac_sha1 env (hmacKey s) (take 4 cookie)"

definition receiveCookieEcho :: "env \<Rightarrow> buffer \<Rightarrow> sctp \<Rightarrow> outcome" where
  "receiveCookieEcho env cookie s =
     (if \<not> isServer s then (None, s)
      else if \<not> cookie_valid env s cookie then (None, s)
      else case readUInt32BE cookie 0 of
             Inl e \<Rightarrow> (Some e, s)
           | Inr stamp \<Rightarrow>
               if stamp < now_floor env - COOKIE_LIFETIME \<or> stamp > now_floor env
               then (None, sendChunk_logged env (ErrorChunk 0 [(3, replicate 8 0)]) s)
               else (None, setState ESTABLISHED (sendChunk_logged env (CookieAckChunk 0 []) s)))"

definition receiveShutdown :: "env \<Rightarrow> sctp \<Rightarrow> outcome" where
  "receiveShutdown env s =
     (let s = setState SHUTDOWN_RECEIVED (timer2Cancel s);
          ack = ShutdownAckChunk 0 [];
          s = sendChunk_logged env ack s
      in andThen (t2Start ack s) (\<lambda>s. (None, setState SHUTDOWN_SENT s)))"

section \<open>Dispatch\<close>

fun receiveChunk :: "env \<Rightarrow> chunk \<Rightarrow> sctp \<Rightarrow> outcome" where
  "receiveChunk env (DataChunk c) s = receiveDataChunk c s"
| "receiveChunk env (InitChunk c) s = receiveInit env c s"
| "receiveChunk env (InitAckChunk c) s = receiveInitAck env c s"
| "receiveChunk env (SackChunk c) s = (None, receiveSackChunk env c s)"
| "receiveChunk env (HeartbeatChunk _ ps) s = (None, sendChunk_logged env (HeartbeatAckChunk 0 ps) s)"
| "receiveChunk env (HeartbeatAckChunk _ _) s = (None, s)"
| "receiveChunk env (AbortChunk _ _) s = (None, setState CLOSED s)"
| "receiveChunk env (ShutdownChunk _ _) s = receiveShutdown env s"
| "receiveChunk env (ShutdownAckChunk _ _) s = (None, s)"
| "receiveChunk env (ErrorChunk _ _) s = (None, s)"
| "receiveChunk env (CookieEchoChunk _ body) s = receiveCookieEcho env body s"
| "receiveChunk env (CookieAckChunk _ _) s =
     (if associationState s \<noteq> COOKIE_ECHOED then (None, s)
      else (None, setState ESTABLISHED (timer1Cancel s)))"
| "receiveChunk env (ShutdownCompleteChunk _ _) s =
     (if associationState s \<noteq> SHUTDOWN_ACK_SENT then (None, s)
      else (None, setState CLOSED (timer2Cancel s)))"
| "receiveChunk env (ReconfigChunk _ ps) s =
     (if associationState s \<noteq> ESTABLISHED then (None, s) else reconfig_params env ps s)"
| "receiveChunk env (ForwardTsnChunk c) s = (None, receiveForwardTsnChunk c s)"

fun receive_chunks :: "env \<Rightarrow> chunk list \<Rightarrow> sctp \<Rightarrow> outcome" where
  "receive_chunks env [] s = (None, s)"
| "receive_chunks env (c # cs) s = andThen (receiveChunk env c s) (receive_chunks env cs)"

definition is_init :: "chunk \<Rightarrow> bool" where
  "is_init c \<longleftrightarrow> chunk_type c = 1"

text \<open>The end of \<^verbatim>\<open>handleData\<close>: acknowledge when something was received.\<close>

definition sack_after_packet :: "env \<Rightarrow> sctp \<Rightarrow> outcome" where
  "sack_after_packet env s =
     (if sackNeeded s
      then let s = (if sackHasNewDataInPacket s then s\<lparr>sackPacketCount := sackPacketCount s + 1\<rparr> else s);
               s = (if sackPacketCount s \<ge> 2 then s\<lparr>sackImmediate := True\<rparr> else s)
           in (None, scheduleSack env s)
      else (None, s))"

text \<open>\<^verbatim>\<open>handleData\<close>; \<open>None\<close> when \<^verbatim>\<open>parsePacket\<close> does not return.\<close>

definition handleData :: "env \<Rightarrow> buffer \<Rightarrow> sctp \<Rightarrow> outcome option" where
  "handleData env data s =
     (if isStopped s then Some (None, s)
      else case parsePacket data of
             None \<Rightarrow> None
           | Some (Inl e) \<Rightarrow> Some (Some e, s)
           | Some (Inr (_, _, verificationTag, chunks)) \<Rightarrow> Some (
               let initChunk = length (filter is_init chunks)
               in if initChunk > 0 \<and> length chunks \<noteq> 1 then (Some (Error ''''), s)
                  else let expectedTag = (if initChunk > 0 then 0 else localVerificationTag s)
                       in if verificationTag \<noteq> expectedTag then (None, s)
                          else andThen (receive_chunks env chunks (s\<lparr>sackHasNewDataInPacket := False\<rparr>)) (sack_after_packet env)))"

section \<open>Timer callbacks\<close>

definition timer1Expired :: "sctp \<Rightarrow> sctp" where
  "timer1Expired s =
     (if isStopped s then s
      else let s = s\<lparr>timer1Failures := timer1Failures s + 1, timer1Handle := None\<rparr>
           in if timer1Failures s > SCTP_MAX_INIT_RETRANS then setState CLOSED s
              else s\<lparr>immediates := immediates s @ [SendTimer1Chunk], timer1Handle := Some (rto s * 1000)\<rparr>)"

definition timer2Expired :: "sctp \<Rightarrow> sctp" where
  "timer2Expired s =
     (if isStopped s then s
      else let s = s\<lparr>timer2Failures := timer2Failures s + 1, timer2Handle := None\<rparr>
           in if timer2Failures s > SCTP_MAX_ASSOCIATION_RETRANS then setState CLOSED s
              else s\<lparr>immediates := immediates s @ [SendTimer2Chunk], timer2Handle := Some (rto s * 1000)\<rparr>)"

text \<open>The callbacks of \<^verbatim>\<open>setImmediate\<close>, in the order they were queued.  The stored chunk may be
  gone by then; sending it then fails and is logged.\<close>

definition runImmediate :: "env \<Rightarrow> sctp \<Rightarrow> sctp" where
  "runImmediate env s =
     (case immediates s of
        [] \<Rightarrow> s
      | i # is \<Rightarrow>
          let s = s\<lparr>immediates := is\<rparr>
          in if isStopped s then s
             else case (case i of SendTimer1Chunk \<Rightarrow> timer1Chunk s | SendTimer2Chunk \<Rightarrow> timer2Chunk s) of
                    None \<Rightarrow> s
                  | Some c \<Rightarrow> sendChunk_logged env c s)"

definition timerReconfigHandleExpired :: "env \<Rightarrow> sctp \<Rightarrow> outcome" where
  "timerReconfigHandleExpired env s =
     (if isStopped s then (None, s)
      else let s = s\<lparr>timerReconfigFailures := timerReconfigFailures s + 1, rto := of_int \<lceil>rto s * (3 / 2)\<rceil>\<rparr>
           in if timerReconfigFailures s > SCTP_MAX_ASSOCIATION_RETRANS
              then (None, (setState CLOSED s)\<lparr>timerReconfigHandle := None\<rparr>)
              else case reconfigRequest s of
                     None \<Rightarrow> (None, s)
                   | Some p \<Rightarrow> andThen (sendReconfigParam env p s) (\<lambda>s.
                       if isStopped s then (None, s) else (None, s\<lparr>timerReconfigHandle := Some (rto s * 1000)\<rparr>)))"

definition timerHeartbeatExpired :: "env \<Rightarrow> sctp \<Rightarrow> outcome" where
  "timerHeartbeatExpired env s =
     (let s = s\<lparr>timerHeartbeatHandle := None\<rparr>
      in if associationState s \<noteq> ESTABLISHED then (None, s)
         else andThen
           (if flightSize s = 0 \<and> length (outboundQueue s) = 0
            then case writeUInt32BE (now_floor env) of
                   Inl e \<Rightarrow> (Some e, s)
                 | Inr b \<Rightarrow> (None, sendChunk_logged env (HeartbeatChunk 0 [(1, b)]) s)
            else (None, s))
           (\<lambda>s. (None, heartbeatStart s)))"

section \<open>Stopping\<close>

definition abort :: "env \<Rightarrow> sctp \<Rightarrow> sctp" where
  "abort env s = sendChunk_logged env (AbortChunk 0 []) s"

definition stop :: "env \<Rightarrow> sctp \<Rightarrow> sctp" where
  "stop env s =
     (if isStopped s then setState CLOSED s
      else let s = s\<lparr>isStopping := True, transportAttached := False, sackTimeout := None\<rparr>;
               s = (if associationState s \<noteq> CLOSED then abort env s else s)
           in setState CLOSED s)"

end
