(* ===== verification/Sctp_Frame.thy ===== *)
theory Sctp_Frame
  imports Sctp_Handler
begin

text \<open>
  What the operations of the association leave unchanged.  A \<^emph>\<open>view\<close> is a function of the state.
  Each locale names the fields a view does not depend on and derives that the operations
  writing only those fields keep the view; the interpretations, one per field of interest,
  give the frame rules that the invariant proofs use.
\<close>

section \<open>Interfaces\<close>

locale out_view =
  fixes v :: "sctp \<Rightarrow> 'v"
  assumes out_indep [simp]: "v (s\<lparr>out := x\<rparr>) = v s"
begin

lemma emit_v [simp]: "v (emit e s) = v s"
  by (simp add: emit_def)

lemma sendChunk_v [simp]: "v (snd (sendChunk env c s)) = v s"
  by (auto simp: sendChunk_def split: option.splits sum.splits)

lemma sendChunk_logged_v [simp]: "v (sendChunk_logged env c s) = v s"
  by (simp add: sendChunk_logged_def)

lemma receive_v [simp]: "v (receive m s) = v s"
  by (simp add: receive_def split: prod.splits)

lemma removeAllListeners_v [simp]: "v (removeAllListeners s) = v s"
  by (simp add: removeAllListeners_def)

end

locale timer_view = out_view +
  assumes t1 [simp]: "v (s\<lparr>timer1Handle := h\<rparr>) = v s" "v (s\<lparr>timer1Chunk := c\<rparr>) = v s" "v (s\<lparr>timer1Failures := n\<rparr>) = v s"
    and t2 [simp]: "v (s\<lparr>timer2Handle := h\<rparr>) = v s" "v (s\<lparr>timer2Chunk := c\<rparr>) = v s" "v (s\<lparr>timer2Failures := n\<rparr>) = v s"
    and t3 [simp]: "v (s\<lparr>timer3Handle := h\<rparr>) = v s"
    and tr [simp]: "v (s\<lparr>timerReconfigHandle := h\<rparr>) = v s" "v (s\<lparr>timerReconfigFailures := n\<rparr>) = v s"
    and th [simp]: "v (s\<lparr>timerHeartbeatHandle := h\<rparr>) = v s"
    and tsack [simp]: "v (s\<lparr>sackTimeout := h\<rparr>) = v s"
    and tim [simp]: "v (s\<lparr>immediates := is\<rparr>) = v s"
begin

lemma timer1_v [simp]: "v (snd (timer1Start c s)) = v s" "v (timer1Cancel s) = v s"
  by (simp_all add: timer1Start_def timer1Cancel_def)

lemma timer2_v [simp]: "v (snd (t2Start c s)) = v s" "v (timer2Cancel s) = v s"
  by (simp_all add: t2Start_def timer2Cancel_def)

lemma timer3_v [simp]: "v (snd (timer3Start s)) = v s" "v (timer3Cancel s) = v s" "v (timer3Restart s) = v s"
  by (simp_all add: timer3Start_def timer3Cancel_def timer3Restart_def Let_def)

lemma timerReconfig_v [simp]: "v (timerReconfigHandleStart s) = v s" "v (timerReconfigCancel s) = v s"
  by (simp_all add: timerReconfigHandleStart_def timerReconfigCancel_def)

lemma heartbeat_v [simp]: "v (heartbeatStart s) = v s" "v (heartbeatCancel s) = v s" "v (heartbeatRestart s) = v s"
  by (simp_all add: heartbeatStart_def heartbeatCancel_def heartbeatRestart_def)

end

text \<open>Views that do not depend on the connection state: changing it keeps them.\<close>

locale conn_view = timer_view +
  assumes conn [simp]: "v (s\<lparr>associationState := a\<rparr>) = v s" "v (s\<lparr>connectionState := k\<rparr>) = v s"
    "v (s\<lparr>isClosed := b\<rparr>) = v s" "v (s\<lparr>isStopping := b\<rparr>) = v s" "v (s\<lparr>sendWaiters := w\<rparr>) = v s"
begin

lemma setConnectionState_v [simp]: "v (setConnectionState k s) = v s"
  by (simp add: setConnectionState_def)

lemma releaseSendWaiters_v [simp]: "v (releaseSendWaiters s) = v s"
  by (simp add: releaseSendWaiters_def)

lemma setState_v [simp]: "v (setState a s) = v s"
  by (simp add: setState_def Let_def)

end

text \<open>Views that do not depend on what the receive path writes.\<close>

locale recv_free_view = timer_view +
  assumes recv [simp]: "v (s\<lparr>inboundStreamMap := m\<rparr>) = v s" "v (s\<lparr>advertisedRwnd := w\<rparr>) = v s"
    "v (s\<lparr>lastReceivedTsn := l\<rparr>) = v s" "v (s\<lparr>sackDuplicates := ts\<rparr>) = v s"
    "v (s\<lparr>sackMisOrdered := ts\<rparr>) = v s" "v (s\<lparr>sackNeeded := b\<rparr>) = v s"
    "v (s\<lparr>sackPacketCount := n\<rparr>) = v s" "v (s\<lparr>sackHasNewDataInPacket := b\<rparr>) = v s"
    "v (s\<lparr>sackImmediate := b\<rparr>) = v s"
begin

lemma markReceived_v [simp]: "v (snd (markReceived t s)) = v s"
  by (simp add: markReceived_def Let_def)

lemma getInboundStream_v [simp]: "v (snd (getInboundStream sid s)) = v s"
  by (simp add: getInboundStream_def split: option.splits)

lemma foldl_receive_v:
  "v (foldl (\<lambda>s m. receive m (s\<lparr>advertisedRwnd := advertisedRwnd s + int (length (snd (snd m)))\<rparr>)) s ms) = v s"
  by (induction ms arbitrary: s) simp_all

lemma deliver_v [simp]: "v (deliver sid st s) = v s"
  by (simp add: deliver_def Let_def foldl_receive_v split: prod.splits)

lemma receiveDataChunk_v [simp]: "v (snd (receiveDataChunk c s)) = v s"
  by (simp add: receiveDataChunk_def Let_def prod.case_eq_if split: sum.split)

lemma forward_streams_v [simp]: "v (forward_streams xs s) = v s"
proof (induction xs s rule: forward_streams.induct)
  case (2 sid ssn xs s)
  then show ?case by (simp add: prod.case_eq_if)
qed simp

lemma receiveForwardTsnChunk_v [simp]: "v (receiveForwardTsnChunk c s) = v s"
  by (simp add: receiveForwardTsnChunk_def Let_def split: prod.splits)

lemma sendSack_v [simp]: "v (sendSack env s) = v s"
  by (simp add: sendSack_def Let_def split: option.splits)

lemma scheduleSack_v [simp]: "v (scheduleSack env s) = v s"
  by (simp add: scheduleSack_def)

lemma sackTimeoutExpired_v [simp]: "v (sackTimeoutExpired env s) = v s"
  by (simp add: sackTimeoutExpired_def)

end

text \<open>Views that do not depend on what acknowledgements and retransmissions write.\<close>

locale ack_free_view = timer_view +
  assumes ack_indep [simp]: "v (s\<lparr>flightSize := n\<rparr>) = v s" "v (s\<lparr>sentQueue := q\<rparr>) = v s"
    "v (s\<lparr>cwnd := n\<rparr>) = v s" "v (s\<lparr>ssthresh := th\<rparr>) = v s"
    "v (s\<lparr>partialBytesAcked := n\<rparr>) = v s" "v (s\<lparr>fastRecoveryExit := e\<rparr>) = v s"
    "v (s\<lparr>fastRecoveryTransmit := b\<rparr>) = v s" "v (s\<lparr>forwardTsnChunk := f\<rparr>) = v s"
    "v (s\<lparr>advancedPeerAckTsn := n\<rparr>) = v s" "v (s\<lparr>lastSackedTsn := n\<rparr>) = v s"
    "v (s\<lparr>srtt := r\<rparr>) = v s" "v (s\<lparr>rttvar := r\<rparr>) = v s" "v (s\<lparr>rto := x\<rparr>) = v s"
begin

lemma flightSize_v [simp]: "v (flightSizeIncrease c s) = v s" "v (flightSizeDecrease c s) = v s"
  by (simp_all add: flightSizeIncrease_def flightSizeDecrease_def)

lemma updateRto_v [simp]: "v (updateRto R s) = v s"
  by (simp add: updateRto_def Let_def split: prod.splits)

lemma maybeAbandon_v [simp]: "v (snd (maybeAbandon env i s)) = v s"
  by (simp add: maybeAbandon_def Let_def split: option.splits)

lemma updateAdvancedPeerAckPoint_v [simp]: "v (updateAdvancedPeerAckPoint s) = v s"
  by (simp add: updateAdvancedPeerAckPoint_def Let_def split: prod.splits)

lemma retransmit_loop_v [simp]: "v (snd (retransmit_loop env cw e q s)) = v s"
  by (induction q arbitrary: e s) (simp_all add: Let_def prod.case_eq_if)

lemma send_forward_tsn_v [simp]: "v (send_forward_tsn env s) = v s"
  by (simp add: send_forward_tsn_def Let_def split: option.split)

lemma ack_loop_v [simp]: "v (snd (snd (ack_loop env d b q s))) = v s"
  by (induction q arbitrary: d b s) (simp_all add: Let_def split: option.split)

lemma gap_ack_loop_v [simp]: "v (snd (snd (snd (gap_ack_loop h seen hna b q s)))) = v s"
  by (induction q arbitrary: hna b s) (simp_all add: prod.case_eq_if)

lemma upd_sent_v [simp]: "v (upd_sent i f s) = v s"
  by (simp add: upd_sent_def)

lemma strike_v [simp]: "v (snd (strike env i s)) = v s"
  by (simp add: strike_def Let_def prod.case_eq_if)

lemma strike_loop_v [simp]: "v (snd (strike_loop env hna seen is l s)) = v s"
proof (induction env hna seen "is" l s rule: strike_loop.induct)
  case (2 env hna seen i js l s)
  then show ?case by (simp add: prod.case_eq_if)
qed simp

lemma handle_gaps_v [simp]: "v (snd (snd (handle_gaps env c b s))) = v s"
  by (simp add: handle_gaps_def Let_def prod.case_eq_if)

lemma adjust_cwnd_v [simp]: "v (adjust_cwnd c d b f l s) = v s"
  by (simp add: adjust_cwnd_def Let_def split: option.splits)

lemma mark_retransmit_v [simp]: "v (mark_retransmit env i s) = v s"
  by (simp add: mark_retransmit_def Let_def prod.case_eq_if)

lemma foldl_mark_retransmit_v [simp]: "v (foldl (\<lambda>s i. mark_retransmit env i s) s is) = v s"
  by (induction "is" arbitrary: s) simp_all

end

text \<open>Views that do not depend on what \<^verbatim>\<open>transmit\<close> writes.\<close>

locale transmit_free_view = ack_free_view +
  assumes transmit_indep [simp]: "v (s\<lparr>outboundQueue := q\<rparr>) = v s"
    "v (s\<lparr>transmitting := b\<rparr>) = v s" "v (s\<lparr>transmitRequested := b\<rparr>) = v s"
    "v (s\<lparr>peerAdvertisedRwnd := n\<rparr>) = v s" "v (s\<lparr>sendWaiters := w\<rparr>) = v s"
begin

lemma resolveSendWaiters_v [simp]: "v (resolveSendWaiters c s) = v s"
  by (simp add: resolveSendWaiters_def split: list.splits)

lemma drain_loop_v [simp]: "v (drain_loop env cw q s) = v s"
  by (induction q arbitrary: s) (simp_all add: Let_def)

lemma transmitOnce_v [simp]: "v (transmitOnce env s) = v s"
  by (simp add: transmitOnce_def Let_def prod.case_eq_if split: option.split)

lemma transmit_v [simp]: "v (transmit env s) = v s"
  by (simp add: transmit_def Let_def)

lemma receiveSackChunk_v [simp]: "v (receiveSackChunk env c s) = v s"
  by (simp add: receiveSackChunk_def Let_def prod.case_eq_if)

lemma timer3Expired_v [simp]: "v (timer3Expired env s) = v s"
  by (simp add: timer3Expired_def Let_def)

end

text \<open>Views that do not depend on what \<^verbatim>\<open>send\<close> writes.\<close>

locale send_free_view = transmit_free_view +
  assumes snd_indep [simp]: "v (s\<lparr>localTsn := n\<rparr>) = v s" "v (s\<lparr>nextId := k\<rparr>) = v s" "v (s\<lparr>outboundStreamSeq := m\<rparr>) = v s"
begin

lemma send_v [simp]: "v (send env sid ppid data e r ord s) = v s"
  by (simp add: send_def Let_def)

lemma sendResetRequest_v [simp]: "v (sendResetRequest env sid s) = v s"
  by (simp add: sendResetRequest_def Let_def)

end

section \<open>The frame rules of the fields\<close>

interpretation conn_inboundStreamMap: conn_view inboundStreamMap
  by unfold_locales (simp_all)
interpretation send_free_inboundStreamMap: send_free_view inboundStreamMap
  by unfold_locales (simp_all)
interpretation conn_advertisedRwnd: conn_view advertisedRwnd
  by unfold_locales (simp_all)
interpretation send_free_advertisedRwnd: send_free_view advertisedRwnd
  by unfold_locales (simp_all)
interpretation conn_flightSize: conn_view flightSize
  by unfold_locales (simp_all)
interpretation recv_free_flightSize: recv_free_view flightSize
  by unfold_locales (simp_all)
interpretation conn_maxPayloadSize: conn_view maxPayloadSize
  by unfold_locales (simp_all)
interpretation recv_free_maxPayloadSize: recv_free_view maxPayloadSize
  by unfold_locales (simp_all)
interpretation send_free_maxPayloadSize: send_free_view maxPayloadSize
  by unfold_locales (simp_all)
interpretation conn_cwnd: conn_view cwnd
  by unfold_locales (simp_all)
interpretation recv_free_cwnd: recv_free_view cwnd
  by unfold_locales (simp_all)
interpretation conn_rto: conn_view rto
  by unfold_locales (simp_all)
interpretation recv_free_rto: recv_free_view rto
  by unfold_locales (simp_all)
interpretation conn_sentQueue: conn_view sentQueue
  by unfold_locales (simp_all)
interpretation recv_free_sentQueue: recv_free_view sentQueue
  by unfold_locales (simp_all)
interpretation conn_outboundQueue: conn_view outboundQueue
  by unfold_locales (simp_all)
interpretation recv_free_outboundQueue: recv_free_view outboundQueue
  by unfold_locales (simp_all)
interpretation conn_nextId: conn_view nextId
  by unfold_locales (simp_all)
interpretation recv_free_nextId: recv_free_view nextId
  by unfold_locales (simp_all)
interpretation recv_free_sendWaiters: recv_free_view sendWaiters
  by unfold_locales (simp_all)
interpretation recv_free_isStopped: recv_free_view isStopped
  by unfold_locales (simp_all add: isStopped_def)
interpretation send_free_isStopped: send_free_view isStopped
  by unfold_locales (simp_all add: isStopped_def)
interpretation recv_free_associationState: recv_free_view associationState
  by unfold_locales (simp_all)
interpretation send_free_associationState: send_free_view associationState
  by unfold_locales (simp_all)
interpretation conn_isServer: conn_view isServer
  by unfold_locales (simp_all)
interpretation recv_free_isServer: recv_free_view isServer
  by unfold_locales (simp_all)
interpretation send_free_isServer: send_free_view isServer
  by unfold_locales (simp_all)
interpretation conn_hmacKey: conn_view hmacKey
  by unfold_locales (simp_all)
interpretation recv_free_hmacKey: recv_free_view hmacKey
  by unfold_locales (simp_all)
interpretation send_free_hmacKey: send_free_view hmacKey
  by unfold_locales (simp_all)
interpretation ack_free_outboundQueue: ack_free_view outboundQueue
  by unfold_locales simp_all
interpretation ack_free_sendWaiters: ack_free_view sendWaiters
  by unfold_locales simp_all
interpretation transmit_free_localTsn: transmit_free_view localTsn
  by unfold_locales simp_all
interpretation transmit_free_outboundStreamSeq: transmit_free_view outboundStreamSeq
  by unfold_locales simp_all
interpretation conn_transmitting: conn_view transmitting
  by unfold_locales (simp_all)
interpretation recv_free_transmitting: recv_free_view transmitting
  by unfold_locales (simp_all)
interpretation conn_peerAdvertisedRwnd: conn_view peerAdvertisedRwnd
  by unfold_locales (simp_all)
interpretation recv_free_peerAdvertisedRwnd: recv_free_view peerAdvertisedRwnd
  by unfold_locales (simp_all)

end
