(* ===== verification/Sctp_Invariant.thy ===== *)
theory Sctp_Invariant
  imports Sctp_Frame "HOL-Library.Sublist"
begin

text \<open>
  The life of an association as a step relation over the handlers, and the invariants of its
  reachable states: the receive window, the congestion window and the amount in flight, the
  pending \<^verbatim>\<open>send()\<close> calls, and the states the association can be in.
\<close>

lemma sendChunk_logged_out: obtains x where "sendChunk_logged env c s = s\<lparr>out := x\<rparr>"
proof
  show "sendChunk_logged env c s = s\<lparr>out := out (sendChunk_logged env c s)\<rparr>"
    by (auto simp: sendChunk_logged_def sendChunk_def emit_def split: option.splits sum.splits)
qed

section \<open>Steps\<close>

text \<open>One step: a call of the application, a packet, a timer that is armed, or a queued
  callback.  The environment (clock, transport, HMAC) may differ in every step.\<close>

inductive sctp_step :: "sctp \<Rightarrow> sctp \<Rightarrow> bool" where
  step_start: "sctp_step s (start env remote s)"
| step_data: "transportAttached s \<Longrightarrow> handleData env data s = Some (e, s') \<Longrightarrow> sctp_step s s'"
| step_send: "sctp_step s (send env sid ppid data expi retr ordered s)"
| step_reset: "sctp_step s (snd (transmitReconfigRequest env (s\<lparr>reconfigQueue := reconfigQueue s @ [sid]\<rparr>)))"
| step_reset_request: "sctp_step s (sendResetRequest env sid s)"
| step_remotePort: "sctp_step s (setRemotePort port s)"
| step_heartbeatInterval: "sctp_step s (snd (setHeartbeatInterval i s))"
| step_stop: "sctp_step s (stop env s)"
| step_abort: "sctp_step s (abort env s)"
| step_timer1: "timer1Handle s \<noteq> None \<Longrightarrow> sctp_step s (timer1Expired s)"
| step_timer2: "timer2Handle s \<noteq> None \<Longrightarrow> sctp_step s (timer2Expired s)"
| step_timer3: "timer3Handle s \<noteq> None \<Longrightarrow> sctp_step s (timer3Expired env s)"
| step_timerReconfig: "timerReconfigHandle s \<noteq> None \<Longrightarrow> sctp_step s (snd (timerReconfigHandleExpired env s))"
| step_heartbeat: "timerHeartbeatHandle s \<noteq> None \<Longrightarrow> sctp_step s (snd (timerHeartbeatExpired env s))"
| step_sackTimeout: "sackTimeout s \<noteq> None \<Longrightarrow> sctp_step s (sackTimeoutExpired env s)"
| step_immediate: "sctp_step s (runImmediate env s)"

inductive sctp_reachable :: "sctp \<Rightarrow> bool" where
  reach_new: "new_SCTP port mtu key tag tsn0 = Inr s \<Longrightarrow> sctp_reachable s"
| reach_client: "SCTP_client port mtu key tag tsn0 = Inr s \<Longrightarrow> sctp_reachable s"
| reach_server: "SCTP_server port mtu key tag tsn0 = Inr s \<Longrightarrow> sctp_reachable s"
| reach_step: "sctp_reachable s \<Longrightarrow> sctp_step s s' \<Longrightarrow> sctp_reachable s'"

text \<open>An invariant of the association: it holds initially and every handler keeps it.  The
  handlers are grouped the way \<^verbatim>\<open>receiveChunk\<close> dispatches.\<close>

locale association_invariant =
  fixes I :: "sctp \<Rightarrow> bool"
  assumes new: "new_SCTP port mtu key tag tsn0 = Inr s \<Longrightarrow> I (s\<lparr>isServer := b\<rparr>)"
    and out_i [simp]: "I (s\<lparr>out := x\<rparr>) = I s"
    and misc_i [simp]: "I (s\<lparr>started := b\<rparr>) = I s" "I (s\<lparr>remotePort := p\<rparr>) = I s" "I (s\<lparr>heartbeatInterval := h\<rparr>) = I s"
      "I (s\<lparr>reconfigQueue := q\<rparr>) = I s" "I (s\<lparr>reconfigRequestSeq := n\<rparr>) = I s" "I (s\<lparr>reconfigRequest := r\<rparr>) = I s"
      "I (s\<lparr>reconfigResponseSeq := n\<rparr>) = I s" "I (s\<lparr>inboundStreamsCount := n\<rparr>) = I s"
      "I (s\<lparr>outboundStreamsCount := n\<rparr>) = I s" "I (s\<lparr>remoteVerificationTag := n\<rparr>) = I s"
      "I (s\<lparr>ssthresh := th\<rparr>) = I s" "I (s\<lparr>peerAdvertisedRwnd := n\<rparr>) = I s" "I (s\<lparr>lastReceivedTsn := l\<rparr>) = I s"
      "I (s\<lparr>remotePartialReliability := b\<rparr>) = I s" "I (s\<lparr>remoteExtensions := xs\<rparr>) = I s"
      "I (s\<lparr>transportAttached := b\<rparr>) = I s" "I (s\<lparr>outboundStreamSeq := m\<rparr>) = I s"
      "I (s\<lparr>sackHasNewDataInPacket := b\<rparr>) = I s" "I (s\<lparr>sackPacketCount := n\<rparr>) = I s" "I (s\<lparr>sackImmediate := b\<rparr>) = I s"
      "I (s\<lparr>connectionState := k\<rparr>) = I s"
    and timers: "timer_view I"
    and setState_i: "st \<noteq> SHUTDOWN_ACK_SENT \<Longrightarrow> I s \<Longrightarrow> I (setState st s)"
    and stopping_i: "I s \<Longrightarrow> I (setState CLOSED (s\<lparr>isStopping := True, transportAttached := False, sackTimeout := None, out := x\<rparr>))"
    and rto_initial_i: "I s \<Longrightarrow> I (s\<lparr>rto := SCTP_RTO_INITIAL\<rparr>)"
    and rto_backoff_i: "I s \<Longrightarrow> I (s\<lparr>rto := of_int \<lceil>rto s * (3 / 2)\<rceil>\<rparr>)"
    and close_inbound_i: "I s \<Longrightarrow> I (s\<lparr>inboundStreamMap := AList.delete sid (inboundStreamMap s)\<rparr>)"
    and data_i: "I s \<Longrightarrow> I (snd (receiveDataChunk c s))"
    and forward_i: "I s \<Longrightarrow> I (receiveForwardTsnChunk f s)"
    and sack_i: "I s \<Longrightarrow> I (receiveSackChunk env sk s)"
    and schedule_i: "I s \<Longrightarrow> I (scheduleSack env s)" "I s \<Longrightarrow> I (sendSack env s)"
    and send_i: "I s \<Longrightarrow> I (send env sid ppid data expi retr ordered s)"
    and reset_i: "I s \<Longrightarrow> I (sendResetRequest env sid s)"
    and timer3_i: "I s \<Longrightarrow> I (timer3Expired env s)"
begin

lemmas timer_simps [simp] = timer_view.timer1_v [OF timers] timer_view.timer2_v [OF timers]
  timer_view.timerReconfig_v [OF timers] timer_view.heartbeat_v [OF timers]
  timer_view.t1 [OF timers] timer_view.t2 [OF timers] timer_view.t3 [OF timers] timer_view.tr [OF timers]
  timer_view.th [OF timers] timer_view.tsack [OF timers] timer_view.tim [OF timers]

lemma out_view_I: "out_view I"
  by unfold_locales simp

lemmas out_simps [simp] = out_view.emit_v [OF out_view_I] out_view.sendChunk_v [OF out_view_I]
  out_view.sendChunk_logged_v [OF out_view_I]

lemma andThen_i: "I (snd r) \<Longrightarrow> (\<And>s. I s \<Longrightarrow> I (snd (f s))) \<Longrightarrow> I (snd (andThen r f))"
  by (auto simp: andThen_def split: prod.splits option.splits)

lemma sendReconfigParam_i [simp]: "I (snd (sendReconfigParam env p s)) = I s"
  by (simp add: sendReconfigParam_def split: sum.split)

lemma transmitReconfigRequest_i: "I s \<Longrightarrow> I (snd (transmitReconfigRequest env s))"
  by (auto simp: transmitReconfigRequest_def Let_def intro!: andThen_i)

lemma foldl_close_inbound_i: "I s \<Longrightarrow> I (foldl close_inbound s sids)"
  by (induction sids arbitrary: s)
    (auto simp: close_inbound_def Let_def close_inbound_i split: option.splits)

lemma receiveReconfigParam_i: "I s \<Longrightarrow> I (snd (receiveReconfigParam env p s))"
proof (cases p)
  case (OutgoingSSNResetRequestParam a b c d)
  then show "I s \<Longrightarrow> ?thesis"
    by (auto simp: receiveReconfigParam_def Let_def intro!: andThen_i transmitReconfigRequest_i foldl_close_inbound_i)
next
  case (StreamAddOutgoingParam a b)
  then show "I s \<Longrightarrow> ?thesis" by (simp add: receiveReconfigParam_def Let_def)
next
  case (ReconfigResponseParam a b)
  then show "I s \<Longrightarrow> ?thesis"
    by (auto simp: receiveReconfigParam_def Let_def rto_initial_i intro!: transmitReconfigRequest_i split: option.split)
qed

lemma reconfig_params_i: "I s \<Longrightarrow> I (snd (reconfig_params env ps s))"
  by (induction env ps s rule: reconfig_params.induct)
    (auto intro!: andThen_i receiveReconfigParam_i split: option.splits sum.splits)

lemma getExtensions_i [simp]: "I (getExtensions ps s) = I s"
  unfolding getExtensions_def by (induction ps arbitrary: s) (auto split: prod.splits)

lemma learn_peer_i [simp]: "I (learn_peer c s) = I s"
  by (simp add: learn_peer_def Let_def)

lemma receiveChunk_i: "I s \<Longrightarrow> I (snd (receiveChunk env c s))"
proof (cases c)
  case (InitChunk x)
  then show "I s \<Longrightarrow> ?thesis" by (simp add: receiveInit_def Let_def split: sum.split)
next
  case (InitAckChunk x)
  then show "I s \<Longrightarrow> ?thesis" by (auto simp: receiveInitAck_def Let_def setState_i intro!: andThen_i)
next
  case (ShutdownChunk x y)
  then show "I s \<Longrightarrow> ?thesis" by (auto simp: receiveShutdown_def Let_def setState_i intro!: andThen_i)
next
  case (CookieEchoChunk x y)
  then show "I s \<Longrightarrow> ?thesis" by (simp add: receiveCookieEcho_def setState_i split: sum.split)
qed (simp_all add: data_i sack_i forward_i setState_i reconfig_params_i)

lemma receive_chunks_i: "I s \<Longrightarrow> I (snd (receive_chunks env cs s))"
  by (induction env cs s rule: receive_chunks.induct) (auto intro!: andThen_i receiveChunk_i)

lemma sack_after_packet_i: "I s \<Longrightarrow> I (snd (sack_after_packet env s))"
  by (auto simp: sack_after_packet_def Let_def intro!: schedule_i)

lemma handleData_i:
  assumes "I s" and "handleData env data s = Some (e, s')"
  shows "I s'"
proof -
  have "I (snd (andThen (receive_chunks env cs (s\<lparr>sackHasNewDataInPacket := False\<rparr>)) (sack_after_packet env)))" for cs
    using assms(1) by (intro andThen_i receive_chunks_i sack_after_packet_i) auto
  then have "I t" if "andThen (receive_chunks env cs (s\<lparr>sackHasNewDataInPacket := False\<rparr>)) (sack_after_packet env) = (x, t)" for cs x t
    using that by (metis snd_conv)
  then show ?thesis
    using assms by (auto simp: handleData_def Let_def split: if_splits option.splits sum.splits)
qed

lemma start_i: "I s \<Longrightarrow> I (start env remote s)"
  by (auto simp: start_def init_def Let_def setConnectionState_def setRemotePort_def setState_i intro!: andThen_i split: option.split)

lemma stop_i: "I s \<Longrightarrow> I (stop env s)"
proof -
  let ?s = "s\<lparr>isStopping := True, transportAttached := False, sackTimeout := None\<rparr>"
  assume i: "I s"
  obtain x where "sendChunk_logged env (AbortChunk 0 []) ?s = ?s\<lparr>out := x\<rparr>" by (rule sendChunk_logged_out)
  moreover have "?s = ?s\<lparr>out := out s\<rparr>" by simp
  ultimately show ?thesis
    using stopping_i [OF i, of x] stopping_i [OF i, of "out s"] i by (auto simp: stop_def abort_def Let_def setState_i)
qed

lemma step_i: "sctp_step s s' \<Longrightarrow> I s \<Longrightarrow> I s'"
proof (induction rule: sctp_step.induct)
  case (step_timer1 s)
  then show ?case by (auto simp: timer1Expired_def Let_def setState_i)
next
  case (step_timer2 s)
  then show ?case by (auto simp: timer2Expired_def Let_def setState_i)
next
  case (step_timerReconfig s env)
  have "I (s\<lparr>timerReconfigFailures := timerReconfigFailures s + 1, rto := of_int \<lceil>rto s * (3 / 2)\<rceil>\<rparr>)"
    using rto_backoff_i [of "s\<lparr>timerReconfigFailures := timerReconfigFailures s + 1\<rparr>"] step_timerReconfig by simp
  then show ?case using step_timerReconfig
    by (auto simp: timerReconfigHandleExpired_def Let_def setState_i intro!: andThen_i split: option.split)
next
  case (step_heartbeat s env)
  then show ?case by (auto simp: timerHeartbeatExpired_def Let_def intro!: andThen_i split: sum.split)
next
  case (step_immediate s env)
  then show ?case by (auto simp: runImmediate_def Let_def split: list.split immediate.split option.split)
qed (auto simp: handleData_i start_i stop_i send_i reset_i transmitReconfigRequest_i setRemotePort_def setHeartbeatInterval_def
    abort_def sackTimeoutExpired_def timer3_i schedule_i)

lemma reachable_i: "sctp_reachable s \<Longrightarrow> I s"
proof (induction rule: sctp_reachable.induct)
  case (reach_new port mtu key tag tsn0 s)
  then show ?case using new [OF reach_new, of "isServer s"] by simp
next
  case (reach_client port mtu key tag tsn0 s)
  then show ?case by (auto simp: SCTP_client_def rbind_def new split: sum.splits)
next
  case (reach_server port mtu key tag tsn0 s)
  then show ?case by (auto simp: SCTP_server_def rbind_def new split: sum.splits)
next
  case (reach_step s s')
  then show ?case by (simp add: step_i)
qed

end

section \<open>The receive window\<close>

lemma rwnd_delete:
  "distinct (map fst m) \<Longrightarrow> distinct (map fst (AList.delete k m)) \<and>
   sum_list (map (\<lambda>(_, st). buffered st) (AList.delete k m)) \<le> sum_list (map (\<lambda>(_, st). buffered st) m)"
  by (induction m) (auto simp: AList.delete_eq)

lemma rwnd_inv_delete: "rwnd_inv s \<Longrightarrow> rwnd_inv (s\<lparr>inboundStreamMap := AList.delete sid (inboundStreamMap s)\<rparr>)"
  using rwnd_delete [of "inboundStreamMap s" sid] by (auto simp: rwnd_inv_def buffered_total_def)

lemma new_SCTP_rwnd: "new_SCTP port mtu key tag tsn0 = Inr s \<Longrightarrow> rwnd_inv s"
  by (auto simp: new_SCTP_def rbind_def Let_def rwnd_inv_def buffered_total_def split: sum.splits)

lemma rwnd_view:
  "inboundStreamMap s' = inboundStreamMap s \<and> advertisedRwnd s' = advertisedRwnd s \<Longrightarrow> rwnd_inv s \<Longrightarrow> rwnd_inv s'"
  by (simp add: rwnd_inv_def buffered_total_def)

lemma sendSack_rwnd [simp]:
  "inboundStreamMap (sendSack env s) = inboundStreamMap s" "advertisedRwnd (sendSack env s) = advertisedRwnd s"
  by (simp_all add: sendSack_def Let_def split: option.split)

lemma scheduleSack_rwnd [simp]:
  "inboundStreamMap (scheduleSack env s) = inboundStreamMap s" "advertisedRwnd (scheduleSack env s) = advertisedRwnd s"
  by (simp_all add: scheduleSack_def)

interpretation rwnd: association_invariant rwnd_inv
proof unfold_locales
  show "rwnd_inv s \<Longrightarrow> rwnd_inv (snd (receiveDataChunk c s))" for s c by (rule receiveDataChunk_rwnd)
  show "rwnd_inv s \<Longrightarrow> rwnd_inv (receiveForwardTsnChunk f s)" for s f by (rule receiveForwardTsnChunk_rwnd)
  show "rwnd_inv s \<Longrightarrow> rwnd_inv (s\<lparr>inboundStreamMap := AList.delete sid (inboundStreamMap s)\<rparr>)" for s sid
    by (rule rwnd_inv_delete)
  show "new_SCTP port mtu key tag tsn0 = Inr s \<Longrightarrow> rwnd_inv (s\<lparr>isServer := b\<rparr>)" for port mtu key tag tsn0 s b
    using new_SCTP_rwnd [of port mtu key tag tsn0 s] by (simp add: rwnd_inv_def buffered_total_def)
qed (auto intro: rwnd_view simp: rwnd_inv_def buffered_total_def)

section \<open>Flow and congestion control\<close>

definition chunk_ok :: "int \<Rightarrow> data_chunk \<Rightarrow> bool" where
  "chunk_ok mp c \<longleftrightarrow> 0 \<le> bookSize c \<and> bookSize c \<le> mp"

definition sent_ok :: "int \<Rightarrow> data_chunk \<Rightarrow> bool" where
  "sent_ok mp c \<longleftrightarrow> chunk_ok mp c \<and> sentTime c \<noteq> None"

text \<open>The part of the invariant that does not speak of the sent queue, and the whole.\<close>

definition flow_core :: "sctp \<Rightarrow> bool" where
  "flow_core s \<longleftrightarrow> 0 \<le> flightSize s \<and> 0 < maxPayloadSize s \<and> maxPayloadSize s \<le> cwnd s \<and> 1 \<le> rto s \<and>
     list_all (chunk_ok (maxPayloadSize s)) (outboundQueue s)"

definition flow_inv :: "sctp \<Rightarrow> bool" where
  "flow_inv s \<longleftrightarrow> flow_core s \<and> list_all (sent_ok (maxPayloadSize s)) (sentQueue s)"

interpretation conn_flow_core: conn_view flow_core
  by unfold_locales (simp_all add: flow_core_def)
interpretation recv_free_flow_core: recv_free_view flow_core
  by unfold_locales (simp_all add: flow_core_def)
interpretation conn_flow_inv: conn_view flow_inv
  by unfold_locales (simp_all add: flow_inv_def)
interpretation recv_free_flow_inv: recv_free_view flow_inv
  by unfold_locales (simp_all add: flow_inv_def)

lemma flow_core_sel [simp]:
  "flow_core (s\<lparr>sentQueue := q\<rparr>) = flow_core s" "flow_core (s\<lparr>forwardTsnChunk := f\<rparr>) = flow_core s"
  "flow_core (s\<lparr>fastRecoveryTransmit := b\<rparr>) = flow_core s" "flow_core (s\<lparr>fastRecoveryExit := e\<rparr>) = flow_core s"
  "flow_core (s\<lparr>transmitting := b\<rparr>) = flow_core s" "flow_core (s\<lparr>transmitRequested := b\<rparr>) = flow_core s"
  "flow_core (s\<lparr>ssthresh := th\<rparr>) = flow_core s" "flow_core (s\<lparr>partialBytesAcked := n\<rparr>) = flow_core s"
  "flow_core (s\<lparr>lastSackedTsn := n\<rparr>) = flow_core s" "flow_core (s\<lparr>peerAdvertisedRwnd := n\<rparr>) = flow_core s"
  "flow_core (s\<lparr>advancedPeerAckTsn := n\<rparr>) = flow_core s" "flow_core (s\<lparr>localTsn := n\<rparr>) = flow_core s"
  "flow_core (s\<lparr>nextId := k\<rparr>) = flow_core s" "flow_core (s\<lparr>outboundStreamSeq := m\<rparr>) = flow_core s"
  by (simp_all add: flow_core_def)

lemma sent_ok_upd [simp]:
  "sent_ok mp (c\<lparr>misses := n\<rparr>) = sent_ok mp c" "sent_ok mp (c\<lparr>retransmit := b\<rparr>) = sent_ok mp c"
  "sent_ok mp (c\<lparr>sentCount := n\<rparr>) = sent_ok mp c" "sent_ok mp (c\<lparr>acked := b\<rparr>) = sent_ok mp c"
  "sent_ok mp (abandon c) = sent_ok mp c"
  by (simp_all add: sent_ok_def chunk_ok_def abandon_def)

lemma flightSize_core [intro]:
  "flow_core s \<Longrightarrow> chunk_ok (maxPayloadSize s) c \<Longrightarrow> flow_core (flightSizeIncrease c s)"
  "flow_core s \<Longrightarrow> flow_core (flightSizeDecrease c s)"
  by (auto simp: flow_core_def flightSizeIncrease_def flightSizeDecrease_def chunk_ok_def)

lemma sent_chunk_ok: "sent_ok mp c \<Longrightarrow> chunk_ok mp c"
  by (simp add: sent_ok_def)

lemma updateRto_core [simp]: "flow_core s \<Longrightarrow> flow_core (updateRto R s)"
  by (auto simp: flow_core_def updateRto_def SCTP_RTO_MIN_def Let_def split: prod.splits)

lemma updateRto_sentQueue [simp]: "sentQueue (updateRto R s) = sentQueue s"
  by (simp add: updateRto_def Let_def split: prod.splits)

lemma flightSize_sentQueue [simp]:
  "sentQueue (flightSizeIncrease c s) = sentQueue s" "sentQueue (flightSizeDecrease c s) = sentQueue s"
  by (simp_all add: flightSizeIncrease_def flightSizeDecrease_def)

lemma retransmit_loop_flow:
  "flow_core s \<Longrightarrow> list_all (sent_ok (maxPayloadSize s)) q \<Longrightarrow>
   flow_core (snd (retransmit_loop env cw e q s)) \<and>
   list_all (sent_ok (maxPayloadSize s)) (fst (retransmit_loop env cw e q s))"
proof (induction q arbitrary: e s)
  case Nil
  then show ?case by simp
next
  case (Cons c q)
  let ?c = "c\<lparr>misses := 0, retransmit := False, sentCount := sentCount c + 1\<rparr>"
  let ?s1 = "flightSizeIncrease c (if fastRecoveryTransmit s then s\<lparr>fastRecoveryTransmit := False\<rparr> else s)"
  have s1: "flow_core ?s1" using Cons.prems by (intro flightSize_core) (auto simp: sent_chunk_ok)
  let ?s2 = "sendChunk_logged env (DataChunk ?c) ?s1"
  let ?s3 = "if e then timer3Restart ?s2 else ?s2"
  have "flow_core ?s3" "maxPayloadSize ?s3 = maxPayloadSize s" using s1 by auto
  with Cons.IH [of ?s3 False] Cons.IH [of s False] Cons.prems show ?case
    by (simp add: Let_def prod.case_eq_if)
qed

lemma resolveSendWaiters_flow [simp]:
  "flow_inv (resolveSendWaiters c s) = flow_inv s" "maxPayloadSize (resolveSendWaiters c s) = maxPayloadSize s"
  "sentQueue (resolveSendWaiters c s) = sentQueue s" "outboundQueue (resolveSendWaiters c s) = outboundQueue s"
  "flightSize (resolveSendWaiters c s) = flightSize s"
  "flow_core (resolveSendWaiters c s) = flow_core s"
  by (simp_all add: resolveSendWaiters_def flow_inv_def flow_core_def split: list.split)

text \<open>One iteration of the drain loop.\<close>

definition drain_one :: "env \<Rightarrow> data_chunk \<Rightarrow> data_chunk list \<Rightarrow> sctp \<Rightarrow> sctp" where
  "drain_one env c q s =
     (let s = s\<lparr>outboundQueue := q\<rparr>;
          c' = c\<lparr>sentCount := sentCount c + 1, sentTime := Some (now_seconds env)\<rparr>;
          s = s\<lparr>sentQueue := sentQueue s @ [c']\<rparr>;
          s = resolveSendWaiters c s;
          s = flightSizeIncrease c s;
          s = sendChunk_logged env (DataChunk c') s
      in if timer3Handle s = None then snd (timer3Start s) else s)"

lemma drain_loop_Cons:
  "drain_loop env cw (c # q) s =
     (if \<not> (flightSize s < cw \<and> peerRwnd s > 0) then s
      else if bookSize c > peerRwnd s \<and> flightSize s > 0 then s
      else drain_loop env cw q (drain_one env c q s))"
  by (simp add: drain_one_def Let_def)

lemma flightSizeIncrease_outboundQueue [simp]:
  "outboundQueue (flightSizeIncrease c s) = outboundQueue s" "maxPayloadSize (flightSizeIncrease c s) = maxPayloadSize s"
  by (simp_all add: flightSizeIncrease_def)

lemma drain_one_queues [simp]:
  "outboundQueue (drain_one env c q s) = q" "maxPayloadSize (drain_one env c q s) = maxPayloadSize s"
  "sentQueue (drain_one env c q s) = sentQueue s @ [c\<lparr>sentCount := sentCount c + 1, sentTime := Some (now_seconds env)\<rparr>]"
  "flightSize (drain_one env c q s) = flightSize s + bookSize c"
  "peerAdvertisedRwnd (drain_one env c q s) = peerAdvertisedRwnd s"
  by (simp_all add: drain_one_def Let_def)
    (simp_all add: flightSizeIncrease_def resolveSendWaiters_def emit_def split: list.split)

lemma drain_one_flow:
  assumes "flow_inv s" and "outboundQueue s = c # q"
  shows "flow_inv (drain_one env c q s)"
proof -
  have c: "chunk_ok (maxPayloadSize s) c" and q: "flow_core (s\<lparr>outboundQueue := q\<rparr>)"
    using assms by (auto simp: flow_inv_def flow_core_def)
  have "flow_core (drain_one env c q s)"
    using q c by (auto simp: drain_one_def Let_def intro!: flightSize_core(1))
  moreover have "list_all (sent_ok (maxPayloadSize s)) (sentQueue (drain_one env c q s))"
    using assms(1) c by (simp add: flow_inv_def sent_ok_def chunk_ok_def)
  ultimately show ?thesis by (simp add: flow_inv_def)
qed

lemma drain_loop_flow: "flow_inv s \<Longrightarrow> outboundQueue s = q \<Longrightarrow> flow_inv (drain_loop env cw q s)"
proof (induction q arbitrary: s)
  case (Cons c q)
  then show ?case using drain_one_flow [of s c q env] by (simp add: drain_loop_Cons del: drain_loop.simps)
qed simp

lemma transmitOnce_flow: "flow_inv s \<Longrightarrow> flow_inv (transmitOnce env s)"
proof -
  assume i: "flow_inv s"
  show ?thesis
  proof (cases "isStopped s")
    case False
    define s1 where "s1 = send_forward_tsn env s"
    define cw where "cw = burst_cwnd s1"
    obtain q s2 where r: "retransmit_loop env cw True (sentQueue s1) s1 = (q, s2)" by fastforce
    have "flow_inv s1" using i by (auto simp: s1_def send_forward_tsn_def flow_inv_def Let_def split: option.split)
    then have "flow_core s2" "list_all (sent_ok (maxPayloadSize s1)) q"
      using retransmit_loop_flow [of s1 "sentQueue s1" env cw True] r by (auto simp: flow_inv_def)
    moreover have "maxPayloadSize s2 = maxPayloadSize s1"
      using send_free_maxPayloadSize.retransmit_loop_v [of env cw True "sentQueue s1" s1] r by simp
    ultimately have "flow_inv (s2\<lparr>sentQueue := q\<rparr>)" by (simp add: flow_inv_def)
    then have "flow_inv (drain_loop env cw (outboundQueue s2) (s2\<lparr>sentQueue := q\<rparr>))"
      by (intro drain_loop_flow) auto
    moreover have "transmitOnce env s = emit Flush (drain_loop env cw (outboundQueue s2) (s2\<lparr>sentQueue := q\<rparr>))"
      using False r by (simp add: transmitOnce_def s1_def cw_def Let_def)
    ultimately show ?thesis by simp
  qed (use i in \<open>simp add: transmitOnce_def\<close>)
qed

lemma transmit_flow: "flow_inv s \<Longrightarrow> flow_inv (transmit env s)"
  using transmitOnce_flow [of "s\<lparr>transmitting := True, transmitRequested := False\<rparr>" env]
  by (simp add: transmit_def Let_def flow_inv_def)

lemma fragment_loop_ok:
  "0 < mp \<Longrightarrow> list_all (chunk_ok (int mp)) (fragment_loop k n mp proto ordered i t ident data)"
  by (induction k n mp proto ordered i t ident data rule: fragment_loop.induct) (auto simp: chunk_ok_def)

lemma send_flow: "flow_inv s \<Longrightarrow> flow_inv (send env sid ppid data expi retr ordered s)"
proof -
  assume i: "flow_inv s"
  let ?fr = "make_fragments sid ppid data expi retr ordered (if ordered then next_ssn sid s else 0) s"
  have "list_all (chunk_ok (maxPayloadSize s)) ?fr"
    using fragment_loop_ok [of "nat (maxPayloadSize s)"] i
    by (simp add: make_fragments_def Let_def flow_inv_def flow_core_def)
  then show ?thesis using i unfolding send_def Let_def
    by (intro transmit_flow) (auto simp: flow_inv_def flow_core_def)
qed

lemma sendResetRequest_flow: "flow_inv s \<Longrightarrow> flow_inv (sendResetRequest env sid s)"
proof -
  let ?s = "s\<lparr>outboundQueue := outboundQueue s @ [(new_data_chunk (nextId s) 0)\<lparr>streamId := sid\<rparr>], nextId := Suc (nextId s)\<rparr>"
  assume "flow_inv s"
  then have "flow_inv ?s" by (auto simp: flow_inv_def flow_core_def chunk_ok_def new_data_chunk_def)
  then show ?thesis by (auto simp: sendResetRequest_def Let_def transmit_flow)
qed

text \<open>Acknowledgements.\<close>

lemma ack_loop_flow:
  "flow_inv s \<Longrightarrow> sentQueue s = q \<Longrightarrow> 0 \<le> b \<Longrightarrow> ack_loop env d b q s = (d', b', s') \<Longrightarrow> flow_inv s' \<and> 0 \<le> b'"
proof (induction q arbitrary: d b s)
  case Nil
  then show ?case by simp
next
  case (Cons c q)
  let ?s1 = "s\<lparr>sentQueue := q\<rparr>"
  let ?s2 = "if \<not> acked c then flightSizeDecrease c ?s1 else ?s1"
  let ?s3 = "if Suc d = 1 \<and> sentCount c = 1
    then (case sentTime c of None \<Rightarrow> ?s2 | Some t \<Rightarrow> updateRto (now_seconds env - t) ?s2) else ?s2"
  have core: "flow_core s" "list_all (sent_ok (maxPayloadSize s)) (c # q)"
    using Cons.prems by (simp_all add: flow_inv_def)
  have "flow_core ?s3"
    using core by (auto intro!: flightSize_core(2) updateRto_core split: option.split)
  moreover have "sentQueue ?s3 = q" "maxPayloadSize ?s3 = maxPayloadSize s" by (auto split: option.split)
  ultimately have s3: "flow_inv ?s3" unfolding flow_inv_def using core by (simp only: list.pred_inject)
  show ?case
  proof (cases "uint32Gte (lastSackedTsn s) (tsn c)")
    case True
    then have "ack_loop env (Suc d) (if \<not> acked c then b + bookSize c else b) q ?s3 = (d', b', s')"
      using Cons.prems(4) by (auto simp: Let_def split: if_splits)
    moreover have "0 \<le> (if \<not> acked c then b + bookSize c else b)"
      using Cons.prems(3) core by (auto simp: sent_ok_def chunk_ok_def)
    ultimately show ?thesis using Cons.IH [OF s3 \<open>sentQueue ?s3 = q\<close>] by blast
  next
    case False
    with Cons.prems show ?thesis by auto
  qed
qed

lemma gap_ack_loop_flow:
  "flow_core s \<Longrightarrow> list_all (sent_ok (maxPayloadSize s)) q \<Longrightarrow> 0 \<le> b \<Longrightarrow>
   gap_ack_loop h seen hna b q s = (q', hna', b', s') \<Longrightarrow>
   flow_core s' \<and> list_all (sent_ok (maxPayloadSize s)) q' \<and> 0 \<le> b'"
proof (induction q arbitrary: hna b s q' hna' b' s')
  case Nil
  then show ?case by simp
next
  case (Cons c q)
  have b: "0 \<le> b + bookSize c" using Cons.prems by (auto simp: sent_ok_def chunk_ok_def)
  show ?case
  proof (cases "gt_last (tsn c) h")
    case False
    show ?thesis
    proof (cases "tsn c \<in> seen \<and> \<not> acked c")
      case True
      obtain q1 h1 b1 s1 where g: "gap_ack_loop h seen (tsn c) (b + bookSize c) q (flightSizeDecrease c s) = (q1, h1, b1, s1)"
        by (metis prod_cases4)
      have "flow_core s1 \<and> list_all (sent_ok (maxPayloadSize s)) q1 \<and> 0 \<le> b1"
        using Cons.IH [OF _ _ b g] Cons.prems(1,2) by auto
      moreover have "q' = c\<lparr>acked := True\<rparr> # q1" "b' = b1" "s' = s1"
        using Cons.prems(4) False True g by simp_all
      ultimately show ?thesis using Cons.prems(2) by simp
    next
      case nn: False
      obtain q1 h1 b1 s1 where g: "gap_ack_loop h seen hna b q s = (q1, h1, b1, s1)" by (metis prod_cases4)
      have "flow_core s1 \<and> list_all (sent_ok (maxPayloadSize s)) q1 \<and> 0 \<le> b1"
        using Cons.IH [OF _ _ Cons.prems(3) g] Cons.prems(1,2) by auto
      moreover have "q' = c # q1 \<and> b' = b1 \<and> s' = s1" using Cons.prems(4) False nn g by auto
      ultimately show ?thesis using Cons.prems(2) by simp
    qed
  qed (use Cons.prems in auto)
qed

lemma abandon_back_ok:
  "list_all (sent_ok mp) q \<Longrightarrow> p < length q \<Longrightarrow>
   list_all (sent_ok mp) (abandon_back p q) \<and> length (abandon_back p q) = length q"
proof (induction p arbitrary: q)
  case 0
  then show ?case unfolding abandon_back.simps [of 0 q] by (auto simp: Let_def list_all_length nth_list_update)
next
  case (Suc p)
  have "list_all (sent_ok mp) (q[Suc p := abandon (q ! Suc p)])"
    using Suc.prems by (auto simp: list_all_length nth_list_update)
  with Suc show ?case unfolding abandon_back.simps [of "Suc p" q] by (auto simp: Let_def)
qed

lemma abandon_forward_ok:
  "list_all (sent_ok mp) q \<Longrightarrow> list_all (sent_ok mp) (abandon_forward q)"
  "length (abandon_forward q) = length q"
  by (induction q) auto

lemma first_index_less: "first_index P xs = Some i \<Longrightarrow> i < length xs"
  by (induction P xs arbitrary: i rule: first_index.induct) (auto split: if_splits)

lemma maybeAbandon_flow:
  assumes "list_all (sent_ok mp) (sentQueue s)"
  shows "list_all (sent_ok mp) (sentQueue (snd (maybeAbandon env i s)))"
    and "length (sentQueue (snd (maybeAbandon env i s))) = length (sentQueue s)"
    and "flow_core (snd (maybeAbandon env i s)) = flow_core s"
proof -
  have "list_all (sent_ok mp) (take p (abandon_back p (sentQueue s)) @ abandon_forward (drop p (abandon_back p (sentQueue s))))
      \<and> length (take p (abandon_back p (sentQueue s)) @ abandon_forward (drop p (abandon_back p (sentQueue s)))) = length (sentQueue s)"
    if "p < length (sentQueue s)" for p
    using abandon_back_ok [OF assms that] that abandon_forward_ok(1) [of mp "drop p (abandon_back p (sentQueue s))"]
      abandon_forward_ok(2) [of "drop p (abandon_back p (sentQueue s))"]
    by (auto simp: list_all_iff dest: in_set_takeD in_set_dropD)
  then show "list_all (sent_ok mp) (sentQueue (snd (maybeAbandon env i s)))"
    "length (sentQueue (snd (maybeAbandon env i s))) = length (sentQueue s)"
    "flow_core (snd (maybeAbandon env i s)) = flow_core s"
    using assms by (auto simp: maybeAbandon_def Let_def dest!: first_index_less split: option.split)
qed

text \<open>The properties of the sent queue that the loops over its indices keep.\<close>

definition sent_view :: "int \<Rightarrow> nat \<Rightarrow> sctp \<Rightarrow> bool" where
  "sent_view mp n s \<longleftrightarrow> flow_core s \<and> maxPayloadSize s = mp \<and> list_all (sent_ok mp) (sentQueue s) \<and> length (sentQueue s) = n"

lemma upd_sent_view:
  "sent_view mp n s \<Longrightarrow> i < n \<Longrightarrow> (\<And>c. sent_ok mp c \<Longrightarrow> sent_ok mp (f c)) \<Longrightarrow> sent_view mp n (upd_sent i f s)"
  by (auto simp: sent_view_def upd_sent_def list_all_length nth_list_update)

lemma maybeAbandon_view: "sent_view mp n s \<Longrightarrow> sent_view mp n (snd (maybeAbandon env i s))"
  using maybeAbandon_flow [of mp s env i] by (simp add: sent_view_def)

lemma flightSizeDecrease_view: "sent_view mp n s \<Longrightarrow> sent_view mp n (flightSizeDecrease c s)"
  by (auto simp: sent_view_def)

lemma strike_view:
  assumes "sent_view mp n s" "i < n"
  shows "sent_view mp n (snd (strike env i s))"
  using assms unfolding strike_def Let_def prod.case_eq_if
  by (simp add: upd_sent_view maybeAbandon_view flightSizeDecrease_view)

lemma strike_loop_view:
  "sent_view mp n s \<Longrightarrow> \<forall>i \<in> set is. i < n \<Longrightarrow> sent_view mp n (snd (strike_loop env hna seen is l s))"
proof (induction "is" arbitrary: l s)
  case (Cons i js)
  then show ?case using strike_view [of mp n s i env] by (auto simp: prod.case_eq_if)
qed simp

lemma handle_gaps_flow:
  assumes "flow_inv s" "0 \<le> b" "handle_gaps env c b s = (l, b', s')"
  shows "flow_inv s' \<and> 0 \<le> b'"
proof (cases "gaps c = []")
  case False
  let ?seen = "gap_seen (sack_cumulativeTsn c) (gaps c)"
  obtain q hna b1 s1 where g: "gap_ack_loop (highest_seen ?seen) (set ?seen) (sack_cumulativeTsn c) b (sentQueue s) s = (q, hna, b1, s1)"
    by (metis prod_cases4)
  have gf: "flow_core s1" "list_all (sent_ok (maxPayloadSize s)) q" "0 \<le> b1"
    using gap_ack_loop_flow [OF _ _ assms(2) g] assms(1) by (auto simp: flow_inv_def)
  have mp: "maxPayloadSize s1 = maxPayloadSize s"
    using send_free_maxPayloadSize.gap_ack_loop_v [of "highest_seen ?seen" "set ?seen" "sack_cumulativeTsn c" b "sentQueue s" s] g by simp
  have "sent_view (maxPayloadSize s) (length q) (s1\<lparr>sentQueue := q\<rparr>)" using gf mp by (simp add: sent_view_def)
  then have "sent_view (maxPayloadSize s) (length q) (snd (strike_loop env hna (set ?seen) [0..<length q] False (s1\<lparr>sentQueue := q\<rparr>)))"
    by (rule strike_loop_view) simp
  with assms(3) False g gf(3) show ?thesis
    by (auto simp: handle_gaps_def Let_def prod.case_eq_if sent_view_def flow_inv_def)
qed (use assms in \<open>auto simp: handle_gaps_def\<close>)

lemma adjust_cwnd_flow: "flow_inv s \<Longrightarrow> 0 \<le> b \<Longrightarrow> flow_inv (adjust_cwnd c d b u l s)"
  by (auto simp: adjust_cwnd_def Let_def flow_inv_def flow_core_def split: option.split)

lemma abandoned_prefix_subset:
  "abandoned_prefix q ss t n = (ss', t', n', q') \<Longrightarrow> set q' \<subseteq> set q"
  by (induction q ss t n rule: abandoned_prefix.induct) (auto split: if_splits)

lemma updateAdvancedPeerAckPoint_flow: "flow_inv s \<Longrightarrow> flow_inv (updateAdvancedPeerAckPoint s)"
  by (auto simp: updateAdvancedPeerAckPoint_def Let_def flow_inv_def list_all_iff dest!: abandoned_prefix_subset split: prod.splits)

lemma flow_inv_sel [simp]:
  "flow_inv (s\<lparr>lastSackedTsn := n\<rparr>) = flow_inv s" "flow_inv (s\<lparr>peerAdvertisedRwnd := n\<rparr>) = flow_inv s"
  by (simp_all add: flow_inv_def)

lemma receiveSackChunk_flow: "flow_inv s \<Longrightarrow> flow_inv (receiveSackChunk env c s)"
proof -
  assume i: "flow_inv s"
  let ?s0 = "s\<lparr>lastSackedTsn := sack_cumulativeTsn c\<rparr>"
  obtain d b s1 where a: "ack_loop env 0 0 (sentQueue s) ?s0 = (d, b, s1)" by (metis prod_cases3)
  then have s1: "flow_inv s1" "0 \<le> b" using ack_loop_flow [of ?s0 "sentQueue s" 0 env 0] i by auto
  obtain l b' s2 where h: "handle_gaps env c b s1 = (l, b', s2)" by (metis prod_cases3)
  then have s2: "flow_inv s2" "0 \<le> b'" using handle_gaps_flow [OF s1] by auto
  show ?thesis
    unfolding receiveSackChunk_def
    using i s2 by (auto simp: Let_def a h intro!: transmit_flow updateAdvancedPeerAckPoint_flow adjust_cwnd_flow)
qed

lemma mark_retransmit_view:
  "sent_view mp n s \<Longrightarrow> i < n \<Longrightarrow> sent_view mp n (mark_retransmit env i s)"
  by (simp add: mark_retransmit_def prod.case_eq_if maybeAbandon_view upd_sent_view)

lemma foldl_mark_retransmit_view:
  "sent_view mp n s \<Longrightarrow> \<forall>i \<in> set is. i < n \<Longrightarrow> sent_view mp n (foldl (\<lambda>s i. mark_retransmit env i s) s is)"
  by (induction "is" arbitrary: s) (auto simp: mark_retransmit_view)

lemma timer3Expired_flow: "flow_inv s \<Longrightarrow> flow_inv (timer3Expired env s)"
proof -
  assume i: "flow_inv s"
  let ?s1 = "foldl (\<lambda>s i. mark_retransmit env i s) (s\<lparr>timer3Handle := None\<rparr>) [0..<length (sentQueue s)]"
  have "sent_view (maxPayloadSize s) (length (sentQueue s)) (s\<lparr>timer3Handle := None\<rparr>)"
    using i by (simp add: flow_inv_def sent_view_def)
  then have "sent_view (maxPayloadSize s) (length (sentQueue s)) ?s1" by (rule foldl_mark_retransmit_view) simp
  then have "flow_inv ?s1" by (auto simp: flow_inv_def sent_view_def)
  then have u: "flow_inv (updateAdvancedPeerAckPoint ?s1)" by (rule updateAdvancedPeerAckPoint_flow)
  have "flow_inv (t\<lparr>fastRecoveryExit := None, flightSize := 0, partialBytesAcked := 0, ssthresh := th, cwnd := maxPayloadSize t\<rparr>)"
    if "flow_inv t" for t th using that by (simp add: flow_inv_def flow_core_def)
  from transmit_flow [OF this [OF u]] i show ?thesis by (simp add: timer3Expired_def Let_def)
qed

lemma maxPayloadSizeForMtu_nonneg: "0 \<le> maxPayloadSizeForMtu mtu h"
  using zmod_le_nonneg_dividend [of "mtu - (int SCTP_COMMON_HEADER_SIZE + h)" 4]
  by (simp add: maxPayloadSizeForMtu_def Let_def SCTP_PADDING_MULTIPLE_def)

lemma new_SCTP_flow: "new_SCTP port mtu key tag tsn0 = Inr s \<Longrightarrow> flow_inv (s\<lparr>isServer := b\<rparr>)"
proof -
  assume n: "new_SCTP port mtu key tag tsn0 = Inr s"
  then have v: "validateSctpMtu mtu = Inr ()" by (auto simp: new_SCTP_def rbind_def split: sum.splits)
  then have "0 < maxPayloadSizeForMtu mtu (int SCTP_DATA_CHUNK_HEADER_SIZE)"
    using maxPayloadSizeForMtu_nonneg [of mtu "int SCTP_DATA_CHUNK_HEADER_SIZE"]
    by (simp add: validateSctpMtu_def split: if_splits)
  with n v show ?thesis
    by (auto simp: new_SCTP_def rbind_def Let_def flow_inv_def flow_core_def SCTP_RTO_INITIAL_def)
qed

interpretation flow: association_invariant flow_inv
proof unfold_locales
  show "flow_inv s \<Longrightarrow> flow_inv (s\<lparr>rto := of_int \<lceil>rto s * (3 / 2)\<rceil>\<rparr>)" for s
  proof -
    assume i: "flow_inv s"
    then have "1 \<le> rto s" by (simp add: flow_inv_def flow_core_def)
    then have "1 \<le> \<lceil>rto s * (3 / 2)\<rceil>" by linarith
    with i show ?thesis by (simp add: flow_inv_def flow_core_def)
  qed
  show "flow_inv s \<Longrightarrow> flow_inv (s\<lparr>rto := SCTP_RTO_INITIAL\<rparr>)" for s
    by (simp add: flow_inv_def flow_core_def SCTP_RTO_INITIAL_def)
qed (simp_all add: new_SCTP_flow receiveSackChunk_flow send_flow sendResetRequest_flow timer3Expired_flow,
    simp_all add: flow_inv_def flow_core_def)

section \<open>Pending sends\<close>

text \<open>Every pending \<^verbatim>\<open>send()\<close> waits for a chunk that is still in the outbound queue, in queue
  order, and nobody waits on a stopped association.\<close>

definition wait_inv :: "sctp \<Rightarrow> bool" where
  "wait_inv s \<longleftrightarrow> subseq (sendWaiters s) (map dc_id (outboundQueue s)) \<and> (isStopped s \<longrightarrow> sendWaiters s = [])"

interpretation recv_free_wait: recv_free_view wait_inv
  by unfold_locales (simp_all add: wait_inv_def isStopped_def)
interpretation ack_free_wait: ack_free_view wait_inv
  by unfold_locales (simp_all add: wait_inv_def isStopped_def)

lemma drain_one_waiters:
  "sendWaiters (drain_one env c q s) =
     (case sendWaiters s of [] \<Rightarrow> [] | w # ws \<Rightarrow> if w = dc_id c then ws else w # ws)"
  "isStopped (drain_one env c q s) = isStopped s"
  by (simp_all add: drain_one_def Let_def flightSizeIncrease_def resolveSendWaiters_def emit_def isStopped_def split: list.split)
     (auto simp: timer3Start_def isStopped_def sendChunk_logged_def sendChunk_def emit_def split: option.splits sum.splits)

lemma drain_one_wait:
  assumes "wait_inv s" and "outboundQueue s = c # q"
  shows "wait_inv (drain_one env c q s)"
  using assms by (auto simp: wait_inv_def drain_one_waiters split: list.split if_splits)

lemma drain_loop_wait: "wait_inv s \<Longrightarrow> outboundQueue s = q \<Longrightarrow> wait_inv (drain_loop env cw q s)"
proof (induction q arbitrary: s)
  case (Cons c q)
  then show ?case using drain_one_wait [of s c q env] by (simp add: drain_loop_Cons del: drain_loop.simps)
qed simp

lemma wait_inv_sel [simp]:
  "wait_inv (s\<lparr>transmitting := b\<rparr>) = wait_inv s" "wait_inv (s\<lparr>transmitRequested := b\<rparr>) = wait_inv s"
  "wait_inv (s\<lparr>peerAdvertisedRwnd := n\<rparr>) = wait_inv s" "wait_inv (s\<lparr>connectionState := k\<rparr>) = wait_inv s"
  by (simp_all add: wait_inv_def isStopped_def)

lemma transmitOnce_wait: "wait_inv s \<Longrightarrow> wait_inv (transmitOnce env s)"
proof -
  assume i: "wait_inv s"
  let ?s1 = "send_forward_tsn env s"
  let ?r = "retransmit_loop env (burst_cwnd ?s1) True (sentQueue ?s1) ?s1"
  have "wait_inv ((snd ?r)\<lparr>sentQueue := fst ?r\<rparr>)" using i by simp
  then have "wait_inv (drain_loop env (burst_cwnd ?s1) (outboundQueue (snd ?r)) ((snd ?r)\<lparr>sentQueue := fst ?r\<rparr>))"
    by (rule drain_loop_wait) simp
  with i show ?thesis by (simp add: transmitOnce_def Let_def prod.case_eq_if)
qed

lemma transmit_wait: "wait_inv s \<Longrightarrow> wait_inv (transmit env s)"
  by (simp add: transmit_def Let_def transmitOnce_wait)

lemma subseq_snoc_last: "subseq ws (xs :: nat list) \<Longrightarrow> ys \<noteq> [] \<Longrightarrow> subseq (ws @ [last ys]) (xs @ ys)"
  by (metis append_butlast_last_id list_emb_append_mono subseq_order.dual_order.refl list_emb_append2)

lemma send_wait: "wait_inv s \<Longrightarrow> wait_inv (send env sid ppid data expi retr ordered s)"
proof -
  assume i: "wait_inv s"
  let ?fr = "make_fragments sid ppid data expi retr ordered (if ordered then next_ssn sid s else 0) s"
  have "subseq (sendWaiters s @ [dc_id (last ?fr)]) (map dc_id (outboundQueue s @ ?fr))" if "?fr \<noteq> []"
    using i that subseq_snoc_last [of "sendWaiters s" "map dc_id (outboundQueue s)" "map dc_id ?fr"]
    by (simp add: wait_inv_def last_map)
  then show ?thesis
    using i unfolding send_def Let_def
    by (intro transmit_wait) (auto simp: wait_inv_def isStopped_def)
qed

lemma sendResetRequest_wait: "wait_inv s \<Longrightarrow> wait_inv (sendResetRequest env sid s)"
proof -
  assume "wait_inv s"
  then have "wait_inv (s\<lparr>outboundQueue := outboundQueue s @ [(new_data_chunk (nextId s) 0)\<lparr>streamId := sid\<rparr>], nextId := Suc (nextId s)\<rparr>)"
    by (auto simp: wait_inv_def isStopped_def)
  then show ?thesis by (auto simp: sendResetRequest_def Let_def transmit_wait)
qed

lemma receiveSackChunk_wait: "wait_inv s \<Longrightarrow> wait_inv (receiveSackChunk env c s)"
  unfolding receiveSackChunk_def Let_def prod.case_eq_if
  by (auto intro!: transmit_wait)

lemma timer3Expired_wait: "wait_inv s \<Longrightarrow> wait_inv (timer3Expired env s)"
  unfolding timer3Expired_def Let_def by (auto intro!: transmit_wait)

lemma associationState_upd: "(if st \<noteq> associationState s then s\<lparr>associationState := st\<rparr> else s) = s\<lparr>associationState := st\<rparr>"
  by simp

lemma setState_established:
  "setState ESTABLISHED s = heartbeatStart (setConnectionState st_connected
     (s\<lparr>associationState := ESTABLISHED, isStopping := False, isClosed := False\<rparr>))"
  unfolding setState_def associationState_upd Let_def by simp

lemma setState_other:
  "st \<noteq> ESTABLISHED \<Longrightarrow> st \<noteq> CLOSED \<Longrightarrow> setState st s = s\<lparr>associationState := st\<rparr>"
  unfolding setState_def associationState_upd Let_def by simp

lemma setState_wait: "wait_inv s \<Longrightarrow> wait_inv (setState st s)"
proof (cases "st = CLOSED")
  case True
  then show ?thesis by (simp add: wait_inv_def setState_def Let_def releaseSendWaiters_def)
next
  case False
  assume i: "wait_inv s"
  show ?thesis
  proof (cases "st = ESTABLISHED")
    case True
    with i show ?thesis
      by (simp add: setState_established setConnectionState_def) (simp add: wait_inv_def isStopped_def)
  next
    case f: False
    with False i show ?thesis by (simp add: setState_other wait_inv_def isStopped_def)
  qed
qed

interpretation wait: association_invariant wait_inv
proof unfold_locales
  show "new_SCTP port mtu key tag tsn0 = Inr s \<Longrightarrow> wait_inv (s\<lparr>isServer := b\<rparr>)" for port mtu key tag tsn0 s b
    by (auto simp: new_SCTP_def rbind_def Let_def wait_inv_def split: sum.splits)
  show "wait_inv s \<Longrightarrow> wait_inv (setState st s)" for st s by (rule setState_wait)
  show "wait_inv (setState CLOSED (s\<lparr>isStopping := True, transportAttached := False, sackTimeout := None, out := x\<rparr>))" for s x
    by (simp add: wait_inv_def setState_def Let_def releaseSendWaiters_def)
qed (simp_all add: receiveSackChunk_wait send_wait sendResetRequest_wait timer3Expired_wait,
    simp_all add: wait_inv_def isStopped_def)

section \<open>States of the association\<close>

definition no_shutdown_ack_sent :: "sctp \<Rightarrow> bool" where
  "no_shutdown_ack_sent s \<longleftrightarrow> associationState s \<noteq> SHUTDOWN_ACK_SENT"

interpretation recv_free_state: recv_free_view no_shutdown_ack_sent
  by unfold_locales (simp_all add: no_shutdown_ack_sent_def)
interpretation send_free_state: send_free_view no_shutdown_ack_sent
  by unfold_locales (simp_all add: no_shutdown_ack_sent_def)

lemma setState_associationState [simp]: "associationState (setState st s) = st"
  by (simp add: setState_def Let_def releaseSendWaiters_def setConnectionState_def)

interpretation shutdown_state: association_invariant no_shutdown_ack_sent
  by unfold_locales (auto simp: no_shutdown_ack_sent_def new_SCTP_def rbind_def Let_def split: sum.splits)

lemma setState_closed_isStopped [simp]: "isStopped (setState CLOSED s)"
  by (simp add: setState_def Let_def releaseSendWaiters_def setConnectionState_def removeAllListeners_def emit_def isStopped_def)
     (simp add: timer1Cancel_def timer2Cancel_def timer3Cancel_def timerReconfigCancel_def heartbeatCancel_def)

lemma stop_isStopped: "isStopped (stop env s)"
  by (simp add: stop_def Let_def)

section \<open>A sample run\<close>

definition env_sample :: env where
  "env_sample = \<lparr>date_now = 5000, hmac_sha1 = (\<lambda>key msg. replicate 20 (of_nat (length msg))), transport_ok = (\<lambda>p. True)\<rparr>"

lemma sctp_sample_new: "new_SCTP 5000 1200 [1, 2, 3] 7 100 = Inr sctp_sample"
  by (simp add: sctp_sample_def new_SCTP_def rbind_def validateSctpMtu_def maxPayloadSizeForMtu_def Let_def
      SCTP_COMMON_HEADER_SIZE_def SCTP_DATA_CHUNK_HEADER_SIZE_def SCTP_PADDING_MULTIPLE_def SCTP_CHUNK_HEADER_SIZE_def
      SCTP_DATA_FIXED_HEADER_SIZE_def)

definition sample_sent :: sctp where
  "sample_sent = send env_sample 1 51 [10, 20, 30] None None True (start env_sample (Some 5000) sctp_sample)"

lemma sample_sent_reachable: "sctp_reachable sample_sent"
  unfolding sample_sent_def
  by (intro reach_step [OF _ step_send] reach_step [OF _ step_start] reach_new [OF sctp_sample_new])

definition sample_stopped :: sctp where
  "sample_stopped = stop env_sample sample_sent"

lemma sample_stopped_reachable: "sctp_reachable sample_stopped"
  unfolding sample_stopped_def by (rule reach_step [OF sample_sent_reachable step_stop])

section \<open>Claims\<close>

text \<open>C9: in every state an association can reach, the advertised receive window and the bytes
  held for reassembly together never exceed the initial window of one mebibyte, and each
  stream has one reassembly queue.\<close>

theorem receive_window_bounded:
  assumes "sctp_reachable s"
  shows "advertisedRwnd s + int (buffered_total s) \<le> 1024 * 1024 \<and> distinct (map fst (inboundStreamMap s))"
  using rwnd.reachable_i [OF assms] by (simp add: rwnd_inv_def)

theorem receive_window_bounded_witness:
  "advertisedRwnd sample_sent + int (buffered_total sample_sent) \<le> 1024 * 1024"
  using receive_window_bounded [OF sample_sent_reachable] by simp

text \<open>C10: in every reachable state the congestion window holds at least one full payload, the
  amount in flight is never negative, the retransmission time-out is at least a second, and
  no chunk waiting or outstanding is larger than the payload limit.\<close>

theorem congestion_window_sound:
  assumes "sctp_reachable s"
  shows "maxPayloadSize s > 0 \<and> cwnd s \<ge> maxPayloadSize s \<and> flightSize s \<ge> 0 \<and> rto s \<ge> SCTP_RTO_MIN \<and>
    (\<forall>c \<in> set (outboundQueue s) \<union> set (sentQueue s). 0 \<le> bookSize c \<and> bookSize c \<le> maxPayloadSize s)"
  using flow.reachable_i [OF assms]
  by (auto simp: flow_inv_def flow_core_def SCTP_RTO_MIN_def list_all_iff sent_ok_def chunk_ok_def)

theorem congestion_window_sound_witness:
  "maxPayloadSize sample_sent > 0 \<and> cwnd sample_sent \<ge> maxPayloadSize sample_sent"
  using congestion_window_sound [OF sample_sent_reachable] by simp

text \<open>C40: in every reachable state the pending \<^verbatim>\<open>send()\<close> calls wait for chunks that are still
  queued, in the order of the queue; once the association is stopped or closed none is left
  waiting.\<close>

theorem no_send_left_waiting:
  assumes "sctp_reachable s"
  shows "subseq (sendWaiters s) (map dc_id (outboundQueue s)) \<and> (isStopped s \<longrightarrow> sendWaiters s = [])"
  using wait.reachable_i [OF assms] by (simp add: wait_inv_def)

theorem no_send_left_waiting_witness: "sendWaiters sample_stopped = []"
  using no_send_left_waiting [OF sample_stopped_reachable] stop_isStopped by (simp add: sample_stopped_def)

text \<open>The association never enters \<^verbatim>\<open>SHUTDOWN_ACK_SENT\<close> (receiving SHUTDOWN sets
  \<^verbatim>\<open>SHUTDOWN_SENT\<close>), so a SHUTDOWN COMPLETE chunk is ignored in every reachable state: the
  graceful shutdown never completes by it.\<close>

theorem shutdown_complete_ignored:
  assumes "sctp_reachable s"
  shows "receiveChunk env (ShutdownCompleteChunk fl body) s = (None, s)"
  using shutdown_state.reachable_i [OF assms] by (simp add: no_shutdown_ack_sent_def)

theorem shutdown_complete_ignored_witness:
  "receiveChunk env_sample (ShutdownCompleteChunk 0 []) sample_sent = (None, sample_sent)"
  by (rule shutdown_complete_ignored [OF sample_sent_reachable])

end
