(* ===== verification/Sctp_Wire.thy ===== *)
theory Sctp_Wire
  imports Sctp_Chunk
begin

text \<open>
  Properties of the SCTP wire format: every chunk the association can build survives
  \<^verbatim>\<open>serializePacket\<close> followed by \<^verbatim>\<open>parsePacket\<close>, a corrupted checksum is refused,
  and the parsing loops end whenever every length they read is positive (and do not end
  otherwise).
\<close>

section \<open>Reads at an offset\<close>

lemma readUIntBE_drop: "pos \<le> length b \<Longrightarrow> readUIntBE n b (pos + k) = readUIntBE n (drop pos b) k"
  by (auto simp: readUIntBE_def buf_slice_def ac_simps)

lemma readUIntBE_drop0: "pos \<le> length b \<Longrightarrow> readUIntBE n b pos = readUIntBE n (drop pos b) 0"
  using readUIntBE_drop [of pos b n 0] by simp

lemma buf_slice_drop: "buf_slice b (pos + i) (pos + j) = buf_slice (drop pos b) i j"
  by (simp add: buf_slice_def add.commute)

lemma drop_nonempty: "drop n xs = ys \<Longrightarrow> ys \<noteq> [] \<Longrightarrow> n \<le> length xs"
  by (cases "n \<le> length xs") auto

lemma padL_props: "padL l < 4" "(l + padL l) mod 4 = 0"
proof -
  have "l mod 4 < 4" by simp
  then show "padL l < 4" by (auto simp: padL_def sctp_sizes Let_def)
  show "(l + padL l) mod 4 = 0" unfolding padL_def sctp_sizes Let_def by presburger
qed

lemma padL_add4 [simp]: "padL (l + 4) = padL l" "padL (4 + l) = padL l"
  by (simp_all add: padL_def sctp_sizes)

section \<open>Parameter lists\<close>

definition valid_params :: "params \<Rightarrow> bool" where
  "valid_params ps \<longleftrightarrow> list_all (\<lambda>(t, v). u16_ok t \<and> length v + 4 < 2 ^ 16) ps"

definition param_wire :: "int \<times> buffer \<Rightarrow> buffer" where
  "param_wire p = be_bytes 2 (fst p) @ be_bytes 2 (int (length (snd p) + 4)) @ snd p"

fun params_wire :: "params \<Rightarrow> buffer" where
  "params_wire [] = []"
| "params_wire [p] = param_wire p"
| "params_wire (p # ps) = param_wire p @ replicate (padL (length (snd p))) 0 @ params_wire ps"

lemma encodeParams_loop_wire:
  "valid_params ps \<Longrightarrow> encodeParams_loop body padding ps =
     Inr (body @ (if ps = [] then [] else padding @ params_wire ps))"
proof (induction ps arbitrary: body padding)
  case Nil
  then show ?case by simp
next
  case (Cons p ps)
  obtain t v where p: "p = (t, v)" by (cases p)
  from Cons.prems p have t: "u16_ok t" and len: "u16_ok (int (length v) + 4)" and ps: "valid_params ps"
    by (auto simp: valid_params_def u16_ok_def)
  show ?case
    using Cons.IH [OF ps] t len p
    by (cases ps) (simp_all add: wire_simps param_wire_def Let_def)
qed

lemma encodeParams_wire: "valid_params ps \<Longrightarrow> encodeParams ps = Inr (params_wire ps)"
  by (cases ps) (simp_all add: encodeParams_def encodeParams_loop_wire)

lemma decodeParams_loop_done: "length b < pos + 4 \<Longrightarrow> decodeParams_loop b pos acc = Some (Inr acc)"
  by (subst decodeParams_loop.simps) simp

lemma decodeParams_loop_step:
  assumes "drop pos b = param_wire (t, v) @ rest" and "pos \<le> length b"
    and "u16_ok t" and "length v + 4 < 2 ^ 16"
  shows "decodeParams_loop b pos acc =
    decodeParams_loop b (pos + (4 + length v + padL (length v))) (acc @ [(t, v)])"
proof -
  from assms(4) have len: "u16_ok (int (length v) + 4)" by (simp add: u16_ok_def)
  have "length b - pos = length (param_wire (t, v) @ rest)" by (metis assms(1) length_drop)
  then have lb: "pos + 4 \<le> length b" using assms(2) by (simp add: param_wire_def)
  have r0: "readUInt16BE b pos = Inr t"
    using assms by (simp add: readUIntBE_drop0 [of pos b] param_wire_def wire_simps)
  have r2: "readUInt16BE b (pos + 2) = Inr (int (length v) + 4)"
    using assms(1) len by (subst readUIntBE_drop [OF assms(2)]) (simp add: param_wire_def wire_simps)
  have sl: "buf_slice b (pos + 4) (pos + (4 + length v)) = v"
    using assms(1) by (simp only: buf_slice_drop) (simp add: param_wire_def buf_slice_def)
  have n: "nat (int (length v) + 4) = 4 + length v" by simp
  show ?thesis
    by (subst decodeParams_loop.simps) (use lb in \<open>simp add: r0 r2 n sl\<close>)
qed

lemma decodeParams_loop_wire:
  "valid_params ps \<Longrightarrow> ps \<noteq> [] \<Longrightarrow> drop pos b = params_wire ps \<Longrightarrow> pos \<le> length b \<Longrightarrow>
   decodeParams_loop b pos acc = Some (Inr (acc @ ps))"
proof (induction ps arbitrary: pos acc rule: params_wire.induct)
  case 1
  then show ?case by simp
next
  case (2 p)
  obtain t v where p: "p = (t, v)" by (cases p)
  with 2 have t: "u16_ok t" "length v + 4 < 2 ^ 16" and d: "drop pos b = param_wire (t, v) @ []"
    by (auto simp: valid_params_def)
  have "length b = pos + (4 + length v)"
  proof -
    have "length b - pos = length (param_wire (t, v) @ [])" by (metis d length_drop)
    with 2(4) show ?thesis by (simp add: param_wire_def)
  qed
  then show ?case
    unfolding decodeParams_loop_step [OF d 2(4) t] p by (intro decodeParams_loop_done) simp
next
  case (3 p q ps)
  obtain t v where p: "p = (t, v)" by (cases p)
  let ?rest = "replicate (padL (length v)) 0 @ params_wire (q # ps)"
  from 3 p have t: "u16_ok t" "length v + 4 < 2 ^ 16" and v: "valid_params (q # ps)"
    and d: "drop pos b = param_wire (t, v) @ ?rest"
    by (auto simp: valid_params_def)
  let ?pos = "pos + (4 + length v + padL (length v))"
  have "drop ?pos b = drop (4 + length v + padL (length v)) (drop pos b)"
    by (simp add: add.commute)
  also have "\<dots> = params_wire (q # ps)"
    unfolding d by (simp add: param_wire_def)
  finally have d': "drop ?pos b = params_wire (q # ps)" .
  moreover have "4 \<le> length (params_wire (q # ps))"
    by (cases ps) (simp_all add: param_wire_def)
  then have "params_wire (q # ps) \<noteq> []" by fastforce
  ultimately have "?pos \<le> length b" by (rule drop_nonempty)
  then have "decodeParams_loop b ?pos (acc @ [(t, v)]) = Some (Inr ((acc @ [(t, v)]) @ q # ps))"
    using 3(1) [OF v _ d'] by blast
  then show ?case
    by (simp only: decodeParams_loop_step [OF d 3(5) t] p append_assoc append_Cons append_Nil)
qed

lemma decodeParams_wire [roundtrip]: "valid_params ps \<Longrightarrow> decodeParams (params_wire ps) = Some (Inr ps)"
proof (cases "ps = []")
  case True
  then show ?thesis by (simp add: decodeParams_def decodeParams_loop_done)
next
  case False
  assume "valid_params ps"
  with False show ?thesis
    using decodeParams_loop_wire [of ps 0 "params_wire ps" "[]"] by (simp add: decodeParams_def)
qed

section \<open>Chunks\<close>

text \<open>The values a chunk may carry: every field fits its width, and the length field of the
  chunk does not overflow.  Parsing forgets the bookkeeping fields of a data chunk.\<close>

definition valid_init :: "init_chunk \<Rightarrow> bool" where
  "valid_init c \<longleftrightarrow> u8_ok (init_flags c) \<and> u32_ok (initiateTag c) \<and>
     u32_ok (init_advertisedRwnd c) \<and> u16_ok (outboundStreams c) \<and> u16_ok (inboundStreams c) \<and>
     u32_ok (initialTsn c) \<and> valid_params (init_params c) \<and> length (params_wire (init_params c)) + 20 < 2 ^ 16"

definition valid_param_chunk :: "int \<Rightarrow> params \<Rightarrow> bool" where
  "valid_param_chunk fl ps \<longleftrightarrow> u8_ok fl \<and> valid_params ps \<and> length (params_wire ps) + 4 < 2 ^ 16"

definition valid_body_chunk :: "int \<Rightarrow> buffer \<Rightarrow> bool" where
  "valid_body_chunk fl body \<longleftrightarrow> u8_ok fl \<and> length body + 4 < 2 ^ 16"

fun valid_chunk :: "chunk \<Rightarrow> bool" where
  "valid_chunk (DataChunk c) \<longleftrightarrow> u8_ok (flags c) \<and> u32_ok (tsn c) \<and> u16_ok (streamId c) \<and>
     u16_ok (streamSeqNum c) \<and> u32_ok (protocol c) \<and> length (userData c) + 16 < 2 ^ 16"
| "valid_chunk (SackChunk c) \<longleftrightarrow> u8_ok (sack_flags c) \<and> u32_ok (sack_cumulativeTsn c) \<and>
     u32_ok (sack_advertisedRwnd c) \<and> list_all (\<lambda>(a, b). u16_ok a \<and> u16_ok b) (gaps c) \<and>
     list_all u32_ok (duplicates c) \<and> 16 + 4 * (length (gaps c) + length (duplicates c)) < 2 ^ 16"
| "valid_chunk (InitChunk c) \<longleftrightarrow> valid_init c"
| "valid_chunk (InitAckChunk c) \<longleftrightarrow> valid_init c"
| "valid_chunk (ForwardTsnChunk c) \<longleftrightarrow> u8_ok (fwd_flags c) \<and> u32_ok (fwd_cumulativeTsn c) \<and>
     list_all (\<lambda>(a, b). u16_ok a \<and> u16_ok b) (fwd_streams c) \<and> 8 + 4 * length (fwd_streams c) < 2 ^ 16"
| "valid_chunk (HeartbeatChunk fl ps) \<longleftrightarrow> valid_param_chunk fl ps"
| "valid_chunk (HeartbeatAckChunk fl ps) \<longleftrightarrow> valid_param_chunk fl ps"
| "valid_chunk (AbortChunk fl ps) \<longleftrightarrow> valid_param_chunk fl ps"
| "valid_chunk (ErrorChunk fl ps) \<longleftrightarrow> valid_param_chunk fl ps"
| "valid_chunk (ReconfigChunk fl ps) \<longleftrightarrow> valid_param_chunk fl ps"
| "valid_chunk (ShutdownChunk fl cum) \<longleftrightarrow> u8_ok fl \<and> u32_ok cum"
| "valid_chunk (CookieEchoChunk fl body) \<longleftrightarrow> valid_body_chunk fl body"
| "valid_chunk (ShutdownAckChunk fl body) \<longleftrightarrow> valid_body_chunk fl body"
| "valid_chunk (CookieAckChunk fl body) \<longleftrightarrow> valid_body_chunk fl body"
| "valid_chunk (ShutdownCompleteChunk fl body) \<longleftrightarrow> valid_body_chunk fl body"

fun on_wire :: "chunk \<Rightarrow> chunk" where
  "on_wire (DataChunk c) = DataChunk ((new_data_chunk 0 (flags c))\<lparr>tsn := tsn c, streamId := streamId c,
     streamSeqNum := streamSeqNum c, protocol := protocol c, userData := userData c\<rparr>)"
| "on_wire c = c"

definition chunk_wire :: "int \<Rightarrow> int \<Rightarrow> buffer \<Rightarrow> buffer" where
  "chunk_wire ty fl body = be_bytes 1 ty @ be_bytes 1 fl @ be_bytes 2 (int (length body + 4)) @ body
     @ replicate (padL (length body)) 0"

definition wire_form :: "chunk \<Rightarrow> int \<Rightarrow> buffer \<Rightarrow> bool" where
  "wire_form c fl body \<longleftrightarrow> u8_ok fl \<and> length body + 4 < 2 ^ 16 \<and>
     chunk_bytes c = Inr (chunk_wire (chunk_type c) fl body) \<and>
     parse_chunk (chunk_type c) fl body = Some (Inr (on_wire c))"

lemma chunk_type_ok: "u8_ok (chunk_type c)"
  by (cases c) (simp_all add: u8_ok_def)

lemma chunk_bytes_of_body_wire:
  "u8_ok ty \<Longrightarrow> u8_ok fl \<Longrightarrow> length body + 4 < 2 ^ 16 \<Longrightarrow>
   chunk_bytes_of_body ty fl body = Inr (chunk_wire ty fl body)"
proof -
  assume a: "u8_ok ty" "u8_ok fl" and l: "length body + 4 < 2 ^ 16"
  then have "u16_ok (int (length body) + 4)" by (simp add: u16_ok_def)
  with a show ?thesis
    by (simp add: chunk_bytes_of_body_def chunk_wire_def sctp_sizes wire_simps del: One_nat_def)
qed

fun pair_wire :: "int \<times> int \<Rightarrow> buffer" where
  "pair_wire (a, b) = be_bytes 2 a @ be_bytes 2 b"

lemma write_pairs:
  "list_all (\<lambda>(a, b). u16_ok a \<and> u16_ok b) xs \<Longrightarrow> rmap write_u16_pair xs = Inr (map pair_wire xs)"
  by (rule rmap_total) (auto simp: list_all_iff write_u16_pair_def wire_simps)

lemma length_pairs [simp]: "length (concat (map pair_wire xs)) = 4 * length xs"
  by (induction xs) auto

lemma length_u32s [simp]: "length (concat (map (be_bytes 4) xs)) = 4 * length xs"
  by (induction xs) auto

lemma read_pairs_wire:
  "list_all (\<lambda>(a, b). u16_ok a \<and> u16_ok b) xs \<Longrightarrow> length pre = pos \<Longrightarrow>
   read_u16_pairs (length xs) (pre @ concat (map pair_wire xs) @ post) pos = Inr xs"
proof (induction xs arbitrary: pre pos)
  case Nil
  then show ?case by simp
next
  case (Cons x xs)
  then have "read_u16_pairs (length xs) ((pre @ pair_wire x) @ concat (map pair_wire xs) @ post) (pos + 4) = Inr xs"
    by (intro Cons.IH) (cases x, auto)
  with Cons.prems show ?case
    by (cases x) (auto simp: readUIntBE_append_later wire_simps)
qed

lemma read_u32s_wire:
  "list_all u32_ok xs \<Longrightarrow> length pre = pos \<Longrightarrow>
   read_u32s (length xs) (pre @ concat (map (be_bytes 4) xs)) pos = Inr xs"
proof (induction xs arbitrary: pre pos)
  case Nil
  then show ?case by simp
next
  case (Cons x xs)
  then have "read_u32s (length xs) ((pre @ be_bytes 4 x) @ concat (map (be_bytes 4) xs)) (pos + 4) = Inr xs"
    by (intro Cons.IH) auto
  with Cons.prems show ?case
    by (auto simp: readUIntBE_append_later wire_simps)
qed

lemma parse_fwd_streams_wire:
  "list_all (\<lambda>(a, b). u16_ok a \<and> u16_ok b) xs \<Longrightarrow> length pre = pos \<Longrightarrow>
   parse_fwd_streams (pre @ concat (map pair_wire xs)) pos = Inr xs"
proof (induction xs arbitrary: pre pos)
  case Nil
  then show ?case by (simp add: parse_fwd_streams.simps)
next
  case (Cons x xs)
  then have "parse_fwd_streams ((pre @ pair_wire x) @ concat (map pair_wire xs)) (pos + 4) = Inr xs"
    by (intro Cons.IH) (cases x, auto)
  with Cons.prems show ?case
    by (subst parse_fwd_streams.simps, cases x) (auto simp: readUIntBE_append_later wire_simps)
qed

lemma wire_form_data:
  assumes "valid_chunk (DataChunk c)"
  shows "\<exists>fl body. wire_form (DataChunk c) fl body"
proof -
  let ?body = "be_bytes 4 (tsn c) @ be_bytes 2 (streamId c) @ be_bytes 2 (streamSeqNum c)
    @ be_bytes 4 (protocol c) @ userData c"
  from assms have len: "u16_ok (int (length (userData c)) + 16)" and z: "u8_ok 0"
    by (simp_all add: u16_ok_def u8_ok_def)
  have pad: "padL (length (userData c) + 12) = padL (length (userData c))"
    "padL (16 + length (userData c)) = padL (length (userData c))"
    "length (userData c) mod 4 = 0 \<Longrightarrow> padL (length (userData c)) = 0"
    "(16 + length (userData c)) mod 4 = length (userData c) mod 4"
    unfolding padL_def sctp_sizes Let_def by presburger+
  have "parse_chunk 0 (flags c) ?body = Some (Inr (on_wire (DataChunk c)))"
    using assms by (simp add: parse_chunk_def parse_data_def wire_simps)
  moreover have "chunk_bytes (DataChunk c) = Inr (chunk_wire 0 (flags c) ?body)"
    using assms len z pad
    by (simp add: data_bytes_def chunk_wire_def sctp_sizes wire_simps Let_def ac_simps del: One_nat_def)
  ultimately have "wire_form (DataChunk c) (flags c) ?body"
    using assms by (simp add: wire_form_def)
  then show ?thesis by blast
qed

lemma wire_form_sack:
  assumes "valid_chunk (SackChunk c)"
  shows "\<exists>fl body. wire_form (SackChunk c) fl body"
proof -
  let ?pre = "be_bytes 4 (sack_cumulativeTsn c) @ be_bytes 4 (sack_advertisedRwnd c)
    @ be_bytes 2 (int (length (gaps c))) @ be_bytes 2 (int (length (duplicates c)))"
  let ?body = "?pre @ concat (map pair_wire (gaps c)) @ concat (map (be_bytes 4) (duplicates c))"
  from assms have len: "u16_ok (int (length (gaps c)))" "u16_ok (int (length (duplicates c)))"
      "u16_ok (16 + 4 * (int (length (gaps c)) + int (length (duplicates c))))" and z: "u8_ok 3"
    by (simp_all add: u16_ok_def u8_ok_def)
  have ds: "rmap writeUInt32BE (duplicates c) = Inr (map (be_bytes 4) (duplicates c))"
    using assms by (intro rmap_total) (auto simp: list_all_iff wire_simps)
  have "(12 + 4 * (length (gaps c) + length (duplicates c))) mod 4 = 0" by presburger
  then have pad: "padL (12 + 4 * (length (gaps c) + length (duplicates c))) = 0"
    by (simp add: padL_def sctp_sizes)
  have g: "read_u16_pairs (length (gaps c)) ?body 12 = Inr (gaps c)"
    using assms by (intro read_pairs_wire) auto
  have d: "read_u32s (length (duplicates c)) ((?pre @ concat (map pair_wire (gaps c)))
      @ concat (map (be_bytes 4) (duplicates c))) (12 + 4 * length (gaps c)) = Inr (duplicates c)"
    using assms by (intro read_u32s_wire) auto
  have "parse_chunk 3 (sack_flags c) ?body = Some (Inr (on_wire (SackChunk c)))"
    using assms len g d by (simp add: parse_chunk_def parse_sack_def wire_simps)
  moreover have "chunk_bytes (SackChunk c) = Inr (chunk_wire 3 (sack_flags c) ?body)"
    using assms len z pad
    by (simp add: sack_bytes_def chunk_wire_def write_pairs ds wire_simps Let_def ac_simps del: One_nat_def)
  ultimately have "wire_form (SackChunk c) (sack_flags c) ?body"
    using assms by (simp add: wire_form_def)
  then show ?thesis by blast
qed

lemma init_body_wire:
  assumes "valid_init c"
  obtains body where "init_body c = Inr body" "length body + 4 < 2 ^ 16"
    "parse_init (init_flags c) body = Some (Inr c)"
proof
  let ?body = "(be_bytes 4 (initiateTag c) @ be_bytes 4 (init_advertisedRwnd c) @ be_bytes 2 (outboundStreams c)
    @ be_bytes 2 (inboundStreams c) @ be_bytes 4 (initialTsn c)) @ params_wire (init_params c)"
  show "init_body c = Inr ?body"
    using assms by (simp add: init_body_def valid_init_def encodeParams_wire wire_simps)
  show "length ?body + 4 < 2 ^ 16"
    using assms by (simp add: valid_init_def)
  show "parse_init (init_flags c) ?body = Some (Inr c)"
    using assms by (simp add: parse_init_def valid_init_def decodeParams_wire wire_simps)
qed

lemma wire_formI:
  assumes "u8_ok fl" "length body + 4 < 2 ^ 16"
    and "chunk_bytes c = chunk_bytes_of_body (chunk_type c) fl body"
    and "parse_chunk (chunk_type c) fl body = Some (Inr (on_wire c))"
  shows "\<exists>fl body. wire_form c fl body"
  using assms chunk_bytes_of_body_wire [OF chunk_type_ok, of fl body c]
  by (auto simp: wire_form_def intro!: exI [of _ fl] exI [of _ body])

lemma wire_form_params:
  assumes "valid_param_chunk fl ps" and "\<And>ps. on_wire (C ps) = C ps"
    and "chunk_bytes (C ps) = rbind (encodeParams ps) (chunk_bytes_of_body (chunk_type (C ps)) fl)"
    and "\<And>body. parse_chunk (chunk_type (C ps)) fl body = with_params C body"
  shows "\<exists>fl body. wire_form (C ps) fl body"
  using assms
  by (intro wire_formI [of fl "params_wire ps"])
    (simp_all add: valid_param_chunk_def encodeParams_wire with_params_def decodeParams_wire)

lemma wire_form_valid: "valid_chunk c \<Longrightarrow> \<exists>fl body. wire_form c fl body"
proof (induction c rule: valid_chunk.induct)
  case (1 c)
  then show ?case by (rule wire_form_data)
next
  case (2 c)
  then show ?case by (rule wire_form_sack)
next
  case (3 c)
  then have "valid_init c" by simp
  then obtain body where "init_body c = Inr body" "length body + 4 < 2 ^ 16"
    "parse_init (init_flags c) body = Some (Inr c)" by (rule init_body_wire)
  with 3 show ?case
    by (intro wire_formI [of "init_flags c" body]) (auto simp: parse_chunk_def valid_init_def)
next
  case (4 c)
  then have "valid_init c" by simp
  then obtain body where "init_body c = Inr body" "length body + 4 < 2 ^ 16"
    "parse_init (init_flags c) body = Some (Inr c)" by (rule init_body_wire)
  with 4 show ?case
    by (intro wire_formI [of "init_flags c" body]) (auto simp: parse_chunk_def valid_init_def)
next
  case (5 c)
  let ?body = "be_bytes 4 (fwd_cumulativeTsn c) @ concat (map pair_wire (fwd_streams c))"
  have "parse_fwd_streams ?body 4 = Inr (fwd_streams c)"
    using 5 by (intro parse_fwd_streams_wire) auto
  with 5 show ?case
    by (intro wire_formI [of "fwd_flags c" ?body])
      (auto simp: parse_chunk_def parse_forward_tsn_def forward_tsn_body_def write_pairs wire_simps)
next
  case (11 fl cum)
  then show ?case
    by (intro wire_formI [of fl "be_bytes 4 cum"]) (auto simp: parse_chunk_def wire_simps)
next
  case (12 fl body)
  then show ?case by (intro wire_formI [of fl body]) (auto simp: parse_chunk_def valid_body_chunk_def)
next
  case (13 fl body)
  then show ?case by (intro wire_formI [of fl body]) (auto simp: parse_chunk_def valid_body_chunk_def)
next
  case (14 fl body)
  then show ?case by (intro wire_formI [of fl body]) (auto simp: parse_chunk_def valid_body_chunk_def)
next
  case (15 fl body)
  then show ?case by (intro wire_formI [of fl body]) (auto simp: parse_chunk_def valid_body_chunk_def)
qed (rule wire_form_params, auto simp: parse_chunk_def)+

section \<open>Packets\<close>

lemma u32_ok_uint: "u32_ok (uint (w :: 32 word))"
  using uint_lt2p [of w] by (simp add: u32_ok_def)

lemma parse_chunks_loop_done: "length data < pos + 4 \<Longrightarrow> parse_chunks_loop data pos cs = Some (Inr cs)"
  by (subst parse_chunks_loop.simps) simp

lemma parse_chunks_loop_wire:
  assumes "wire_form c fl body" and "length pre = pos"
  shows "parse_chunks_loop (pre @ chunk_wire (chunk_type c) fl body @ post) pos cs =
    parse_chunks_loop (pre @ chunk_wire (chunk_type c) fl body @ post)
      (pos + (4 + length body + padL (length body))) (cs @ [on_wire c])"
proof -
  let ?d = "pre @ chunk_wire (chunk_type c) fl body @ post"
  from assms(1) have fl: "u8_ok fl" and len: "u16_ok (int (length body) + 4)"
    and parse: "parse_chunk (chunk_type c) fl body = Some (Inr (on_wire c))"
    by (auto simp: wire_form_def u16_ok_def)
  have r: "readUIntBE n ?d (pos + k) = readUIntBE n (chunk_wire (chunk_type c) fl body @ post) k" for n k
    using assms(2) by (simp add: readUIntBE_append_later)
  have r0: "readUInt8 ?d pos = Inr (chunk_type c)"
    using r [of 1 0] by (simp add: chunk_wire_def wire_simps chunk_type_ok del: One_nat_def)
  have r1: "readUInt8 ?d (pos + 1) = Inr fl"
    unfolding r by (simp add: chunk_wire_def wire_simps fl del: One_nat_def)
  have r2: "readUInt16BE ?d (pos + 2) = Inr (int (length body) + 4)"
    unfolding r using len by (simp add: chunk_wire_def wire_simps del: One_nat_def be_bytes.simps)
  have sl: "buf_slice ?d (pos + 4) (pos + (4 + length body)) = body"
    unfolding buf_slice_drop using assms(2) by (simp add: buf_slice_def chunk_wire_def)
  have n: "nat (int (length body) + 4) = 4 + length body" by simp
  have "pos + 4 \<le> length ?d" using assms(2) by (simp add: chunk_wire_def)
  then show ?thesis
    by (subst parse_chunks_loop.simps) (simp add: r0 r1 r2 n sl parse del: One_nat_def)
qed

lemma length_chunk_wire [simp]: "length (chunk_wire ty fl body) = 4 + length body + padL (length body)"
  by (simp add: chunk_wire_def)

text \<open>The twelve bytes of the common header with the checksum of the packet.\<close>

definition packet_wire :: "int \<Rightarrow> int \<Rightarrow> int \<Rightarrow> buffer \<Rightarrow> buffer" where
  "packet_wire sp dp tag body =
     (let header = be_bytes 2 sp @ be_bytes 2 dp @ be_bytes 4 tag
      in header @ rev (be_bytes 4 (uint (crc32c (header @ [0, 0, 0, 0] @ body) 0))) @ body)"

lemma parsePacket_wire:
  assumes "u16_ok sp" "u16_ok dp" "u32_ok tag"
  shows "parsePacket (packet_wire sp dp tag body) =
    map_option (\<lambda>r. rbind r (\<lambda>chunks. Inr (sp, dp, tag, chunks)))
      (parse_chunks_loop (packet_wire sp dp tag body) 12 [])"
proof -
  define header where "header = be_bytes 2 sp @ be_bytes 2 dp @ be_bytes 4 tag"
  define ck where "ck = uint (crc32c (header @ [0, 0, 0, 0] @ body) 0)"
  have p: "packet_wire sp dp tag body = header @ rev (be_bytes 4 ck) @ body"
    by (simp add: packet_wire_def header_def ck_def)
  have len: "length header = 8" by (simp add: header_def)
  have r: "readUInt16BE (header @ ys) 0 = Inr sp" "readUInt16BE (header @ ys) 2 = Inr dp"
    "readUInt32BE (header @ ys) 4 = Inr tag" for ys
    using assms by (simp_all add: header_def wire_simps)
  have c: "readUInt32LE (header @ rev (be_bytes 4 ck) @ body) 8 = Inr ck"
    using u32_ok_uint by (intro read_write_LE) (auto simp: len ck_def u32_ok_def)
  have sl: "buf_slice (header @ ys) 0 8 = header" for ys by (simp add: buf_slice_def len)
  show ?thesis
    unfolding p by (simp add: parsePacket_def r c sl sctp_sizes len) (simp add: ck_def)
qed

lemma serializePacket_wire:
  assumes "u16_ok sp" "u16_ok dp" "u32_ok tag" and "chunk_bytes c = Inr body"
  shows "serializePacket sp dp tag c = Inr (packet_wire sp dp tag body)"
  using assms u32_ok_uint
  by (simp add: serializePacket_def packet_wire_def writeUInt32LE_def wire_simps Let_def)

lemma packet_exists:
  assumes "u16_ok sp" and "u16_ok dp" and "u32_ok tag" and "valid_chunk c"
  shows "\<exists>b. serializePacket sp dp tag c = Inr b \<and> parsePacket b = Some (Inr (sp, dp, tag, [on_wire c]))"
proof -
  from wire_form_valid [OF assms(4)] obtain fl body where wf: "wire_form c fl body" by blast
  let ?cw = "chunk_wire (chunk_type c) fl body"
  let ?p = "packet_wire sp dp tag ?cw"
  obtain pre where pre: "?p = pre @ ?cw @ []" and len: "length pre = 12"
    by (simp add: packet_wire_def Let_def)
  have "parse_chunks_loop ?p 12 [] = Some (Inr [on_wire c])"
    unfolding pre parse_chunks_loop_wire [OF wf len]
    by (intro trans [OF parse_chunks_loop_done]) (simp_all add: len)
  moreover from wf have "chunk_bytes c = Inr ?cw" by (simp add: wire_form_def)
  ultimately show ?thesis
    using serializePacket_wire [OF assms(1-3)] parsePacket_wire [OF assms(1-3), of ?cw] by simp
qed

text \<open>
  C11. Packet round trip: a packet made by \<^verbatim>\<open>serializePacket\<close> from ports, a verification tag
  and any chunk of the protocol whose fields fit their widths is built without an exception,
  and \<^verbatim>\<open>parsePacket\<close> accepts its checksum and returns exactly the ports, the tag and that
  chunk (a data chunk with fresh bookkeeping fields).
\<close>

theorem packet_roundtrip:
  assumes "u16_ok sp" and "u16_ok dp" and "u32_ok tag" and "valid_chunk c"
  shows "\<exists>b. serializePacket sp dp tag c = Inr b \<and> parsePacket b = Some (Inr (sp, dp, tag, [on_wire c]))"
  using assms by (rule packet_exists)

theorem packet_roundtrip_witness:
  "u16_ok 5000 \<and> u16_ok 5001 \<and> u32_ok 7 \<and> valid_chunk (ShutdownChunk 0 42) \<and>
   (\<exists>b. serializePacket 5000 5001 7 (ShutdownChunk 0 42) = Inr b \<and>
        parsePacket b = Some (Inr (5000, 5001, 7, [ShutdownChunk 0 42])))"
proof -
  have h: "u16_ok 5000" "u16_ok 5001" "u32_ok 7" "valid_chunk (ShutdownChunk 0 42)"
    by (simp_all add: u16_ok_def u32_ok_def u8_ok_def)
  from packet_roundtrip [OF h] show ?thesis by (simp add: h del: valid_chunk.simps)
qed

section \<open>Corrupted packets\<close>

definition packet_sum :: "buffer \<Rightarrow> int" where
  "packet_sum p = uint (crc32c (buf_slice p 0 8 @ [0, 0, 0, 0] @ drop SCTP_COMMON_HEADER_SIZE p) 0)"

lemma parsePacket_checksum:
  assumes "12 \<le> length p" and "readUInt32LE p 8 = Inr ck"
  shows "ck \<noteq> packet_sum p \<Longrightarrow> parsePacket p = Some (Inl (Error ''SCTP packet has invalid checksum''))"
    and "parsePacket p = Some (Inr r) \<Longrightarrow> ck = packet_sum p"
proof -
  obtain a b c where r: "readUInt16BE p 0 = Inr a" "readUInt16BE p 2 = Inr b" "readUInt32BE p 4 = Inr c"
    using assms(1) by (simp add: readUIntBE_def)
  show "ck \<noteq> packet_sum p \<Longrightarrow> parsePacket p = Some (Inl (Error ''SCTP packet has invalid checksum''))"
    using assms r by (simp add: parsePacket_def packet_sum_def sctp_sizes)
  then show "parsePacket p = Some (Inr r) \<Longrightarrow> ck = packet_sum p"
    by auto
qed

lemma crc_header_swap:
  "i < length p \<Longrightarrow> i < 8 \<or> 12 \<le> i \<Longrightarrow> 12 \<le> length p \<Longrightarrow>
   buf_slice (p[i := x]) 0 8 @ [0, 0, 0, 0] @ drop 12 (p[i := x]) =
   (buf_slice p 0 8 @ [0, 0, 0, 0] @ drop 12 p)[i := x]"
proof -
  assume i: "i < length p" "i < 8 \<or> 12 \<le> i" and len: "12 \<le> length p"
  let ?h = "buf_slice p 0 8 @ [0, 0, 0, 0]"
  have lh: "length ?h = 12" using len by simp
  show ?thesis
  proof (cases "i < 8")
    case True
    then show ?thesis
      using len by (simp add: buf_slice_def take_update_swap drop_update_cancel list_update_append)
  next
    case False
    then have "(?h @ drop 12 p)[i := x] = ?h @ (drop 12 p)[i - 12 := x]"
      unfolding list_update_append lh using i by simp
    with False i show ?thesis
      by (simp add: buf_slice_def take_update_cancel drop_update_swap)
  qed
qed

lemma read_sum_inj:
  assumes "12 \<le> length p" "8 \<le> i" "i < 12" "p ! i \<noteq> x"
  shows "readUInt32LE (p[i := x]) 8 \<noteq> readUInt32LE p 8"
proof
  assume "readUInt32LE (p[i := x]) 8 = readUInt32LE p 8"
  with assms(1) have "be_int (rev (buf_slice (p[i := x]) 8 12)) = be_int (rev (buf_slice p 8 12))"
    by (simp add: readUInt32LE_def)
  then have "rev (buf_slice (p[i := x]) 8 12) = rev (buf_slice p 8 12)"
    by (rule be_int_inj [rotated]) simp
  then have "buf_slice (p[i := x]) 8 12 ! (i - 8) = buf_slice p 8 12 ! (i - 8)" by simp
  with assms show False by (simp add: buf_slice_def)
qed

text \<open>
  C12. Corruption is detected: if \<^verbatim>\<open>parsePacket\<close> accepts a packet, then the packet with any
  one of its bytes (header, checksum or chunk) changed to another value is refused with the
  checksum error; no such packet reaches a chunk handler.
\<close>

theorem corrupted_byte_refused:
  assumes "parsePacket p = Some (Inr r)" and "i < length p" and "p ! i \<noteq> x"
  shows "parsePacket (p[i := x]) = Some (Inl (Error ''SCTP packet has invalid checksum''))"
proof -
  have len: "12 \<le> length p" using assms(1) by (simp add: parsePacket_def sctp_sizes split: if_splits)
  obtain ck where ck: "readUInt32LE p 8 = Inr ck" using len by (simp add: readUInt32LE_def)
  obtain ck' where ck': "readUInt32LE (p[i := x]) 8 = Inr ck'" using len by (simp add: readUInt32LE_def)
  have acc: "ck = packet_sum p" by (rule parsePacket_checksum(2) [OF len ck assms(1)])
  have "ck' \<noteq> packet_sum (p[i := x])"
  proof (cases "8 \<le> i \<and> i < 12")
    case True
    then have "packet_sum (p[i := x]) = packet_sum p"
      by (simp add: packet_sum_def sctp_sizes buf_slice_def)
    moreover have "ck' \<noteq> ck" using read_sum_inj [OF len _ _ assms(3)] True ck ck' by auto
    ultimately show ?thesis using acc by simp
  next
    case False
    let ?v = "buf_slice p 0 8 @ [0, 0, 0, 0] @ drop 12 p"
    have i: "i < 8 \<or> 12 \<le> i" using False by auto
    have "?v ! i = p ! i" and "i < length ?v"
      using i len assms(2) by (auto simp: buf_slice_def nth_append)
    then have "crc32c (?v[i := x]) 0 \<noteq> crc32c ?v 0"
      using assms(3) by (intro crc32c_detects_byte) auto
    then have "packet_sum (p[i := x]) \<noteq> packet_sum p"
      unfolding packet_sum_def sctp_sizes crc_header_swap [OF assms(2) i len]
      by (metis word_uint_eq_iff)
    moreover have "buf_slice (p[i := x]) 8 12 = buf_slice p 8 12"
      using i by (auto simp: buf_slice_def drop_update_swap take_update_cancel)
    then have "readUInt32LE (p[i := x]) 8 = readUInt32LE p 8"
      by (simp add: readUInt32LE_def)
    ultimately show ?thesis using acc ck ck' by simp
  qed
  then show ?thesis using len ck' by (intro parsePacket_checksum(1)) auto
qed

theorem corrupted_byte_refused_witness:
  "\<exists>p r x. parsePacket p = Some (Inr r) \<and> 3 < length p \<and> p ! 3 \<noteq> x \<and>
     parsePacket (p[3 := x]) = Some (Inl (Error ''SCTP packet has invalid checksum''))"
proof -
  have "u16_ok 5000" "u16_ok 5001" "u32_ok 7" "valid_chunk (ShutdownChunk 0 42)"
    by (simp_all add: u16_ok_def u32_ok_def u8_ok_def)
  then obtain p where p: "parsePacket p = Some (Inr (5000, 5001, 7, [ShutdownChunk 0 42]))"
    using wire_form_valid packet_exists by (metis on_wire.simps)
  then have len: "3 < length p" by (simp add: parsePacket_def sctp_sizes split: if_splits)
  have "p ! 3 \<noteq> p ! 3 + 1" by simp
  from corrupted_byte_refused [OF p len this] p len this show ?thesis by blast
qed

section \<open>Termination of the parsing loops\<close>

text \<open>\<open>param_reach b pos q\<close>: from offset \<open>pos\<close> the loop of \<^verbatim>\<open>decodeParams\<close> gets to \<open>q\<close>.\<close>

inductive param_reach :: "buffer \<Rightarrow> nat \<Rightarrow> nat \<Rightarrow> bool" for b where
  here: "param_reach b pos pos"
| advance: "pos + 4 \<le> length b \<Longrightarrow> readUInt16BE b (pos + 2) = Inr len \<Longrightarrow>
    param_reach b (pos + (nat len + padL (nat len))) q \<Longrightarrow> param_reach b pos q"

definition zero_length_param :: "buffer \<Rightarrow> nat \<Rightarrow> bool" where
  "zero_length_param b q \<longleftrightarrow> q + 4 \<le> length b \<and> readUInt16BE b (q + 2) = Inr 0"

lemma read_ok: "pos + n \<le> length b \<Longrightarrow> \<exists>v. readUIntBE n b pos = Inr v \<and> 0 \<le> v"
  by (simp add: readUIntBE_def)

lemma decodeParams_loop_unfold:
  assumes "pos + 4 \<le> length b" and "readUInt16BE b (pos + 2) = Inr len"
  shows "\<exists>p. decodeParams_loop b pos acc = decodeParams_loop b (pos + (nat len + padL (nat len))) (acc @ [p])"
proof -
  obtain t where "readUInt16BE b pos = Inr t" using read_ok [of pos 2 b] assms(1) by auto
  with assms show ?thesis by (subst decodeParams_loop.simps) auto
qed

lemma decodeParams_returns:
  "(\<And>q. param_reach b pos q \<Longrightarrow> \<not> zero_length_param b q) \<Longrightarrow> \<exists>r. decodeParams_loop b pos acc = Some (Inr r)"
proof (induction "length b - pos" arbitrary: pos acc rule: less_induct)
  case less
  show ?case
  proof (cases "pos + 4 \<le> length b")
    case False
    then show ?thesis by (simp add: decodeParams_loop_done)
  next
    case True
    obtain len where len: "readUInt16BE b (pos + 2) = Inr len" "0 \<le> len"
      using read_ok [of "pos + 2" 2 b] True by auto
    with less.prems [OF here] True have "0 < len" by (auto simp: zero_length_param_def order_less_le)
    let ?pos = "pos + (nat len + padL (nat len))"
    have "\<exists>r. decodeParams_loop b ?pos acc' = Some (Inr r)" for acc'
      using \<open>0 < len\<close> True by (intro less.hyps less.prems advance [OF True len(1)]) auto
    with decodeParams_loop_unfold [OF True len(1), of acc] show ?thesis by metis
  qed
qed

lemma decodeParams_stuck:
  assumes ret: "decodeParams_loop b pos acc = Some r"
  shows "\<forall>q. param_reach b pos q \<longrightarrow> \<not> zero_length_param b q"
proof (rule decodeParams_loop.raw_induct
    [where P = "\<lambda>b pos acc r. \<forall>q. param_reach b pos q \<longrightarrow> \<not> zero_length_param b q", OF _ ret], intro allI impI)
  fix f body pos ps r q
  assume IH: "\<And>b pos acc r. f b pos acc = Some r \<Longrightarrow> \<forall>q. param_reach b pos q \<longrightarrow> \<not> zero_length_param b q"
    and eq: "(if int pos \<le> int (length body) - 4 then
        (case readUInt16BE body pos of Inl e \<Rightarrow> Some (Inl e) | Inr t \<Rightarrow>
        (case readUInt16BE body (pos + 2) of Inl e \<Rightarrow> Some (Inl e) | Inr len \<Rightarrow>
         f body (pos + (nat len + padL (nat len)))
           (ps @ [(t, buf_slice body (pos + 4) (pos + nat len))])))
      else Some (Inr ps)) = Some r"
    and reach: "param_reach body pos q"
  show "\<not> zero_length_param body q"
  proof (cases "pos + 4 \<le> length body")
    case False
    with reach show ?thesis by cases (auto simp: zero_length_param_def)
  next
    case True
    obtain t len where rd: "readUInt16BE body pos = Inr t" "readUInt16BE body (pos + 2) = Inr len"
      using read_ok [of pos 2 body] read_ok [of "pos + 2" 2 body] True by auto
    with eq True have "\<forall>q. param_reach body (pos + (nat len + padL (nat len))) q \<longrightarrow> \<not> zero_length_param body q"
      by (intro IH) auto
    with reach rd show ?thesis
      by cases (auto simp: zero_length_param_def padL_def sctp_sizes intro: here)
  qed
qed

text \<open>
  C13. Exactly when the parameter parser returns: \<^verbatim>\<open>decodeParams\<close> returns a parameter list on
  a body (and never throws) if and only if the loop does not reach a parameter whose length
  field is zero; on such a parameter it does not return.
\<close>

theorem decodeParams_returns_iff:
  "((\<exists>ps. decodeParams b = Some (Inr ps)) \<longleftrightarrow> \<not> (\<exists>q. param_reach b 0 q \<and> zero_length_param b q)) \<and>
   (decodeParams b = None \<longleftrightarrow> (\<exists>q. param_reach b 0 q \<and> zero_length_param b q))"
proof
  show 1: "(\<exists>ps. decodeParams b = Some (Inr ps)) \<longleftrightarrow> \<not> (\<exists>q. param_reach b 0 q \<and> zero_length_param b q)"
    using decodeParams_returns [of b 0 "[]"] decodeParams_stuck [of b 0 "[]"]
    unfolding decodeParams_def by blast
  then show "decodeParams b = None \<longleftrightarrow> (\<exists>q. param_reach b 0 q \<and> zero_length_param b q)"
    using decodeParams_stuck [of b 0 "[]"] unfolding decodeParams_def by (metis not_None_eq)
qed

text \<open>A chunk of type COOKIE ACK with a zero length field keeps the loop of \<^verbatim>\<open>parsePacket\<close>
  at its offset.\<close>

definition zero_chunk :: buffer where "zero_chunk = [11, 0, 0, 0]"

lemma parse_chunks_zero:
  assumes ret: "parse_chunks_loop d pos cs = Some r" and "drop pos d = zero_chunk"
  shows False
proof -
  have "drop pos d = zero_chunk \<longrightarrow> False"
  proof (rule parse_chunks_loop.raw_induct
      [where P = "\<lambda>d pos cs r. drop pos d = zero_chunk \<longrightarrow> False", OF _ ret])
    fix f data pos chunks r
    assume IH: "\<And>d pos cs r. f d pos cs = Some r \<Longrightarrow> drop pos d = zero_chunk \<longrightarrow> False"
      and eq: "(if pos + 4 \<le> length data then
        (case readUInt8 data pos of Inl e \<Rightarrow> Some (Inl e) | Inr chunkType \<Rightarrow>
        (case readUInt8 data (pos + 1) of Inl e \<Rightarrow> Some (Inl e) | Inr chunkFlags \<Rightarrow>
        (case readUInt16BE data (pos + 2) of Inl e \<Rightarrow> Some (Inl e) | Inr chunkLength \<Rightarrow>
        (case parse_chunk chunkType chunkFlags (buf_slice data (pos + 4) (pos + nat chunkLength)) of
           None \<Rightarrow> None
         | Some (Inl e) \<Rightarrow> Some (Inl e)
         | Some (Inr c) \<Rightarrow> f data (pos + (nat chunkLength + padL (nat chunkLength))) (chunks @ [c])))))
      else Some (Inr chunks)) = Some r"
    show "drop pos data = zero_chunk \<longrightarrow> False"
    proof
      assume d: "drop pos data = zero_chunk"
      have le: "pos \<le> length data" by (rule drop_nonempty [OF d]) (simp add: zero_chunk_def)
      have "length (drop pos data) = 4" by (simp add: d zero_chunk_def)
      with le have len: "pos + 4 \<le> length data" by simp
      have "readUInt8 data pos = Inr 11" "readUInt8 data (pos + 1) = Inr 0" "readUInt16BE data (pos + 2) = Inr 0"
        using readUIntBE_drop [OF le, of 1 0] readUIntBE_drop [OF le, of 1 1] readUIntBE_drop [OF le, of 2 2]
        by (simp_all add: d zero_chunk_def readUIntBE_def buf_slice_def)
      with eq len have "f data pos (chunks @ [CookieAckChunk 0 []]) = Some r"
        by (simp add: parse_chunk_def buf_slice_def padL_def sctp_sizes)
      from IH [OF this] d show False by blast
    qed
  qed
  with assms(2) show False by blast
qed

text \<open>
  C42. A packet that hangs the receiver: there is a 16-byte packet with a valid checksum on
  which \<^verbatim>\<open>parsePacket\<close> never returns, for every pair of ports and every verification tag.
\<close>

theorem parsePacket_hangs:
  "\<forall>sp dp tag. u16_ok sp \<and> u16_ok dp \<and> u32_ok tag \<longrightarrow>
     parsePacket (packet_wire sp dp tag zero_chunk) = None"
proof (intro allI impI)
  fix sp dp tag
  assume "u16_ok sp \<and> u16_ok dp \<and> u32_ok tag"
  moreover have "drop 12 (packet_wire sp dp tag zero_chunk) = zero_chunk"
    by (simp add: packet_wire_def)
  then have "parse_chunks_loop (packet_wire sp dp tag zero_chunk) 12 [] = None"
    using parse_chunks_zero by (metis not_None_eq)
  ultimately show "parsePacket (packet_wire sp dp tag zero_chunk) = None"
    by (simp add: parsePacket_wire)
qed

theorem parsePacket_hangs_witness:
  "u16_ok 5000 \<and> u32_ok 0 \<and> parsePacket (packet_wire 5000 5000 0 zero_chunk) = None"
  using parsePacket_hangs by (simp add: u16_ok_def u32_ok_def)

end
