(* ===== verification/Sctp_Handshake.thy ===== *)
theory Sctp_Handshake
  imports Sctp_Invariant Sctp_Wire
begin

text \<open>
  The four-way handshake: INIT, INIT ACK with the state cookie, COOKIE ECHO, COOKIE ACK,
  between a client and a server association over a transport that delivers.
\<close>

section \<open>One packet\<close>

lemma sendChunk_delivers:
  assumes "connectionState s \<noteq> st_closed" "remotePort s = Some rp" "\<forall>p. transport_ok env p"
    "u16_ok (localPort s)" "u16_ok rp" "u32_ok (remoteVerificationTag s)" "valid_chunk c"
  shows "\<exists>b. sendChunk env c s = (None, emit (SendPacket b) s) \<and>
    parsePacket b = Some (Inr (localPort s, rp, remoteVerificationTag s, [on_wire c]))"
  using packet_exists [OF assms(4-7)] assms(1-3) by (auto simp: sendChunk_def)

lemma handleData_one:
  assumes "\<not> isStopped s" "parsePacket b = Some (Inr (sp, dp, tag, [c]))"
    "tag = (if is_init c then 0 else localVerificationTag s)"
    "receiveChunk env c (s\<lparr>sackHasNewDataInPacket := False\<rparr>) = (None, s')" "\<not> sackNeeded s'"
  shows "handleData env b s = Some (None, s')"
  using assms by (auto simp: handleData_def Let_def andThen_def sack_after_packet_def)

lemma getExtensions_view:
  assumes "\<And>s b. v (s\<lparr>remotePartialReliability := b\<rparr>) = v s" "\<And>s xs. v (s\<lparr>remoteExtensions := xs\<rparr>) = v s"
  shows "v (getExtensions ps s) = v s"
  unfolding getExtensions_def by (induction ps arbitrary: s) (auto simp: assms split: prod.splits)

lemmas getExtensions_frame [simp] =
  getExtensions_view [where v = associationState, simplified]
  getExtensions_view [where v = sackNeeded, simplified]
  getExtensions_view [where v = localVerificationTag, simplified]
  getExtensions_view [where v = connectionState, simplified]
  getExtensions_view [where v = localPort, simplified]
  getExtensions_view [where v = remotePort, simplified]
  getExtensions_view [where v = timer1Handle, simplified]
  getExtensions_view [where v = localPartialReliability, simplified]
  getExtensions_view [where v = hmacKey, simplified]
  getExtensions_view [where v = isServer, simplified]
  getExtensions_view [where v = localTsn, simplified]
  getExtensions_view [where v = advertisedRwnd, simplified]
  getExtensions_view [where v = out, simplified]
  getExtensions_view [where v = remoteVerificationTag, simplified]
  getExtensions_view [where v = lastReceivedTsn, simplified]
  getExtensions_view [where v = inboundStreamsMax, simplified]
  getExtensions_view [where v = outboundStreamsCount, simplified]

lemmas isStopping_getExtensions = getExtensions_view [where v = isStopping, simplified] getExtensions_view [where v = isClosed, simplified]

text \<open>What learning the peer's parameters leaves unchanged.\<close>

lemma learn_peer_frame [simp]:
  "associationState (learn_peer c s) = associationState s" "isStopped (learn_peer c s) = isStopped s"
  "sackNeeded (learn_peer c s) = sackNeeded s" "localVerificationTag (learn_peer c s) = localVerificationTag s"
  "connectionState (learn_peer c s) = connectionState s" "localPort (learn_peer c s) = localPort s"
  "remotePort (learn_peer c s) = remotePort s" "timer1Handle (learn_peer c s) = timer1Handle s"
  "localPartialReliability (learn_peer c s) = localPartialReliability s" "hmacKey (learn_peer c s) = hmacKey s"
  "isServer (learn_peer c s) = isServer s" "localTsn (learn_peer c s) = localTsn s"
  "advertisedRwnd (learn_peer c s) = advertisedRwnd s" "out (learn_peer c s) = out s"
  "remoteVerificationTag (learn_peer c s) = initiateTag c"
  "lastReceivedTsn (learn_peer c s) = Some (tsnMinusOne (initialTsn c))"
  "inboundStreamsCount (learn_peer c s) = min (outboundStreams c) (inboundStreamsMax s)"
  "outboundStreamsCount (learn_peer c s) = min (outboundStreamsCount s) (inboundStreams c)"
  "inboundStreamsMax (learn_peer c s) = inboundStreamsMax s"
  by (simp_all add: learn_peer_def Let_def) (simp_all add: isStopped_def isStopping_getExtensions)

section \<open>Cookies\<close>

text \<open>C4: a chunk makes an association established only if it is a COOKIE ECHO to a server that
  carries a cookie this association signed (24 bytes, the HMAC over the time stamp) no older
  than 60 seconds and not from the future, or a COOKIE ACK in state \<^verbatim>\<open>COOKIE_ECHOED\<close>.\<close>

theorem established_only_by_cookie:
  assumes "associationState s \<noteq> ESTABLISHED" "associationState (snd (receiveChunk env c s)) = ESTABLISHED"
  shows "(\<exists>fl cookie stamp. c = CookieEchoChunk fl cookie \<and> isServer s \<and> length cookie = 24 \<and>
      drop 4 cookie = hmac_sha1 env (hmacKey s) (take 4 cookie) \<and> readUInt32BE cookie 0 = Inr stamp \<and>
      now_floor env - 60 \<le> stamp \<and> stamp \<le> now_floor env) \<or>
    ((\<exists>fl body. c = CookieAckChunk fl body) \<and> associationState s = COOKIE_ECHOED)"
proof (cases c)
  case (CookieEchoChunk fl body)
  with assms show ?thesis
    by (auto simp: receiveCookieEcho_def cookie_valid_def COOKIE_LENGTH_def COOKIE_LIFETIME_def
        split: if_splits sum.splits)
next
  case (InitChunk i)
  with InitChunk assms show ?thesis
    by (auto simp: receiveInit_def Let_def split: if_splits sum.splits)
next
  case (InitAckChunk i)
  with assms show ?thesis
    by (auto simp: receiveInitAck_def Let_def andThen_def timer1Start_def split: if_splits)
next
  case (ShutdownChunk a b)
  with assms show ?thesis
    by (auto simp: receiveShutdown_def Let_def andThen_def t2Start_def split: if_splits)
qed (use assms in \<open>auto split: if_splits\<close>)

section \<open>The exchange\<close>

text \<open>An association that takes part in a handshake: live, nothing received, its own values within
  their widths.\<close>

definition hs_ready :: "int \<Rightarrow> int \<Rightarrow> int \<Rightarrow> int \<Rightarrow> sctp \<Rightarrow> bool" where
  "hs_ready port rport tag tsn0 s \<longleftrightarrow> \<not> isStopped s \<and> \<not> sackNeeded s \<and> connectionState s \<noteq> st_closed \<and>
     localPort s = port \<and> remotePort s = Some rport \<and> localVerificationTag s = tag \<and> localTsn s = tsn0 \<and>
     localPartialReliability s \<and> u16_ok port \<and> u16_ok rport \<and> u32_ok tag \<and> u32_ok tsn0 \<and> u32_ok (advertisedRwnd s) \<and>
     u16_ok (inboundStreamsMax s) \<and> u16_ok (outboundStreamsCount s)"

lemma setExtensions_valid:
  "localPartialReliability s \<Longrightarrow> setExtensions s = [(SCTP_PRSCTP_SUPPORTED, []), (SCTP_SUPPORTED_CHUNK_EXT, [192, 130])]"
  by (simp add: setExtensions_def)

lemma padL_small: "padL 0 = 0" "padL (Suc (Suc 0)) = 2"
  by (simp_all add: padL_def SCTP_PADDING_MULTIPLE_def)

lemma init_valid:
  assumes "hs_ready port rport tag tsn0 s" "u16_ok os" "u16_ok is" "length cookie \<le> 24"
  shows "valid_init \<lparr>init_flags = 0, initiateTag = localVerificationTag s, init_advertisedRwnd = advertisedRwnd s,
      outboundStreams = os, inboundStreams = is, initialTsn = localTsn s, init_params = setExtensions s\<rparr>"
    and "valid_init \<lparr>init_flags = 0, initiateTag = localVerificationTag s, init_advertisedRwnd = advertisedRwnd s,
      outboundStreams = os, inboundStreams = is, initialTsn = localTsn s,
      init_params = setExtensions s @ [(SCTP_STATE_COOKIE, cookie)]\<rparr>"
  using assms by (simp_all add: hs_ready_def valid_init_def setExtensions_valid valid_params_def u16_ok_def u8_ok_def
      SCTP_PRSCTP_SUPPORTED_def SCTP_SUPPORTED_CHUNK_EXT_def SCTP_STATE_COOKIE_def param_wire_def padL_small)

definition server_params :: "sctp \<Rightarrow> init_chunk" where
  "server_params s = \<lparr>init_flags = 0, initiateTag = localVerificationTag s, init_advertisedRwnd = advertisedRwnd s,
     outboundStreams = outboundStreamsCount s, inboundStreams = inboundStreamsCount s, initialTsn = localTsn s,
     init_params = setExtensions s\<rparr>"

text \<open>Client: \<^verbatim>\<open>start\<close> sends INIT and waits for the cookie.\<close>

lemma client_start:
  assumes r: "hs_ready port rport tag tsn0 (s\<lparr>connectionState := st_connecting, remotePort := Some rport\<rparr>)"
    and s: "\<not> started s" "\<not> isServer s" "timer1Handle s = None" "remoteVerificationTag s = 0" "rport \<noteq> 0"
    and t: "\<forall>p. transport_ok env p"
    and c1: "c1 = start env (Some rport) s"
  shows "\<exists>p ini. hs_ready port rport tag tsn0 c1 \<and> associationState c1 = COOKIE_WAIT \<and> \<not> isServer c1 \<and>
    SendPacket p \<in> set (out c1) \<and> parsePacket p = Some (Inr (port, rport, 0, [InitChunk ini])) \<and>
    initiateTag ini = tag \<and> initialTsn ini = tsn0 \<and> valid_init ini"
proof -
  let ?s = "s\<lparr>started := True, connectionState := st_connecting, out := out s @ [StateChanged st_connecting], remotePort := Some rport\<rparr>"
  let ?ini = "\<lparr>init_flags = 0, initiateTag = localVerificationTag ?s, init_advertisedRwnd = advertisedRwnd ?s,
      outboundStreams = outboundStreamsCount ?s, inboundStreams = inboundStreamsMax ?s, initialTsn = localTsn ?s, init_params = setExtensions ?s\<rparr>"
  have r': "hs_ready port rport tag tsn0 ?s" using r by (simp add: hs_ready_def isStopped_def)
  have v: "valid_init ?ini" using init_valid(1) [OF r', of "outboundStreamsCount ?s" "inboundStreamsMax ?s" "[]"] r by (simp add: hs_ready_def)
  obtain p where p: "sendChunk env (InitChunk ?ini) ?s = (None, emit (SendPacket p) ?s)"
    "parsePacket p = Some (Inr (port, rport, 0, [InitChunk ?ini]))"
    using sendChunk_delivers [of ?s rport env "InitChunk ?ini"] r' v t s(4) by (auto simp: hs_ready_def u32_ok_def)
  have "c1 = init env ?s"
    unfolding c1 using s by (simp add: start_def setConnectionState_def setRemotePort_def emit_def Let_def)
  also have "\<dots> = setState COOKIE_WAIT (snd (timer1Start (InitChunk ?ini) (emit (SendPacket p) ?s)))"
    using p(1) s(3) by (simp add: init_def Let_def andThen_def timer1Start_def emit_def)
  finally have "hs_ready port rport tag tsn0 c1 \<and> associationState c1 = COOKIE_WAIT \<and> \<not> isServer c1 \<and> SendPacket p \<in> set (out c1)"
    using r' s by (simp add: setState_other timer1Start_def emit_def hs_ready_def isStopped_def)
  then show ?thesis using p(2) v r' by (intro exI [of _ p] exI [of _ ?ini]) (auto simp: hs_ready_def)
qed

text \<open>A chunk sent by a ready association: only the output changes.\<close>

lemma hs_send:
  assumes "hs_ready port rport tag tsn0 s" "\<forall>p. transport_ok env p" "valid_chunk c" "u32_ok (remoteVerificationTag s)"
  shows "\<exists>p. sendChunk_logged env c s = emit (SendPacket p) s \<and>
    parsePacket p = Some (Inr (port, rport, remoteVerificationTag s, [on_wire c]))"
  using sendChunk_delivers [of s rport env c] assms by (auto simp: hs_ready_def sendChunk_logged_def)

lemma hs_ready_emit [simp]: "hs_ready port rport tag tsn0 (emit e s) = hs_ready port rport tag tsn0 s"
  by (simp add: hs_ready_def emit_def isStopped_def)

lemma hs_ready_learn:
  "hs_ready port rport tag tsn0 s \<Longrightarrow> u16_ok (inboundStreams c) \<Longrightarrow> hs_ready port rport tag tsn0 (learn_peer c s)"
  by (auto simp: hs_ready_def u16_ok_def)

text \<open>Server: INIT is answered by INIT ACK with a fresh cookie.\<close>

lemma server_init:
  assumes r: "hs_ready port rport tag tsn0 s" and srv: "isServer s" and v: "valid_init ini"
    and t: "\<forall>p. transport_ok env p" "\<forall>k m. length (hmac_sha1 env k m) = 20" "u32_ok (now_floor env)"
    and p: "parsePacket p = Some (Inr (a, b, 0, [InitChunk ini]))"
  shows "\<exists>s1 p1 ia cookie. handleData env p s = Some (None, s1) \<and> hs_ready port rport tag tsn0 s1 \<and> isServer s1 \<and>
    remoteVerificationTag s1 = initiateTag ini \<and> lastReceivedTsn s1 = Some (tsnMinusOne (initialTsn ini)) \<and>
    SendPacket p1 \<in> set (out s1) \<and> parsePacket p1 = Some (Inr (port, rport, initiateTag ini, [InitAckChunk ia])) \<and>
    valid_init ia \<and> initiateTag ia = tag \<and> initialTsn ia = tsn0 \<and>
    map_of (init_params ia) SCTP_STATE_COOKIE = Some cookie \<and> cookie_valid env s1 cookie \<and>
    readUInt32BE cookie 0 = Inr (now_floor env)"
proof -
  let ?t = "s\<lparr>sackHasNewDataInPacket := False\<rparr>"
  let ?s = "learn_peer ini ?t"
  have r0: "hs_ready port rport tag tsn0 ?s"
    using r v by (intro hs_ready_learn) (auto simp: hs_ready_def isStopped_def valid_init_def)
  obtain ct where ct: "writeUInt32BE (now_floor env) = Inr ct" "length ct = 4" "readUInt32BE (ct @ x) 0 = Inr (now_floor env)" for x
  proof
    show "writeUInt32BE (now_floor env) = Inr (be_bytes 4 (now_floor env))" using t(3) by (simp add: wire_simps u32_ok_def)
    show "readUInt32BE (be_bytes 4 (now_floor env) @ x) 0 = Inr (now_floor env)" for x
      using t(3) by (simp add: wire_simps u32_ok_def)
  qed simp
  let ?cookie = "ct @ hmac_sha1 env (hmacKey ?s) ct"
  let ?ia = "\<lparr>init_flags = 0, initiateTag = localVerificationTag ?s, init_advertisedRwnd = advertisedRwnd ?s,
      outboundStreams = outboundStreamsCount ?s, inboundStreams = inboundStreamsCount ?s, initialTsn = localTsn ?s,
      init_params = setExtensions ?s @ [(SCTP_STATE_COOKIE, ?cookie)]\<rparr>"
  have "u16_ok (outboundStreamsCount ?s)" "u16_ok (inboundStreamsCount ?s)"
    using r v by (auto simp: hs_ready_def valid_init_def u16_ok_def)
  then have v1: "valid_init ?ia" using init_valid(2) [OF r0] ct(2) t(2) by simp
  obtain p1 where p1: "sendChunk_logged env (InitAckChunk ?ia) ?s = emit (SendPacket p1) ?s"
    "parsePacket p1 = Some (Inr (port, rport, initiateTag ini, [InitAckChunk ?ia]))"
    using hs_send [OF r0 t(1), of "InitAckChunk ?ia"] v v1 by (auto simp: valid_init_def)
  let ?u = "emit (SendPacket p1) ?s"
  have "receiveChunk env (InitChunk ini) ?t = (None, ?u)"
    using srv p1(1) ct(1) by (simp add: receiveInit_def Let_def)
  then have "handleData env p s = Some (None, ?u)"
    using r r0 p by (intro handleData_one [OF _ p]) (auto simp: hs_ready_def is_init_def emit_def)
  moreover have "cookie_valid env ?u ?cookie" using t(2) ct(2) by (simp add: cookie_valid_def COOKIE_LENGTH_def emit_def)
  moreover have "map_of (init_params ?ia) SCTP_STATE_COOKIE = Some ?cookie"
    using r0 by (simp add: setExtensions_valid hs_ready_def SCTP_STATE_COOKIE_def SCTP_PRSCTP_SUPPORTED_def SCTP_SUPPORTED_CHUNK_EXT_def)
  ultimately show ?thesis
    using r0 srv v1 p1(2) ct(3) r
    by (intro exI [of _ ?u] exI [of _ p1] exI [of _ ?ia] exI [of _ ?cookie]) (auto simp: hs_ready_def emit_def isStopped_def)
qed

text \<open>Client: INIT ACK is answered by echoing the cookie.\<close>

lemma client_init_ack:
  assumes r: "hs_ready port rport tag tsn0 s" and st: "associationState s = COOKIE_WAIT" and v: "valid_init ia"
    and t: "\<forall>p. transport_ok env p" and c: "map_of (init_params ia) SCTP_STATE_COOKIE = Some cookie" "length cookie = 24"
    and p: "parsePacket p = Some (Inr (a, b, tag, [InitAckChunk ia]))"
  shows "\<exists>s1 p1. handleData env p s = Some (None, s1) \<and> hs_ready port rport tag tsn0 s1 \<and>
    associationState s1 = COOKIE_ECHOED \<and> remoteVerificationTag s1 = initiateTag ia \<and>
    lastReceivedTsn s1 = Some (tsnMinusOne (initialTsn ia)) \<and>
    SendPacket p1 \<in> set (out s1) \<and> parsePacket p1 = Some (Inr (port, rport, initiateTag ia, [CookieEchoChunk 0 cookie]))"
proof -
  let ?t = "s\<lparr>sackHasNewDataInPacket := False\<rparr>"
  let ?s = "learn_peer ia (timer1Cancel ?t)" let ?e = "CookieEchoChunk 0 cookie"
  have "hs_ready port rport tag tsn0 (timer1Cancel ?t)"
    using r by (auto simp: hs_ready_def timer1Cancel_def isStopped_def)
  then have r0: "hs_ready port rport tag tsn0 ?s" using v by (intro hs_ready_learn) (auto simp: valid_init_def)
  have th: "timer1Handle ?s = None" by (simp add: timer1Cancel_def)
  have ve: "valid_chunk ?e" using c(2) by (simp add: valid_body_chunk_def u8_ok_def)
  obtain p1 where p1: "sendChunk_logged env ?e ?s = emit (SendPacket p1) ?s"
    "parsePacket p1 = Some (Inr (port, rport, initiateTag ia, [?e]))"
    using hs_send [OF r0 t ve] v by (auto simp: valid_init_def)
  let ?u = "setState COOKIE_ECHOED (snd (timer1Start ?e (emit (SendPacket p1) ?s)))"
  have rc: "receiveChunk env (InitAckChunk ia) ?t = (None, ?u)"
    using st p1(1) c(1) th by (simp add: receiveInitAck_def Let_def andThen_def timer1Start_def emit_def)
  have s1: "?u = (emit (SendPacket p1) ?s)\<lparr>timer1Chunk := Some ?e, timer1Failures := 0, timer1Handle := Some (rto ?s * 1000),
      associationState := COOKIE_ECHOED\<rparr>"
    using th by (simp add: setState_other timer1Start_def emit_def)
  have f: "hs_ready port rport tag tsn0 ?u" unfolding s1 using r0 by (simp add: hs_ready_def emit_def isStopped_def)
  have "handleData env p s = Some (None, ?u)"
    by (rule handleData_one [OF _ p _ rc]) (use r f in \<open>auto simp: hs_ready_def is_init_def\<close>)
  moreover have "remoteVerificationTag ?u = initiateTag ia" "lastReceivedTsn ?u = Some (tsnMinusOne (initialTsn ia))"
    "SendPacket p1 \<in> set (out ?u)" unfolding s1 by (simp_all add: emit_def)
  ultimately show ?thesis using f p1(2) by (intro exI [of _ ?u] exI [of _ p1]) simp
qed

text \<open>Server: the cookie comes back, the association is established.\<close>

lemma setState_established_sel:
  "associationState (setState ESTABLISHED s) = ESTABLISHED" "connectionState (setState ESTABLISHED s) = st_connected"
  "remoteVerificationTag (setState ESTABLISHED s) = remoteVerificationTag s"
  "lastReceivedTsn (setState ESTABLISHED s) = lastReceivedTsn s" "sackNeeded (setState ESTABLISHED s) = sackNeeded s"
  "out (setState ESTABLISHED s) = out s @ [StateChanged st_connected]"
  by (simp_all add: setState_established setConnectionState_def emit_def heartbeatStart_def)

lemma server_cookie_echo:
  assumes r: "hs_ready port rport tag tsn0 s" and srv: "isServer s"
    and t: "\<forall>p. transport_ok env p" "u32_ok (remoteVerificationTag s)"
    and c: "cookie_valid env s cookie" "readUInt32BE cookie 0 = Inr (now_floor env)"
    and p: "parsePacket p = Some (Inr (a, b, tag, [CookieEchoChunk 0 cookie]))"
  shows "\<exists>s1 p1. handleData env p s = Some (None, s1) \<and> associationState s1 = ESTABLISHED \<and>
    connectionState s1 = st_connected \<and> remoteVerificationTag s1 = remoteVerificationTag s \<and>
    lastReceivedTsn s1 = lastReceivedTsn s \<and>
    SendPacket p1 \<in> set (out s1) \<and> parsePacket p1 = Some (Inr (port, rport, remoteVerificationTag s, [CookieAckChunk 0 []]))"
proof -
  let ?s = "s\<lparr>sackHasNewDataInPacket := False\<rparr>"
  have r0: "hs_ready port rport tag tsn0 ?s" using r by (simp add: hs_ready_def isStopped_def)
  have va: "valid_chunk (CookieAckChunk 0 [])" by (simp add: valid_body_chunk_def u8_ok_def)
  obtain p1 where p1: "sendChunk_logged env (CookieAckChunk 0 []) ?s = emit (SendPacket p1) ?s"
    "parsePacket p1 = Some (Inr (port, rport, remoteVerificationTag s, [CookieAckChunk 0 []]))"
    using hs_send [OF r0 t(1) va] t(2) by auto
  let ?u = "setState ESTABLISHED (emit (SendPacket p1) ?s)"
  have cv: "cookie_valid env ?s cookie" using c(1) by (simp add: cookie_valid_def)
  have rc: "receiveChunk env (CookieEchoChunk 0 cookie) ?s = (None, ?u)"
    using srv cv c(2) p1(1) by (simp add: receiveCookieEcho_def COOKIE_LIFETIME_def)
  have "handleData env p s = Some (None, ?u)"
    by (rule handleData_one [OF _ p _ rc]) (use r in \<open>auto simp: hs_ready_def is_init_def setState_established_sel emit_def\<close>)
  then show ?thesis
    using p1(2) by (intro exI [of _ ?u] exI [of _ p1]) (simp add: setState_established_sel emit_def)
qed

lemma client_cookie_ack:
  assumes r: "hs_ready port rport tag tsn0 s" and st: "associationState s = COOKIE_ECHOED"
    and p: "parsePacket p = Some (Inr (a, b, tag, [CookieAckChunk 0 []]))"
  shows "\<exists>s1. handleData env p s = Some (None, s1) \<and> associationState s1 = ESTABLISHED \<and>
    connectionState s1 = st_connected \<and> remoteVerificationTag s1 = remoteVerificationTag s \<and>
    lastReceivedTsn s1 = lastReceivedTsn s"
proof -
  let ?s = "s\<lparr>sackHasNewDataInPacket := False\<rparr>" let ?u = "setState ESTABLISHED (timer1Cancel ?s)"
  have rc: "receiveChunk env (CookieAckChunk 0 []) ?s = (None, ?u)" using st by simp
  have f: "remoteVerificationTag (timer1Cancel ?s) = remoteVerificationTag s" "lastReceivedTsn (timer1Cancel ?s) = lastReceivedTsn s"
    "sackNeeded (timer1Cancel ?s) = sackNeeded s" by (simp_all add: timer1Cancel_def)
  have "handleData env p s = Some (None, ?u)"
    by (rule handleData_one [OF _ p _ rc]) (use r f in \<open>auto simp: hs_ready_def is_init_def setState_established_sel\<close>)
  with f show ?thesis by (intro exI [of _ ?u]) (simp add: setState_established_sel)
qed

text \<open>C3: the handshake establishes.  A new client and a new server, each started towards the
  other over a transport that delivers, reach \<^verbatim>\<open>ESTABLISHED\<close> in four packets, each produced by
  one side and handled without an exception by the other; afterwards each side holds the
  verification tag and the initial TSN of its peer.\<close>

theorem handshake_establishes:
  assumes c: "SCTP_client cport cmtu ckey ctag ctsn = Inr c" and s: "SCTP_server sport smtu skey stag stsn = Inr s"
    and w: "u16_ok cport" "u16_ok sport" "cport \<noteq> 0" "sport \<noteq> 0" "u32_ok ctag" "u32_ok stag" "u32_ok ctsn" "u32_ok stsn"
    and env: "\<forall>p. transport_ok env p" "\<forall>k m. length (hmac_sha1 env k m) = 20" "u32_ok (now_floor env)"
  shows "\<exists>c1 s1 c2 s2 c3 p1 p2 p3 p4. c1 = start env (Some sport) c \<and> SendPacket p1 \<in> set (out c1) \<and>
    handleData env p1 (start env (Some cport) s) = Some (None, s1) \<and> SendPacket p2 \<in> set (out s1) \<and>
    handleData env p2 c1 = Some (None, c2) \<and> SendPacket p3 \<in> set (out c2) \<and>
    handleData env p3 s1 = Some (None, s2) \<and> SendPacket p4 \<in> set (out s2) \<and>
    handleData env p4 c2 = Some (None, c3) \<and>
    associationState c3 = ESTABLISHED \<and> associationState s2 = ESTABLISHED \<and>
    connectionState c3 = st_connected \<and> connectionState s2 = st_connected \<and>
    remoteVerificationTag c3 = stag \<and> remoteVerificationTag s2 = ctag \<and>
    lastReceivedTsn c3 = Some (tsnMinusOne stsn) \<and> lastReceivedTsn s2 = Some (tsnMinusOne ctsn)"
proof -
  define c1 where "c1 = start env (Some sport) c"
  define s0 where "s0 = start env (Some cport) s"
  have hc: "hs_ready cport sport ctag ctsn (c\<lparr>connectionState := st_connecting, remotePort := Some sport\<rparr>)"
    and c0: "\<not> started c" "\<not> isServer c" "timer1Handle c = None" "remoteVerificationTag c = 0"
    using c w by (auto simp: SCTP_client_def new_SCTP_def rbind_def Let_def hs_ready_def isStopped_def MAX_STREAMS_def u16_ok_def u32_ok_def split: sum.splits)
  have hs: "hs_ready sport cport stag stsn s0" "isServer s0"
    using s w by (auto simp: s0_def start_def setConnectionState_def setRemotePort_def emit_def SCTP_server_def new_SCTP_def rbind_def Let_def
        hs_ready_def isStopped_def MAX_STREAMS_def u16_ok_def u32_ok_def split: sum.splits)
  obtain p1 ini where A: "hs_ready cport sport ctag ctsn c1" "associationState c1 = COOKIE_WAIT" "SendPacket p1 \<in> set (out c1)"
    "parsePacket p1 = Some (Inr (cport, sport, 0, [InitChunk ini]))" "initiateTag ini = ctag" "initialTsn ini = ctsn" "valid_init ini"
    using client_start [OF hc c0 w(4) env(1) c1_def] by auto
  obtain s1 p2 ia cookie where B: "handleData env p1 s0 = Some (None, s1)" "hs_ready sport cport stag stsn s1" "isServer s1"
    "remoteVerificationTag s1 = ctag" "lastReceivedTsn s1 = Some (tsnMinusOne ctsn)" "SendPacket p2 \<in> set (out s1)"
    "parsePacket p2 = Some (Inr (sport, cport, ctag, [InitAckChunk ia]))" "valid_init ia" "initiateTag ia = stag" "initialTsn ia = stsn"
    "map_of (init_params ia) SCTP_STATE_COOKIE = Some cookie" "cookie_valid env s1 cookie" "readUInt32BE cookie 0 = Inr (now_floor env)"
    using server_init [OF hs A(7) env A(4), unfolded A(5,6)] by blast
  have cl: "length cookie = 24" using B(12) by (simp add: cookie_valid_def COOKIE_LENGTH_def)
  obtain c2 p3 where C: "handleData env p2 c1 = Some (None, c2)" "hs_ready cport sport ctag ctsn c2" "associationState c2 = COOKIE_ECHOED"
    "remoteVerificationTag c2 = stag" "lastReceivedTsn c2 = Some (tsnMinusOne stsn)" "SendPacket p3 \<in> set (out c2)"
    "parsePacket p3 = Some (Inr (cport, sport, stag, [CookieEchoChunk 0 cookie]))"
    using client_init_ack [OF A(1,2) B(8) env(1) B(11) cl B(7), unfolded B(9,10)] by blast
  obtain s2 p4 where D: "handleData env p3 s1 = Some (None, s2)" "associationState s2 = ESTABLISHED" "connectionState s2 = st_connected"
    "remoteVerificationTag s2 = ctag" "lastReceivedTsn s2 = Some (tsnMinusOne ctsn)" "SendPacket p4 \<in> set (out s2)"
    "parsePacket p4 = Some (Inr (sport, cport, ctag, [CookieAckChunk 0 []]))"
    using server_cookie_echo [OF B(2,3) env(1) _ B(12,13) C(7), unfolded B(4,5), OF w(5)] by blast
  obtain c3 where E: "handleData env p4 c2 = Some (None, c3)" "associationState c3 = ESTABLISHED" "connectionState c3 = st_connected"
    "remoteVerificationTag c3 = stag" "lastReceivedTsn c3 = Some (tsnMinusOne stsn)"
    using client_cookie_ack [OF C(2,3) D(7), of env, unfolded C(4,5)] by blast
  show ?thesis
    by (intro exI conjI)
      (rule c1_def A(3) B(1) [unfolded s0_def] B(6) C(1) C(6) D(1) D(6) E(1) E(2) D(2) E(3) D(3) E(4) D(4) E(5) D(5))+
qed

theorem handshake_establishes_witness:
  "\<exists>c1 s1 c2 s2 c3 p1 p2 p3 p4. c1 = start env_sample (Some 5001) (projr (SCTP_client 5000 1200 [1] 7 100)) \<and>
    SendPacket p1 \<in> set (out c1) \<and>
    handleData env_sample p1 (start env_sample (Some 5000) (projr (SCTP_server 5001 1200 [2] 8 200))) = Some (None, s1) \<and>
    SendPacket p2 \<in> set (out s1) \<and> handleData env_sample p2 c1 = Some (None, c2) \<and> SendPacket p3 \<in> set (out c2) \<and>
    handleData env_sample p3 s1 = Some (None, s2) \<and> SendPacket p4 \<in> set (out s2) \<and>
    handleData env_sample p4 c2 = Some (None, c3) \<and> associationState c3 = ESTABLISHED \<and> associationState s2 = ESTABLISHED"
proof -
  have v: "validateSctpMtu 1200 = Inr ()"
    by (simp add: validateSctpMtu_def maxPayloadSizeForMtu_def Let_def SCTP_COMMON_HEADER_SIZE_def SCTP_DATA_CHUNK_HEADER_SIZE_def
        SCTP_PADDING_MULTIPLE_def SCTP_CHUNK_HEADER_SIZE_def SCTP_DATA_FIXED_HEADER_SIZE_def)
  have cs: "SCTP_client 5000 1200 [1] 7 100 = Inr (projr (SCTP_client 5000 1200 [1] 7 100))"
    "SCTP_server 5001 1200 [2] 8 200 = Inr (projr (SCTP_server 5001 1200 [2] 8 200))"
    by (simp_all add: SCTP_client_def SCTP_server_def new_SCTP_def rbind_def v Let_def)
  have h: "u16_ok 5000" "u16_ok 5001" "u32_ok 7" "u32_ok 8" "u32_ok 100" "u32_ok 200"
    "\<forall>p. transport_ok env_sample p" "\<forall>k m. length (hmac_sha1 env_sample k m) = 20" "u32_ok (now_floor env_sample)"
    by (simp_all add: u16_ok_def u32_ok_def env_sample_def now_floor_def)
  have nz: "(5000 :: int) \<noteq> 0" "(5001 :: int) \<noteq> 0" by simp_all
  show ?thesis
    using handshake_establishes [OF cs h(1,2) nz h(3-9)] by blast
qed

theorem established_only_by_cookie_witness:
  "isServer (projr (SCTP_server 5001 1200 [2] 8 200)) \<and> length ([0, 0, 0, 5] @ replicate 20 (4 :: byte)) = 24"
proof -
  have v: "validateSctpMtu 1200 = Inr ()"
    by (simp add: validateSctpMtu_def maxPayloadSizeForMtu_def Let_def SCTP_COMMON_HEADER_SIZE_def SCTP_DATA_CHUNK_HEADER_SIZE_def
        SCTP_PADDING_MULTIPLE_def SCTP_CHUNK_HEADER_SIZE_def SCTP_DATA_FIXED_HEADER_SIZE_def)
  let ?s = "projr (SCTP_server 5001 1200 [2] 8 200)" let ?c = "[0, 0, 0, 5] @ replicate 20 (4 :: byte)"
  have a: "associationState ?s \<noteq> ESTABLISHED" "isServer ?s"
    by (simp_all add: SCTP_server_def new_SCTP_def rbind_def v Let_def)
  have "readUInt32BE ?c 0 = Inr 5" by (simp add: readUIntBE_def buf_slice_def be_int.simps)
  then have "associationState (snd (receiveChunk env_sample (CookieEchoChunk 0 ?c) ?s)) = ESTABLISHED"
    using a by (simp add: receiveCookieEcho_def cookie_valid_def COOKIE_LENGTH_def COOKIE_LIFETIME_def now_floor_def env_sample_def)
  from established_only_by_cookie [OF a(1) this] have "isServer ?s" by blast
  then show ?thesis by simp
qed

end
