(* ===== verification/Sctp_Transfer.thy ===== *)
theory Sctp_Transfer
  imports Sctp_Invariant Sctp_Wire
begin

text \<open>
  What the association promises its user: transmission within the congestion window and the
  window of the peer, progress, delivery of a sent message whole and once, and the
  hand-shake.  Also the cases in which the code breaks the promise.
\<close>

section \<open>Windows\<close>




lemma send_forward_tsn_frame [simp]:
  "flightSize (send_forward_tsn env s) = flightSize s" "cwnd (send_forward_tsn env s) = cwnd s"
  "fastRecoveryTransmit (send_forward_tsn env s) = fastRecoveryTransmit s"
  "sentQueue (send_forward_tsn env s) = sentQueue s"
  "peerAdvertisedRwnd (send_forward_tsn env s) = peerAdvertisedRwnd s"
  by (auto simp: send_forward_tsn_def Let_def timer3Start_def sendChunk_logged_def sendChunk_def emit_def
      split: option.splits sum.splits)







section \<open>Progress\<close>

interpretation out_timer3: out_view timer3Handle
  by unfold_locales simp

lemma resolve_timer3 [simp]:
  "timer3Handle (resolveSendWaiters c s) = timer3Handle s" "timer3Handle (flightSizeIncrease c s) = timer3Handle s"
  by (simp_all add: resolveSendWaiters_def flightSizeIncrease_def split: list.split)




lemma sctp_sample_sel:
  "isStopped sctp_sample = False" "transmitting sctp_sample = False" "sentQueue sctp_sample = []"
  "flightSize sctp_sample = 0" "peerAdvertisedRwnd sctp_sample = 1048576" "maxPayloadSize sctp_sample = 1172"
  "localTsn sctp_sample = 100" "outboundStreamSeq sctp_sample = []" "outboundQueue sctp_sample = []"
  by (simp_all add: sctp_sample_def new_SCTP_def rbind_def validateSctpMtu_def maxPayloadSizeForMtu_def Let_def
      SCTP_COMMON_HEADER_SIZE_def SCTP_DATA_CHUNK_HEADER_SIZE_def SCTP_PADDING_MULTIPLE_def SCTP_CHUNK_HEADER_SIZE_def
      SCTP_DATA_FIXED_HEADER_SIZE_def isStopped_def)




section \<open>Fragmentation and delivery\<close>

lemma fragment_loop_length [simp]: "length (fragment_loop k n mp proto ordered i t ident data) = k"
  by (induction k n mp proto ordered i t ident data rule: fragment_loop.induct) auto

lemma fragment_loop_fields:
  "c \<in> set (fragment_loop k n mp proto ordered i t ident data) \<Longrightarrow>
   streamId c = streamId proto \<and> streamSeqNum c = streamSeqNum proto \<and> protocol c = protocol proto \<and> length (userData c) \<le> mp"
  by (induction k n mp proto ordered i t ident data rule: fragment_loop.induct) auto

lemma fragment_loop_data:
  "length data \<le> k * mp \<Longrightarrow> concat (map userData (fragment_loop k n mp proto ordered i t ident data)) = data"
  by (induction k n mp proto ordered i t ident data rule: fragment_loop.induct) auto

lemma data_flags_ordered:
  "data_flags True n i = (if i = 0 then 2 else 0) + (if i = n - 1 then 1 else 0)"
  by (simp add: data_flags_def SCTP_DATA_FIRST_FRAG_def SCTP_DATA_LAST_FRAG_def)

lemma flag_ands:
  "(3::int) AND 1 = 1" "(2::int) AND 1 = 0" "(3::int) AND 2 = 2" "(1::int) AND 2 = 0" "(3::int) AND 4 = 0"
  "(2::int) AND 4 = 0" "(1::int) AND 4 = 0"
  by simp_all

lemmas frag_flag_simps = data_flags_ordered SCTP_DATA_FIRST_FRAG_def SCTP_DATA_LAST_FRAG_def SCTP_DATA_UNORDERED_def

text \<open>The chunks that the peer reads off the wire: the same with fresh bookkeeping.\<close>

definition wire_chunk :: "data_chunk \<Rightarrow> data_chunk" where
  "wire_chunk c = (new_data_chunk 0 (flags c))\<lparr>tsn := tsn c, streamId := streamId c,
     streamSeqNum := streamSeqNum c, protocol := protocol c, userData := userData c\<rparr>"

lemma wire_chunk_sel [simp]:
  "flags (wire_chunk c) = flags c" "tsn (wire_chunk c) = tsn c" "streamId (wire_chunk c) = streamId c"
  "streamSeqNum (wire_chunk c) = streamSeqNum c" "protocol (wire_chunk c) = protocol c" "userData (wire_chunk c) = userData c"
  by (simp_all add: wire_chunk_def new_data_chunk_def)

lemma fragment_loop_tail:
  "0 < k \<Longrightarrow> i + k = n \<Longrightarrow> frag_tail t (map wire_chunk (fragment_loop k n mp proto True i t ident data))"
proof (induction k arbitrary: i t ident data)
  case (Suc k)
  show ?case
  proof (cases k)
    case 0
    then show ?thesis using Suc.prems by (auto simp: frag_flag_simps)
  next
    case k: (Suc k')
    have "frag_tail (tsnPlusOne t) (map wire_chunk (fragment_loop k n mp proto True (Suc i) (tsnPlusOne t) (Suc ident) (drop mp data)))"
      by (rule Suc.IH) (use k Suc.prems in auto)
    then show ?thesis using k Suc.prems by (auto simp: frag_flag_simps)
  qed
qed simp

lemma fragment_loop_first:
  "0 < i \<Longrightarrow> c \<in> set (fragment_loop k n mp proto True i t ident data) \<Longrightarrow> flags c AND SCTP_DATA_FIRST_FRAG = 0"
  by (induction k n mp proto True i t ident data rule: fragment_loop.induct) (auto simp: frag_flag_simps)

lemma fragment_loop_unordered:
  "c \<in> set (fragment_loop k n mp proto True i t ident data) \<Longrightarrow> flags c AND SCTP_DATA_UNORDERED = 0 \<and> u8_ok (flags c)"
  by (induction k n mp proto True i t ident data rule: fragment_loop.induct) (auto simp: frag_flag_simps u8_ok_def)

lemma fragment_count_bound: "0 < mp \<Longrightarrow> len \<le> fragment_count len mp * mp"
proof -
  assume mp: "0 < mp"
  then have "(len + mp - 1) mod mp \<le> mp - 1" by (metis Suc_pred' less_Suc_eq_le mod_less_divisor One_nat_def diff_Suc_1)
  moreover have "(len + mp - 1) div mp * mp + (len + mp - 1) mod mp = len + mp - 1" by (rule div_mult_mod_eq)
  ultimately show ?thesis using mp unfolding fragment_count_def by linarith
qed

lemma fragment_count_pos: "0 < mp \<Longrightarrow> 0 < len \<Longrightarrow> 0 < fragment_count len mp"
  by (simp add: fragment_count_def div_greater_zero_iff)

lemma fragment_count_le: "0 < mp \<Longrightarrow> fragment_count len mp \<le> len"
proof (cases len)
  case 0
  assume "0 < mp"
  with 0 show ?thesis by (simp add: fragment_count_def)
next
  case (Suc l)
  assume mp: "0 < mp"
  then have "fragment_count len mp = Suc (l div mp)" using Suc by (simp add: fragment_count_def div_add_self2)
  then show ?thesis using Suc by simp
qed

lemma fragments_message_run:
  assumes mp: "0 < maxPayloadSize s" and d: "data \<noteq> []"
    and frs_def: "frs = make_fragments sid ppid data expi retr True ssn s"
  shows "message_run ssn (map wire_chunk frs)" and "message_of (map wire_chunk frs) = (sid, ppid, data)"
    and "tsn (hd frs) = localTsn s" and "length frs \<le> length data"
    and "\<forall>c \<in> set frs. length (userData c) \<le> nat (maxPayloadSize s) \<and> streamId c = sid \<and> protocol c = ppid \<and>
      streamSeqNum c = ssn \<and> u8_ok (flags c)"
proof -
  let ?mp = "nat (maxPayloadSize s)" let ?n = "fragment_count (length data) ?mp"
  let ?proto = "(new_data_chunk 0 0)\<lparr>streamId := sid, streamSeqNum := ssn, protocol := ppid, expiry := expi, maxRetransmits := retr\<rparr>"
  have frs: "frs = fragment_loop ?n ?n ?mp ?proto True 0 (localTsn s) (nextId s) data"
    by (simp add: frs_def make_fragments_def Let_def)
  have n: "0 < ?n" using fragment_count_pos [of ?mp "length data"] mp d by simp
  then obtain n' where n': "?n = Suc n'" using gr0_implies_Suc by blast
  have tail: "frag_tail (localTsn s) (map wire_chunk frs)" unfolding frs by (rule fragment_loop_tail) (use n in auto)
  have hd: "frs = hd frs # tl frs" "tsn (hd frs) = localTsn s" "flags (hd frs) = data_flags True ?n 0"
    "tl frs = fragment_loop n' ?n ?mp ?proto True 1 (tsnPlusOne (localTsn s)) (Suc (nextId s)) (drop ?mp data)"
    unfolding frs by (simp_all add: n')
  have ne: "frs \<noteq> []" using hd(1) by auto
  show f: "\<forall>c \<in> set frs. length (userData c) \<le> ?mp \<and> streamId c = sid \<and> protocol c = ppid \<and> streamSeqNum c = ssn \<and> u8_ok (flags c)"
    using fragment_loop_fields [of _ ?n ?n ?mp ?proto True 0] fragment_loop_unordered [of _ ?n ?n ?mp ?proto 0]
    unfolding frs by fastforce
  have un: "\<forall>c \<in> set frs. flags c AND SCTP_DATA_UNORDERED = 0"
    using fragment_loop_unordered unfolding frs by blast
  have fst: "\<forall>c \<in> set (tl frs). flags c AND SCTP_DATA_FIRST_FRAG = 0"
    unfolding hd(4) by (auto dest: fragment_loop_first [rotated])
  show "message_run ssn (map wire_chunk frs)"
    unfolding message_run_def using tail hd(2,3) ne fst f un
    by (auto simp: list_all_iff hd_map map_tl [symmetric] frag_flag_simps)
  show "tsn (hd frs) = localTsn s" by (rule hd(2))
  show "length frs \<le> length data" unfolding frs using fragment_count_le mp by simp
  have "concat (map userData frs) = data"
    unfolding frs using fragment_count_bound [of ?mp "length data"] mp by (intro fragment_loop_data) simp
  moreover have "map userData (map wire_chunk frs) = map userData frs" by simp
  ultimately show "message_of (map wire_chunk frs) = (sid, ppid, data)"
    using f ne by (simp add: message_of_def last_map comp_def)
qed

lemma distinct_message_run:
  assumes "frag_tail e cs" "u32_ok e" "int (length cs) < 2 ^ 31"
  shows "inj_on tsn (set cs)"
proof -
  have so: "tsn_sorted e cs" by (rule message_run_sorted [OF assms])
  show ?thesis by (rule inj_onI) (rule tsn_sorted_inj [OF so])
qed

text \<open>C2: a message handed to \<^verbatim>\<open>send\<close> arrives whole.  The fragments of an ordered message are
  serializable, each packet is parsed back to its fragment, and a peer whose stream expects
  the message delivers exactly the message (stream, protocol identifier and all of its
  bytes), whatever the order in which the fragments arrive.\<close>

theorem message_transfer:
  assumes mp: "0 < maxPayloadSize s" "maxPayloadSize s + 16 < 2 ^ 16" and d: "data \<noteq> []" "int (length data) < 2 ^ 31"
    and w: "u32_ok (localTsn s)" "u16_ok sid" "u32_ok ppid" "u16_ok (next_ssn sid s)"
    and ports: "u16_ok sp" "u16_ok dp" "u32_ok tag"
    and frs: "frs = make_fragments sid ppid data expi retr True (next_ssn sid s) s"
    and peer: "streamSequenceNumber st = next_ssn sid s" "reassembly st = []"
    and ys: "distinct ys" "set ys = set (map wire_chunk frs)"
  shows "(\<forall>c \<in> set frs. \<exists>b. serializePacket sp dp tag (DataChunk c) = Inr b \<and>
      parsePacket b = Some (Inr (sp, dp, tag, [DataChunk (wire_chunk c)]))) \<and>
    receive_all st ys = Inr ([(sid, ppid, data)], st\<lparr>streamSequenceNumber := uint16Add (next_ssn sid s) 1\<rparr>)"
proof
  note fr = fragments_message_run [OF mp(1) d(1) frs]
  have ft: "frag_tail (localTsn s) (map wire_chunk frs)" and ne: "frs \<noteq> []"
    using fr(1,3) by (auto simp: message_run_def hd_map)
  have len: "int (length (map wire_chunk frs)) < 2 ^ 31" using fr(4) d(2) by simp
  show "\<forall>c \<in> set frs. \<exists>b. serializePacket sp dp tag (DataChunk c) = Inr b \<and>
      parsePacket b = Some (Inr (sp, dp, tag, [DataChunk (wire_chunk c)]))"
  proof
    fix c assume c: "c \<in> set frs"
    then have "wire_chunk c \<in> set (map wire_chunk frs)" by simp
    then have "u32_ok (tsn c)"
      using frag_tail_tsns [OF ft] u32_ok_pow [OF w(1)] by fastforce
    then have "valid_chunk (DataChunk c)" using fr(5) c mp w by (auto simp: u8_ok_def)
    from packet_exists [OF ports this] show "\<exists>b. serializePacket sp dp tag (DataChunk c) = Inr b \<and>
      parsePacket b = Some (Inr (sp, dp, tag, [DataChunk (wire_chunk c)]))" by (simp add: wire_chunk_def)
  qed
  have "ys \<noteq> []" using ys ne by auto
  moreover have "u32_ok (tsn (hd (map wire_chunk frs)))" using fr(3) w(1) ne by (simp add: hd_map)
  ultimately have "receive_all st ys = Inr ([message_of (map wire_chunk frs)],
      st\<lparr>reassembly := [], streamSequenceNumber := uint16Add (streamSequenceNumber st) 1\<rparr>)"
    using fr(1) len ys w(4) peer by (intro receive_all_step [where S = "{}"]) (auto simp: u16_ok_def)
  then show "receive_all st ys = Inr ([(sid, ppid, data)], st\<lparr>streamSequenceNumber := uint16Add (next_ssn sid s) 1\<rparr>)"
    using fr(2) peer by simp
qed

theorem message_transfer_witness:
  "receive_all new_InboundStream (map wire_chunk (make_fragments 1 51 [10, 20, 30] None None True 0 (sctp_sample\<lparr>maxPayloadSize := 2\<rparr>)))
    = Inr ([(1, 51, [10, 20, 30])], new_InboundStream\<lparr>streamSequenceNumber := 1\<rparr>)"
proof -
  let ?s = "sctp_sample\<lparr>maxPayloadSize := 2\<rparr>"
  let ?frs = "make_fragments 1 51 [10, 20, 30] None None True (next_ssn 1 ?s) ?s"
  have ssn: "next_ssn 1 ?s = 0" by (simp add: next_ssn_def sctp_sample_sel)
  have fc: "fragment_count (length [10, 20, 30 :: byte]) (nat (maxPayloadSize ?s)) = Suc (Suc 0)"
    by (simp add: fragment_count_def)
  have dist: "distinct (map wire_chunk ?frs)"
    unfolding make_fragments_def Let_def fc by (simp add: sctp_sample_sel wire_chunk_def new_data_chunk_def tsnPlusOne_def SCTP_TSN_MODULO_def)
  have "receive_all new_InboundStream (map wire_chunk ?frs) =
      Inr ([(1, 51, [10, 20, 30])], new_InboundStream\<lparr>streamSequenceNumber := uint16Add (next_ssn 1 ?s) 1\<rparr>)"
    by (rule conjunct2 [OF message_transfer [of ?s "[10, 20, 30]" 1 51 5000 5001 7]])
      (use dist in \<open>simp_all add: ssn sctp_sample_sel u32_ok_def u16_ok_def new_InboundStream_def\<close>)
  then show ?thesis by (simp add: ssn uint16Add_def)
qed

text \<open>An empty ordered message makes no chunk but consumes a sequence number of its stream,
  so that a peer never delivers the messages that follow: it still expects the number that
  was skipped.\<close>

theorem send_empty_blocks_stream:
  assumes "0 < maxPayloadSize s" "u16_ok (next_ssn sid s)"
  shows "make_fragments sid ppid [] expi retr True (next_ssn sid s) s = [] \<and>
    next_ssn sid (send env sid ppid [] expi retr True s) = uint16Add (next_ssn sid s) 1 \<and>
    localTsn (send env sid ppid [] expi retr True s) = localTsn s \<and>
    (flags c AND SCTP_DATA_UNORDERED = 0 \<and> streamSeqNum c = uint16Add (next_ssn sid s) 1 \<longrightarrow>
      popMessages \<lparr>reassembly = c # cs, streamSequenceNumber = next_ssn sid s\<rparr>
        = ([], \<lparr>reassembly = c # cs, streamSequenceNumber = next_ssn sid s\<rparr>))"
proof -
  have fr: "make_fragments sid ppid [] expi retr True (next_ssn sid s) s = []"
    using assms(1) by (simp add: make_fragments_def Let_def fragment_count_def)
  have "uint16Gt (uint16Add (next_ssn sid s) 1) (next_ssn sid s)"
    using u16.gt_succ [of "next_ssn sid s"] assms(2) by (simp add: u16_ok_def uint16Add_mod)
  then have "popMessages \<lparr>reassembly = c # cs, streamSequenceNumber = next_ssn sid s\<rparr>
      = ([], \<lparr>reassembly = c # cs, streamSequenceNumber = next_ssn sid s\<rparr>)"
    if "flags c AND SCTP_DATA_UNORDERED = 0" "streamSeqNum c = uint16Add (next_ssn sid s) 1"
    using that by (simp add: popMessages_def Let_def)
  with fr show ?thesis
    by (simp add: send_def Let_def next_ssn_def update_conv')
qed

theorem send_empty_blocks_stream_witness:
  "next_ssn 1 (send env_sample 1 51 [] None None True sctp_sample) = 1"
  using send_empty_blocks_stream [of sctp_sample 1] by (simp add: sctp_sample_sel next_ssn_def u16_ok_def uint16Add_def)

section \<open>Partial reliability\<close>

lemma first_index_type: "q \<noteq> [] \<Longrightarrow> first_index (\<lambda>v. chunk_type (DataChunk v) = chunk_type (DataChunk c)) q = Some 0"
  by (cases q) simp_all

lemma abandon_twice: "abandon (abandon c) = abandon c"
  by (simp add: abandon_def)

lemma abandon_flags [simp]: "flags (abandon c) = flags c" "abandoned (abandon c)"
  by (simp_all add: abandon_def)

text \<open>\<^verbatim>\<open>maybeAbandon\<close> looks for the chunk by its type, which every chunk of the queue has: the
  position found is always the first, whatever chunk is due.\<close>

lemma maybeAbandon_first:
  assumes "sentQueue s = c # q" "\<not> abandoned ((c # q) ! i)" "abandon_due env ((c # q) ! i)" "flags c AND SCTP_DATA_LAST_FRAG \<noteq> 0"
  shows "maybeAbandon env i s = (True, s\<lparr>sentQueue := abandon c # q\<rparr>)"
  using assms first_index_type [of "c # q"]
  by (simp add: maybeAbandon_def Let_def abandon_back.simps [of 0] abandon_twice)

text \<open>The retransmission timer drops a reliable message.  With a reliable single-fragment
  message \<open>c\<close> first in the sent queue, followed by a chunk \<open>d\<close> that has exceeded its limit of
  retransmissions, the time-out removes \<open>c\<close>, unacknowledged, and leaves \<open>d\<close> as it was,
  neither abandoned nor marked for retransmission.\<close>

theorem timeout_drops_reliable_message:
  assumes live: "\<not> isStopped s" "\<not> transmitting s"
    and q: "sentQueue s = [c, d]" "outboundQueue s = []"
    and c: "maxRetransmits c = None" "expiry c = None" "\<not> abandoned c" "flags c AND SCTP_DATA_LAST_FRAG \<noteq> 0"
    and d: "\<not> abandoned d" "\<not> retransmit d" "maxRetransmits d = Some m" "0 < m" "m < sentCount d"
  shows "sentQueue (timer3Expired env s) = [d]"
proof -
  let ?s = "s\<lparr>timer3Handle := None\<rparr>" let ?c = "c\<lparr>retransmit := True\<rparr>"
  have "\<not> abandon_due env c" using c by (simp add: abandon_due_def)
  then have m0: "mark_retransmit env 0 ?s = s\<lparr>timer3Handle := None, sentQueue := [?c, d]\<rparr>"
    using c q by (simp add: mark_retransmit_def maybeAbandon_def upd_sent_def Let_def)
  have "abandon_due env d" using d by (simp add: abandon_due_def)
  then have m1: "mark_retransmit env 1 (s\<lparr>timer3Handle := None, sentQueue := [?c, d]\<rparr>) =
      s\<lparr>timer3Handle := None, sentQueue := [abandon ?c, d]\<rparr>"
    using maybeAbandon_first [of "s\<lparr>timer3Handle := None, sentQueue := [?c, d]\<rparr>" ?c "[d]" 1 env] c d
    by (simp add: mark_retransmit_def)
  let ?u = "updateAdvancedPeerAckPoint (s\<lparr>timer3Handle := None, sentQueue := [abandon ?c, d]\<rparr>)"
  have u: "sentQueue ?u = [d]" "outboundQueue ?u = []" "\<not> isStopped ?u" "\<not> transmitting ?u"
    using d(1) q(2) live by (simp_all add: updateAdvancedPeerAckPoint_def Let_def isStopped_def)
  have tr: "sentQueue (transmit env t) = [d]" if t: "sentQueue t = [d]" "outboundQueue t = []" for t
  proof -
    have "retransmit_loop env cw e [d] x = ([d], x)" for cw e x using d(2) by simp
    moreover have "sentQueue (send_forward_tsn env x) = sentQueue x \<and> outboundQueue (send_forward_tsn env x) = outboundQueue x" for x
      by (simp add: send_forward_tsn_def Let_def split: option.split)
    ultimately show ?thesis using t by (simp add: transmit_def transmitOnce_def Let_def)
  qed
  have "timer3Expired env s = transmit env (?u\<lparr>fastRecoveryExit := None, flightSize := 0, partialBytesAcked := 0,
      ssthresh := Some (max (cwnd ?u div 2) (4 * maxPayloadSize ?u)), cwnd := maxPayloadSize ?u\<rparr>)"
    using live(1) q(1) m0 m1 by (simp add: timer3Expired_def Let_def)
  with tr u show ?thesis by simp
qed

definition sample_outstanding :: sctp where
  "sample_outstanding = sctp_sample\<lparr>isStopping := False, isClosed := False, transmitting := False, outboundQueue := [],
     sentQueue := [(new_data_chunk 0 3)\<lparr>tsn := 100, sentCount := 1\<rparr>,
       (new_data_chunk 1 3)\<lparr>tsn := 101, sentCount := 3, maxRetransmits := Some 2\<rparr>]\<rparr>"

theorem timeout_drops_reliable_message_witness:
  "sentQueue (timer3Expired env_sample sample_outstanding) =
    [(new_data_chunk 1 3)\<lparr>tsn := 101, sentCount := 3, maxRetransmits := Some 2\<rparr>]"
  by (rule timeout_drops_reliable_message [where c = "(new_data_chunk 0 3)\<lparr>tsn := 100, sentCount := 1\<rparr>" and m = 2])
    (simp_all add: sample_outstanding_def isStopped_def new_data_chunk_def SCTP_DATA_LAST_FRAG_def)

section \<open>Resetting streams\<close>

text \<open>A peer's stream reset discards what is buffered for the stream without giving the space
  back: the advertised window stays as small as if the bytes were still held.\<close>

theorem stream_reset_leaks_window:
  assumes "distinct (map fst (inboundStreamMap s))" "map_of (inboundStreamMap s) sid = Some st"
  shows "advertisedRwnd (close_inbound s sid) = advertisedRwnd s \<and>
    buffered_total (close_inbound s sid) + buffered st = buffered_total s"
proof -
  have "sum_list (map (\<lambda>(_, st). buffered st) (AList.delete sid m)) + buffered st =
      sum_list (map (\<lambda>(_, st). buffered st) m)"
    if "distinct (map fst m)" "map_of m sid = Some st" for m
    using that
  proof (induction m)
    case (Cons x m)
    then show ?case
      by (cases x) (auto simp: AList.delete_idem split: if_splits)
  qed simp
  from this [OF assms] show ?thesis
    by (auto simp: close_inbound_def Let_def buffered_total_def split: option.split)
qed

theorem stream_reset_leaks_window_witness:
  "buffered_total (close_inbound (sctp_sample\<lparr>inboundStreamMap := [(1, \<lparr>reassembly = [(new_data_chunk 0 2)\<lparr>userData := [1, 2]\<rparr>],
     streamSequenceNumber = 0\<rparr>)]\<rparr>) 1) = 0"
  using stream_reset_leaks_window [of "sctp_sample\<lparr>inboundStreamMap := [(1, \<lparr>reassembly = [(new_data_chunk 0 2)\<lparr>userData := [1, 2]\<rparr>],
     streamSequenceNumber = 0\<rparr>)]\<rparr>" 1 "\<lparr>reassembly = [(new_data_chunk 0 2)\<lparr>userData := [1, 2]\<rparr>], streamSequenceNumber = 0\<rparr>"]
  by (simp add: buffered_total_def)

end
