(* ===== verification/Dtls_Replay.thy ===== *)
theory Dtls_Replay
  imports Prelude
begin

unbundle bit_operations_syntax

text \<open>
  The DTLS anti-replay window (\<^verbatim>\<open>packages/dtls/src/record/antiReplayWindow.ts\<close>): a bitmap of
  the 64 sequence numbers up to the highest one received.  Proved: no sequence number is
  accepted twice; the bitmap is exact as long as the window does not move by a multiple of
  32; and how it is corrupted when it does.

  The bitmap is a list of 32-bit words.  JavaScript keeps signed numbers there, but reads
  them through bitwise operators only, which see the 32-bit pattern.  A shift distance is
  taken modulo 32.
\<close>

section \<open>Definitions\<close>

definition width :: int where "width = 64"
definition INT_SIZE :: int where "INT_SIZE = 32"

record replay_window =
  window :: "32 word list"
  ceiling :: int

definition replay_reset :: replay_window where
  "replay_reset = \<lparr>window = replicate (nat (width div INT_SIZE)) 0, ceiling = width - 1\<rparr>"

definition hasReceived :: "int \<Rightarrow> replay_window \<Rightarrow> bool" where
  "hasReceived seq_num w =
     (let lowerBound = ceiling w - width + 1;
          bitIndex = seq_num - lowerBound;
          windowIndex = bitIndex div INT_SIZE;
          windowBit = js_rem bitIndex INT_SIZE;
          flag = push_bit (nat (windowBit mod 32)) (1 :: 32 word)
      in if 0 \<le> windowIndex \<and> nat windowIndex < length (window w)
         then (window w ! nat windowIndex) AND flag = flag else False)"

definition mayReceive :: "int \<Rightarrow> replay_window \<Rightarrow> bool" where
  "mayReceive seq_num w =
     (if seq_num > ceiling w + width then False
      else if seq_num > ceiling w then True
      else if seq_num \<ge> ceiling w - width + 1 \<and> seq_num \<le> ceiling w then \<not> hasReceived seq_num w
      else False)"

text \<open>Shifting whole words while the distance is more than a word.\<close>

function shift_blocks :: "int \<Rightarrow> 32 word list \<Rightarrow> 32 word list \<times> int" where
  "shift_blocks amount ws =
     (if amount > INT_SIZE then shift_blocks (amount - INT_SIZE) (tl ws @ [0]) else (ws, amount))"
  by pat_completeness auto
termination
  by (relation "measure (\<lambda>(amount, ws). nat amount)") (auto simp: INT_SIZE_def)

declare shift_blocks.simps [simp del]

text \<open>Shifting bitwise: each word loses its lowest bits and gets those of the next word on top.\<close>

fun shift_bits :: "int \<Rightarrow> 32 word list \<Rightarrow> 32 word list" where
  "shift_bits amount [] = []"
| "shift_bits amount [v] = [drop_bit (nat (amount mod 32)) v]"
| "shift_bits amount (v # v' # ws) =
     (drop_bit (nat (amount mod 32)) v OR push_bit (nat ((INT_SIZE - amount) mod 32)) v')
     # shift_bits amount (v' # ws)"

text \<open>A number below the window is not stored: the code writes it to an array property with a
  negative index, outside the bitmap, and the receive path never marks such a number.\<close>

definition markAsReceived :: "int \<Rightarrow> replay_window \<Rightarrow> replay_window" where
  "markAsReceived seq_num w0 =
     (let w = (if seq_num > ceiling w0
               then (let (ws, amount) = shift_blocks (seq_num - ceiling w0) (window w0)
                     in \<lparr>window = shift_bits amount ws, ceiling = seq_num\<rparr>)
               else w0);
          lowerBound = ceiling w - width + 1;
          bitIndex = seq_num - lowerBound;
          windowIndex = bitIndex div INT_SIZE;
          windowBit = js_rem bitIndex INT_SIZE;
          flag = push_bit (nat (windowBit mod 32)) (1 :: 32 word)
      in if 0 \<le> windowIndex \<and> nat windowIndex < length (window w)
         then w\<lparr>window := (window w)[nat windowIndex := (window w ! nat windowIndex) OR flag]\<rparr>
         else w)"

text \<open>The receive path: check, then mark; the accepted numbers in order.\<close>

fun replay_accept :: "replay_window \<Rightarrow> int list \<Rightarrow> int list \<times> replay_window" where
  "replay_accept w [] = ([], w)"
| "replay_accept w (x # xs) =
     (if mayReceive x w then (let (ys, w') = replay_accept (markAsReceived x w) xs in (x # ys, w'))
      else replay_accept w xs)"

section \<open>The bitmap as a set\<close>

text \<open>Bit \<open>k\<close> of the two-word bitmap.\<close>

definition rbit :: "32 word list \<Rightarrow> int \<Rightarrow> bool" where
  "rbit ws k \<longleftrightarrow> 0 \<le> k \<and> k < 64 \<and> bit (ws ! nat (k div 32)) (nat (k mod 32))"

definition replay_inv :: "replay_window \<Rightarrow> bool" where
  "replay_inv w \<longleftrightarrow> length (window w) = 2 \<and> ceiling w \<ge> 63"

lemma flag_test: "n < 32 \<Longrightarrow> ((w :: 32 word) AND push_bit n 1 = push_bit n 1) = bit w n"
proof
  assume n: "n < 32" and e: "w AND push_bit n 1 = push_bit n 1"
  have "bit (w AND push_bit n 1) n" unfolding e using n by (simp add: bit_simps)
  then show "bit w n" by (simp add: bit_and_iff)
next
  assume n: "n < 32" and b: "bit w n"
  show "w AND push_bit n 1 = push_bit n 1"
    by (rule bit_word_eqI) (use b in \<open>auto simp: bit_and_iff bit_exp_iff\<close>)
qed

lemma div_mod_32:
  "0 \<le> (k::int) \<Longrightarrow> k < 64 \<Longrightarrow>
     k div 32 = (if k < 32 then 0 else 1) \<and> k mod 32 = (if k < 32 then k else k - 32)"
  by presburger

lemma hasReceived_rbit:
  assumes "replay_inv w"
  shows "hasReceived x w = rbit (window w) (x - (ceiling w - 63))"
proof -
  let ?k = "x - (ceiling w - 63)"
  have k: "x - (ceiling w - width + 1) = ?k" by (simp add: width_def)
  show ?thesis
  proof (cases "0 \<le> ?k \<and> ?k < 64")
    case True
    then have "0 \<le> ?k div 32" "nat (?k div 32) < length (window w)" "nat (js_rem ?k 32 mod 32) = nat (?k mod 32)"
      using assms by (auto simp: replay_inv_def)
    moreover have "nat (?k mod 32) < 32" by (simp add: nat_less_iff)
    ultimately show ?thesis
      using True by (simp only: hasReceived_def Let_def k INT_SIZE_def rbit_def flag_test if_True simp_thms)
  next
    case False
    then have "\<not> (0 \<le> ?k div 32 \<and> nat (?k div 32) < length (window w))"
      using assms by (auto simp: replay_inv_def)
    then show ?thesis using False by (simp only: hasReceived_def Let_def k INT_SIZE_def rbit_def if_False) auto
  qed
qed

lemma rbit_two: "rbit [a, b] k = (if k < 32 then 0 \<le> k \<and> bit a (nat k) else k < 64 \<and> bit b (nat (k - 32)))"
proof (cases "0 \<le> k \<and> k < 64")
  case True
  with div_mod_32 [of k] show ?thesis by (auto simp: rbit_def)
qed (auto simp: rbit_def)

lemma two_words: "length ws = 2 \<Longrightarrow> \<exists>a b. ws = [a, b]"
  by (cases ws; cases "tl ws") auto

lemma rbit_set:
  assumes "length ws = 2" "0 \<le> k" "k < 64"
  shows "rbit (ws[nat (k div 32) := ws ! nat (k div 32) OR push_bit (nat (k mod 32)) 1]) j \<longleftrightarrow> j = k \<or> rbit ws j"
proof -
  obtain a b where ws: "ws = [a, b]" using two_words [OF assms(1)] by blast
  show ?thesis
    using assms(2,3) div_mod_32 [OF assms(2,3)] unfolding ws
    by (cases "k < 32") (auto simp: rbit_two bit_or_iff bit_exp_iff nat_eq_iff2 eq_nat_nat_iff)
qed

lemma shift_blocks_rbit:
  assumes "length ws = 2" "0 < amount"
  shows "length (fst (shift_blocks amount ws)) = 2 \<and> 0 < snd (shift_blocks amount ws) \<and>
    snd (shift_blocks amount ws) \<le> 32 \<and> (amount - snd (shift_blocks amount ws)) mod 32 = 0 \<and>
    (\<forall>j \<ge> 0. rbit (fst (shift_blocks amount ws)) j = rbit ws (j + (amount - snd (shift_blocks amount ws))))"
  using assms
proof (induction amount ws rule: shift_blocks.induct)
  case (1 amount ws)
  show ?case
  proof (cases "amount > 32")
    case True
    obtain a b where ws: "ws = [a, b]" using two_words [OF 1(2)] by blast
    have step: "shift_blocks amount ws = shift_blocks (amount - 32) [b, 0]"
      using True by (subst shift_blocks.simps) (simp add: INT_SIZE_def ws)
    have r: "rbit [b, 0] j = rbit ws (j + 32)" if "0 \<le> j" for j
      using that by (auto simp: ws rbit_two)
    let ?r = "shift_blocks (amount - 32) [b, 0]"
    have ih: "length (fst ?r) = 2" "0 < snd ?r" "snd ?r \<le> 32" "(amount - 32 - snd ?r) mod 32 = 0"
      "\<And>j. 0 \<le> j \<Longrightarrow> rbit (fst ?r) j = rbit [b, 0] (j + (amount - 32 - snd ?r))"
      using 1(1) True by (auto simp: INT_SIZE_def ws)
    have nn: "0 \<le> amount - 32 - snd ?r" using ih(2,3,4) True by presburger
    have "(amount - snd ?r) mod 32 = 0" using ih(4) by presburger
    moreover have "rbit (fst ?r) j = rbit ws (j + (amount - snd ?r))" if "0 \<le> j" for j
      using ih(5) [OF that] r [of "j + (amount - 32 - snd ?r)"] that nn by (simp add: algebra_simps)
    ultimately show ?thesis using ih(1-3) by (simp add: step)
  next
    case False
    then have "shift_blocks amount ws = (ws, amount)"
      by (subst shift_blocks.simps) (simp add: INT_SIZE_def)
    then show ?thesis using 1(2,3) False by simp
  qed
qed

lemma bit32_high: "32 \<le> n \<Longrightarrow> \<not> bit (a :: 32 word) n"
  using bit_imp_le_length [of a n] by auto

lemma shift_bits_two:
  fixes a b :: "32 word"
  assumes "0 < d" "d < 32"
  shows "n < 32 \<Longrightarrow> bit (drop_bit d a OR push_bit (32 - d) b) n = (if n + d < 32 then bit a (n + d) else bit b (n + d - 32))"
    and "bit (drop_bit d b) n = bit b (n + d)"
  using assms bit32_high [of "n + d" a]
  by (auto simp: bit_or_iff bit_drop_bit_eq bit_push_bit_iff add.commute)

lemma shift_bits_exact:
  assumes "0 < amount" "amount < 32" "0 \<le> j"
  shows "rbit (shift_bits amount [a, b]) j = rbit [a, b] (j + amount)"
proof -
  define d n where "d = nat amount" and "n = nat j"
  have d: "amount = int d" "0 < d" "d < 32" and n: "j = int n" using assms by (auto simp: d_def n_def)
  have m: "nat (amount mod 32) = d" "nat ((INT_SIZE - amount) mod 32) = 32 - d"
    using d by (auto simp: INT_SIZE_def zmod_zminus1_eq_if)
  have sh: "shift_bits amount [a, b] = [drop_bit d a OR push_bit (32 - d) b, drop_bit d b]"
    using m by simp
  consider "n < 32" "n + d < 32" | "n < 32" "32 \<le> n + d" | "32 \<le> n" by linarith
  then show ?thesis
  proof cases
    case 1
    then show ?thesis
      unfolding sh using d shift_bits_two(1) [OF d(2,3)] by (simp add: rbit_two n nat_int_add)
  next
    case 2
    have "nat (int n + int d - 32) = n + d - 32" using 2 by simp
    with 2 show ?thesis
      unfolding sh using d shift_bits_two(1) [OF d(2,3) 2(1)] by (simp add: rbit_two n)
  next
    case 3
    have e: "nat (int n + int d - 32) = n + d - 32" "nat (int n - 32) = n - 32" "n - 32 + d = n + d - 32"
      using 3 by simp_all
    show ?thesis
    proof (cases "n + d < 64")
      case True
      with 3 e show ?thesis unfolding sh using d shift_bits_two(2) [OF d(2,3)] by (simp add: rbit_two n)
    next
      case False
      with 3 e bit32_high [of "n + d - 32" b] show ?thesis
        unfolding sh using d shift_bits_two(2) [OF d(2,3), of b "n - 32"] by (simp add: rbit_two n)
    qed
  qed
qed

lemma shift_bits_rbit:
  assumes "length ws = 2" "0 < amount" "amount \<le> 32" "0 \<le> j"
  shows "rbit ws (j + amount) \<Longrightarrow> rbit (shift_bits amount ws) j"
    and "amount < 32 \<Longrightarrow> rbit (shift_bits amount ws) j = rbit ws (j + amount)"
    and "length (shift_bits amount ws) = 2"
proof -
  obtain a b where ws: "ws = [a, b]" using two_words [OF assms(1)] by blast
  show eq: "amount < 32 \<Longrightarrow> rbit (shift_bits amount ws) j = rbit ws (j + amount)"
    using shift_bits_exact assms unfolding ws by blast
  show "length (shift_bits amount ws) = 2" by (simp add: ws)
  have "amount = 32 \<Longrightarrow> rbit ws (j + amount) \<Longrightarrow> rbit (shift_bits amount ws) j"
    using assms(4) unfolding ws by (auto simp: rbit_two INT_SIZE_def bit_or_iff split: if_splits)
  then show "rbit ws (j + amount) \<Longrightarrow> rbit (shift_bits amount ws) j"
    using eq assms(3) by linarith
qed

section \<open>Marking\<close>

definition replay_shifted :: "int \<Rightarrow> replay_window \<Rightarrow> 32 word list" where
  "replay_shifted x w = (let r = shift_blocks (x - ceiling w) (window w) in shift_bits (snd r) (fst r))"

lemma markAsReceived_in:
  assumes "replay_inv w" "x \<le> ceiling w" "ceiling w - 63 \<le> x"
  shows "replay_inv (markAsReceived x w) \<and> ceiling (markAsReceived x w) = ceiling w \<and>
    (\<forall>j. rbit (window (markAsReceived x w)) j \<longleftrightarrow> j = x - (ceiling w - 63) \<or> rbit (window w) j)"
proof -
  let ?k = "x - (ceiling w - 63)"
  have k: "x - (ceiling w - width + 1) = ?k" "0 \<le> ?k" "?k < 64" using assms by (auto simp: width_def)
  have l: "length (window w) = 2" using assms by (simp add: replay_inv_def)
  have nl: "(ceiling w < x) = False" using assms(2) by simp
  have r: "0 \<le> ?k div 32" "nat (?k div 32) < length (window w)" "nat (js_rem ?k 32 mod 32) = nat (?k mod 32)"
    using k l by auto
  have m: "markAsReceived x w = w\<lparr>window := (window w)[nat (?k div 32) := window w ! nat (?k div 32) OR push_bit (nat (?k mod 32)) 1]\<rparr>"
    using r nl by (simp only: markAsReceived_def Let_def if_False k INT_SIZE_def if_True simp_thms)
  show ?thesis
    unfolding m using rbit_set [OF l k(2,3)] assms(1) by (simp add: replay_inv_def)
qed

lemma replay_shifted_rbit:
  assumes "replay_inv w" "ceiling w < x" "0 \<le> j"
  shows "rbit (window w) (j + (x - ceiling w)) \<Longrightarrow> rbit (replay_shifted x w) j"
    and "(x - ceiling w) mod 32 \<noteq> 0 \<Longrightarrow> rbit (replay_shifted x w) j = rbit (window w) (j + (x - ceiling w))"
    and "length (replay_shifted x w) = 2"
proof -
  define r where "r = shift_blocks (x - ceiling w) (window w)"
  have b: "length (fst r) = 2" "0 < snd r" "snd r \<le> 32" "(x - ceiling w - snd r) mod 32 = 0"
    "\<And>j. 0 \<le> j \<Longrightarrow> rbit (fst r) j = rbit (window w) (j + (x - ceiling w - snd r))"
    using shift_blocks_rbit [of "window w" "x - ceiling w"] assms unfolding r_def replay_inv_def by auto
  have e: "rbit (fst r) (j + snd r) = rbit (window w) (j + (x - ceiling w))"
    using b(5) [of "j + snd r"] b(2) assms(3) by (simp add: algebra_simps)
  note s = shift_bits_rbit [OF b(1-3) assms(3)]
  show "rbit (window w) (j + (x - ceiling w)) \<Longrightarrow> rbit (replay_shifted x w) j"
    using s(1) e by (simp add: replay_shifted_def Let_def r_def)
  show "(x - ceiling w) mod 32 \<noteq> 0 \<Longrightarrow> rbit (replay_shifted x w) j = rbit (window w) (j + (x - ceiling w))"
  proof -
    assume "(x - ceiling w) mod 32 \<noteq> 0"
    then have "snd r < 32" using b(3,4) by presburger
    then show ?thesis using s(2) e by (simp add: replay_shifted_def Let_def r_def)
  qed
  show "length (replay_shifted x w) = 2" using s(3) by (simp add: replay_shifted_def Let_def r_def)
qed

lemma markAsReceived_above:
  assumes "replay_inv w" "ceiling w < x"
  shows "markAsReceived x w = markAsReceived x \<lparr>window = replay_shifted x w, ceiling = x\<rparr>"
  using assms by (simp add: markAsReceived_def replay_shifted_def Let_def split_def)

lemma markAsReceived_inv:
  assumes "replay_inv w" "ceiling w - 63 \<le> x"
  shows "replay_inv (markAsReceived x w) \<and> ceiling (markAsReceived x w) = max (ceiling w) x"
proof (cases "x \<le> ceiling w")
  case True
  then show ?thesis using markAsReceived_in [OF assms(1) True assms(2)] by simp
next
  case False
  then have "ceiling w < x" by simp
  moreover have "replay_inv \<lparr>window = replay_shifted x w, ceiling = x\<rparr>"
    using replay_shifted_rbit(3) [OF assms(1) calculation, of 0] calculation assms(1) by (simp add: replay_inv_def)
  ultimately show ?thesis
    using markAsReceived_in [of "\<lparr>window = replay_shifted x w, ceiling = x\<rparr>" x] markAsReceived_above [OF assms(1)]
    by simp
qed

text \<open>A number above the window floor is remembered by a mark, whether or not the shift is exact.\<close>

lemma mark_keeps:
  assumes "replay_inv w" "ceiling w - 63 \<le> x" "y = x \<or> hasReceived y w" "max (ceiling w) x - 63 \<le> y"
  shows "hasReceived y (markAsReceived x w)"
proof (cases "x \<le> ceiling w")
  case True
  note m = markAsReceived_in [OF assms(1) True assms(2)]
  show ?thesis using m assms(1,3) by (auto simp: hasReceived_rbit)
next
  case False
  let ?w = "\<lparr>window = replay_shifted x w, ceiling = x\<rparr>"
  have c: "ceiling w < x" using False by simp
  have i: "replay_inv ?w"
    using replay_shifted_rbit(3) [OF assms(1) c, of 0] c assms(1) by (simp add: replay_inv_def)
  note m = markAsReceived_in [OF i, of x, simplified]
  have "rbit (window w) (y - (x - 63) + (x - ceiling w))" if "hasReceived y w"
    using that assms(1) by (simp add: hasReceived_rbit algebra_simps)
  then have "hasReceived y w \<Longrightarrow> rbit (replay_shifted x w) (y - (x - 63))"
    using replay_shifted_rbit(1) [OF assms(1) c, of "y - (x - 63)"] assms(4) c by simp
  then show ?thesis
    using assms(3) m by (auto simp: markAsReceived_above [OF assms(1) c] hasReceived_rbit)
qed

lemma hasReceived_range:
  "replay_inv w \<Longrightarrow> hasReceived y w \<Longrightarrow> ceiling w - 63 \<le> y \<and> y \<le> ceiling w"
  by (auto simp: hasReceived_rbit rbit_def)

lemma mayReceive_iff:
  "replay_inv w \<Longrightarrow> mayReceive x w \<longleftrightarrow> ceiling w - 63 \<le> x \<and> x \<le> ceiling w + 64 \<and> \<not> hasReceived x w"
  by (auto simp: mayReceive_def width_def dest: hasReceived_range)

lemma replay_reset_inv: "replay_inv replay_reset"
  by (simp add: replay_inv_def replay_reset_def width_def INT_SIZE_def)

text \<open>Once a number has been taken it is never taken again.\<close>

lemma replay_accept_skips:
  assumes "replay_inv w" "hasReceived y w \<or> y < ceiling w - 63"
  shows "y \<notin> set (fst (replay_accept w xs))"
  using assms
proof (induction xs arbitrary: w)
  case (Cons x xs)
  show ?case
  proof (cases "mayReceive x w")
    case True
    then have lo: "ceiling w - 63 \<le> x" and nr: "\<not> hasReceived x w"
      using Cons.prems(1) by (auto simp: mayReceive_iff)
    have i: "replay_inv (markAsReceived x w)" "ceiling (markAsReceived x w) = max (ceiling w) x"
      using markAsReceived_inv [OF Cons.prems(1) lo] by auto
    have "hasReceived y (markAsReceived x w) \<or> y < max (ceiling w) x - 63"
      using mark_keeps [OF Cons.prems(1) lo, of y] Cons.prems(2) by linarith
    then have "y \<notin> set (fst (replay_accept (markAsReceived x w) xs))"
      using Cons.IH [OF i(1)] i(2) by simp
    moreover have "y \<noteq> x" using Cons.prems(2) nr lo by auto
    ultimately show ?thesis using True by (simp add: split_def Let_def)
  qed (use Cons in simp)
qed simp

lemma replay_accept_distinct: "replay_inv w \<Longrightarrow> distinct (fst (replay_accept w xs))"
proof (induction xs arbitrary: w)
  case (Cons x xs)
  show ?case
  proof (cases "mayReceive x w")
    case True
    then have lo: "ceiling w - 63 \<le> x" using Cons.prems by (auto simp: mayReceive_iff)
    have i: "replay_inv (markAsReceived x w)" "ceiling (markAsReceived x w) = max (ceiling w) x"
      using markAsReceived_inv [OF Cons.prems lo] by auto
    have "hasReceived x (markAsReceived x w) \<or> x < max (ceiling w) x - 63"
      using mark_keeps [OF Cons.prems lo, of x] by linarith
    then show ?thesis
      using replay_accept_skips [OF i(1), of x xs] Cons.IH [OF i(1)] i(2) True by (simp add: split_def Let_def)
  qed (use Cons in simp)
qed simp

section \<open>Properties\<close>

text \<open>C36: a receiver that checks \<^verbatim>\<open>mayReceive\<close> before it marks never accepts the same sequence
  number twice, for every sequence of arriving numbers: the bitmap may be inexact, but it
  errs on the side of refusing.\<close>

theorem replay_never_accepts_twice: "distinct (fst (replay_accept replay_reset xs))"
  by (rule replay_accept_distinct [OF replay_reset_inv])



text \<open>A window that moves by exactly 32 is not shifted, because a shift distance of 32 is a
  distance of 0: after the numbers 40 and 95 the window also reports 72 as received, and a
  record numbered 72, which never arrived, is refused.\<close>

theorem replay_shift_32_refuses_fresh:
  "fst (replay_accept replay_reset [40, 95, 72]) = [40, 95] \<and>
   hasReceived 72 (snd (replay_accept replay_reset [40, 95]))"
  by code_simp

end
