(* ===== verification/Fifo_Queue.thy ===== *)
theory Fifo_Queue
  imports Prelude
begin

text \<open>
  The queue of \<^verbatim>\<open>packages/common/src/queue.ts\<close>: a backing array whose consumed prefix
  (\<open>head\<close> slots holding \<^verbatim>\<open>undefined\<close>) is dropped lazily.  It is proved to refine a
  plain list, its wasted space is bounded, and its iterator never skips a live element
  when elements are shifted while it is suspended.  The contract that the clients of the
  queue use is the locale \<open>fifo_spec\<close>.
\<close>

section \<open>The class\<close>

text \<open>A slot of the backing array is \<open>None\<close> after \<^verbatim>\<open>items[head] = undefined\<close>.\<close>

record 'a fifo =
  items :: "'a option list"
  head :: nat
  removed :: int

definition fifo_new :: "'a list \<Rightarrow> 'a fifo" where
  "fifo_new xs = \<lparr>items = map Some xs, head = 0, removed = 0\<rparr>"

definition fifo_length :: "'a fifo \<Rightarrow> nat" where
  "fifo_length q = length (items q) - head q"

definition fifo_reset :: "'a fifo \<Rightarrow> 'a fifo" where
  "fifo_reset q = q\<lparr>items := [], head := 0\<rparr>"

definition fifo_compact :: "'a fifo \<Rightarrow> 'a fifo" where
  "fifo_compact q =
     (if head q = length (items q) then fifo_reset q
      else if head q \<ge> 1024 \<and> head q * 2 \<ge> length (items q)
      then q\<lparr>items := drop (head q) (items q), head := 0\<rparr>
      else q)"

definition fifo_push :: "'a list \<Rightarrow> 'a fifo \<Rightarrow> 'a fifo" where
  "fifo_push xs q = q\<lparr>items := items q @ map Some xs\<rparr>"

definition fifo_shift :: "'a fifo \<Rightarrow> 'a option \<times> 'a fifo" where
  "fifo_shift q =
     (if head q \<ge> length (items q) then (None, q)
      else let item = items q ! head q;
               q1 = q\<lparr>items := (items q)[head q := None]\<rparr>;
               q2 = q1\<lparr>head := head q1 + 1\<rparr>;
               q3 = q2\<lparr>removed := removed q2 + 1\<rparr>
           in (item, fifo_compact q3))"

definition fifo_unshift :: "'a \<Rightarrow> 'a fifo \<Rightarrow> 'a fifo" where
  "fifo_unshift x q0 =
     (let q = q0\<lparr>removed := removed q0 - 1\<rparr>
      in if head q > 0
         then (let q1 = q\<lparr>head := head q - 1\<rparr> in q1\<lparr>items := (items q1)[head q1 := Some x]\<rparr>)
         else q\<lparr>items := Some x # items q\<rparr>)"

definition fifo_peek :: "'a fifo \<Rightarrow> 'a option" where
  "fifo_peek q = (if head q < length (items q) then items q ! head q else None)"

definition fifo_last :: "'a fifo \<Rightarrow> 'a option" where
  "fifo_last q = (if fifo_length q > 0 then items q ! (length (items q) - 1) else None)"

definition fifo_at :: "int \<Rightarrow> 'a fifo \<Rightarrow> 'a option" where
  "fifo_at index q =
     (let len = int (fifo_length q);
          i = (if index < 0 then len + index else index)
      in if i < 0 \<or> i \<ge> len then None else items q ! (head q + nat i))"

text \<open>The loops over \<^verbatim>\<open>i = head .. items.length - 1\<close>, with the callback's index \<^verbatim>\<open>i - head\<close>.\<close>

fun find_index_from :: "('a option \<Rightarrow> nat \<Rightarrow> bool) \<Rightarrow> 'a option list \<Rightarrow> nat \<Rightarrow> int" where
  "find_index_from P [] i = - 1"
| "find_index_from P (x # xs) i = (if P x i then int i else find_index_from P xs (Suc i))"

definition fifo_findIndex :: "('a option \<Rightarrow> nat \<Rightarrow> bool) \<Rightarrow> 'a fifo \<Rightarrow> int" where
  "fifo_findIndex P q = find_index_from P (drop (head q) (items q)) 0"

fun filter_from :: "('a option \<Rightarrow> nat \<Rightarrow> bool) \<Rightarrow> 'a option list \<Rightarrow> nat \<Rightarrow> 'a option list" where
  "filter_from P [] i = []"
| "filter_from P (x # xs) i = (if P x i then x # filter_from P xs (Suc i) else filter_from P xs (Suc i))"

definition fifo_filter :: "('a option \<Rightarrow> nat \<Rightarrow> bool) \<Rightarrow> 'a fifo \<Rightarrow> 'a fifo" where
  "fifo_filter P q = (fifo_new [])\<lparr>items := filter_from P (drop (head q) (items q)) 0\<rparr>"

definition fifo_clear :: "'a fifo \<Rightarrow> 'a fifo" where
  "fifo_clear q = fifo_reset (q\<lparr>removed := removed q + int (fifo_length q)\<rparr>)"

definition fifo_toArray :: "'a fifo \<Rightarrow> 'a option list" where
  "fifo_toArray q = drop (head q) (items q)"

text \<open>One resumption of the generator \<^verbatim>\<open>[Symbol.iterator]\<close>: from the saved \<open>position\<close> it
  yields an element and the next position, or returns (\<open>None\<close>).\<close>

definition fifo_next :: "int \<Rightarrow> 'a fifo \<Rightarrow> ('a option \<times> int) option" where
  "fifo_next position q =
     (let index = max 0 (position - removed q)
      in if index \<ge> int (fifo_length q) then None
         else Some (items q ! (head q + nat index), removed q + index + 1))"

section \<open>Abstraction and invariant\<close>

definition fifo_list :: "'a fifo \<Rightarrow> 'a list" where
  "fifo_list q = map the (drop (head q) (items q))"

definition fifo_inv :: "'a fifo \<Rightarrow> bool" where
  "fifo_inv q \<longleftrightarrow> head q \<le> length (items q) \<and> None \<notin> set (drop (head q) (items q)) \<and>
     (head q < 1024 \<or> 2 * head q < length (items q)) \<and> (head q = length (items q) \<longrightarrow> items q = [])"

lemma length_fifo_list: "length (fifo_list q) = fifo_length q"
  by (simp add: fifo_list_def fifo_length_def)

lemma fifo_live:
  "fifo_inv q \<Longrightarrow> head q + i < length (items q) \<Longrightarrow> items q ! (head q + i) = Some (fifo_list q ! i)"
proof -
  assume inv: "fifo_inv q" and i: "head q + i < length (items q)"
  then have "items q ! (head q + i) \<in> set (drop (head q) (items q))"
    by (auto simp: in_set_conv_nth intro!: exI [of _ i])
  with inv have "items q ! (head q + i) \<noteq> None" by (metis fifo_inv_def)
  with i show ?thesis by (auto simp: fifo_list_def)
qed

lemma fifo_list_new: "fifo_list (fifo_new xs) = xs"
  by (simp add: fifo_list_def fifo_new_def comp_def)

lemma fifo_inv_new: "fifo_inv (fifo_new xs)"
  by (auto simp: fifo_inv_def fifo_new_def)

lemma fifo_list_push: "fifo_inv q \<Longrightarrow> fifo_list (fifo_push xs q) = fifo_list q @ xs"
  by (simp add: fifo_list_def fifo_push_def fifo_inv_def comp_def)

lemma fifo_inv_push [inv_intros]: "fifo_inv q \<Longrightarrow> fifo_inv (fifo_push xs q)"
  by (auto simp: fifo_inv_def fifo_push_def)

lemma fifo_list_compact [simp]: "fifo_list (fifo_compact q) = fifo_list q"
  by (auto simp: fifo_list_def fifo_compact_def fifo_reset_def)

lemma removed_compact [simp]: "removed (fifo_compact q) = removed q"
  by (simp add: fifo_compact_def fifo_reset_def)

lemma fifo_inv_compact [inv_intros]:
  "head q \<le> length (items q) \<Longrightarrow> None \<notin> set (drop (head q) (items q)) \<Longrightarrow> fifo_inv (fifo_compact q)"
  by (auto simp: fifo_inv_def fifo_compact_def fifo_reset_def)

lemma fifo_shift_spec:
  assumes "fifo_inv q"
  shows "fst (fifo_shift q) = (case fifo_list q of [] \<Rightarrow> None | x # _ \<Rightarrow> Some x)"
    and "fifo_list (snd (fifo_shift q)) = tl (fifo_list q)"
    and "fifo_inv (snd (fifo_shift q))"
    and "removed (snd (fifo_shift q)) = removed q + (if fifo_list q = [] then 0 else 1)"
proof -
  have "fst (fifo_shift q) = (case fifo_list q of [] \<Rightarrow> None | x # _ \<Rightarrow> Some x) \<and>
    fifo_list (snd (fifo_shift q)) = tl (fifo_list q) \<and> fifo_inv (snd (fifo_shift q)) \<and>
    removed (snd (fifo_shift q)) = removed q + (if fifo_list q = [] then 0 else 1)"
  proof (cases "head q < length (items q)")
    case False
    with assms show ?thesis by (simp add: fifo_shift_def fifo_list_def fifo_inv_def)
  next
    case True
    then have d: "drop (head q) (items q) = items q ! head q # drop (Suc (head q)) (items q)"
      by (simp add: Cons_nth_drop_Suc)
    with assms have some: "items q ! head q = Some (the (items q ! head q))"
      and rest: "None \<notin> set (drop (Suc (head q)) (items q))"
      by (auto simp: fifo_inv_def)
    have "fifo_list q = the (items q ! head q) # map the (drop (Suc (head q)) (items q))"
      by (simp add: fifo_list_def d)
    moreover have "fifo_list (q\<lparr>items := (items q)[head q := None], head := Suc (head q),
        removed := removed q + 1\<rparr>) = map the (drop (Suc (head q)) (items q))"
      by (simp add: fifo_list_def)
    ultimately show ?thesis
      using True some rest by (auto simp: fifo_shift_def Let_def intro!: fifo_inv_compact)
  qed
  then show "fst (fifo_shift q) = (case fifo_list q of [] \<Rightarrow> None | x # _ \<Rightarrow> Some x)"
    and "fifo_list (snd (fifo_shift q)) = tl (fifo_list q)"
    and "fifo_inv (snd (fifo_shift q))"
    and "removed (snd (fifo_shift q)) = removed q + (if fifo_list q = [] then 0 else 1)"
    by blast+
qed

lemma fifo_unshift_spec:
  assumes "fifo_inv q"
  shows "fifo_list (fifo_unshift x q) = x # fifo_list q" and "fifo_inv (fifo_unshift x q)"
proof -
  have "fifo_list (fifo_unshift x q) = x # fifo_list q \<and> fifo_inv (fifo_unshift x q)"
  proof (cases "head q")
    case 0
    with assms show ?thesis
      by (auto simp: fifo_unshift_def fifo_list_def fifo_inv_def)
  next
    case (Suc h)
    with assms have "drop h ((items q)[h := Some x]) = Some x # drop (Suc h) (items q)"
      by (simp add: fifo_inv_def Cons_nth_drop_Suc [symmetric])
    with Suc assms show ?thesis
      by (auto simp: fifo_unshift_def fifo_list_def fifo_inv_def Let_def)
  qed
  then show "fifo_list (fifo_unshift x q) = x # fifo_list q" and "fifo_inv (fifo_unshift x q)"
    by blast+
qed

lemma fifo_peek_spec:
  "fifo_inv q \<Longrightarrow> fifo_peek q = (case fifo_list q of [] \<Rightarrow> None | x # _ \<Rightarrow> Some x)"
  using fifo_live [of q 0] length_fifo_list [of q]
  by (auto simp: fifo_peek_def fifo_length_def split: list.splits)

lemma fifo_at_spec:
  assumes "fifo_inv q"
  shows "fifo_at i q = (let n = int (length (fifo_list q)); j = (if i < 0 then n + i else i)
    in if 0 \<le> j \<and> j < n then Some (fifo_list q ! nat j) else None)"
proof -
  have "0 \<le> j \<and> j < int (fifo_length q) \<Longrightarrow> items q ! (head q + nat j) = Some (fifo_list q ! nat j)" for j
    using assms by (intro fifo_live) (auto simp: fifo_length_def)
  then show ?thesis by (auto simp: fifo_at_def length_fifo_list Let_def)
qed

lemma fifo_last_spec:
  assumes "fifo_inv q"
  shows "fifo_last q = (if fifo_list q = [] then None else Some (last (fifo_list q)))"
proof (cases "fifo_length q > 0")
  case True
  then have "items q ! (head q + (fifo_length q - 1)) = Some (fifo_list q ! (fifo_length q - 1))"
    using assms by (intro fifo_live) (auto simp: fifo_length_def)
  with True show ?thesis
    by (auto simp: fifo_last_def fifo_length_def last_conv_nth length_fifo_list simp flip: length_0_conv)
next
  case False
  then show ?thesis by (auto simp: fifo_last_def length_fifo_list simp flip: length_0_conv)
qed

lemma fifo_clear_spec: "fifo_list (fifo_clear q) = []" "fifo_inv (fifo_clear q)"
  by (simp_all add: fifo_clear_def fifo_list_def fifo_inv_def fifo_reset_def)

lemma filter_from_live:
  "None \<notin> set xs \<Longrightarrow> None \<notin> set (filter_from P xs i) \<and>
     map the (filter_from (\<lambda>y _. R (the y)) xs i) = filter R (map the xs)"
  by (induction xs arbitrary: i) auto

lemma fifo_filter_spec:
  assumes "fifo_inv q"
  shows "fifo_list (fifo_filter (\<lambda>y _. R (the y)) q) = filter R (fifo_list q)"
    and "fifo_inv (fifo_filter (\<lambda>y _. R (the y)) q)"
proof -
  have "None \<notin> set (drop (head q) (items q))" using assms by (simp add: fifo_inv_def)
  from filter_from_live [OF this]
  show "fifo_list (fifo_filter (\<lambda>y _. R (the y)) q) = filter R (fifo_list q)"
    and "fifo_inv (fifo_filter (\<lambda>y _. R (the y)) q)"
    by (auto simp: fifo_filter_def fifo_list_def fifo_inv_def fifo_new_def)
qed

lemma find_index_from_spec:
  "None \<notin> set xs \<Longrightarrow> find_index_from (\<lambda>y _. R (the y)) xs i =
     (if \<exists>x \<in> set xs. R (the x) then int (i + length (takeWhile (\<lambda>x. \<not> R (the x)) xs)) else -1)"
  by (induction xs arbitrary: i) auto

section \<open>The contract of the queue\<close>

locale fifo_spec =
  fixes mk :: "'a list \<Rightarrow> 'q" and push :: "'a list \<Rightarrow> 'q \<Rightarrow> 'q"
    and shift :: "'q \<Rightarrow> 'a option \<times> 'q" and peek :: "'q \<Rightarrow> 'a option"
    and elems :: "'q \<Rightarrow> 'a list" and invar :: "'q \<Rightarrow> bool"
  assumes elems_mk: "elems (mk xs) = xs" and invar_mk: "invar (mk xs)"
    and elems_push: "invar q \<Longrightarrow> elems (push xs q) = elems q @ xs"
    and invar_push: "invar q \<Longrightarrow> invar (push xs q)"
    and shift_fst: "invar q \<Longrightarrow> fst (shift q) = (case elems q of [] \<Rightarrow> None | x # _ \<Rightarrow> Some x)"
    and shift_snd: "invar q \<Longrightarrow> elems (snd (shift q)) = tl (elems q)"
    and invar_shift: "invar q \<Longrightarrow> invar (snd (shift q))"
    and peek: "invar q \<Longrightarrow> peek q = (case elems q of [] \<Rightarrow> None | x # _ \<Rightarrow> Some x)"
begin

lemma shifts: "invar q \<Longrightarrow>
    invar (((\<lambda>q. snd (shift q)) ^^ n) q) \<and> elems (((\<lambda>q. snd (shift q)) ^^ n) q) = drop n (elems q)"
  by (induction n) (auto simp: shift_snd invar_shift drop_Suc tl_drop)

text \<open>First in, first out: what is pushed is shifted in the same order, after what was
  already there.\<close>

lemma fifo_order:
  assumes "invar q" and "n < length (elems q) + length xs"
  shows "fst (shift (((\<lambda>q. snd (shift q)) ^^ n) (push xs q))) = Some ((elems q @ xs) ! n)"
proof -
  have "drop n (elems q @ xs) = (elems q @ xs) ! n # drop (Suc n) (elems q @ xs)"
    using assms(2) by (intro Cons_nth_drop_Suc [symmetric]) simp
  with shifts [of "push xs q" n] assms(1) show ?thesis
    by (simp add: shift_fst invar_push elems_push del: drop_append)
qed

lemma peek_shift: "invar q \<Longrightarrow> fst (shift q) = peek q"
  by (simp add: peek shift_fst)

end

interpretation fq: fifo_spec fifo_new fifo_push fifo_shift fifo_peek fifo_list fifo_inv
  by unfold_locales
    (simp_all add: fifo_list_new fifo_inv_new fifo_list_push fifo_inv_push fifo_shift_spec fifo_peek_spec)

section \<open>Space and iteration\<close>

lemma fifo_space: "fifo_inv q \<Longrightarrow> length (items q) < 2 * length (fifo_list q) + 1024"
  by (auto simp: fifo_inv_def length_fifo_list fifo_length_def)

abbreviation shift_n :: "nat \<Rightarrow> 'a fifo \<Rightarrow> 'a fifo" where
  "shift_n k q \<equiv> ((\<lambda>q. snd (fifo_shift q)) ^^ k) q"

lemma removed_shift_n:
  "fifo_inv q \<Longrightarrow> removed (shift_n k q) = removed q + int (min k (length (fifo_list q)))"
proof (induction k)
  case 0
  then show ?case by simp
next
  case (Suc k)
  have "removed (shift_n (Suc k) q) =
      removed (shift_n k q) + (if fifo_list (shift_n k q) = [] then 0 else 1)"
    using fq.shifts [OF Suc.prems, of k] by (simp add: fifo_shift_spec)
  with Suc fq.shifts [OF Suc.prems, of k] show ?case by auto
qed

lemma fifo_next_spec:
  assumes "fifo_inv q"
  shows "fifo_next p q = (let i = nat (p - removed q) in
    if i < length (fifo_list q) then Some (Some (fifo_list q ! i), removed q + int i + 1) else None)"
proof -
  define i where "i = nat (p - removed q)"
  have "i < fifo_length q \<Longrightarrow> items q ! (head q + i) = Some (fifo_list q ! i)"
    using assms by (intro fifo_live) (auto simp: fifo_length_def)
  moreover have "max 0 (p - removed q) = int i" by (simp add: i_def)
  ultimately show ?thesis
    by (simp add: fifo_next_def length_fifo_list Let_def flip: i_def)
qed

text \<open>
  An iterator suspended at the \<open>i\<close>-th element while \<open>k\<close> elements are shifted away
  resumes at the first element that is still there and was not visited yet.
\<close>

lemma fifo_next_after_shifts:
  assumes "fifo_inv q" and "0 \<le> i"
  shows "fifo_next (removed q + i) (shift_n k q) =
    (let j = max (nat i) k in
     if j < length (fifo_list q) then Some (Some (fifo_list q ! j), removed q + int j + 1) else None)"
proof -
  from assms(1) have inv: "fifo_inv (shift_n k q)" and l: "fifo_list (shift_n k q) = drop k (fifo_list q)"
    using fq.shifts [OF assms(1), of k] by auto
  show ?thesis
  proof (cases "k \<le> length (fifo_list q)")
    case True
    have "nat (i - int k) + k = max (nat i) k" using assms(2) by simp
    with True show ?thesis
      unfolding fifo_next_spec [OF inv] l removed_shift_n [OF assms(1)]
      by (auto simp: Let_def add.commute)
  next
    case False
    then show ?thesis
      unfolding fifo_next_spec [OF inv] l by (auto simp: Let_def)
  qed
qed

section \<open>Programs over the queue\<close>

text \<open>A client of the queue performs a sequence of operations; the abstract machine performs
  them on a plain list.  Both return what the operations return.\<close>

datatype 'a fifo_op =
  Push "'a list" | Shift | Unshift 'a | Peek | Last | At int | Filter "'a \<Rightarrow> bool" | Clear

fun fifo_step :: "'a fifo_op \<Rightarrow> 'a fifo \<Rightarrow> 'a option \<times> 'a fifo" where
  "fifo_step (Push xs) q = (None, fifo_push xs q)"
| "fifo_step Shift q = fifo_shift q"
| "fifo_step (Unshift x) q = (None, fifo_unshift x q)"
| "fifo_step Peek q = (fifo_peek q, q)"
| "fifo_step Last q = (fifo_last q, q)"
| "fifo_step (At i) q = (fifo_at i q, q)"
| "fifo_step (Filter P) q = (None, fifo_filter (\<lambda>y _. P (the y)) q)"
| "fifo_step Clear q = (None, fifo_clear q)"

fun list_step :: "'a fifo_op \<Rightarrow> 'a list \<Rightarrow> 'a option \<times> 'a list" where
  "list_step (Push xs) l = (None, l @ xs)"
| "list_step Shift l = (case l of [] \<Rightarrow> (None, []) | x # r \<Rightarrow> (Some x, r))"
| "list_step (Unshift x) l = (None, x # l)"
| "list_step Peek l = (case l of [] \<Rightarrow> None | x # _ \<Rightarrow> Some x, l)"
| "list_step Last l = (if l = [] then None else Some (last l), l)"
| "list_step (At i) l =
     (let n = int (length l); j = (if i < 0 then n + i else i)
      in if 0 \<le> j \<and> j < n then Some (l ! nat j) else None, l)"
| "list_step (Filter P) l = (None, filter P l)"
| "list_step Clear l = (None, [])"

fun run_steps :: "('o \<Rightarrow> 's \<Rightarrow> 'r \<times> 's) \<Rightarrow> 'o list \<Rightarrow> 's \<Rightarrow> 'r list \<times> 's" where
  "run_steps f [] s = ([], s)"
| "run_steps f (p # ps) s = (let (r, s') = f p s; (rs, t) = run_steps f ps s' in (r # rs, t))"

lemma fifo_step_refines:
  assumes "fifo_inv q"
  shows "fst (fifo_step p q) = fst (list_step p (fifo_list q)) \<and>
    fifo_list (snd (fifo_step p q)) = snd (list_step p (fifo_list q)) \<and> fifo_inv (snd (fifo_step p q))"
proof (cases p)
  case Shift
  then show ?thesis using fifo_shift_spec [OF assms] by (auto split: list.splits)
qed (use assms in \<open>auto simp: fifo_list_push fifo_inv_push fifo_unshift_spec fifo_peek_spec fifo_last_spec
      fifo_at_spec fifo_filter_spec fifo_clear_spec\<close>)

lemma run_steps_refines:
  "fifo_inv q \<Longrightarrow> fst (run_steps fifo_step ps q) = fst (run_steps list_step ps (fifo_list q)) \<and>
    fifo_list (snd (run_steps fifo_step ps q)) = snd (run_steps list_step ps (fifo_list q)) \<and>
    fifo_inv (snd (run_steps fifo_step ps q))"
proof (induction ps arbitrary: q)
  case (Cons p ps)
  then show ?case using fifo_step_refines [OF Cons.prems, of p] by (simp add: split_def Let_def)
qed simp

text \<open>C39: the queue behaves as a plain list under every sequence of its operations: the same
  results are returned and the same elements are left, and the backing array never has more
  than 1024 slots beyond twice the elements it holds.\<close>

theorem fifo_refines_list:
  "fst (run_steps fifo_step ps (fifo_new xs)) = fst (run_steps list_step ps xs) \<and>
   fifo_list (snd (run_steps fifo_step ps (fifo_new xs))) = snd (run_steps list_step ps xs) \<and>
   length (items (snd (run_steps fifo_step ps (fifo_new xs)))) < 2 * length (snd (run_steps list_step ps xs)) + 1024"
  using run_steps_refines [OF fifo_inv_new, of ps xs] fifo_space [of "snd (run_steps fifo_step ps (fifo_new xs))"]
  by (simp add: fifo_list_new)

text \<open>An iterator that was suspended before the \<open>i\<close>-th element while \<open>k\<close> elements were
  shifted away resumes at the first element that is still queued and was not visited: it
  neither skips a live element nor visits one twice.\<close>

theorem fifo_iterator_stable:
  assumes "fifo_inv q" "0 \<le> i"
  shows "fifo_next (removed q + i) (((\<lambda>q. snd (fifo_shift q)) ^^ k) q) =
    (let j = max (nat i) k in
     if j < length (fifo_list q) then Some (Some (fifo_list q ! j), removed q + int j + 1) else None)"
  using assms by (rule fifo_next_after_shifts)

theorem fifo_iterator_stable_witness:
  "fifo_next 1 (((\<lambda>q. snd (fifo_shift q)) ^^ 2) (fifo_new [7, 8, 9 :: nat])) = Some (Some 9, 3)"
  using fifo_iterator_stable [OF fifo_inv_new [of "[7, 8, 9 :: nat]"], of 1 2]
  by (simp add: fifo_list_new) (simp add: fifo_new_def)

end
