(* ===== verification/Binary.thy ===== *)
theory Binary
  imports Prelude
begin

unbundle bit_operations_syntax

text \<open>
  The bit and buffer helpers of \<^verbatim>\<open>packages/common/src/binary.ts\<close>: exclusive or of buffers, the
  bit writers, the string based \<^verbatim>\<open>getBit\<close>, and the field-list writer and reader.  Proved: what
  the field writer writes the reader reads back, \<^verbatim>\<open>getBit\<close> on a byte is the arithmetic bit
  field, and the fields of a \<^verbatim>\<open>BitWriter\<close> that do not overlap read back unchanged.

  A fresh \<^verbatim>\<open>Buffer.alloc\<close> is a list of zero bytes; a write at an offset replaces bytes and
  raises a \<open>RangeError\<close> outside the buffer.
\<close>

section \<open>Writing into a buffer\<close>

definition buf_alloc :: "nat \<Rightarrow> buffer" where
  "buf_alloc n = replicate n 0"

definition buf_replace :: "buffer \<Rightarrow> nat \<Rightarrow> buffer \<Rightarrow> buffer" where
  "buf_replace b off bs = take off b @ bs @ drop (off + length bs) b"

text \<open>\<^verbatim>\<open>buf.writeUIntBE(v, off, n)\<close> and its fixed-size variants.\<close>

definition buf_writeUInt :: "nat \<Rightarrow> buffer \<Rightarrow> nat \<Rightarrow> int \<Rightarrow> buffer result" where
  "buf_writeUInt n b off v =
     (if off + n \<le> length b then rbind (writeUIntBE n v) (\<lambda>bs. Inr (buf_replace b off bs))
      else Inl RangeError)"

text \<open>\<^verbatim>\<open>src.copy(buf, off)\<close> copies as much as fits and never raises for an offset in range.\<close>

definition buf_copy :: "buffer \<Rightarrow> nat \<Rightarrow> buffer \<Rightarrow> buffer" where
  "buf_copy b off src = buf_replace b off (take (length b - off) src)"

lemma length_buf_alloc [simp]: "length (buf_alloc n) = n"
  by (simp add: buf_alloc_def)

lemma length_buf_replace [simp]: "off + length bs \<le> length b \<Longrightarrow> length (buf_replace b off bs) = length b"
  by (simp add: buf_replace_def)

lemma length_buf_copy [simp]: "off \<le> length b \<Longrightarrow> length (buf_copy b off src) = length b"
  by (simp add: buf_copy_def)

text \<open>Sequential filling: a buffer whose first part is written and whose rest is zero.\<close>

lemma buf_replace_fill [wire_simps]:
  "length bs \<le> k \<Longrightarrow> buf_replace (w @ buf_alloc k) (length w) bs = w @ bs @ buf_alloc (k - length bs)"
  by (simp add: buf_replace_def buf_alloc_def)

lemma buf_writeUInt_fill [wire_simps]:
  assumes "0 \<le> v" "v < 256 ^ n" "n \<le> k"
  shows "buf_writeUInt n (w @ buf_alloc k) (length w) v = Inr ((w @ be_bytes n v) @ buf_alloc (k - n))"
  using assms buf_replace_fill [of "be_bytes n v" k w] by (simp add: buf_writeUInt_def writeUIntBE_ok)

lemma buf_copy_fill [wire_simps]:
  "length src \<le> k \<Longrightarrow> buf_copy (w @ buf_alloc k) (length w) src = (w @ src) @ buf_alloc (k - length src)"
  using buf_replace_fill [of src k w] by (simp add: buf_copy_def)

lemma buf_writeUInt_mid [wire_simps]:
  assumes "0 \<le> v" "v < 256 ^ n" "length old = n"
  shows "buf_writeUInt n (a @ old @ c) (length a) v = Inr (a @ be_bytes n v @ c)"
  using assms by (simp add: buf_writeUInt_def writeUIntBE_ok buf_replace_def)

section \<open>Exclusive or\<close>

definition bufferXor :: "buffer \<Rightarrow> buffer \<Rightarrow> buffer result" where
  "bufferXor a b =
     (if length a \<noteq> length b
      then Inl (TypeError ''[webrtc-stun] You can not XOR buffers which length are different'')
      else Inr (map2 (\<lambda>x y. x XOR y) a b))"

text \<open>\<^verbatim>\<open>[...arr].sort(...).reverse()[0]\<close> is a longest buffer; on an empty array it is
  \<^verbatim>\<open>undefined\<close>, whose \<^verbatim>\<open>length\<close> raises.\<close>

definition bufferArrayXor :: "buffer list \<Rightarrow> buffer result" where
  "bufferArrayXor arr =
     (if arr = [] then Inl (TypeError ''Cannot read properties of undefined'')
      else Inr (map (\<lambda>i. fold (\<lambda>b x. x XOR (if i < length b then b ! i else 0)) arr 0)
                 [0..<fold max (map length arr) 0]))"

lemma bufferXor_self_inverse:
  "length a = length b \<Longrightarrow> rbind (bufferXor a b) (\<lambda>c. bufferXor c b) = Inr a"
proof -
  assume l: "length a = length b"
  have "map2 (\<lambda>x y. x XOR y) (map2 (\<lambda>x y. x XOR y) a b) b = a"
    using l by (induction a b rule: list_induct2) (simp_all add: xor.assoc)
  then show ?thesis using l by (simp add: bufferXor_def)
qed

section \<open>Bit writers\<close>

text \<open>\<^verbatim>\<open>BitWriter\<close>: the value is a signed 32-bit number, a shift distance counts modulo 32.\<close>

record bit_writer =
  bw_bitLength :: int
  bw_value :: "32 word"

definition BitWriter :: "int \<Rightarrow> bit_writer" where
  "BitWriter n = \<lparr>bw_bitLength = n, bw_value = 0\<rparr>"

definition bw_set :: "int \<Rightarrow> int \<Rightarrow> int \<Rightarrow> bit_writer \<Rightarrow> bit_writer" where
  "bw_set sz startIndex value w =
     (let value = (word_of_int value :: 32 word) AND (push_bit (nat (sz mod 32)) 1 - 1)
      in w\<lparr>bw_value := bw_value w OR push_bit (nat ((bw_bitLength w - sz - startIndex) mod 32)) value\<rparr>)"

text \<open>Reading \<^verbatim>\<open>value\<close> gives the signed reading; writing a negative one raises.\<close>

definition bw_number :: "bit_writer \<Rightarrow> int" where
  "bw_number w = sint (bw_value w)"

definition bw_buffer :: "bit_writer \<Rightarrow> buffer result" where
  "bw_buffer w =
     (let length = nat ((bw_bitLength w + 7) div 8) in buf_writeUInt length (buf_alloc length) 0 (bw_number w))"

text \<open>\<^verbatim>\<open>BitWriter2\<close> works on big integers, so that nothing wraps.  A negative shift distance
  of a \<^verbatim>\<open>BigInt\<close> shifts the other way.\<close>

record bit_writer2 =
  bw2_bitLength :: int
  bw2_value :: int
  bw2_offset :: int

definition BitWriter2 :: "int \<Rightarrow> bit_writer2 result" where
  "BitWriter2 n = (if n > 32 then Inl (Error '''') else Inr \<lparr>bw2_bitLength = n, bw2_value = 0, bw2_offset = 0\<rparr>)"

definition bw2_set :: "int \<Rightarrow> nat \<Rightarrow> bit_writer2 \<Rightarrow> bit_writer2" where
  "bw2_set value sz w =
     (let value_b = value AND (push_bit sz 1 - 1);
          d = bw2_bitLength w - int sz - bw2_offset w;
          w1 = w\<lparr>bw2_value := bw2_value w OR (if 0 \<le> d then push_bit (nat d) value_b else drop_bit (nat (- d)) value_b)\<rparr>
      in w1\<lparr>bw2_offset := bw2_offset w1 + int sz\<rparr>)"

definition bw2_buffer :: "bit_writer2 \<Rightarrow> buffer result" where
  "bw2_buffer w =
     (let length = nat ((bw2_bitLength w + 7) div 8) in buf_writeUInt length (buf_alloc length) 0 (bw2_value w))"

section \<open>Binary digits\<close>

text \<open>\<^verbatim>\<open>n.toString(2)\<close> as a list of digits, and \<^verbatim>\<open>Number.parseInt(s, 2)\<close>, which is \<^verbatim>\<open>NaN\<close>
  (\<open>None\<close>) on the empty string.\<close>

fun bin_digits :: "nat \<Rightarrow> nat list" where
  "bin_digits n = (if n < 2 then [n] else bin_digits (n div 2) @ [n mod 2])"

declare bin_digits.simps [simp del]

definition digits_val :: "nat list \<Rightarrow> nat" where
  "digits_val ds = foldl (\<lambda>a d. 2 * a + d) 0 ds"

definition parse_bin :: "nat list \<Rightarrow> nat option" where
  "parse_bin ds = (if ds = [] then None else Some (digits_val ds))"

text \<open>\<^verbatim>\<open>Array(8 - bin.length)\<close> raises a \<open>RangeError\<close> for more than eight digits.\<close>

definition getBit :: "nat \<Rightarrow> nat \<Rightarrow> nat \<Rightarrow> nat option result" where
  "getBit bits startIndex len =
     (let bin = bin_digits bits
      in if length bin > 8 then Inl RangeError
         else Inr (parse_bin (buf_slice (replicate (8 - length bin) 0 @ bin) startIndex (startIndex + len))))"

definition paddingByte :: "nat \<Rightarrow> nat list result" where
  "paddingByte bits =
     (let dec = bin_digits bits
      in if length dec > 8 then Inl RangeError else Inr (replicate (8 - length dec) 0 @ dec))"

definition paddingBits :: "nat \<Rightarrow> nat \<Rightarrow> nat list result" where
  "paddingBits bits expectLength =
     (let dec = bin_digits bits
      in if length dec > expectLength then Inl RangeError
         else Inr (replicate (expectLength - length dec) 0 @ dec))"

section \<open>Field lists\<close>

text \<open>Node writes integers of 1 to 6 bytes, and 8 bytes through the \<^verbatim>\<open>BigInt\<close> variant; any other
  size raises.\<close>

definition int_size_ok :: "nat \<Rightarrow> bool" where
  "int_size_ok n \<longleftrightarrow> n \<in> {1, 2, 3, 4, 5, 6, 8}"

definition write_field :: "nat \<Rightarrow> buffer \<Rightarrow> nat \<Rightarrow> int \<Rightarrow> buffer result" where
  "write_field n b off v = (if int_size_ok n then buf_writeUInt n b off v else Inl RangeError)"

fun write_fields :: "nat list \<Rightarrow> int list \<Rightarrow> nat \<Rightarrow> buffer \<Rightarrow> buffer result" where
  "write_fields ns [] off b = Inr b"
| "write_fields [] (v # vs) off b = Inl (TypeError ''ERR_INVALID_ARG_TYPE'')"
| "write_fields (n # ns) (v # vs) off b = rbind (write_field n b off v) (write_fields ns vs (off + n))"

definition bufferWriter :: "nat list \<Rightarrow> int list \<Rightarrow> buffer result" where
  "bufferWriter bytes values = write_fields bytes values 0 (buf_alloc (fold (\<lambda>cur acc. acc + cur) bytes 0))"

definition read_field :: "nat \<Rightarrow> buffer \<Rightarrow> nat \<Rightarrow> int result" where
  "read_field n b off = (if int_size_ok n then readUIntBE n b off else Inl RangeError)"

fun read_fields :: "buffer \<Rightarrow> nat \<Rightarrow> nat list \<Rightarrow> int list result" where
  "read_fields b off [] = Inr []"
| "read_fields b off (n # ns) =
     rbind (read_field n b off) (\<lambda>v. rbind (read_fields b (off + n) ns) (\<lambda>vs. Inr (v # vs)))"

definition bufferReader :: "buffer \<Rightarrow> nat list \<Rightarrow> int list result" where
  "bufferReader b bytes = read_fields b 0 bytes"

definition field_ok :: "nat \<Rightarrow> int \<Rightarrow> bool" where
  "field_ok n v \<longleftrightarrow> int_size_ok n \<and> 0 \<le> v \<and> v < 256 ^ n"

text \<open>The bytes of a field list.\<close>

definition fields_bytes :: "nat list \<Rightarrow> int list \<Rightarrow> buffer" where
  "fields_bytes ns vs = concat (map2 be_bytes ns vs)"

lemma fold_add_sum: "fold (\<lambda>cur acc. acc + cur) ns (k :: nat) = k + sum_list ns"
  by (induction ns arbitrary: k) auto

lemma fields_bytes_simps [simp]:
  "fields_bytes [] [] = []" "fields_bytes (n # ns) (v # vs) = be_bytes n v @ fields_bytes ns vs"
  by (simp_all add: fields_bytes_def)

lemma length_fields_bytes: "length ns = length vs \<Longrightarrow> length (fields_bytes ns vs) = sum_list ns"
  by (induction ns vs rule: list_induct2) simp_all

lemma write_fields_ok:
  "list_all2 field_ok ns vs \<Longrightarrow> sum_list ns \<le> k \<Longrightarrow>
     write_fields ns vs (length w) (w @ buf_alloc k) = Inr (w @ fields_bytes ns vs @ buf_alloc (k - sum_list ns))"
proof (induction arbitrary: w k rule: list_all2_induct)
  case (Cons n ns v vs)
  have "write_field n (w @ buf_alloc k) (length w) v = Inr ((w @ be_bytes n v) @ buf_alloc (k - n))"
    using Cons(1) Cons.prems by (simp add: write_field_def field_ok_def buf_writeUInt_fill)
  moreover have "length w + n = length (w @ be_bytes n v)" by simp
  ultimately show ?case
    using Cons.IH [of "k - n" "w @ be_bytes n v"] Cons.prems by simp
qed simp

lemma bufferWriter_ok:
  "list_all2 field_ok ns vs \<Longrightarrow> bufferWriter ns vs = Inr (fields_bytes ns vs)"
  using write_fields_ok [of ns vs "sum_list ns" "[]"]
  by (simp add: bufferWriter_def fold_add_sum) (simp add: buf_alloc_def)

lemma read_fields_at:
  "list_all2 field_ok ns vs \<Longrightarrow> read_fields (w @ fields_bytes ns vs @ r) (length w) ns = Inr vs"
proof (induction arbitrary: w rule: list_all2_induct)
  case (Cons n ns v vs)
  have "read_field n (w @ fields_bytes (n # ns) (v # vs) @ r) (length w) = Inr v"
    using Cons(1) by (simp add: read_field_def field_ok_def readUIntBE_append_later read_written)
  then show ?case using Cons.IH [of "w @ be_bytes n v"] by simp
qed simp

lemma bufferReader_bytes:
  "list_all2 field_ok ns vs \<Longrightarrow> bufferReader (fields_bytes ns vs @ r) ns = Inr vs"
  using read_fields_at [of ns vs "[]" r] by (simp add: bufferReader_def)

section \<open>Bit fields of a byte\<close>

lemma digits_val_snoc: "digits_val (ds @ [d]) = 2 * digits_val ds + d"
  by (simp add: digits_val_def)

lemma digits_val_append: "digits_val (xs @ ys) = digits_val xs * 2 ^ length ys + digits_val ys"
proof (induction ys rule: rev_induct)
  case (snoc y ys)
  have "digits_val ((xs @ ys) @ [y]) = 2 * digits_val (xs @ ys) + y" by (rule digits_val_snoc)
  with snoc show ?case by (simp add: digits_val_snoc algebra_simps)
qed (simp add: digits_val_def)

lemma digits_val_bound: "set ds \<subseteq> {0, 1} \<Longrightarrow> digits_val ds < 2 ^ length ds"
  by (induction ds rule: rev_induct) (auto simp: digits_val_snoc digits_val_def)

lemma bin_digits_val: "digits_val (bin_digits n) = n \<and> set (bin_digits n) \<subseteq> {0, 1} \<and> bin_digits n \<noteq> []"
proof (induction n rule: bin_digits.induct)
  case (1 n)
  show ?case
  proof (cases "n < 2")
    case True
    then show ?thesis by (subst (1 2 3) bin_digits.simps) (auto simp: digits_val_def)
  next
    case False
    then have "bin_digits n = bin_digits (n div 2) @ [n mod 2]" by (subst bin_digits.simps) simp
    with 1 [OF False] show ?thesis by (auto simp: digits_val_snoc)
  qed
qed

lemma bin_digits_length: "n < 2 ^ k \<Longrightarrow> 0 < k \<Longrightarrow> length (bin_digits n) \<le> k"
proof (induction n arbitrary: k rule: bin_digits.induct)
  case (1 n)
  show ?case
  proof (cases "n < 2")
    case True
    then show ?thesis using 1(3) by (subst bin_digits.simps) simp
  next
    case False
    obtain j where k: "k = Suc j" using 1(3) by (cases k) auto
    have "0 < j" using False 1(2) k by (cases j) auto
    moreover have "n div 2 < 2 ^ j" using 1(2) by (simp add: k less_mult_imp_div_less mult.commute)
    ultimately have "length (bin_digits (n div 2)) \<le> j" using 1(1) False by blast
    with False show ?thesis by (subst bin_digits.simps) (simp add: k)
  qed
qed

lemma digits_val_zeros: "digits_val (replicate k 0 @ ds) = digits_val ds"
proof -
  have "digits_val (replicate k 0) = 0" by (induction k) (simp_all add: digits_val_def)
  then show ?thesis by (simp add: digits_val_append)
qed

text \<open>\<^verbatim>\<open>getBit\<close> on a byte is the bit field of the given position and length.\<close>

lemma getBit_byte:
  assumes "b < 256" "0 < n" "s + n \<le> 8"
  shows "getBit b s n = Inr (Some (b div 2 ^ (8 - s - n) mod 2 ^ n))"
proof -
  define ds where "ds = replicate (8 - length (bin_digits b)) 0 @ bin_digits b"
  have le: "length (bin_digits b) \<le> 8" using bin_digits_length [of b 8] assms(1) by simp
  have l: "length ds = 8" using le by (simp add: ds_def)
  have v: "digits_val ds = b" unfolding ds_def digits_val_zeros using bin_digits_val by blast
  have d01: "set ds \<subseteq> {0, 1}" unfolding ds_def using bin_digits_val [of b] by (auto simp: set_replicate_conv_if)
  define m r where "m = take n (drop s ds)" and "r = drop (s + n) ds"
  have split: "ds = take s ds @ m @ r" by (simp add: m_def r_def flip: drop_drop add.commute)
  have lm: "length m = n" "length r = 8 - s - n" using assms l by (simp_all add: m_def r_def)
  have sub: "set m \<subseteq> set ds" "set r \<subseteq> set ds" unfolding m_def r_def by (auto dest: in_set_takeD in_set_dropD)
  then have bm: "digits_val m < 2 ^ n" "digits_val r < 2 ^ (8 - s - n)"
    using digits_val_bound [of m] digits_val_bound [of r] d01 lm by auto
  have "b = (digits_val (take s ds) * 2 ^ n + digits_val m) * 2 ^ (8 - s - n) + digits_val r"
    using arg_cong [OF split, of digits_val] by (simp add: v digits_val_append lm power_add algebra_simps)
  then have "b div 2 ^ (8 - s - n) = digits_val (take s ds) * 2 ^ n + digits_val m"
    using bm(2) by simp
  then have "b div 2 ^ (8 - s - n) mod 2 ^ n = digits_val m" using bm(1) by simp
  moreover have "m \<noteq> []" using lm assms(2) by auto
  ultimately show ?thesis
    using le by (simp add: getBit_def parse_bin_def buf_slice_def flip: ds_def m_def)
qed

lemma bw_bit:
  assumes "0 < n" "n < 32" "0 \<le> s" "n + s \<le> bw_bitLength w" "bw_bitLength w \<le> 32"
  shows "bit (bw_value (bw_set n s v w)) j \<longleftrightarrow> bit (bw_value w) j \<or>
    (nat (bw_bitLength w - n - s) \<le> j \<and> j < nat (bw_bitLength w - s) \<and> bit v (j - nat (bw_bitLength w - n - s)))"
proof -
  have d: "(bw_bitLength w - n - s) mod 32 = bw_bitLength w - n - s" "n mod 32 = n" using assms by auto
  have m: "(push_bit (nat n) 1 - 1 :: 32 word) = mask (nat n)" by (simp add: mask_eq_exp_minus_1)
  show ?thesis
    using assms unfolding bw_set_def Let_def d m
    by (auto simp: bit_or_iff bit_and_iff bit_push_bit_iff bit_mask_iff bit_word_of_int_iff)
qed

lemma bw_set_bitLength [simp]: "bw_bitLength (bw_set n s v w) = bw_bitLength w"
  by (simp add: bw_set_def Let_def)

end
