(* ===== verification/Rtp_Header.thy ===== *)
theory Rtp_Header
  imports Binary Number
begin

unbundle bit_operations_syntax

text \<open>
  RTP packets (\<^verbatim>\<open>packages/rtp/src/rtp/rtp.ts\<close>, \<^verbatim>\<open>padding.ts\<close>, \<^verbatim>\<open>rtx.ts\<close>, \<^verbatim>\<open>continuity.ts\<close>): the
  header with its one-byte, two-byte and opaque extension blocks, padding, retransmission
  packets and the continuous numbering across a change of source.  Proved: the packet round
  trip, that the parser raises nothing but its own errors and keeps its offsets inside the
  packet, and the round trip of a retransmission.
\<close>

section \<open>Data\<close>

record rtp_extension =
  ext_id :: int
  ext_payload :: buffer

definition ExtensionProfiles_OneByte :: int where "ExtensionProfiles_OneByte = 0xbede"
definition ExtensionProfiles_TwoByte :: int where "ExtensionProfiles_TwoByte = 0x1000"

record rtp_header =
  version :: int
  padding :: bool
  paddingSize :: int
  extension :: bool
  marker :: bool
  payloadOffset :: nat
  payloadType :: int
  sequenceNumber :: int
  timestamp :: int
  ssrc :: int
  csrcLength :: nat
  csrc :: "int list"
  extensionProfile :: int
  extensionLength :: "nat option"
  extensions :: "rtp_extension list"

record rtp_packet =
  header :: rtp_header
  payload :: buffer

definition new_RtpHeader :: rtp_header where
  "new_RtpHeader = \<lparr>version = 2, padding = False, paddingSize = 0, extension = False, marker = False,
     payloadOffset = 0, payloadType = 0, sequenceNumber = 0, timestamp = 0, ssrc = 0, csrcLength = 0,
     csrc = [], extensionProfile = ExtensionProfiles_OneByte, extensionLength = None, extensions = []\<rparr>"

definition isPaddingOnlyRtpPacket :: "rtp_packet \<Rightarrow> bool" where
  "isPaddingOnlyRtpPacket p \<longleftrightarrow> padding (header p) \<and> length (payload p) = 0"

section \<open>Parsing\<close>

definition assertRtpPacketLength :: "buffer \<Rightarrow> nat \<Rightarrow> unit result" where
  "assertRtpPacketLength raw minLength =
     (if length raw < minLength then Inl (Error ''RTP packet too short'') else Inr ())"

text \<open>\<^verbatim>\<open>getBit\<close> on a byte never gives \<^verbatim>\<open>NaN\<close> (\<open>getBit_byte\<close>); an index past the buffer would
  be \<^verbatim>\<open>undefined\<close> and does not occur after the length check.\<close>

definition get_field :: "buffer \<Rightarrow> nat \<Rightarrow> nat \<Rightarrow> nat \<Rightarrow> nat result" where
  "get_field raw i s n =
     (if i < length raw
      then rbind (getBit (unat (raw ! i)) s n) (\<lambda>v. case v of Some x \<Rightarrow> Inr x | None \<Rightarrow> Inl (TypeError ''NaN''))
      else Inl (TypeError ''undefined''))"

definition applyRtpPaddingSize :: "rtp_header \<Rightarrow> buffer \<Rightarrow> bool \<Rightarrow> rtp_header result" where
  "applyRtpPaddingSize h raw validatePadding =
     (if \<not> padding h then Inr (h\<lparr>paddingSize := 0\<rparr>)
      else let h = h\<lparr>paddingSize := uint (raw ! (length raw - 1))\<rparr>
           in if \<not> validatePadding then Inr h
              else let remaining = int (length raw) - int (payloadOffset h)
                   in if paddingSize h < 1 \<or> paddingSize h > remaining
                      then Inl (Error ''invalid RTP padding size'') else Inr h)"

text \<open>The loops over the extension block return the extensions and the offset they stop at.\<close>

function one_byte_loop :: "buffer \<Rightarrow> nat \<Rightarrow> nat \<Rightarrow> rtp_extension list \<Rightarrow> (rtp_extension list \<times> nat) result" where
  "one_byte_loop raw off fin exts =
     (if off < fin
      then if raw ! off = 0 then one_byte_loop raw (off + 1) fin exts
           else let extId = uint (drop_bit 4 (raw ! off));
                    len = unat ((raw ! off) AND ((raw ! off) XOR 0xf0)) + 1;
                    off = off + 1
                in if extId = 0xf then Inr (exts, off)
                   else if off + len > fin then Inl (Error ''RTP header extension truncated'')
                   else one_byte_loop raw (off + len) fin
                          (exts @ [\<lparr>ext_id = extId, ext_payload = buf_slice raw off (off + len)\<rparr>])
      else Inr (exts, off))"
  by pat_completeness auto
termination by (relation "measure (\<lambda>(raw, off, fin, exts). fin - off)") auto

function two_byte_loop :: "buffer \<Rightarrow> nat \<Rightarrow> nat \<Rightarrow> rtp_extension list \<Rightarrow> (rtp_extension list \<times> nat) result" where
  "two_byte_loop raw off fin exts =
     (if off < fin
      then if raw ! off = 0 then two_byte_loop raw (off + 1) fin exts
           else if off + 2 > fin then Inl (Error ''RTP header extension truncated'')
           else let extId = uint (raw ! off);
                    off = off + 1;
                    len = unat (raw ! off);
                    off = off + 1
                in if off + len > fin then Inl (Error ''RTP header extension truncated'')
                   else two_byte_loop raw (off + len) fin
                          (exts @ [\<lparr>ext_id = extId, ext_payload = buf_slice raw off (off + len)\<rparr>])
      else Inr (exts, off))"
  by pat_completeness auto
termination by (relation "measure (\<lambda>(raw, off, fin, exts). fin - off)") auto

declare one_byte_loop.simps [simp del] two_byte_loop.simps [simp del]

definition parse_extensions :: "buffer \<Rightarrow> nat \<Rightarrow> rtp_header \<Rightarrow> (rtp_header \<times> nat) result" where
  "parse_extensions raw off h =
     rbind (assertRtpPacketLength raw (off + 4)) (\<lambda>_.
     rbind (readUInt16BE raw off) (\<lambda>profile.
     let h = h\<lparr>extensionProfile := profile\<rparr>; off = off + 2
     in rbind (readUInt16BE raw off) (\<lambda>words.
        let extLen = nat words * 4; h = h\<lparr>extensionLength := Some extLen\<rparr>; off = off + 2
        in rbind (assertRtpPacketLength raw (off + extLen)) (\<lambda>_.
           if extensionProfile h = ExtensionProfiles_OneByte
           then rbind (one_byte_loop raw off (off + extLen) (extensions h)) (\<lambda>(exts, off).
                Inr (h\<lparr>extensions := exts\<rparr>, off))
           else if extensionProfile h = ExtensionProfiles_TwoByte
           then rbind (two_byte_loop raw off (off + extLen) (extensions h)) (\<lambda>(exts, off).
                Inr (h\<lparr>extensions := exts\<rparr>, off))
           else let h = h\<lparr>extensions := extensions h @ [\<lparr>ext_id = 0, ext_payload = buf_slice raw off (off + extLen)\<rparr>]\<rparr>
                in Inr (h, off + length (ext_payload (extensions h ! 0)))))))"

text \<open>The first loop over the contributing sources reads at the wrong offsets (from 1 on); its
  values are overwritten by the second one.\<close>

definition RtpHeader_deSerialize :: "buffer \<Rightarrow> bool \<Rightarrow> rtp_header result" where
  "RtpHeader_deSerialize raw validatePadding =
     rbind (assertRtpPacketLength raw 12) (\<lambda>_.
     rbind (get_field raw 0 0 2) (\<lambda>v.
     rbind (get_field raw 0 2 1) (\<lambda>p.
     rbind (get_field raw 0 3 1) (\<lambda>x.
     rbind (get_field raw 0 4 4) (\<lambda>cc.
     rbind (assertRtpPacketLength raw (12 + cc * 4)) (\<lambda>_.
     rbind (rmap (\<lambda>i. readUInt32BE raw (1 + 4 * i)) [0..<cc]) (\<lambda>_.
     rbind (get_field raw 1 0 1) (\<lambda>m.
     rbind (get_field raw 1 1 7) (\<lambda>pt.
     rbind (readUInt16BE raw 2) (\<lambda>seq.
     rbind (readUInt32BE raw 4) (\<lambda>ts.
     rbind (readUInt32BE raw 8) (\<lambda>src.
     rbind (rmap (\<lambda>i. readUInt32BE (drop (12 + i * 4) raw) 0) [0..<cc]) (\<lambda>cs.
     let h = new_RtpHeader\<lparr>version := int v, padding := p > 0, extension := x > 0, csrcLength := cc,
               csrc := cs, marker := m > 0, payloadType := int pt, sequenceNumber := seq, timestamp := ts, ssrc := src\<rparr>;
         off = 1 + 4 * cc + 11
     in rbind (if extension h then parse_extensions raw off h else Inr (h, off)) (\<lambda>(h, off).
        let h = h\<lparr>payloadOffset := off\<rparr>
        in if payloadOffset h > length raw then Inl (Error ''RTP packet too short'')
           else applyRtpPaddingSize h raw validatePadding))))))))))))))"

definition RtpPacket_deSerialize :: "buffer \<Rightarrow> rtp_packet result" where
  "RtpPacket_deSerialize buf =
     rbind (RtpHeader_deSerialize buf True) (\<lambda>h.
     Inr \<lparr>header = h, payload = buf_slice buf (payloadOffset h) (length buf - nat (paddingSize h))\<rparr>)"

section \<open>Serializing\<close>

text \<open>In the default profile the code reads \<^verbatim>\<open>extensions[0].payload\<close>, which raises when there
  is no extension.\<close>

definition first_payload :: "rtp_extension list \<Rightarrow> buffer result" where
  "first_payload es = (case es of [] \<Rightarrow> Inl (TypeError ''Cannot read properties of undefined'') | e # _ \<Rightarrow> Inr (ext_payload e))"

definition header_serializeSize :: "rtp_header \<Rightarrow> nat result" where
  "header_serializeSize h =
     (let sz = 12 + length (csrc h) * 4
      in if length (extensions h) > 0 \<or> extension h
         then rbind (if extensionProfile h = ExtensionProfiles_OneByte
                     then Inr (fold (\<lambda>e a. a + (1 + length (ext_payload e))) (extensions h) 4)
                     else if extensionProfile h = ExtensionProfiles_TwoByte
                     then Inr (fold (\<lambda>e a. a + (2 + length (ext_payload e))) (extensions h) 4)
                     else rbind (first_payload (extensions h)) (\<lambda>p. Inr (4 + length p)))
               (\<lambda>extSize. Inr (sz + (extSize + 3) div 4 * 4))
         else Inr sz)"

text \<open>The writing loops carry the buffer and the offset.\<close>

fun write_csrc :: "int list \<Rightarrow> buffer \<Rightarrow> nat \<Rightarrow> (buffer \<times> nat) result" where
  "write_csrc [] b off = Inr (b, off)"
| "write_csrc (c # cs) b off = rbind (buf_writeUInt 4 b off c) (\<lambda>b. write_csrc cs b (off + 4))"

text \<open>\<^verbatim>\<open>(extension.id << 4) | (extension.payload.length - 1)\<close>, a signed 32-bit number.\<close>

definition one_byte_octet :: "rtp_extension \<Rightarrow> int" where
  "one_byte_octet e =
     sint ((push_bit 4 (word_of_int (ext_id e)) OR word_of_int (int (length (ext_payload e)) - 1)) :: 32 word)"

fun write_one_byte :: "rtp_extension list \<Rightarrow> buffer \<Rightarrow> nat \<Rightarrow> (buffer \<times> nat) result" where
  "write_one_byte [] b off = Inr (b, off)"
| "write_one_byte (e # es) b off =
     (if length (ext_payload e) < 1
      then Inl (Error ''RTP one-byte header extension length must be at least 1 octet'')
      else rbind (buf_writeUInt 1 b off
             (one_byte_octet e)) (\<lambda>b.
           let off = off + 1; b = buf_copy b off (ext_payload e)
           in write_one_byte es b (off + length (ext_payload e))))"

fun write_two_byte :: "rtp_extension list \<Rightarrow> buffer \<Rightarrow> nat \<Rightarrow> (buffer \<times> nat) result" where
  "write_two_byte [] b off = Inr (b, off)"
| "write_two_byte (e # es) b off =
     rbind (buf_writeUInt 1 b off (ext_id e)) (\<lambda>b.
     rbind (buf_writeUInt 1 b (off + 1) (int (length (ext_payload e)))) (\<lambda>b.
     let off = off + 2; b = buf_copy b off (ext_payload e)
     in write_two_byte es b (off + length (ext_payload e))))"

fun write_zeros :: "nat \<Rightarrow> buffer \<Rightarrow> nat \<Rightarrow> (buffer \<times> nat) result" where
  "write_zeros 0 b off = Inr (b, off)"
| "write_zeros (Suc n) b off = rbind (buf_writeUInt 1 b off 0) (\<lambda>b. write_zeros n b (off + 1))"

definition write_extensions :: "rtp_header \<Rightarrow> buffer \<Rightarrow> nat \<Rightarrow> (buffer \<times> nat) result" where
  "write_extensions h b off =
     (let extHeaderPos = off
      in rbind (buf_writeUInt 2 b off (extensionProfile h)) (\<lambda>b.
         let off = off + 4; startExtensionsPos = off
         in rbind (if extensionProfile h = ExtensionProfiles_OneByte then write_one_byte (extensions h) b off
                   else if extensionProfile h = ExtensionProfiles_TwoByte then write_two_byte (extensions h) b off
                   else rbind (first_payload (extensions h)) (\<lambda>p.
                        if length p mod 4 \<noteq> 0 then Inl (Error '''')
                        else Inr (buf_copy b off p, off + length p)))
            (\<lambda>(b, off).
             let extSize = off - startExtensionsPos;
                 roundedExtSize = (extSize + 3) div 4 * 4
             in rbind (buf_writeUInt 2 b (extHeaderPos + 2) (int (roundedExtSize div 4))) (\<lambda>b.
                write_zeros (roundedExtSize - extSize) b off))))"

definition v_p_x_cc :: "rtp_header \<Rightarrow> bit_writer" where
  "v_p_x_cc h =
     (let w = bw_set 2 0 (version h) (BitWriter 8);
          w = (if padding h then bw_set 1 2 1 w else w);
          w = (if extension h then bw_set 1 3 1 w else w)
      in bw_set 4 4 (int (length (csrc h))) w)"

definition m_pt :: "rtp_header \<Rightarrow> bit_writer" where
  "m_pt h =
     (let w = (if marker h then bw_set 1 0 1 (BitWriter 8) else BitWriter 8)
      in bw_set 7 1 (payloadType h) w)"

text \<open>\<^verbatim>\<open>serialize\<close> also updates the header object (\<open>extension\<close> and \<open>payloadOffset\<close>).\<close>

definition RtpHeader_serialize :: "nat \<Rightarrow> rtp_header \<Rightarrow> (buffer \<times> rtp_header) result" where
  "RtpHeader_serialize sz h =
     (let h = (if length (extensions h) > 0 then h\<lparr>extension := True\<rparr> else h)
      in rbind (buf_writeUInt 1 (buf_alloc sz) 0 (bw_number (v_p_x_cc h))) (\<lambda>b.
         rbind (buf_writeUInt 1 b 1 (bw_number (m_pt h))) (\<lambda>b.
         rbind (buf_writeUInt 2 b 2 (sequenceNumber h)) (\<lambda>b.
         rbind (buf_writeUInt 4 b 4 (timestamp h)) (\<lambda>b.
         rbind (buf_writeUInt 4 b 8 (ssrc h)) (\<lambda>b.
         rbind (write_csrc (csrc h) b 12) (\<lambda>(b, off).
         rbind (if extension h then write_extensions h b off else Inr (b, off)) (\<lambda>(b, off).
         Inr (b, h\<lparr>payloadOffset := off\<rparr>)))))))))"

definition packet_serializeSize :: "rtp_packet \<Rightarrow> nat result" where
  "packet_serializeSize p =
     (let paddingBytes = (if padding (header p) then nat (paddingSize (header p)) else 0)
      in rbind (header_serializeSize (header p)) (\<lambda>n. Inr (n + length (payload p) + paddingBytes)))"

definition RtpPacket_serialize :: "rtp_packet \<Rightarrow> buffer result" where
  "RtpPacket_serialize p =
     (if padding (header p) \<and> (paddingSize (header p) < 1 \<or> paddingSize (header p) > 255)
      then Inl (Error ''invalid RTP padding size'')
      else rbind (packet_serializeSize p) (\<lambda>sz.
           rbind (RtpHeader_serialize sz (header p)) (\<lambda>(b, h).
           let b = buf_copy b (payloadOffset h) (payload p)
           in if padding h
              then buf_writeUInt 1 b (payloadOffset h + length (payload p) + nat (paddingSize h) - 1) (paddingSize h)
              else Inr b)))"

section \<open>Padding and retransmission packets\<close>

definition appendRfc3550Padding :: "buffer \<Rightarrow> int \<Rightarrow> buffer result" where
  "appendRfc3550Padding pl n =
     (if n < 1 \<or> n > 255 then Inl (Error ''invalid RTP padding size'')
      else rbind (buf_writeUInt 1 (buf_alloc (nat n)) (nat n - 1) n) (\<lambda>pad.
           Inr (if length pl = 0 then pad else pl @ pad)))"

definition createRtxPaddingPacket :: "int \<Rightarrow> int \<Rightarrow> int \<Rightarrow> int \<Rightarrow> rtp_packet" where
  "createRtxPaddingPacket n ts pt src =
     \<lparr>header = new_RtpHeader\<lparr>sequenceNumber := 0, timestamp := ts, payloadType := pt, ssrc := src, extension := True,
        extensions := [], marker := False, padding := True, paddingSize := n, payloadOffset := 12\<rparr>,
      payload = buf_alloc 0\<rparr>"

definition unwrapRtx :: "rtp_packet \<Rightarrow> int \<Rightarrow> int \<Rightarrow> rtp_packet result" where
  "unwrapRtx rtx pt src =
     (if length (payload rtx) < 2 then Inl (Error ''RTX payload too short'')
      else rbind (readUInt16BE (payload rtx) 0) (\<lambda>seq.
        Inr \<lparr>header = new_RtpHeader\<lparr>payloadType := pt, marker := marker (header rtx), sequenceNumber := seq,
               timestamp := timestamp (header rtx), ssrc := src\<rparr>,
             payload = drop 2 (payload rtx)\<rparr>))"

definition wrapRtx :: "rtp_packet \<Rightarrow> int \<Rightarrow> int \<Rightarrow> int \<Rightarrow> rtp_packet result" where
  "wrapRtx p pt seq src =
     rbind (writeUInt16BE (sequenceNumber (header p))) (\<lambda>originalSequence.
       Inr \<lparr>header = new_RtpHeader\<lparr>payloadType := pt, marker := marker (header p), sequenceNumber := seq,
              timestamp := timestamp (header p), ssrc := src, csrc := csrc (header p), extensions := extensions (header p)\<rparr>,
            payload = originalSequence @ payload p\<rparr>)"

section \<open>Continuous numbering\<close>

record rtp_continuity =
  rc_sequenceNumber :: "int option"
  rc_timestamp :: "int option"
  timestampOffset :: int
  seqOffset :: int
  rc_pending :: bool
  pendingTimestampStep :: int

definition new_RtpContinuity :: rtp_continuity where
  "new_RtpContinuity = \<lparr>rc_sequenceNumber = None, rc_timestamp = None, timestampOffset = 0, seqOffset = 0,
     rc_pending = False, pendingTimestampStep = 1\<rparr>"

definition rc_schedule :: "int \<Rightarrow> rtp_continuity \<Rightarrow> rtp_continuity" where
  "rc_schedule timestampStep c = c\<lparr>rc_pending := True, pendingTimestampStep := timestampStep\<rparr>"

definition rc_cancel :: "rtp_continuity \<Rightarrow> rtp_continuity" where
  "rc_cancel c = c\<lparr>rc_pending := False\<rparr>"

definition rc_mapTimestamp :: "int \<Rightarrow> rtp_continuity \<Rightarrow> int" where
  "rc_mapTimestamp inputTimestamp c = uint32Add inputTimestamp (timestampOffset c)"

definition rc_assign :: "rtp_header \<Rightarrow> int \<Rightarrow> int \<Rightarrow> rtp_continuity \<Rightarrow> bool \<times> rtp_header \<times> rtp_continuity" where
  "rc_assign h inputSequenceNumber inputTimestamp c =
     (let (rewritten, c) =
        (if rc_pending c
         then (let (rewritten, c) =
                 (case (rc_sequenceNumber c, rc_timestamp c) of
                    (Some sn, Some ts) \<Rightarrow>
                      (True, c\<lparr>seqOffset := uint16Add (uint16Add sn 1) (- inputSequenceNumber),
                               timestampOffset := uint32Add (uint32Add ts (pendingTimestampStep c)) (- inputTimestamp)\<rparr>)
                  | _ \<Rightarrow> (False, c))
               in (rewritten, c\<lparr>rc_pending := False, pendingTimestampStep := 1\<rparr>))
         else (False, c));
          h = h\<lparr>timestamp := uint32Add inputTimestamp (timestampOffset c)\<rparr>;
          h = h\<lparr>sequenceNumber := uint16Add inputSequenceNumber (seqOffset c)\<rparr>
      in (rewritten, h, c\<lparr>rc_timestamp := Some (timestamp h), rc_sequenceNumber := Some (sequenceNumber h)\<rparr>))"

section \<open>The wire form of a header\<close>

definition one_wire :: "rtp_extension \<Rightarrow> buffer" where
  "one_wire e = be_bytes 1 (ext_id e * 16 + (int (length (ext_payload e)) - 1)) @ ext_payload e"

definition two_wire :: "rtp_extension \<Rightarrow> buffer" where
  "two_wire e = be_bytes 1 (ext_id e) @ be_bytes 1 (int (length (ext_payload e))) @ ext_payload e"

definition ext_body :: "rtp_header \<Rightarrow> buffer" where
  "ext_body h = (if extensionProfile h = ExtensionProfiles_OneByte then concat (map one_wire (extensions h))
     else if extensionProfile h = ExtensionProfiles_TwoByte then concat (map two_wire (extensions h))
     else ext_payload (hd (extensions h)))"

definition round4 :: "nat \<Rightarrow> nat" where "round4 n = (n + 3) div 4 * 4"

definition ext_wire :: "rtp_header \<Rightarrow> buffer" where
  "ext_wire h = be_bytes 2 (extensionProfile h) @ be_bytes 2 (int (round4 (length (ext_body h)) div 4)) @
     ext_body h @ buf_alloc (round4 (length (ext_body h)) - length (ext_body h))"

definition fixed_wire :: "rtp_header \<Rightarrow> buffer" where
  "fixed_wire h = be_bytes 1 (bw_number (v_p_x_cc h)) @ be_bytes 1 (bw_number (m_pt h)) @ be_bytes 2 (sequenceNumber h) @
     be_bytes 4 (timestamp h) @ be_bytes 4 (ssrc h) @ concat (map (be_bytes 4) (csrc h))"

definition header_wire :: "rtp_header \<Rightarrow> buffer" where
  "header_wire h = fixed_wire h @ (if extension h then ext_wire h else [])"

text \<open>The extensions a profile can carry.\<close>

definition valid_one :: "rtp_extension \<Rightarrow> bool" where
  "valid_one e \<longleftrightarrow> 1 \<le> ext_id e \<and> ext_id e \<le> 14 \<and> 1 \<le> length (ext_payload e) \<and> length (ext_payload e) \<le> 16"

definition valid_two :: "rtp_extension \<Rightarrow> bool" where
  "valid_two e \<longleftrightarrow> 1 \<le> ext_id e \<and> ext_id e \<le> 255 \<and> length (ext_payload e) \<le> 255"

definition valid_extensions :: "rtp_header \<Rightarrow> bool" where
  "valid_extensions h \<longleftrightarrow> u16_ok (extensionProfile h) \<and> length (ext_body h) \<le> 4 * 65535 \<and>
     (if extensionProfile h = ExtensionProfiles_OneByte then list_all valid_one (extensions h)
      else if extensionProfile h = ExtensionProfiles_TwoByte then list_all valid_two (extensions h)
      else \<exists>e. extensions h = [e] \<and> ext_id e = 0 \<and> length (ext_payload e) mod 4 = 0)"

definition valid_rtp_header :: "rtp_header \<Rightarrow> bool" where
  "valid_rtp_header h \<longleftrightarrow> 0 \<le> version h \<and> version h < 4 \<and> 0 \<le> payloadType h \<and> payloadType h < 128 \<and>
     u16_ok (sequenceNumber h) \<and> u32_ok (timestamp h) \<and> u32_ok (ssrc h) \<and> length (csrc h) < 16 \<and>
     list_all u32_ok (csrc h) \<and> (extension h \<longrightarrow> valid_extensions h) \<and> (\<not> extension h \<longrightarrow> extensions h = [])"

section \<open>Serializing writes the wire form\<close>

lemma write_csrc_ok:
  "list_all u32_ok cs \<Longrightarrow> 4 * length cs \<le> k \<Longrightarrow>
     write_csrc cs (w @ buf_alloc k) (length w) =
       Inr ((w @ concat (map (be_bytes 4) cs)) @ buf_alloc (k - 4 * length cs), length w + 4 * length cs)"
proof (induction cs arbitrary: w k)
  case (Cons c cs)
  have "buf_writeUInt 4 (w @ buf_alloc k) (length w) c = Inr ((w @ be_bytes 4 c) @ buf_alloc (k - 4))"
    using Cons.prems u32_okD [of c] by (intro buf_writeUInt_fill) auto
  moreover have "length w + 4 = length (w @ be_bytes 4 c)" by simp
  ultimately show ?case using Cons.IH [of "k - 4" "w @ be_bytes 4 c"] Cons.prems by simp
qed simp

lemma one_byte_octet_eq:
  assumes "valid_one e"
  shows "one_byte_octet e = ext_id e * 16 + (int (length (ext_payload e)) - 1)"
proof -
  define l where "l = int (length (ext_payload e)) - 1"
  let ?i = "ext_id e"
  have b: "0 \<le> ?i" "?i < 16" "0 \<le> l" "l < 16" using assms by (auto simp: valid_one_def l_def)
  have hi: "\<not> bit l n" if "4 \<le> n" for n
  proof -
    have "take_bit 4 l = l" using b by (simp add: take_bit_int_eq_self)
    then show ?thesis using that by (metis bit_take_bit_iff not_le)
  qed
  have "(push_bit 4 (word_of_int ?i) OR word_of_int l :: 32 word) = word_of_int (?i * 16 + l)"
  proof -
    have "push_bit 4 (word_of_int ?i) OR word_of_int l = push_bit 4 (word_of_int ?i) + (word_of_int l :: 32 word)"
      by (rule disjunctive_add [symmetric]) (auto simp: bit_push_bit_iff bit_word_of_int_iff hi)
    then show ?thesis by (simp add: push_bit_eq_mult)
  qed
  moreover have "sint (word_of_int (?i * 16 + l) :: 32 word) = ?i * 16 + l"
    using b by (simp add: sint_sbintrunc' signed_take_bit_int_eq_self del: of_int_add of_int_mult)
  ultimately show ?thesis by (simp add: one_byte_octet_def flip: l_def)
qed

lemma write_one_byte_ok:
  "list_all valid_one es \<Longrightarrow> length (concat (map one_wire es)) \<le> k \<Longrightarrow>
     write_one_byte es (w @ buf_alloc k) (length w) =
       Inr ((w @ concat (map one_wire es)) @ buf_alloc (k - length (concat (map one_wire es))),
            length w + length (concat (map one_wire es)))"
proof (induction es arbitrary: w k)
  case (Cons e es)
  let ?v = "ext_id e * 16 + (int (length (ext_payload e)) - 1)" and ?p = "ext_payload e"
  have e: "valid_one e" and l: "1 \<le> length ?p" "length ?p + 1 \<le> k"
    using Cons.prems by (auto simp: valid_one_def one_wire_def)
  have ne: "(length ?p < 1) = False" using l by auto
  have "buf_writeUInt 1 (w @ buf_alloc k) (length w) ?v = Inr ((w @ be_bytes 1 ?v) @ buf_alloc (k - 1))"
    using e l by (intro buf_writeUInt_fill) (auto simp: valid_one_def)
  moreover have "buf_copy ((w @ be_bytes 1 ?v) @ buf_alloc (k - 1)) (length w + 1) ?p
      = (w @ one_wire e) @ buf_alloc (k - length (one_wire e))"
    using buf_copy_fill [of ?p "k - 1" "w @ be_bytes 1 ?v"] l by (simp add: one_wire_def)
  moreover have "length w + 1 + length ?p = length (w @ one_wire e)" by (simp add: one_wire_def)
  ultimately have "write_one_byte (e # es) (w @ buf_alloc k) (length w) =
      write_one_byte es ((w @ one_wire e) @ buf_alloc (k - length (one_wire e))) (length (w @ one_wire e))"
    using ne by (simp only: write_one_byte.simps one_byte_octet_eq [OF e] Let_def rbind_simps if_False)
  then show ?case
    using Cons.IH [of "k - length (one_wire e)" "w @ one_wire e"] Cons.prems by (simp add: add.assoc del: write_one_byte.simps)
qed simp

lemma write_two_byte_ok:
  "list_all valid_two es \<Longrightarrow> length (concat (map two_wire es)) \<le> k \<Longrightarrow>
     write_two_byte es (w @ buf_alloc k) (length w) =
       Inr ((w @ concat (map two_wire es)) @ buf_alloc (k - length (concat (map two_wire es))),
            length w + length (concat (map two_wire es)))"
proof (induction es arbitrary: w k)
  case (Cons e es)
  let ?i = "ext_id e" and ?p = "ext_payload e"
  let ?l = "int (length ?p)"
  have e: "valid_two e" and l: "length ?p + 2 \<le> k"
    using Cons.prems by (auto simp: two_wire_def)
  have "buf_writeUInt 1 (w @ buf_alloc k) (length w) ?i = Inr ((w @ be_bytes 1 ?i) @ buf_alloc (k - 1))"
    using e l by (intro buf_writeUInt_fill) (auto simp: valid_two_def)
  moreover have "buf_writeUInt 1 ((w @ be_bytes 1 ?i) @ buf_alloc (k - 1)) (length w + 1) ?l
      = Inr ((w @ be_bytes 1 ?i @ be_bytes 1 ?l) @ buf_alloc (k - 2))"
    using buf_writeUInt_fill [of ?l 1 "k - 1" "w @ be_bytes 1 ?i"] e l by (simp add: valid_two_def numeral_2_eq_2)
  moreover have "buf_copy ((w @ be_bytes 1 ?i @ be_bytes 1 ?l) @ buf_alloc (k - 2)) (length w + 2) ?p
      = (w @ two_wire e) @ buf_alloc (k - length (two_wire e))"
    using buf_copy_fill [of ?p "k - 2" "w @ be_bytes 1 ?i @ be_bytes 1 ?l"] l by (simp add: two_wire_def numeral_2_eq_2)
  moreover have "length w + 2 + length ?p = length (w @ two_wire e)" by (simp add: two_wire_def)
  ultimately have "write_two_byte (e # es) (w @ buf_alloc k) (length w) =
      write_two_byte es ((w @ two_wire e) @ buf_alloc (k - length (two_wire e))) (length (w @ two_wire e))"
    by (simp only: write_two_byte.simps Let_def rbind_simps)
  then show ?case
    using Cons.IH [of "k - length (two_wire e)" "w @ two_wire e"] Cons.prems by (simp add: add.assoc del: write_two_byte.simps)
qed simp

lemma write_zeros_ok:
  "n \<le> k \<Longrightarrow> write_zeros n (w @ buf_alloc k) (length w) = Inr (w @ buf_alloc k, length w + n)"
proof (induction n arbitrary: w k)
  case (Suc n)
  obtain j where k: "k = Suc j" using Suc.prems by (cases k) auto
  have a: "buf_alloc k = 0 # buf_alloc j" by (simp add: buf_alloc_def k)
  have "buf_writeUInt 1 (w @ buf_alloc k) (length w) 0 = Inr ((w @ [0]) @ buf_alloc j)"
    using buf_writeUInt_fill [of 0 1 k w] by (simp add: k)
  then show ?case using Suc.IH [of j "w @ [0]"] Suc.prems unfolding a by (simp add: k)
qed simp

lemma round4_ge: "n \<le> round4 n" and round4_less: "round4 n \<le> n + 3" and round4_mod: "round4 n mod 4 = 0"
  unfolding round4_def by presburger+

lemma write_extensions_ok:
  assumes "valid_extensions h" "length (ext_wire h) \<le> k"
  shows "write_extensions h (w @ buf_alloc k) (length w) =
    Inr ((w @ ext_wire h) @ buf_alloc (k - length (ext_wire h)), length w + length (ext_wire h))"
proof -
  let ?p = "extensionProfile h" and ?b = "ext_body h"
  let ?n = "length ?b"
  let ?z = "be_bytes 2 ?p @ [0, 0]"
  have len: "length (ext_wire h) = 4 + round4 ?n" using round4_ge [of ?n] by (simp add: ext_wire_def)
  have n: "?n + 4 \<le> k" "4 + round4 ?n \<le> k" using assms(2) round4_ge [of ?n] by (auto simp: len)
  have k: "buf_alloc (k - 2) = [0, 0] @ buf_alloc (k - 4)"
    using n(1) by (simp add: buf_alloc_def flip: replicate_add replicate_Suc replicate_0)
  have 1: "buf_writeUInt 2 (w @ buf_alloc k) (length w) ?p = Inr ((w @ ?z) @ buf_alloc (k - 4))"
    using buf_writeUInt_fill [of ?p 2 k w] assms(1) n u16_okD by (simp add: valid_extensions_def k)
  have 2: "(if ?p = ExtensionProfiles_OneByte then write_one_byte (extensions h) ((w @ ?z) @ buf_alloc (k - 4)) (length w + 4)
      else if ?p = ExtensionProfiles_TwoByte then write_two_byte (extensions h) ((w @ ?z) @ buf_alloc (k - 4)) (length w + 4)
      else rbind (first_payload (extensions h)) (\<lambda>p. if length p mod 4 \<noteq> 0 then Inl (Error '''')
             else Inr (buf_copy ((w @ ?z) @ buf_alloc (k - 4)) (length w + 4) p, length w + 4 + length p)))
    = Inr ((w @ ?z @ ?b) @ buf_alloc (k - 4 - ?n), length w + 4 + ?n)"
    (is "?lhs = ?rhs")
  proof -
    consider "?p = ExtensionProfiles_OneByte" | "?p = ExtensionProfiles_TwoByte" "?p \<noteq> ExtensionProfiles_OneByte"
      | "?p \<noteq> ExtensionProfiles_OneByte" "?p \<noteq> ExtensionProfiles_TwoByte" by blast
    then show ?thesis
    proof cases
      case 1
      then have b: "?b = concat (map one_wire (extensions h))" "list_all valid_one (extensions h)"
        using assms(1) by (auto simp: valid_extensions_def ext_body_def)
      have "length (concat (map one_wire (extensions h))) \<le> k - 4" using n b(1) by simp
      from write_one_byte_ok [OF b(2) this, of "w @ ?z"] 1 show ?thesis by (simp add: b(1) del: length_concat)
    next
      case 2
      then have b: "?b = concat (map two_wire (extensions h))" "list_all valid_two (extensions h)"
        using assms(1) by (auto simp: valid_extensions_def ext_body_def)
      have "length (concat (map two_wire (extensions h))) \<le> k - 4" using n b(1) by simp
      from write_two_byte_ok [OF b(2) this, of "w @ ?z"] 2 show ?thesis by (simp add: b(1) del: length_concat)
    next
      case 3
      then obtain e where e: "extensions h = [e]" "ext_payload e = ?b" "?n mod 4 = 0"
        using assms(1) by (auto simp: valid_extensions_def ext_body_def)
      have "?n \<le> k - 4" using n by simp
      from buf_copy_fill [OF this, of "w @ ?z"] 3 e show ?thesis by (simp add: first_payload_def)
    qed
  qed
  have r: "round4 ?n div 4 < 65536"
    using assms(1) round4_less [of ?n] unfolding valid_extensions_def by linarith
  have 3: "buf_writeUInt 2 ((w @ ?z @ ?b) @ buf_alloc (k - 4 - ?n)) (length w + 2) (int (round4 ?n div 4)) =
      Inr ((w @ be_bytes 2 ?p @ be_bytes 2 (int (round4 ?n div 4)) @ ?b) @ buf_alloc (k - 4 - ?n))"
    using buf_writeUInt_mid [of "int (round4 ?n div 4)" 2 "[0,0]" "w @ be_bytes 2 ?p" "?b @ buf_alloc (k - 4 - ?n)"]
      r by simp
  let ?w = "w @ be_bytes 2 ?p @ be_bytes 2 (int (round4 ?n div 4)) @ ?b"
  have 4: "write_zeros (round4 ?n - ?n) (?w @ buf_alloc (k - 4 - ?n)) (length w + 4 + ?n)
      = Inr (?w @ buf_alloc (k - 4 - ?n), length w + 4 + round4 ?n)"
    using write_zeros_ok [of "round4 ?n - ?n" "k - 4 - ?n" ?w] n round4_ge [of ?n] by (simp add: add.assoc)
  have 5: "buf_alloc (k - 4 - ?n) = buf_alloc (round4 ?n - ?n) @ buf_alloc (k - length (ext_wire h))"
    using n round4_ge [of ?n] by (simp add: buf_alloc_def len flip: replicate_add)
  show ?thesis
    unfolding write_extensions_def Let_def 1 rbind_simps 2 split_conv
    using 3 4 5 by (simp add: len flip: round4_def) (simp add: ext_wire_def)
qed

lemma bw_number_byte:
  assumes "bw_bitLength w = 8" "\<And>j. bit (bw_value w) j \<Longrightarrow> j < 8"
  shows "bw_number w = uint (bw_value w)" "uint (bw_value w) < 256"
    "be_bytes 1 (bw_number w) = [ucast (bw_value w)]" "unat (ucast (bw_value w) :: byte) = unat (bw_value w)"
proof -
  have t: "take_bit 8 (bw_value w) = bw_value w"
    by (rule bit_word_eqI) (use assms(2) in \<open>auto simp: bit_take_bit_iff\<close>)
  then have "uint (take_bit 8 (bw_value w)) = uint (bw_value w)" by simp
  then have tu: "take_bit 8 (uint (bw_value w)) = uint (bw_value w)" by (simp add: unsigned_take_bit_eq)
  then show lt: "uint (bw_value w) < 256" using take_bit_int_less_exp [of 8 "uint (bw_value w)"] by simp
  have "signed_take_bit 31 (uint (bw_value w)) = uint (bw_value w)"
    using lt by (intro signed_take_bit_int_eq_self order_trans [OF _ uint_ge_0]) simp_all
  then show n: "bw_number w = uint (bw_value w)" by (simp add: bw_number_def sint_uint)
  have "be_bytes 1 (bw_number w) = [word_of_int (bw_number w)]" by simp
  then show "be_bytes 1 (bw_number w) = [ucast (bw_value w)]" unfolding n ucast_eq .
  have "uint (ucast (bw_value w) :: byte) = take_bit 8 (uint (bw_value w))" by (simp only: ucast_eq uint_word_of_int_eq) simp
  then show "unat (ucast (bw_value w) :: byte) = unat (bw_value w)" by (simp only: tu unat_eq_nat_uint)
qed

lemmas bw8 = BitWriter_def bw_bit

lemma v_p_x_cc_bits:
  assumes "0 \<le> version h" "version h < 4" "length (csrc h) < 16"
  shows "bw_bitLength (v_p_x_cc h) = 8"
    "bit (bw_value (v_p_x_cc h)) j \<longleftrightarrow> (j = 4 \<and> extension h) \<or> (j = 5 \<and> padding h) \<or>
       (6 \<le> j \<and> j < 8 \<and> bit (version h) (j - 6)) \<or> (j < 4 \<and> bit (int (length (csrc h))) j)"
proof -
  show "bw_bitLength (v_p_x_cc h) = 8" by (simp add: v_p_x_cc_def Let_def BitWriter_def)
  have one: "bit (1::int) k \<longleftrightarrow> k = 0" for k by (simp add: bit_1_iff)
  show "bit (bw_value (v_p_x_cc h)) j \<longleftrightarrow> (j = 4 \<and> extension h) \<or> (j = 5 \<and> padding h) \<or>
       (6 \<le> j \<and> j < 8 \<and> bit (version h) (j - 6)) \<or> (j < 4 \<and> bit (int (length (csrc h))) j)"
    by (auto simp: v_p_x_cc_def Let_def bw8 one)
qed

lemma m_pt_bits:
  shows "bw_bitLength (m_pt h) = 8"
    "bit (bw_value (m_pt h)) j \<longleftrightarrow> (j = 7 \<and> marker h) \<or> (j < 7 \<and> bit (payloadType h) j)"
proof -
  show "bw_bitLength (m_pt h) = 8" by (simp add: m_pt_def Let_def BitWriter_def)
  have one: "bit (1::int) k \<longleftrightarrow> k = 0" for k by (simp add: bit_1_iff)
  show "bit (bw_value (m_pt h)) j \<longleftrightarrow> (j = 7 \<and> marker h) \<or> (j < 7 \<and> bit (payloadType h) j)"
    by (auto simp: m_pt_def Let_def bw8 one)
qed

lemma first_octets:
  assumes "valid_rtp_header h"
  shows "be_bytes 1 (bw_number (v_p_x_cc h)) = [ucast (bw_value (v_p_x_cc h))]"
    "0 \<le> bw_number (v_p_x_cc h)" "bw_number (v_p_x_cc h) < 256"
    "unat (ucast (bw_value (v_p_x_cc h)) :: byte) = unat (bw_value (v_p_x_cc h))"
    "be_bytes 1 (bw_number (m_pt h)) = [ucast (bw_value (m_pt h))]"
    "0 \<le> bw_number (m_pt h)" "bw_number (m_pt h) < 256"
    "unat (ucast (bw_value (m_pt h)) :: byte) = unat (bw_value (m_pt h))"
proof -
  have v: "0 \<le> version h" "version h < 4" "length (csrc h) < 16" using assms by (auto simp: valid_rtp_header_def)
  have b: "bit (bw_value (v_p_x_cc h)) j \<Longrightarrow> j < 8" "bit (bw_value (m_pt h)) j \<Longrightarrow> j < 8" for j
    using v_p_x_cc_bits(2) [OF v, of j] m_pt_bits(2) [of h j] by auto
  note n1 = bw_number_byte [OF v_p_x_cc_bits(1) [OF v] b(1)] and n2 = bw_number_byte [OF m_pt_bits(1) b(2)]
  show "be_bytes 1 (bw_number (v_p_x_cc h)) = [ucast (bw_value (v_p_x_cc h))]"
    "unat (ucast (bw_value (v_p_x_cc h)) :: byte) = unat (bw_value (v_p_x_cc h))"
    "be_bytes 1 (bw_number (m_pt h)) = [ucast (bw_value (m_pt h))]"
    "unat (ucast (bw_value (m_pt h)) :: byte) = unat (bw_value (m_pt h))" using n1 n2 by blast+
  show "0 \<le> bw_number (v_p_x_cc h)" "bw_number (v_p_x_cc h) < 256" "0 \<le> bw_number (m_pt h)" "bw_number (m_pt h) < 256"
    using n1(1,2) n2(1,2) by simp_all
qed

lemma length_csrc_wire [simp]: "length (concat (map (be_bytes 4) cs)) = 4 * length cs"
  by (induction cs) auto

lemma length_fixed_wire [simp]: "length (fixed_wire h) = 12 + 4 * length (csrc h)"
  by (simp add: fixed_wire_def)

lemma length_ext_wire: "length (ext_wire h) = 4 + round4 (length (ext_body h))"
  using round4_ge by (simp add: ext_wire_def)

definition with_extension :: "rtp_header \<Rightarrow> rtp_header" where
  "with_extension h = (if length (extensions h) > 0 then h\<lparr>extension := True\<rparr> else h)"

lemma write_fixed_ok:
  assumes "valid_rtp_header h"
  shows "rbind (buf_writeUInt 1 (buf_alloc (12 + k)) 0 (bw_number (v_p_x_cc h))) (\<lambda>b.
     rbind (buf_writeUInt 1 b 1 (bw_number (m_pt h))) (\<lambda>b.
     rbind (buf_writeUInt 2 b 2 (sequenceNumber h)) (\<lambda>b.
     rbind (buf_writeUInt 4 b 4 (timestamp h)) (\<lambda>b.
     rbind (buf_writeUInt 4 b 8 (ssrc h)) f)))) =
    f ((be_bytes 1 (bw_number (v_p_x_cc h)) @ be_bytes 1 (bw_number (m_pt h)) @ be_bytes 2 (sequenceNumber h) @
       be_bytes 4 (timestamp h) @ be_bytes 4 (ssrc h)) @ buf_alloc k)"
proof -
  let ?v = "be_bytes 1 (bw_number (v_p_x_cc h))" and ?m = "be_bytes 1 (bw_number (m_pt h))"
  note o = first_octets [OF assms]
  have u: "u16_ok (sequenceNumber h)" "u32_ok (timestamp h)" "u32_ok (ssrc h)" using assms by (auto simp: valid_rtp_header_def)
  have 1: "buf_writeUInt 1 (buf_alloc (12 + k)) 0 (bw_number (v_p_x_cc h)) = Inr (?v @ buf_alloc (11 + k))"
    using buf_writeUInt_fill [of "bw_number (v_p_x_cc h)" 1 "12 + k" "[]"] o(2,3) by simp
  have 2: "buf_writeUInt 1 (?v @ buf_alloc (11 + k)) 1 (bw_number (m_pt h)) = Inr ((?v @ ?m) @ buf_alloc (10 + k))"
    using buf_writeUInt_fill [of "bw_number (m_pt h)" 1 "11 + k" ?v] o(6,7) by simp
  have 3: "buf_writeUInt 2 ((?v @ ?m) @ buf_alloc (10 + k)) 2 (sequenceNumber h) =
      Inr ((?v @ ?m @ be_bytes 2 (sequenceNumber h)) @ buf_alloc (8 + k))"
    using buf_writeUInt_fill [of "sequenceNumber h" 2 "10 + k" "?v @ ?m"] u16_okD [OF u(1)] by (simp add: numeral_2_eq_2)
  have 4: "buf_writeUInt 4 ((?v @ ?m @ be_bytes 2 (sequenceNumber h)) @ buf_alloc (8 + k)) 4 (timestamp h) =
      Inr ((?v @ ?m @ be_bytes 2 (sequenceNumber h) @ be_bytes 4 (timestamp h)) @ buf_alloc (4 + k))"
    using buf_writeUInt_fill [of "timestamp h" 4 "8 + k" "?v @ ?m @ be_bytes 2 (sequenceNumber h)"] u32_okD [OF u(2)]
    by simp
  have 5: "buf_writeUInt 4 ((?v @ ?m @ be_bytes 2 (sequenceNumber h) @ be_bytes 4 (timestamp h)) @ buf_alloc (4 + k)) 8 (ssrc h) =
      Inr ((?v @ ?m @ be_bytes 2 (sequenceNumber h) @ be_bytes 4 (timestamp h) @ be_bytes 4 (ssrc h)) @ buf_alloc k)"
    using buf_writeUInt_fill [of "ssrc h" 4 "4 + k" "?v @ ?m @ be_bytes 2 (sequenceNumber h) @ be_bytes 4 (timestamp h)"] u32_okD [OF u(3)]
    by simp
  show ?thesis by (simp only: 1 2 3 4 5 rbind_simps)
qed

lemma RtpHeader_serialize_ok:
  assumes "valid_rtp_header (with_extension h)"
  shows "RtpHeader_serialize (length (header_wire (with_extension h)) + k) h =
    Inr (header_wire (with_extension h) @ buf_alloc k,
      (with_extension h)\<lparr>payloadOffset := length (header_wire (with_extension h))\<rparr>)"
proof -
  define g where "g = with_extension h"
  let ?n = "(if extension g then length (ext_wire g) else 0) + k"
  have v: "valid_rtp_header g" using assms by (simp add: g_def)
  let ?f = "be_bytes 1 (bw_number (v_p_x_cc g)) @ be_bytes 1 (bw_number (m_pt g)) @ be_bytes 2 (sequenceNumber g) @
       be_bytes 4 (timestamp g) @ be_bytes 4 (ssrc g)"
  have sz: "length (header_wire g) + k = 12 + (4 * length (csrc g) + ?n)"
    by (simp add: header_wire_def)
  have 12: "length ?f = 12" by simp
  have c: "write_csrc (csrc g) (?f @ buf_alloc (4 * length (csrc g) + ?n)) 12 =
      Inr (fixed_wire g @ buf_alloc ?n, length (fixed_wire g))"
    using write_csrc_ok [of "csrc g" "4 * length (csrc g) + ?n" ?f] v 12
    by (simp add: valid_rtp_header_def fixed_wire_def)
  have e: "(if extension g then write_extensions g (fixed_wire g @ buf_alloc ?n) (length (fixed_wire g))
      else Inr (fixed_wire g @ buf_alloc ?n, length (fixed_wire g))) =
      Inr (header_wire g @ buf_alloc k, length (header_wire g))"
  proof (cases "extension g")
    case True
    then have "valid_extensions g" using v by (simp add: valid_rtp_header_def)
    from write_extensions_ok [OF this, of ?n "fixed_wire g"] True show ?thesis by (simp add: header_wire_def)
  qed (simp add: header_wire_def)
  show ?thesis
    unfolding RtpHeader_serialize_def Let_def with_extension_def [symmetric] g_def [symmetric] sz write_fixed_ok [OF v] c
    by (simp only: rbind_simps split_conv e)
qed

lemma header_serializeSize_ok:
  assumes "valid_rtp_header (with_extension h)"
  shows "header_serializeSize h = Inr (length (header_wire (with_extension h)))"
proof -
  define g where "g = with_extension h"
  have g: "csrc g = csrc h" "extensionProfile g = extensionProfile h" "extensions g = extensions h"
    "extension g \<longleftrightarrow> length (extensions h) > 0 \<or> extension h"
    by (auto simp: g_def with_extension_def)
  have fold1: "fold (\<lambda>e a. a + (1 + length (ext_payload e))) es n = n + length (concat (map one_wire es))" for es and n :: nat
    by (induction es arbitrary: n) (auto simp: one_wire_def)
  have fold2: "fold (\<lambda>e a. a + (2 + length (ext_payload e))) es n = n + length (concat (map two_wire es))" for es and n :: nat
    by (induction es arbitrary: n) (auto simp: two_wire_def)
  have z: "round4 0 = 0" by (simp add: round4_def)
  have r: "(7 + n) div 4 * 4 = 4 + round4 n" for n unfolding round4_def by presburger
  have "extension g \<Longrightarrow> valid_extensions g" using assms by (simp add: valid_rtp_header_def g_def)
  then have "(if length (extensions h) > 0 \<or> extension h then
      rbind (if extensionProfile h = ExtensionProfiles_OneByte
             then Inr (fold (\<lambda>e a. a + (1 + length (ext_payload e))) (extensions h) 4)
             else if extensionProfile h = ExtensionProfiles_TwoByte
             then Inr (fold (\<lambda>e a. a + (2 + length (ext_payload e))) (extensions h) 4)
             else rbind (first_payload (extensions h)) (\<lambda>p. Inr (4 + length p)))
        (\<lambda>extSize. Inr (12 + length (csrc h) * 4 + (extSize + 3) div 4 * 4))
      else Inr (12 + length (csrc h) * 4)) = Inr (length (header_wire g))"
    unfolding fold1 fold2 g(4) [symmetric]
    by (auto simp: header_wire_def length_ext_wire ext_body_def g r z first_payload_def valid_extensions_def simp del: length_concat split: list.split)
  then show ?thesis by (simp only: header_serializeSize_def Let_def g_def)
qed

section \<open>Parsing the wire form\<close>

lemma bit_field_eq:
  fixes V :: "32 word"
  assumes "0 \<le> v" "v < 2 ^ n" "\<And>j. j < n \<Longrightarrow> bit V (a + j) = bit v j"
  shows "int (unat V div 2 ^ a mod 2 ^ n) = v"
proof -
  have "int (unat V div 2 ^ a mod 2 ^ n) = take_bit n (drop_bit a (uint V))"
    by (simp add: take_bit_eq_mod drop_bit_eq_div zdiv_int zmod_int)
  also have "\<dots> = take_bit n v"
  proof (rule bit_eqI)
    fix k
    have "bit (uint V) (a + k) = bit V (a + k)" using bit_imp_le_length [of V "a + k"] by (auto simp: bit_uint_iff)
    then show "bit (take_bit n (drop_bit a (uint V))) k = bit (take_bit n v) k"
      using assms(3) by (auto simp: bit_take_bit_iff bit_drop_bit_eq)
  qed
  also have "\<dots> = v" using assms(1,2) by (simp add: take_bit_int_eq_self)
  finally show ?thesis .
qed

lemma get_field_octet:
  assumes "i < length raw" "unat (raw ! i) = unat (V :: 32 word)" "0 < n" "s + n \<le> 8"
  shows "get_field raw i s n = Inr (unat V div 2 ^ (8 - s - n) mod 2 ^ n)"
proof -
  have "unat (raw ! i) < 256" using unsigned_less [of "raw ! i"] by simp
  from getBit_byte [OF this assms(3,4)] show ?thesis using assms(1,2) by (simp add: get_field_def)
qed

lemma one_byte_fields:
  assumes "valid_one e"
  shows "let b = word_of_int (ext_id e * 16 + (int (length (ext_payload e)) - 1)) :: byte in
    b \<noteq> 0 \<and> uint (drop_bit 4 b) = ext_id e \<and> unat (b AND (b XOR 0xf0)) + 1 = length (ext_payload e)"
proof -
  define l where "l = length (ext_payload e) - 1"
  define i where "i = nat (ext_id e)"
  have b: "1 \<le> i" "i \<le> 14" "l < 16" "ext_id e = int i" "int (length (ext_payload e)) - 1 = int l" "length (ext_payload e) = l + 1"
    using assms by (auto simp: valid_one_def l_def i_def)
  define x where "x = (word_of_int (int i * 16 + int l) :: byte)"
  have u: "uint x = int i * 16 + int l" unfolding x_def using b by (simp add: uint_word_of_int del: of_int_add of_int_mult of_int_of_nat_eq)
  have "x \<noteq> 0" using u b by (metis add_nonneg_eq_0_iff mult_eq_0_iff of_nat_0_le_iff of_nat_eq_0_iff not_one_le_zero uint_0_eq zero_neq_numeral mult_nonneg_nonneg zero_le_numeral)
  moreover have "uint (drop_bit 4 x) = int i"
    using b by (simp add: drop_bit_eq_div uint_div u)
  moreover have "x AND (x XOR 0xf0) = take_bit 4 x"
  proof (rule bit_word_eqI)
    fix n assume "n < LENGTH(8)"
    then have "n \<in> {0,1,2,3,4,5,6,7}" by auto
    then show "bit (x AND (x XOR 0xf0)) n = bit (take_bit 4 x) n"
      by (auto simp: bit_and_iff bit_xor_iff bit_take_bit_iff)
  qed
  moreover have "unat (take_bit 4 x) = l"
  proof -
    have "uint (take_bit 4 x) = int l" using b by (simp add: take_bit_eq_mod uint_mod u)
    then show ?thesis by (simp add: unat_eq_nat_uint)
  qed
  ultimately show ?thesis unfolding b(4,5) x_def [symmetric] Let_def using b(6) by simp
qed

lemma one_byte_zeros:
  "one_byte_loop (pre @ buf_alloc k @ post) (length pre) (length pre + k) acc = Inr (acc, length pre + k)"
proof (induction k arbitrary: pre)
  case 0
  show ?case by (subst one_byte_loop.simps) simp
next
  case (Suc k)
  have "(pre @ buf_alloc (Suc k) @ post) ! length pre = 0" by (simp add: buf_alloc_def)
  with Suc [of "pre @ [0]"] show ?case
    by (subst one_byte_loop.simps) (simp add: buf_alloc_def)
qed

lemma two_byte_zeros:
  "two_byte_loop (pre @ buf_alloc k @ post) (length pre) (length pre + k) acc = Inr (acc, length pre + k)"
proof (induction k arbitrary: pre)
  case 0
  show ?case by (subst two_byte_loop.simps) simp
next
  case (Suc k)
  have "(pre @ buf_alloc (Suc k) @ post) ! length pre = 0" by (simp add: buf_alloc_def)
  with Suc [of "pre @ [0]"] show ?case
    by (subst two_byte_loop.simps) (simp add: buf_alloc_def)
qed

lemma one_byte_loop_wire:
  "list_all valid_one es \<Longrightarrow>
    one_byte_loop (pre @ concat (map one_wire es) @ buf_alloc k @ post) (length pre)
      (length pre + length (concat (map one_wire es)) + k) acc =
    Inr (acc @ es, length pre + length (concat (map one_wire es)) + k)"
proof (induction es arbitrary: pre acc)
  case Nil
  then show ?case using one_byte_zeros by simp
next
  case (Cons e es)
  let ?b = "word_of_int (ext_id e * 16 + (int (length (ext_payload e)) - 1)) :: byte"
  let ?raw = "pre @ concat (map one_wire (e # es)) @ buf_alloc k @ post"
  let ?fin = "length pre + length (concat (map one_wire (e # es))) + k"
  let ?p = "ext_payload e"
  have v: "valid_one e" using Cons.prems by simp
  have raw: "?raw = (pre @ one_wire e) @ concat (map one_wire es) @ buf_alloc k @ post" by simp
  have raw2: "?raw = pre @ ?b # ?p @ concat (map one_wire es) @ buf_alloc k @ post" by (simp add: one_wire_def)
  have nth: "?raw ! length pre = ?b" by (simp only: raw2 nth_append_length)
  note f = one_byte_fields [OF v, unfolded Let_def]
  have sl: "buf_slice ?raw (length pre + 1) (length pre + 1 + length ?p) = ?p"
    by (simp only: raw2) (simp add: buf_slice_def)
  have lt: "length pre < ?fin" "\<not> length pre + 1 + length ?p > ?fin" by (simp_all add: one_wire_def)
  have id: "ext_id e \<noteq> 15" using v by (simp add: valid_one_def)
  have "one_byte_loop ?raw (length pre) ?fin acc =
      one_byte_loop ?raw (length pre + 1 + length ?p) ?fin (acc @ [\<lparr>ext_id = ext_id e, ext_payload = ?p\<rparr>])"
    using f lt id by (subst one_byte_loop.simps) (simp only: nth sl Let_def if_True if_False simp_thms not_True_eq_False)
  also have "\<dots> = Inr (acc @ e # es, ?fin)"
  proof -
    have l: "length pre + 1 + length ?p = length (pre @ one_wire e)" by (simp add: one_wire_def)
    have e: "\<lparr>ext_id = ext_id e, ext_payload = ?p\<rparr> = e" by (cases e) simp
    show ?thesis
      unfolding raw l e using Cons.IH [of "pre @ one_wire e" "acc @ [e]"] Cons.prems by (simp add: add.assoc)
  qed
  finally show ?case .
qed

lemma two_byte_loop_wire:
  "list_all valid_two es \<Longrightarrow>
    two_byte_loop (pre @ concat (map two_wire es) @ buf_alloc k @ post) (length pre)
      (length pre + length (concat (map two_wire es)) + k) acc =
    Inr (acc @ es, length pre + length (concat (map two_wire es)) + k)"
proof (induction es arbitrary: pre acc)
  case Nil
  then show ?case using two_byte_zeros by simp
next
  case (Cons e es)
  let ?b = "word_of_int (ext_id e) :: byte" and ?c = "word_of_int (int (length (ext_payload e))) :: byte"
  let ?raw = "pre @ concat (map two_wire (e # es)) @ buf_alloc k @ post"
  let ?fin = "length pre + length (concat (map two_wire (e # es))) + k"
  let ?p = "ext_payload e"
  have v: "valid_two e" using Cons.prems by simp
  have raw: "?raw = (pre @ two_wire e) @ concat (map two_wire es) @ buf_alloc k @ post" by simp
  have raw2: "?raw = pre @ ?b # ?c # ?p @ concat (map two_wire es) @ buf_alloc k @ post" by (simp add: two_wire_def)
  have nth: "?raw ! length pre = ?b" by (simp only: raw2 nth_append_length)
  have nth2: "?raw ! (length pre + 1) = ?c" by (simp only: raw2) (simp add: nth_append)
  have f: "uint ?b = ext_id e" "unat ?c = length ?p" "?b \<noteq> 0"
  proof -
    show u: "uint ?b = ext_id e" using v by (simp add: valid_two_def uint_word_of_int)
    show "?b \<noteq> 0" using u v by (auto simp: valid_two_def)
    have "uint ?c = int (length ?p)" using v by (simp only: uint_word_of_int) (simp add: valid_two_def)
    then show "unat ?c = length ?p" by (simp only: unat_eq_nat_uint nat_int)
  qed
  have sl: "buf_slice ?raw (length pre + 1 + 1) (length pre + 1 + 1 + length ?p) = ?p"
    by (simp only: raw2) (simp add: buf_slice_def)
  have lt: "length pre < ?fin" "\<not> length pre + 2 > ?fin" "\<not> length pre + 1 + 1 + length ?p > ?fin"
    by (simp_all add: two_wire_def)
  have "two_byte_loop ?raw (length pre) ?fin acc =
      two_byte_loop ?raw (length pre + 1 + 1 + length ?p) ?fin (acc @ [\<lparr>ext_id = ext_id e, ext_payload = ?p\<rparr>])"
    using f lt by (subst two_byte_loop.simps) (simp only: nth nth2 sl Let_def if_True if_False simp_thms not_True_eq_False)
  also have "\<dots> = Inr (acc @ e # es, ?fin)"
  proof -
    have l: "length pre + 1 + 1 + length ?p = length (pre @ two_wire e)" by (simp add: two_wire_def)
    have e: "\<lparr>ext_id = ext_id e, ext_payload = ?p\<rparr> = e" by (cases e) simp
    show ?thesis
      unfolding raw l e using Cons.IH [of "pre @ two_wire e" "acc @ [e]"] Cons.prems by (simp add: add.assoc)
  qed
  finally show ?case .
qed

text \<open>What a header becomes on the wire and back.\<close>

definition parsed_header :: "rtp_header \<Rightarrow> rtp_header" where
  "parsed_header h = h\<lparr>csrcLength := length (csrc h), payloadOffset := length (header_wire h), paddingSize := 0,
     extensionProfile := (if extension h then extensionProfile h else ExtensionProfiles_OneByte),
     extensionLength := (if extension h then Some (round4 (length (ext_body h))) else None)\<rparr>"

lemma parse_extensions_wire:
  assumes "valid_extensions h" "extensions g = []"
  shows "parse_extensions (pre @ ext_wire h @ post) (length pre) g =
    Inr (g\<lparr>extensionProfile := extensionProfile h, extensionLength := Some (round4 (length (ext_body h))),
         extensions := extensions h\<rparr>, length pre + length (ext_wire h))"
proof -
  let ?p = "extensionProfile h" and ?b = "ext_body h"
  let ?n = "length ?b"
  let ?raw = "pre @ ext_wire h @ post" and ?z = "buf_alloc (round4 ?n - ?n)"
  let ?hd = "be_bytes 2 ?p @ be_bytes 2 (int (round4 ?n div 4))"
  have raw: "?raw = (pre @ ?hd) @ ?b @ ?z @ post" by (simp add: ext_wire_def)
  have l: "length ?raw = length pre + 4 + round4 ?n + length post" by (simp add: length_ext_wire)
  have r: "round4 ?n div 4 < 65536" "round4 ?n div 4 * 4 = round4 ?n"
  proof -
    show "round4 ?n div 4 < 65536" using assms(1) round4_less [of ?n] unfolding valid_extensions_def by linarith
    show "round4 ?n div 4 * 4 = round4 ?n" using round4_mod [of ?n] by presburger
  qed
  have p: "readUInt16BE ?raw (length pre) = Inr ?p"
    using assms(1) by (simp add: ext_wire_def readUIntBE_append_later valid_extensions_def wire_simps)
  have q: "readUInt16BE ?raw (length pre + 2) = Inr (int (round4 ?n div 4))"
    using r by (simp add: ext_wire_def readUIntBE_append_later wire_simps)
  have fin: "length pre + 2 + 2 = length (pre @ ?hd)" by simp
  have body: "(if ?p = ExtensionProfiles_OneByte
       then rbind (one_byte_loop ?raw (length (pre @ ?hd)) (length (pre @ ?hd) + round4 ?n) []) (\<lambda>(exts, off). Inr (f exts, off))
       else if ?p = ExtensionProfiles_TwoByte
       then rbind (two_byte_loop ?raw (length (pre @ ?hd)) (length (pre @ ?hd) + round4 ?n) []) (\<lambda>(exts, off). Inr (f exts, off))
       else Inr (f [\<lparr>ext_id = 0, ext_payload = buf_slice ?raw (length (pre @ ?hd)) (length (pre @ ?hd) + round4 ?n)\<rparr>],
              length (pre @ ?hd) + length (buf_slice ?raw (length (pre @ ?hd)) (length (pre @ ?hd) + round4 ?n))))
     = Inr (f (extensions h), length (pre @ ?hd) + round4 ?n)" (is "?lhs = ?rhs") for f :: "rtp_extension list \<Rightarrow> rtp_header"
  proof -
    have sum: "length (pre @ ?hd) + ?n + (round4 ?n - ?n) = length (pre @ ?hd) + round4 ?n"
      using round4_ge [of ?n] by simp
    consider "?p = ExtensionProfiles_OneByte" | "?p = ExtensionProfiles_TwoByte" "?p \<noteq> ExtensionProfiles_OneByte"
      | "?p \<noteq> ExtensionProfiles_OneByte" "?p \<noteq> ExtensionProfiles_TwoByte" by blast
    then show ?thesis
    proof cases
      case 1
      then have b: "?b = concat (map one_wire (extensions h))" "list_all valid_one (extensions h)"
        using assms(1) by (auto simp: valid_extensions_def ext_body_def)
      from one_byte_loop_wire [OF b(2), of "pre @ ?hd" "round4 ?n - ?n" post "[]"]
      have "one_byte_loop ?raw (length (pre @ ?hd)) (length (pre @ ?hd) + round4 ?n) [] =
          Inr (extensions h, length (pre @ ?hd) + round4 ?n)"
        unfolding raw b(1) [symmetric] sum by simp
      with 1 show ?thesis by (simp only: if_True rbind_simps split_conv simp_thms)
    next
      case 2
      then have b: "?b = concat (map two_wire (extensions h))" "list_all valid_two (extensions h)"
        using assms(1) by (auto simp: valid_extensions_def ext_body_def)
      from two_byte_loop_wire [OF b(2), of "pre @ ?hd" "round4 ?n - ?n" post "[]"]
      have "two_byte_loop ?raw (length (pre @ ?hd)) (length (pre @ ?hd) + round4 ?n) [] =
          Inr (extensions h, length (pre @ ?hd) + round4 ?n)"
        unfolding raw b(1) [symmetric] sum by simp
      with 2 show ?thesis by (simp only: if_True if_False rbind_simps split_conv simp_thms)
    next
      case 3
      then obtain e where e: "extensions h = [e]" "ext_id e = 0" "ext_payload e = ?b" "?n mod 4 = 0"
        using assms(1) by (auto simp: valid_extensions_def ext_body_def)
      have n: "round4 ?n = ?n" unfolding round4_def using e(4) by presburger
      have "buf_slice ?raw (length (pre @ ?hd)) (length (pre @ ?hd) + round4 ?n) = ?b"
        unfolding raw by (simp add: buf_slice_def n)
      moreover have "\<lparr>ext_id = 0, ext_payload = ?b\<rparr> = e" using e by (cases e) simp
      ultimately show ?thesis using 3 n e(1) by simp
    qed
  qed
  define q where "q = length (pre @ ?hd)"
  have q4: "q = length pre + 4" by (simp add: q_def)
  have len1: "\<not> length ?raw < length pre + 4" "\<not> length ?raw < q + round4 ?n" unfolding l q4 by simp_all
  have fin2: "q + round4 ?n = length pre + length (ext_wire h)" by (simp add: q4 length_ext_wire)
  show ?thesis
    using body [of "\<lambda>exts. g\<lparr>extensionProfile := ?p, extensionLength := Some (round4 ?n), extensions := exts\<rparr>"]
    unfolding parse_extensions_def assertRtpPacketLength_def p q Let_def fin rbind_simps nat_int r(2) q_def [symmetric]
    unfolding fin2 [symmetric]
    by (simp only: len1 if_False rbind_simps) (simp add: assms(2) cong: if_cong)
qed

lemma header_fields:
  assumes "valid_rtp_header h" "raw = header_wire h @ rest"
  shows "get_field raw 0 0 2 = Inr (nat (version h))" "get_field raw 0 2 1 = Inr (of_bool (padding h))"
    "get_field raw 0 3 1 = Inr (of_bool (extension h))" "get_field raw 0 4 4 = Inr (length (csrc h))"
    "get_field raw 1 0 1 = Inr (of_bool (marker h))" "get_field raw 1 1 7 = Inr (nat (payloadType h))"
proof -
  let ?V = "bw_value (v_p_x_cc h)" and ?M = "bw_value (m_pt h)"
  note o = first_octets [OF assms(1)]
  have v: "0 \<le> version h" "version h < 4" "length (csrc h) < 16" "0 \<le> payloadType h" "payloadType h < 128"
    using assms(1) by (auto simp: valid_rtp_header_def)
  have raw: "raw = ucast ?V # ucast ?M # (be_bytes 2 (sequenceNumber h) @ be_bytes 4 (timestamp h) @ be_bytes 4 (ssrc h) @
      concat (map (be_bytes 4) (csrc h)) @ (if extension h then ext_wire h else []) @ rest)"
    unfolding assms(2) header_wire_def fixed_wire_def o(1,5) by simp
  have r0: "0 < length raw" "unat (raw ! 0) = unat ?V" and r1: "1 < length raw" "unat (raw ! 1) = unat ?M"
    using o(4,8) by (simp_all only: raw nth_Cons_0 nth_Cons_Suc One_nat_def) simp_all
  note bits = v_p_x_cc_bits(2) [OF v(1-3)] m_pt_bits(2)
  have nat_field: "x = nat y" if "int x = y" for x y using that by simp
  have ob: "x = of_bool b" if "int x = of_bool b" for x b using that by (cases b) auto
  have b1: "bit (of_bool b :: int) k \<longleftrightarrow> b \<and> k = 0" for b k by (cases b) (auto simp: bit_1_iff)
  have j4: "bit (int (length (csrc h))) j \<Longrightarrow> j < 4" for j
  proof -
    have "take_bit 4 (int (length (csrc h))) = int (length (csrc h))" using v(3) by (simp add: take_bit_int_eq_self)
    then show "bit (int (length (csrc h))) j \<Longrightarrow> j < 4" by (metis bit_take_bit_iff)
  qed
  have 1: "int (unat ?V div 2 ^ 6 mod 2 ^ 2) = version h"
    using v by (intro bit_field_eq) (auto simp: bits)
  have 2: "int (unat ?V div 2 ^ 5 mod 2 ^ 1) = of_bool (padding h)"
    by (intro bit_field_eq) (auto simp: bits b1)
  have 3: "int (unat ?V div 2 ^ 4 mod 2 ^ 1) = of_bool (extension h)"
    by (intro bit_field_eq) (auto simp: bits b1)
  have 4: "int (unat ?V div 2 ^ 0 mod 2 ^ 4) = int (length (csrc h))"
    using v by (intro bit_field_eq) (auto simp: bits)
  have 5: "int (unat ?M div 2 ^ 7 mod 2 ^ 1) = of_bool (marker h)"
    by (intro bit_field_eq) (auto simp: bits b1)
  have 6: "int (unat ?M div 2 ^ 0 mod 2 ^ 7) = payloadType h"
    using v by (intro bit_field_eq) (auto simp: bits)
  note g = get_field_octet [OF r0] get_field_octet [OF r1]
  show "get_field raw 0 0 2 = Inr (nat (version h))" using g(1) [of 2 0] nat_field [OF 1] by simp
  show "get_field raw 0 2 1 = Inr (of_bool (padding h))" using g(1) [of 1 2] ob [OF 2] by simp
  show "get_field raw 0 3 1 = Inr (of_bool (extension h))" using g(1) [of 1 3] ob [OF 3] by simp
  show "get_field raw 0 4 4 = Inr (length (csrc h))" using g(1) [of 4 4] 4 by simp
  show "get_field raw 1 0 1 = Inr (of_bool (marker h))" using g(2) [of 1 0] ob [OF 5] by simp
  show "get_field raw 1 1 7 = Inr (nat (payloadType h))" using g(2) [of 7 1] nat_field [OF 6] by simp
qed

lemma readUIntBE_ok: "pos + n \<le> length b \<Longrightarrow> \<exists>v. readUIntBE n b pos = Inr v"
  by (simp add: readUIntBE_def)

lemma csrc_read:
  "list_all u32_ok cs \<Longrightarrow> i < length cs \<Longrightarrow> readUInt32BE (drop (4 * i) (concat (map (be_bytes 4) cs) @ r)) 0 = Inr (cs ! i)"
proof (induction cs arbitrary: i)
  case (Cons c cs)
  then show ?case by (cases i) (auto simp: wire_simps)
qed simp

lemma rmap_upt: "(\<And>i. i < length xs \<Longrightarrow> f i = Inr (xs ! i)) \<Longrightarrow> rmap f [0..<length xs] = Inr xs"
  using rmap_total [of "[0..<length xs]" f "\<lambda>i. xs ! i"] by (simp add: map_nth)

lemma fixed_reads:
  assumes "length oo = 2" "raw = oo @ be_bytes 2 s @ be_bytes 4 t @ be_bytes 4 r @ rest" "u16_ok s" "u32_ok t" "u32_ok r"
  shows "readUInt16BE raw 2 = Inr s" "readUInt32BE raw 4 = Inr t" "readUInt32BE raw 8 = Inr r" "drop 12 raw = rest"
  unfolding assms(2) using assms(1,3-5) by (simp_all add: readUIntBE_append_later wire_simps)

lemma RtpHeader_deSerialize_wire:
  assumes "valid_rtp_header h"
  shows "RtpHeader_deSerialize (header_wire h @ rest) validate =
    applyRtpPaddingSize (parsed_header h) (header_wire h @ rest) validate"
proof -
  define raw where "raw = header_wire h @ rest"
  note f = header_fields [OF assms raw_def]
  let ?o = "be_bytes 1 (bw_number (v_p_x_cc h)) @ be_bytes 1 (bw_number (m_pt h))"
  let ?c = "concat (map (be_bytes 4) (csrc h))" and ?e = "if extension h then ext_wire h else []"
  have u: "u16_ok (sequenceNumber h)" "u32_ok (timestamp h)" "u32_ok (ssrc h)" "list_all u32_ok (csrc h)"
    "0 \<le> version h" "0 \<le> payloadType h" using assms by (auto simp: valid_rtp_header_def)
  have raw: "raw = ?o @ be_bytes 2 (sequenceNumber h) @ be_bytes 4 (timestamp h) @ be_bytes 4 (ssrc h) @ (?c @ ?e @ rest)"
    by (simp add: raw_def header_wire_def fixed_wire_def)
  have len: "12 + length (csrc h) * 4 \<le> length raw" by (simp add: raw_def header_wire_def)
  have r: "readUInt16BE raw 2 = Inr (sequenceNumber h)" "readUInt32BE raw 4 = Inr (timestamp h)" "readUInt32BE raw 8 = Inr (ssrc h)"
    using fixed_reads [OF _ raw u(1-3)] by simp_all
  have "\<exists>vs. rmap (\<lambda>i. readUInt32BE raw (1 + 4 * i)) [0..<length (csrc h)] = Inr vs"
  proof -
    have "readUInt32BE raw (1 + 4 * i) = Inr (projr (readUInt32BE raw (1 + 4 * i)))" if "i < length (csrc h)" for i
      using readUIntBE_ok [of "1 + 4 * i" 4 raw] that len by auto
    then have "rmap (\<lambda>i. readUInt32BE raw (1 + 4 * i)) [0..<length (csrc h)] =
        Inr (map (\<lambda>i. projr (readUInt32BE raw (1 + 4 * i))) [0..<length (csrc h)])"
      by (intro rmap_total) auto
    then show ?thesis ..
  qed
  then obtain vs where vs: "rmap (\<lambda>i. readUInt32BE raw (1 + 4 * i)) [0..<length (csrc h)] = Inr vs" by blast
  have cs: "rmap (\<lambda>i. readUInt32BE (drop (12 + i * 4) raw) 0) [0..<length (csrc h)] = Inr (csrc h)"
  proof (rule rmap_upt)
    fix i assume "i < length (csrc h)"
    moreover have "drop (12 + i * 4) raw = drop (4 * i) (?c @ ?e @ rest)"
    proof -
      have "drop (12 + i * 4) raw = drop (4 * i) (drop 12 raw)" by (simp add: add.commute mult.commute)
      then show ?thesis using fixed_reads(4) [OF _ raw u(1-3)] by simp
    qed
    ultimately show "readUInt32BE (drop (12 + i * 4) raw) 0 = Inr (csrc h ! i)"
      using csrc_read [OF u(4)] by simp
  qed
  let ?g = "new_RtpHeader\<lparr>version := version h, padding := padding h, extension := extension h, csrcLength := length (csrc h),
       csrc := csrc h, marker := marker h, payloadType := payloadType h, sequenceNumber := sequenceNumber h, timestamp := timestamp h, ssrc := ssrc h\<rparr>"
  have off: "1 + 4 * length (csrc h) + 11 = length (fixed_wire h)" by simp
  have e: "(if extension h then parse_extensions raw (length (fixed_wire h)) ?g else Inr (?g, length (fixed_wire h))) =
      Inr (if extension h then ?g\<lparr>extensionProfile := extensionProfile h, extensionLength := Some (round4 (length (ext_body h))),
           extensions := extensions h\<rparr> else ?g, length (header_wire h))"
  proof (cases "extension h")
    case True
    then have "valid_extensions h" using assms by (simp add: valid_rtp_header_def)
    from parse_extensions_wire [OF this, of ?g "fixed_wire h" rest] True show ?thesis
      by (simp add: raw_def header_wire_def new_RtpHeader_def)
  qed (simp add: header_wire_def)
  have g: "(if extension h then ?g\<lparr>extensionProfile := extensionProfile h, extensionLength := Some (round4 (length (ext_body h))),
           extensions := extensions h\<rparr> else ?g)\<lparr>payloadOffset := length (header_wire h)\<rparr> = parsed_header h"
    using assms by (cases h) (auto simp: new_RtpHeader_def parsed_header_def valid_rtp_header_def)
  have po: "payloadOffset (parsed_header h) = length (header_wire h)" by (simp add: parsed_header_def)
  have a: "assertRtpPacketLength raw 12 = Inr ()" "assertRtpPacketLength raw (12 + length (csrc h) * 4) = Inr ()"
    using len by (auto simp: assertRtpPacketLength_def)
  have b: "(0 < (of_bool b :: nat)) = b" for b by simp
  have i: "int (nat (version h)) = version h" "int (nat (payloadType h)) = payloadType h" using u by simp_all
  have x: "extension ?g = extension h" by simp
  show ?thesis
    unfolding RtpHeader_deSerialize_def raw_def [symmetric] a rbind_simps f vs r cs Let_def off b i
    unfolding x e rbind_simps split_conv g po by (simp add: raw_def)
qed

section \<open>Packets\<close>

definition valid_rtp_packet :: "rtp_packet \<Rightarrow> bool" where
  "valid_rtp_packet p \<longleftrightarrow> valid_rtp_header (with_extension (header p)) \<and>
     (padding (header p) \<longrightarrow> 1 \<le> paddingSize (header p) \<and> paddingSize (header p) \<le> 255)"

definition padding_wire :: "rtp_header \<Rightarrow> buffer" where
  "padding_wire h = (if padding h then buf_alloc (nat (paddingSize h) - 1) @ be_bytes 1 (paddingSize h) else [])"

lemma padding_wire_length:
  "padding h \<longrightarrow> 1 \<le> paddingSize h \<Longrightarrow> length (padding_wire h) = (if padding h then nat (paddingSize h) else 0)"
  by (auto simp: padding_wire_def)

lemma with_extension_padding [simp]: "padding (with_extension h) = padding h" "paddingSize (with_extension h) = paddingSize h"
  "padding (h\<lparr>payloadOffset := k\<rparr>) = padding h"
  by (simp_all add: with_extension_def)

lemma RtpPacket_serialize_ok:
  assumes "valid_rtp_packet p"
  shows "RtpPacket_serialize p = Inr (header_wire (with_extension (header p)) @ payload p @ padding_wire (header p))"
proof -
  let ?h = "with_extension (header p)" and ?n = "nat (paddingSize (header p))"
  have v: "valid_rtp_header ?h" and pd: "padding (header p) \<Longrightarrow> 1 \<le> paddingSize (header p) \<and> paddingSize (header p) \<le> 255"
    using assms by (auto simp: valid_rtp_packet_def)
  define k where "k = length (payload p) + (if padding (header p) then ?n else 0)"
  have sz: "packet_serializeSize p = Inr (length (header_wire ?h) + k)"
    by (simp add: packet_serializeSize_def header_serializeSize_ok [OF v] k_def)
  have cp: "buf_copy (header_wire ?h @ buf_alloc k) (length (header_wire ?h)) (payload p) =
      (header_wire ?h @ payload p) @ buf_alloc (if padding (header p) then ?n else 0)"
    using buf_copy_fill [of "payload p" k "header_wire ?h"] by (simp add: k_def)
  have pad: "padding (header p) \<Longrightarrow>
      buf_writeUInt 1 ((header_wire ?h @ payload p) @ buf_alloc ?n) (length (header_wire ?h) + length (payload p) + ?n - 1) (paddingSize (header p))
      = Inr (header_wire ?h @ payload p @ padding_wire (header p))"
  proof -
    assume p: "padding (header p)"
    obtain j where j: "?n = Suc j" using pd [OF p] by (cases ?n) auto
    have a: "buf_alloc ?n = buf_alloc j @ buf_alloc 1" by (simp add: buf_alloc_def j replicate_append_same)
    let ?w = "(header_wire ?h @ payload p) @ buf_alloc j"
    have "(header_wire ?h @ payload p) @ buf_alloc ?n = ?w @ buf_alloc 1" by (simp add: a)
    moreover have "length (header_wire ?h) + length (payload p) + ?n - 1 = length ?w" by (simp add: j)
    moreover have "header_wire ?h @ payload p @ padding_wire (header p) = ?w @ be_bytes 1 (paddingSize (header p)) @ buf_alloc (1 - 1)"
      using p by (simp add: padding_wire_def j buf_alloc_def)
    ultimately show ?thesis
      using buf_writeUInt_fill [of "paddingSize (header p)" 1 1 ?w] pd [OF p] by simp
  qed
  have g: "\<not> (padding (header p) \<and> (paddingSize (header p) < 1 \<or> paddingSize (header p) > 255))" using pd by auto
  show ?thesis
    unfolding RtpPacket_serialize_def sz rbind_simps RtpHeader_serialize_ok [OF v] split_conv Let_def
    using g cp pad by (simp add: padding_wire_def buf_alloc_def [of 0])
qed

lemma RtpPacket_deSerialize_wire:
  assumes "valid_rtp_packet p"
  shows "RtpPacket_deSerialize (header_wire (with_extension (header p)) @ payload p @ padding_wire (header p)) =
    Inr \<lparr>header = (parsed_header (with_extension (header p)))
          \<lparr>paddingSize := if padding (header p) then paddingSize (header p) else 0\<rparr>, payload = payload p\<rparr>"
proof -
  let ?h = "with_extension (header p)" and ?w = "header_wire (with_extension (header p))" and ?n = "nat (paddingSize (header p))"
  let ?raw = "?w @ payload p @ padding_wire (header p)"
  have v: "valid_rtp_header ?h" and pd: "padding (header p) \<Longrightarrow> 1 \<le> paddingSize (header p) \<and> paddingSize (header p) \<le> 255"
    using assms by (auto simp: valid_rtp_packet_def)
  have po: "payloadOffset (parsed_header ?h) = length ?w" "padding (parsed_header ?h) = padding (header p)"
    by (simp_all add: parsed_header_def)
  have len: "length (padding_wire (header p)) = (if padding (header p) then ?n else 0)"
    using pd by (intro padding_wire_length) auto
  have last: "padding (header p) \<Longrightarrow> uint (?raw ! (length ?raw - 1)) = paddingSize (header p)"
  proof -
    assume p: "padding (header p)"
    then have "?raw ! (length ?raw - 1) = word_of_int (paddingSize (header p))"
      by (simp add: padding_wire_def nth_append)
    with pd [OF p] show ?thesis by (simp add: uint_word_of_int)
  qed
  have ap: "applyRtpPaddingSize (parsed_header ?h) ?raw True =
      Inr ((parsed_header ?h)\<lparr>paddingSize := if padding (header p) then paddingSize (header p) else 0\<rparr>)"
    using pd last len by (auto simp: applyRtpPaddingSize_def po Let_def)
  show ?thesis
    unfolding RtpPacket_deSerialize_def RtpHeader_deSerialize_wire [OF v] ap rbind_simps
    using len pd by (auto simp: po buf_slice_def)
qed

section \<open>Properties\<close>

text \<open>C14: RTP packet round trip.  A packet whose fields fit their widths (one-byte, two-byte or
  opaque extensions, contributing sources, padding of 1 to 255 octets) serializes without an
  exception into exactly \<^verbatim>\<open>serializeSize\<close> bytes, and parsing these returns the same header
  fields, extensions and payload, with the derived fields (offset, lengths) filled in.\<close>

theorem rtp_packet_roundtrip:
  assumes "valid_rtp_packet p"
  shows "\<exists>b. RtpPacket_serialize p = Inr b \<and> packet_serializeSize p = Inr (length b) \<and>
    RtpPacket_deSerialize b = Inr \<lparr>header = (parsed_header (with_extension (header p)))
        \<lparr>paddingSize := if padding (header p) then paddingSize (header p) else 0\<rparr>, payload = payload p\<rparr>"
proof (intro exI conjI)
  let ?b = "header_wire (with_extension (header p)) @ payload p @ padding_wire (header p)"
  have v: "valid_rtp_header (with_extension (header p))" using assms by (simp add: valid_rtp_packet_def)
  show "RtpPacket_serialize p = Inr ?b" by (rule RtpPacket_serialize_ok [OF assms])
  show "packet_serializeSize p = Inr (length ?b)"
    using assms padding_wire_length [of "header p"]
    by (simp add: packet_serializeSize_def header_serializeSize_ok [OF v] valid_rtp_packet_def Let_def)
qed (rule RtpPacket_deSerialize_wire [OF assms])

definition sample_packet :: rtp_packet where
  "sample_packet = \<lparr>header = new_RtpHeader\<lparr>padding := True, paddingSize := 4, marker := True, payloadType := 96,
      sequenceNumber := 65535, timestamp := 4294967295, ssrc := 7, csrc := [1, 2],
      extensions := [\<lparr>ext_id = 3, ext_payload = [9, 8]\<rparr>]\<rparr>, payload = [1, 2, 3]\<rparr>"

theorem rtp_packet_roundtrip_witness:
  "valid_rtp_packet sample_packet \<and> (\<exists>b. RtpPacket_serialize sample_packet = Inr b \<and> length b = 35 \<and>
     rbind (RtpPacket_deSerialize b) (\<lambda>q. Inr (payload q, extensions (header q), csrc (header q), sequenceNumber (header q)))
       = Inr ([1, 2, 3], [\<lparr>ext_id = 3, ext_payload = [9, 8]\<rparr>], [1, 2], 65535))"
proof -
  have v: "valid_rtp_packet sample_packet"
    by (simp add: valid_rtp_packet_def sample_packet_def with_extension_def valid_rtp_header_def valid_extensions_def
        valid_one_def new_RtpHeader_def u16_ok_def u32_ok_def ext_body_def one_wire_def
        ExtensionProfiles_OneByte_def ExtensionProfiles_TwoByte_def)
  have sz: "packet_serializeSize sample_packet = Inr 35" by code_simp
  show ?thesis using rtp_packet_roundtrip [OF v] sz v
    by (auto simp: sample_packet_def parsed_header_def with_extension_def new_RtpHeader_def)
qed

text \<open>A loop over an extension block ends inside the block or reports truncation.\<close>

definition ends_in :: "nat \<Rightarrow> nat \<Rightarrow> (rtp_extension list \<times> nat) result \<Rightarrow> bool" where
  "ends_in off fin r \<longleftrightarrow> (case r of Inl e \<Rightarrow> e = Error ''RTP header extension truncated''
     | Inr (es, off') \<Rightarrow> off \<le> off' \<and> off' \<le> fin)"


lemma ends_in_simps [simp]:
  "ends_in off fin (Inl (Error ''RTP header extension truncated''))"
  "ends_in off fin (Inr (es, off')) \<longleftrightarrow> off \<le> off' \<and> off' \<le> fin"
  by (simp_all add: ends_in_def)




lemma assertRtpPacketLength_cases:
  "assertRtpPacketLength raw n = Inr () \<and> n \<le> length raw \<or>
   assertRtpPacketLength raw n = Inl (Error ''RTP packet too short'')"
  by (auto simp: assertRtpPacketLength_def)








text \<open>A one-byte extension element with the reserved identifier 15 ends the parsing of the
  block, and the payload is taken to start right behind it instead of behind the block: the
  rest of the extension block is delivered as media.\<close>

theorem rtp_extension_15_leaks_into_payload:
  "rbind (RtpPacket_deSerialize ([0x90, 96, 0, 1, 0, 0, 0, 0, 0, 0, 0, 7, 0xbe, 0xde, 0, 1] @ [0xf0, 1, 2, 3] @ [0x41]))
     (\<lambda>q. Inr (payload q)) = Inr [1, 2, 3, 0x41]"
  by (simp add: RtpPacket_deSerialize_def RtpHeader_deSerialize_def assertRtpPacketLength_def get_field_def getBit_byte
      readUIntBE_def buf_slice_def parse_extensions_def one_byte_loop.simps ExtensionProfiles_OneByte_def new_RtpHeader_def
      applyRtpPaddingSize_def Let_def)

text \<open>A media packet wrapped into a retransmission packet is restored by unwrapping with the
  original payload type and source: sequence number, timestamp, marker and payload are those of
  the original (contributing sources and extensions are not restored).\<close>

theorem rtx_roundtrip:
  assumes "u16_ok (sequenceNumber (header p))"
  shows "rbind (wrapRtx p pt seq src) (\<lambda>r. unwrapRtx r (payloadType (header p)) (ssrc (header p))) =
    Inr \<lparr>header = new_RtpHeader\<lparr>payloadType := payloadType (header p), marker := marker (header p),
        sequenceNumber := sequenceNumber (header p), timestamp := timestamp (header p), ssrc := ssrc (header p)\<rparr>,
      payload = payload p\<rparr>"
  using assms by (simp add: wrapRtx_def unwrapRtx_def wire_simps)

theorem rtx_roundtrip_witness:
  "rbind (wrapRtx sample_packet 97 5 8) (\<lambda>r. unwrapRtx r 96 7) =
    Inr \<lparr>header = new_RtpHeader\<lparr>payloadType := 96, marker := True, sequenceNumber := 65535, timestamp := 4294967295, ssrc := 7\<rparr>,
      payload = [1, 2, 3]\<rparr>"
proof -
  have "u16_ok (sequenceNumber (header sample_packet))" by (simp add: sample_packet_def u16_ok_def)
  from rtx_roundtrip [OF this, of 97 5 8] show ?thesis by (simp add: sample_packet_def)
qed

text \<open>Continuity of the output numbering.  After a scheduled change of source the first
  packet continues the output exactly (sequence number plus one, timestamp plus the step),
  whatever the numbers of the new source; from then on the output moves by exactly as much as
  the input does, modulo the width, until the next change.\<close>

theorem continuity_across_sources:
  assumes "rc_sequenceNumber c = Some sn" "rc_timestamp c = Some ts" "rc_pending c"
    and "rc_assign h i t c = (rw, h1, c1)" "rc_assign g j u c1 = (rw', h2, c2)"
  shows "rw \<and> sequenceNumber h1 = uint16Add sn 1 \<and> timestamp h1 = uint32Add ts (pendingTimestampStep c) \<and>
    \<not> rw' \<and> sequenceNumber h2 = uint16Add (sequenceNumber h1) (j - i) \<and> timestamp h2 = uint32Add (timestamp h1) (u - t)"
proof -
  have m: "(a + x mod k - b) mod k = (a + x - b) mod k" for a b x k :: int
    by (metis mod_add_right_eq mod_diff_left_eq)
  show ?thesis
    using assms unfolding uint16Add_mod uint32Add_mod
    by (auto simp: rc_assign_def Let_def uint16Add_mod uint32Add_mod mod_simps algebra_simps m)
qed

theorem continuity_across_sources_witness:
  "let c = rc_schedule 3000 (snd (snd (rc_assign new_RtpHeader 65535 4294967295 new_RtpContinuity)));
       r1 = rc_assign new_RtpHeader 17 900 c; r2 = rc_assign new_RtpHeader 19 1000 (snd (snd r1))
   in sequenceNumber (fst (snd r1)) = 0 \<and> timestamp (fst (snd r1)) = 2999 \<and>
      sequenceNumber (fst (snd r2)) = 2 \<and> timestamp (fst (snd r2)) = 3099"
proof -
  define c where "c = rc_schedule 3000 (snd (snd (rc_assign new_RtpHeader 65535 4294967295 new_RtpContinuity)))"
  define r1 where "r1 = rc_assign new_RtpHeader 17 900 c"
  define r2 where "r2 = rc_assign new_RtpHeader 19 1000 (snd (snd r1))"
  have c: "rc_sequenceNumber c = Some 65535" "rc_timestamp c = Some 4294967295" "rc_pending c" "pendingTimestampStep c = 3000"
    by (simp_all add: c_def rc_schedule_def rc_assign_def new_RtpContinuity_def uint16Add_mod uint32Add_mod)
  show ?thesis
    using continuity_across_sources [OF c(1-3), of new_RtpHeader 17 900 "fst r1" "fst (snd r1)" "snd (snd r1)" new_RtpHeader 19 1000
        "fst r2" "fst (snd r2)" "snd (snd r2)"]
    unfolding Let_def c_def [symmetric] r1_def [symmetric] r2_def [symmetric]
    by (simp add: c(4) r1_def r2_def uint16Add_mod uint32Add_mod)
qed

end
