(* ===== verification/Srtp_Context.thy ===== *)
theory Srtp_Context
  imports Rtp_Header
begin

unbundle bit_operations_syntax

text \<open>
  The SRTP context (\<^verbatim>\<open>packages/rtp/src/srtp/context/context.ts\<close>): key derivation, the state kept
  for each synchronization source, and the estimation of the rollover counter (ROC) that
  extends the 16-bit RTP sequence number to a 48-bit packet index.  Proved: on a stream whose
  packets arrive at most half a cycle from the highest index received, the estimate is the
  true rollover counter and the state is the highest index, whatever the order, the losses
  and the duplicates.

  The block cipher, the stream cipher, the AEAD and the HMAC of the \<^verbatim>\<open>crypto\<close> module are fields
  of a record of parameters.  A failed \<^verbatim>\<open>decipher.final()\<close> is \<open>None\<close>.
\<close>

section \<open>Parameters and errors\<close>

record srtp_crypto =
  aes128EcbEncrypt :: "buffer \<Rightarrow> buffer \<Rightarrow> buffer"
  ctr_encrypt :: "buffer \<Rightarrow> buffer \<Rightarrow> buffer \<Rightarrow> buffer"
  ctr_decrypt :: "buffer \<Rightarrow> buffer \<Rightarrow> buffer \<Rightarrow> buffer"
  sha1_hmac :: "buffer \<Rightarrow> buffer \<Rightarrow> buffer"
  gcm_encrypt :: "buffer \<Rightarrow> buffer \<Rightarrow> buffer \<Rightarrow> buffer \<Rightarrow> buffer \<times> buffer"
  gcm_decrypt :: "buffer \<Rightarrow> buffer \<Rightarrow> buffer \<Rightarrow> buffer \<Rightarrow> buffer \<Rightarrow> buffer option"

text \<open>What the code relies on: the ciphers keep the length and decryption inverts encryption,
  the GCM tag has 16 bytes, and an HMAC-SHA1 digest has 20.\<close>

definition crypto_ok :: "srtp_crypto \<Rightarrow> bool" where
  "crypto_ok cr \<longleftrightarrow>
     (\<forall>k iv d. length (ctr_encrypt cr k iv d) = length d \<and> ctr_decrypt cr k iv (ctr_encrypt cr k iv d) = d) \<and>
     (\<forall>k d. length (sha1_hmac cr k d) = 20) \<and>
     (\<forall>k iv a d. length (fst (gcm_encrypt cr k iv a d)) = length d \<and> length (snd (gcm_encrypt cr k iv a d)) = 16 \<and>
        gcm_decrypt cr k iv a (fst (gcm_encrypt cr k iv a d)) (snd (gcm_encrypt cr k iv a d)) = Some d)"

datatype srtp_error = SrtpAuthenticationError string | SrtpRolloverCounterOverflowError int | JsError js_error

type_synonym 'a srtp_result = "srtp_error + 'a"

definition js :: "'a result \<Rightarrow> 'a srtp_result" where
  "js r = (case r of Inl e \<Rightarrow> Inl (JsError e) | Inr x \<Rightarrow> Inr x)"

lemma js_simps [simp]: "js (Inr x) = Inr x" "js (Inl e) = Inl (JsError e)"
  by (simp_all add: js_def)

datatype srtp_profile = ProtectionProfileAes128CmHmacSha1_80 | ProtectionProfileAeadAes128Gcm

definition keyLength :: "srtp_profile \<Rightarrow> nat" where
  "keyLength p = (case p of ProtectionProfileAes128CmHmacSha1_80 \<Rightarrow> 16 | ProtectionProfileAeadAes128Gcm \<Rightarrow> 16)"

definition saltLength :: "srtp_profile \<Rightarrow> nat" where
  "saltLength p = (case p of ProtectionProfileAes128CmHmacSha1_80 \<Rightarrow> 14 | ProtectionProfileAeadAes128Gcm \<Rightarrow> 12)"

section \<open>The context\<close>

record srtp_ssrc_state =
  st_ssrc :: int
  rolloverCounter :: int
  rolloverHasProcessed :: bool
  lastSequenceNumber :: int

record srtcp_ssrc_state =
  srtcpIndex :: int
  srtcp_ssrc :: int

record srtp_context =
  masterKey :: buffer
  masterSalt :: buffer
  profile :: srtp_profile
  srtpSSRCStates :: "int \<rightharpoonup> srtp_ssrc_state"
  srtpSessionKey :: buffer
  srtpSessionSalt :: buffer
  srtpSessionAuthTag :: buffer
  srtcpSSRCStates :: "int \<rightharpoonup> srtcp_ssrc_state"
  srtcpSessionKey :: buffer
  srtcpSessionSalt :: buffer
  srtcpSessionAuthTag :: buffer

text \<open>The label of the derivation is combined with the last seven bytes of the salt.\<close>

definition labelAndIndexOverKdr :: "int \<Rightarrow> buffer" where
  "labelAndIndexOverKdr label = [word_of_int label, 0, 0, 0, 0, 0, 0]"

definition xor_tail :: "buffer \<Rightarrow> buffer \<Rightarrow> buffer" where
  "xor_tail key lab =
     take (length key - length lab) key @ map2 (\<lambda>x y. x XOR y) (drop (length key - length lab) key) lab"

definition generateSessionKey :: "srtp_crypto \<Rightarrow> buffer \<Rightarrow> buffer \<Rightarrow> int \<Rightarrow> buffer" where
  "generateSessionKey cr mk salt label =
     (let sessionKey = xor_tail salt (labelAndIndexOverKdr label) @ [0, 0] in aes128EcbEncrypt cr mk sessionKey)"

definition generateSessionSalt :: "srtp_crypto \<Rightarrow> buffer \<Rightarrow> buffer \<Rightarrow> int \<Rightarrow> buffer" where
  "generateSessionSalt cr mk salt label =
     (let sessionSalt = xor_tail salt (labelAndIndexOverKdr label) @ [0, 0]
      in buf_slice (aes128EcbEncrypt cr mk sessionSalt) 0 14)"

definition generateSessionAuthTag :: "srtp_crypto \<Rightarrow> buffer \<Rightarrow> buffer \<Rightarrow> int \<Rightarrow> buffer" where
  "generateSessionAuthTag cr mk salt label =
     (let sessionAuthTag = xor_tail salt (labelAndIndexOverKdr label);
          firstRun = aes128EcbEncrypt cr mk (sessionAuthTag @ [0, 0]);
          secondRun = aes128EcbEncrypt cr mk (sessionAuthTag @ [0, 1])
      in firstRun @ buf_slice secondRun 0 4)"

definition new_Context :: "srtp_crypto \<Rightarrow> buffer \<Rightarrow> buffer \<Rightarrow> srtp_profile \<Rightarrow> srtp_context" where
  "new_Context cr mk salt0 prof =
     (let diff = 14 - int (length salt0);
          salt = (if diff > 0 then salt0 @ buf_alloc (nat diff) else salt0)
      in \<lparr>masterKey = mk, masterSalt = salt, profile = prof, srtpSSRCStates = Map.empty,
          srtpSessionKey = generateSessionKey cr mk salt 0,
          srtpSessionSalt = generateSessionSalt cr mk salt 2,
          srtpSessionAuthTag = generateSessionAuthTag cr mk salt 1,
          srtcpSSRCStates = Map.empty,
          srtcpSessionKey = generateSessionKey cr mk salt 3,
          srtcpSessionSalt = generateSessionSalt cr mk salt 5,
          srtcpSessionAuthTag = generateSessionAuthTag cr mk salt 4\<rparr>)"

definition new_ssrc_state :: "int \<Rightarrow> srtp_ssrc_state" where
  "new_ssrc_state src = \<lparr>st_ssrc = src, rolloverCounter = 0, rolloverHasProcessed = False, lastSequenceNumber = 0\<rparr>"

definition getSrtpSsrcState :: "int \<Rightarrow> srtp_context \<Rightarrow> srtp_ssrc_state \<times> srtp_context" where
  "getSrtpSsrcState src c =
     (case srtpSSRCStates c src of
        Some s \<Rightarrow> (s, c)
      | None \<Rightarrow> let s = new_ssrc_state src in (s, c\<lparr>srtpSSRCStates := (srtpSSRCStates c)(src \<mapsto> s)\<rparr>))"

definition getSrtcpSsrcState :: "int \<Rightarrow> srtp_context \<Rightarrow> srtcp_ssrc_state \<times> srtp_context" where
  "getSrtcpSsrcState src c =
     (case srtcpSSRCStates c src of
        Some s \<Rightarrow> (s, c)
      | None \<Rightarrow> let s = \<lparr>srtcpIndex = 0, srtcp_ssrc = src\<rparr> in (s, c\<lparr>srtcpSSRCStates := (srtcpSSRCStates c)(src \<mapsto> s)\<rparr>))"

section \<open>The rollover counter\<close>

definition SequenceNumberCycle :: int where "SequenceNumberCycle = 0x10000"
definition HalfSequenceNumberCycle :: int where "HalfSequenceNumberCycle = 0x8000"
definition MaxRolloverCounter :: int where "MaxRolloverCounter = 0xffffffff"

definition packetIndex :: "int \<Rightarrow> int \<Rightarrow> int" where
  "packetIndex roc seq = roc * SequenceNumberCycle + seq"

definition guessRolloverCounter :: "int \<Rightarrow> srtp_ssrc_state \<Rightarrow> int" where
  "guessRolloverCounter seq s =
     (if \<not> rolloverHasProcessed s then 0
      else if lastSequenceNumber s < HalfSequenceNumberCycle
      then if seq - lastSequenceNumber s > HalfSequenceNumberCycle then rolloverCounter s - 1 else rolloverCounter s
      else if lastSequenceNumber s - HalfSequenceNumberCycle > seq then rolloverCounter s + 1 else rolloverCounter s)"

definition estimateRolloverCounter :: "int \<Rightarrow> srtp_ssrc_state \<Rightarrow> int srtp_result" where
  "estimateRolloverCounter seq s =
     (let roc = guessRolloverCounter seq s
      in if roc < 0 then Inr 0
         else if roc > MaxRolloverCounter then Inl (SrtpRolloverCounterOverflowError (st_ssrc s))
         else Inr roc)"

definition commitPacketIndex :: "int \<Rightarrow> int \<Rightarrow> srtp_ssrc_state \<Rightarrow> srtp_ssrc_state" where
  "commitPacketIndex seq roc s =
     (if \<not> rolloverHasProcessed s
      then s\<lparr>rolloverHasProcessed := True, rolloverCounter := roc, lastSequenceNumber := seq\<rparr>
      else let delta = packetIndex roc seq - packetIndex (rolloverCounter s) (lastSequenceNumber s)
           in if delta > 0 \<and> delta \<le> HalfSequenceNumberCycle
              then s\<lparr>rolloverCounter := roc, lastSequenceNumber := seq\<rparr> else s)"

definition updateRolloverCount :: "int \<Rightarrow> srtp_ssrc_state \<Rightarrow> int srtp_result \<times> srtp_ssrc_state" where
  "updateRolloverCount seq s =
     (case estimateRolloverCounter seq s of
        Inl e \<Rightarrow> (Inl e, s)
      | Inr roc \<Rightarrow> (Inr roc, commitPacketIndex seq roc s))"

definition ctx_generateSrtpAuthTag :: "srtp_crypto \<Rightarrow> srtp_context \<Rightarrow> buffer \<Rightarrow> int \<Rightarrow> buffer result" where
  "ctx_generateSrtpAuthTag cr c buf roc =
     rbind (writeUInt32BE roc) (\<lambda>rocRaw. Inr (buf_slice (sha1_hmac cr (srtpSessionAuthTag c) (buf @ rocRaw)) 0 10))"

definition srtcp_index :: "int \<Rightarrow> srtp_context \<Rightarrow> int" where
  "srtcp_index src c = (case srtcpSSRCStates c src of None \<Rightarrow> 0 | Some s \<Rightarrow> srtcpIndex s)"

definition setIndex :: "int \<Rightarrow> int \<Rightarrow> srtp_context \<Rightarrow> srtp_context" where
  "setIndex src index c =
     (let (s, c) = getSrtcpSsrcState src c
      in c\<lparr>srtcpSSRCStates := (srtcpSSRCStates c)(src \<mapsto> s\<lparr>srtcpIndex := js_rem index 0x7fffffff\<rparr>)\<rparr>)"

section \<open>Tracking the packet index\<close>

text \<open>The state that stands for the highest index \<open>m\<close>.\<close>

definition state_at :: "srtp_ssrc_state \<Rightarrow> int \<Rightarrow> bool" where
  "state_at s m \<longleftrightarrow> rolloverHasProcessed s \<and> rolloverCounter s = m div 65536 \<and> lastSequenceNumber s = m mod 65536"

lemma packetIndex_div_mod: "packetIndex (m div 65536) (m mod 65536) = m"
  by (simp add: packetIndex_def SequenceNumberCycle_def)

lemma guess_true:
  assumes "state_at s m" "\<bar>i - m\<bar> < 32768"
  shows "guessRolloverCounter (i mod 65536) s = i div 65536"
proof -
  define q r where "q = m div 65536" and "r = m mod 65536"
  define q' r' where "q' = i div 65536" and "r' = i mod 65536"
  have m: "m = q * 65536 + r" "0 \<le> r" "r < 65536" and i: "i = q' * 65536 + r'" "0 \<le> r'" "r' < 65536"
    by (simp_all add: q_def r_def q'_def r'_def)
  have d: "-32768 < (q' - q) * 65536 + (r' - r)" "(q' - q) * 65536 + (r' - r) < 32768"
    using assms(2) m(1) i(1) by (auto simp: algebra_simps abs_less_iff)
  have "q' - q \<in> {-1, 0, 1}" using d m i by auto
  then consider "q' = q - 1" | "q' = q" | "q' = q + 1" by auto
  then show ?thesis
    using assms(1) d m(2,3) i(2,3)
    by cases (auto simp: guessRolloverCounter_def HalfSequenceNumberCycle_def state_at_def q_def [symmetric] r_def [symmetric]
        q'_def [symmetric] r'_def [symmetric])
qed

lemma estimate_true:
  assumes "state_at s m" "\<bar>i - m\<bar> < 32768" "0 \<le> i" "i < 2 ^ 48"
  shows "estimateRolloverCounter (i mod 65536) s = Inr (i div 65536)"
proof -
  have "0 \<le> i div 65536" "i div 65536 \<le> 4294967295" using assms(3,4) by auto
  then show ?thesis
    by (simp add: estimateRolloverCounter_def guess_true [OF assms(1,2)] MaxRolloverCounter_def)
qed

lemma commit_max:
  assumes "state_at s m" "\<bar>i - m\<bar> < 32768"
  shows "state_at (commitPacketIndex (i mod 65536) (i div 65536) s) (max m i)"
  using assms
  by (auto simp: commitPacketIndex_def state_at_def packetIndex_div_mod Let_def HalfSequenceNumberCycle_def max_def)

lemma estimate_first: "\<not> rolloverHasProcessed s \<Longrightarrow> estimateRolloverCounter seq s = Inr 0"
  by (simp add: estimateRolloverCounter_def guessRolloverCounter_def MaxRolloverCounter_def)

lemma commit_first:
  "\<not> rolloverHasProcessed s \<Longrightarrow> 0 \<le> i \<Longrightarrow> i < 65536 \<Longrightarrow> state_at (commitPacketIndex i 0 s) i"
  by (simp add: commitPacketIndex_def state_at_def)

lemma st_ssrc_commit [simp]: "st_ssrc (commitPacketIndex seq roc s) = st_ssrc s"
  by (simp add: commitPacketIndex_def Let_def)

text \<open>A stream in which every packet is close to the highest index before it.\<close>

fun near :: "int \<Rightarrow> int list \<Rightarrow> bool" where
  "near m [] = True"
| "near m (i # is) \<longleftrightarrow> \<bar>i - m\<bar> < 32768 \<and> 0 \<le> i \<and> i < 2 ^ 48 \<and> near (max m i) is"

fun roc_run :: "int list \<Rightarrow> srtp_ssrc_state \<Rightarrow> int srtp_result list \<times> srtp_ssrc_state" where
  "roc_run [] s = ([], s)"
| "roc_run (seq # seqs) s =
     (let (r, s) = updateRolloverCount seq s; (rs, s) = roc_run seqs s in (r # rs, s))"

lemma roc_run_true:
  "state_at s m \<Longrightarrow> near m is \<Longrightarrow>
     fst (roc_run (map (\<lambda>i. i mod 65536) is) s) = map (\<lambda>i. Inr (i div 65536)) is \<and>
     state_at (snd (roc_run (map (\<lambda>i. i mod 65536) is) s)) (fold max is m)"
proof (induction "is" arbitrary: s m)
  case (Cons i "is")
  have n: "\<bar>i - m\<bar> < 32768" "0 \<le> i" "i < 2 ^ 48" "near (max m i) is" using Cons.prems(2) by simp_all
  have u: "updateRolloverCount (i mod 65536) s = (Inr (i div 65536), commitPacketIndex (i mod 65536) (i div 65536) s)"
    by (simp add: updateRolloverCount_def estimate_true [OF Cons.prems(1) n(1-3)])
  from Cons.IH [OF commit_max [OF Cons.prems(1) n(1)] n(4)] show ?case
    by (simp add: u split_def Let_def max.commute)
qed simp

text \<open>C26: the packet index is tracked exactly.  For a stream that starts in the first cycle and
  whose packets arrive in any order, with losses and duplicates, each less than half a cycle
  (2^15) from the highest index before it, the rollover counter computed for every packet is
  the true one and the state ends at the highest index.\<close>

theorem rollover_counter_correct:
  assumes "\<not> rolloverHasProcessed s" "0 \<le> i" "i < 65536" "near i is"
  shows "fst (roc_run (map (\<lambda>i. i mod 65536) (i # is)) s) = map (\<lambda>i. Inr (i div 65536)) (i # is) \<and>
    state_at (snd (roc_run (map (\<lambda>i. i mod 65536) (i # is)) s)) (fold max is i)"
proof -
  have u: "updateRolloverCount i s = (Inr 0, commitPacketIndex i 0 s)" "i mod 65536 = i"
    using assms by (simp_all add: updateRolloverCount_def estimate_first)
  have "i div 65536 = 0" using assms by simp
  with roc_run_true [OF commit_first [OF assms(1-3)] assms(4)] show ?thesis
    by (simp add: u split_def Let_def)
qed

theorem rollover_counter_correct_witness:
  "fst (roc_run [65000, 2, 65530, 1] (new_ssrc_state 7)) = [Inr 0, Inr 1, Inr 0, Inr 1]"
proof -
  have "\<not> rolloverHasProcessed (new_ssrc_state 7)" by (simp add: new_ssrc_state_def)
  moreover have "near 65000 [65538, 65530, 65537]" by simp
  ultimately have "fst (roc_run (map (\<lambda>i. i mod 65536) [65000, 65538, 65530, 65537]) (new_ssrc_state 7)) =
      map (\<lambda>i. Inr (i div 65536)) [65000, 65538, 65530, 65537]"
    using rollover_counter_correct [of "new_ssrc_state 7" 65000 "[65538, 65530, 65537]"] by simp
  then show ?thesis by simp
qed

end
