(* ===== verification/Rtcp_Header.thy ===== *)
theory Rtcp_Header
  imports Rtp_Header
begin

text \<open>
  The common header of RTCP packets (\<^verbatim>\<open>packages/rtp/src/rtcp/header.ts\<close>) and its round trip.
\<close>

definition RTCP_HEADER_SIZE :: nat where "RTCP_HEADER_SIZE = 4"

record rtcp_header =
  rtcp_version :: int
  rtcp_padding :: bool
  rtcp_count :: int
  rtcp_type :: int
  rtcp_length :: int

definition v_p_rc :: "rtcp_header \<Rightarrow> bit_writer" where
  "v_p_rc h =
     (let w = bw_set 2 0 (rtcp_version h) (BitWriter 8);
          w = (if rtcp_padding h then bw_set 1 2 1 w else w)
      in bw_set 5 3 (rtcp_count h) w)"

definition RtcpHeader_serialize :: "rtcp_header \<Rightarrow> buffer result" where
  "RtcpHeader_serialize h = bufferWriter [1, 1, 2] [bw_number (v_p_rc h), rtcp_type h, rtcp_length h]"

definition RtcpHeader_serialize_packet :: "int \<Rightarrow> int \<Rightarrow> buffer \<Rightarrow> int \<Rightarrow> buffer result" where
  "RtcpHeader_serialize_packet type count pl len =
     (let h = \<lparr>rtcp_version = 2, rtcp_padding = False, rtcp_count = count, rtcp_type = type, rtcp_length = len\<rparr>
      in rbind (RtcpHeader_serialize h) (\<lambda>buf. Inr (buf @ pl)))"

definition num_field :: "int \<Rightarrow> nat \<Rightarrow> nat \<Rightarrow> nat result" where
  "num_field v s n =
     rbind (getBit (nat v) s n) (\<lambda>r. case r of Some x \<Rightarrow> Inr x | None \<Rightarrow> Inl (TypeError ''NaN''))"

definition RtcpHeader_deSerialize :: "buffer \<Rightarrow> rtcp_header result" where
  "RtcpHeader_deSerialize buf =
     rbind (bufferReader buf [1, 1, 2]) (\<lambda>vs.
     rbind (num_field (vs ! 0) 0 2) (\<lambda>v.
     rbind (num_field (vs ! 0) 2 1) (\<lambda>p.
     rbind (num_field (vs ! 0) 3 5) (\<lambda>c.
     Inr \<lparr>rtcp_version = int v, rtcp_padding = p > 0, rtcp_count = int c, rtcp_type = vs ! 1, rtcp_length = vs ! 2\<rparr>))))"

section \<open>Round trip\<close>

definition valid_rtcp_header :: "rtcp_header \<Rightarrow> bool" where
  "valid_rtcp_header h \<longleftrightarrow> 0 \<le> rtcp_version h \<and> rtcp_version h < 4 \<and> 0 \<le> rtcp_count h \<and> rtcp_count h < 32 \<and>
     u8_ok (rtcp_type h) \<and> u16_ok (rtcp_length h)"

lemma v_p_rc_bits:
  shows "bw_bitLength (v_p_rc h) = 8"
    "bit (bw_value (v_p_rc h)) j \<longleftrightarrow> (j = 5 \<and> rtcp_padding h) \<or>
       (6 \<le> j \<and> j < 8 \<and> bit (rtcp_version h) (j - 6)) \<or> (j < 5 \<and> bit (rtcp_count h) j)"
proof -
  show "bw_bitLength (v_p_rc h) = 8" by (simp add: v_p_rc_def Let_def BitWriter_def)
  have one: "bit (1::int) k \<longleftrightarrow> k = 0" for k by (simp add: bit_1_iff)
  show "bit (bw_value (v_p_rc h)) j \<longleftrightarrow> (j = 5 \<and> rtcp_padding h) \<or>
       (6 \<le> j \<and> j < 8 \<and> bit (rtcp_version h) (j - 6)) \<or> (j < 5 \<and> bit (rtcp_count h) j)"
    by (auto simp: v_p_rc_def Let_def bw8 one)
qed

lemma num_field_byte:
  "0 \<le> v \<Longrightarrow> v < 256 \<Longrightarrow> 0 < n \<Longrightarrow> s + n \<le> 8 \<Longrightarrow> num_field v s n = Inr (nat v div 2 ^ (8 - s - n) mod 2 ^ n)"
  using getBit_byte [of "nat v" n s] by (simp add: num_field_def)

lemma rtcp_header_wire:
  assumes "valid_rtcp_header h"
  shows "RtcpHeader_serialize h = Inr (fields_bytes [1, 1, 2] [bw_number (v_p_rc h), rtcp_type h, rtcp_length h])"
    and "RtcpHeader_deSerialize (fields_bytes [1, 1, 2] [bw_number (v_p_rc h), rtcp_type h, rtcp_length h] @ r) = Inr h"
proof -
  let ?V = "bw_value (v_p_rc h)"
  have b8: "bit ?V j \<Longrightarrow> j < 8" for j using v_p_rc_bits(2) [of h j] by auto
  note n = bw_number_byte [OF v_p_rc_bits(1) b8]
  have ok: "list_all2 field_ok [1, 1, 2] [bw_number (v_p_rc h), rtcp_type h, rtcp_length h]"
    using assms n(1,2) by (simp add: field_ok_def int_size_ok_def valid_rtcp_header_def u8_ok_def u16_ok_def)
  then show "RtcpHeader_serialize h = Inr (fields_bytes [1, 1, 2] [bw_number (v_p_rc h), rtcp_type h, rtcp_length h])"
    unfolding RtcpHeader_serialize_def by (rule bufferWriter_ok)
  have b1: "bit (of_bool b :: int) k \<longleftrightarrow> b \<and> k = 0" for b k by (cases b) (auto simp: bit_1_iff)
  have 1: "int (unat ?V div 2 ^ 6 mod 2 ^ 2) = rtcp_version h"
    using assms by (intro bit_field_eq) (auto simp: v_p_rc_bits valid_rtcp_header_def)
  have 2: "int (unat ?V div 2 ^ 5 mod 2 ^ 1) = of_bool (rtcp_padding h)"
    by (intro bit_field_eq) (auto simp: v_p_rc_bits b1)
  have 3: "int (unat ?V div 2 ^ 0 mod 2 ^ 5) = rtcp_count h"
    using assms by (intro bit_field_eq) (auto simp: v_p_rc_bits valid_rtcp_header_def)
  have u: "nat (uint ?V) = unat ?V" by (rule unat_eq_nat_uint [symmetric])
  have ob: "(x > 0) = b" if "int x = of_bool b" for x b using that by (cases b) auto
  show "RtcpHeader_deSerialize (fields_bytes [1, 1, 2] [bw_number (v_p_rc h), rtcp_type h, rtcp_length h] @ r) = Inr h"
    unfolding RtcpHeader_deSerialize_def bufferReader_bytes [OF ok]
    using n(1,2) 1 ob [OF 2] 3 by (simp add: num_field_byte u)
qed

text \<open>A report header whose fields fit serializes to four bytes and parses back to itself,
  whatever follows it in the packet.\<close>

theorem rtcp_header_roundtrip:
  assumes "valid_rtcp_header h"
  shows "\<exists>b. RtcpHeader_serialize h = Inr b \<and> length b = RTCP_HEADER_SIZE \<and> RtcpHeader_deSerialize (b @ r) = Inr h"
  using rtcp_header_wire(1) [OF assms] rtcp_header_wire(2) [OF assms, of r]
  by (intro exI [of _ "fields_bytes [1, 1, 2] [bw_number (v_p_rc h), rtcp_type h, rtcp_length h]"])
    (simp add: RTCP_HEADER_SIZE_def length_fields_bytes)

theorem rtcp_header_roundtrip_witness:
  "\<exists>b. RtcpHeader_serialize \<lparr>rtcp_version = 2, rtcp_padding = True, rtcp_count = 31, rtcp_type = 200, rtcp_length = 6\<rparr> = Inr b \<and>
     RtcpHeader_deSerialize (b @ [1, 2]) = Inr \<lparr>rtcp_version = 2, rtcp_padding = True, rtcp_count = 31, rtcp_type = 200, rtcp_length = 6\<rparr>"
proof -
  have "valid_rtcp_header \<lparr>rtcp_version = 2, rtcp_padding = True, rtcp_count = 31, rtcp_type = 200, rtcp_length = 6\<rparr>"
    by (simp add: valid_rtcp_header_def u8_ok_def u16_ok_def)
  from rtcp_header_roundtrip [OF this] show ?thesis by blast
qed

end
