(* ===== verification/Srtp_Cipher.thy ===== *)
theory Srtp_Cipher
  imports Srtp_Context Rtcp_Header
begin

unbundle bit_operations_syntax

text \<open>
  The two SRTP ciphers (\<^verbatim>\<open>packages/rtp/src/srtp/cipher/ctr.ts\<close>, \<^verbatim>\<open>gcm.ts\<close>) and the header handling
  around them (\<^verbatim>\<open>packet.ts\<close>).  Proved: distinct packets use distinct counter blocks and
  initialization vectors; decrypting what was encrypted with the same rollover counter (or, for
  RTCP, the index sent along) returns the packet; and a packet that fails authentication is
  refused.
\<close>

section \<open>Headers before and after authentication\<close>

definition minRtpHeaderSize :: nat where "minRtpHeaderSize = 12"
definition minRtcpPacketSize :: nat where "minRtcpPacketSize = 8"
definition srtcpIndexSize :: nat where "srtcpIndexSize = 4"
definition ctr_authTagLength :: nat where "ctr_authTagLength = 10"
definition gcm_authTagLength :: nat where "gcm_authTagLength = 16"

definition srtp_message :: string where "srtp_message = ''Failed to authenticate SRTP packet''"
definition srtcp_message :: string where "srtcp_message = ''Failed to authenticate SRTCP packet''"

definition assertAuthenticatedPacketLength :: "bool \<Rightarrow> string \<Rightarrow> unit srtp_result" where
  "assertAuthenticatedPacketLength condition message =
     (if \<not> condition then Inl (SrtpAuthenticationError message) else Inr ())"

definition wrapAuthenticationError :: "'a result \<Rightarrow> string \<Rightarrow> 'a srtp_result" where
  "wrapAuthenticationError r message = (case r of Inl _ \<Rightarrow> Inl (SrtpAuthenticationError message) | Inr x \<Rightarrow> Inr x)"

definition parseSrtpRtpHeader :: "buffer \<Rightarrow> nat \<Rightarrow> rtp_header srtp_result" where
  "parseSrtpRtpHeader packet authTagLength =
     (let authTagOffset = length packet - authTagLength
      in rbind (assertAuthenticatedPacketLength (length packet \<ge> minRtpHeaderSize + authTagLength) srtp_message) (\<lambda>_.
         rbind (wrapAuthenticationError (RtpHeader_deSerialize (buf_slice packet 0 authTagOffset) False) srtp_message) (\<lambda>h.
         let h = h\<lparr>paddingSize := 0\<rparr>
         in rbind (assertAuthenticatedPacketLength
                (payloadOffset h \<ge> minRtpHeaderSize \<and> payloadOffset h \<le> authTagOffset) srtp_message) (\<lambda>_.
            Inr h))))"

definition parseSrtcpHeader :: "buffer \<Rightarrow> nat \<Rightarrow> nat \<Rightarrow> rtcp_header srtp_result" where
  "parseSrtcpHeader packet authTagLength indexSize =
     rbind (assertAuthenticatedPacketLength (length packet \<ge> minRtcpPacketSize + authTagLength + indexSize) srtcp_message) (\<lambda>_.
     wrapAuthenticationError (RtcpHeader_deSerialize (buf_slice packet 0 RTCP_HEADER_SIZE)) srtcp_message)"

definition finalizeSrtpRtpHeader :: "rtp_header \<Rightarrow> buffer \<Rightarrow> rtp_header srtp_result" where
  "finalizeSrtpRtpHeader h packet =
     (if \<not> padding h then Inr (h\<lparr>paddingSize := 0\<rparr>)
      else rbind (assertAuthenticatedPacketLength (length packet > payloadOffset h) srtp_message) (\<lambda>_.
           let n = uint (packet ! (length packet - 1))
           in rbind (assertAuthenticatedPacketLength (n > 0 \<and> n \<le> int (length packet) - int (payloadOffset h)) srtp_message) (\<lambda>_.
              Inr (h\<lparr>paddingSize := n\<rparr>))))"

section \<open>Counter mode with HMAC\<close>

definition xor_prefix :: "buffer \<Rightarrow> buffer \<Rightarrow> buffer" where
  "xor_prefix b salt = map (\<lambda>i. b ! i XOR (if i < length salt then salt ! i else 0)) [0..<length b]"

definition generateCounter :: "int \<Rightarrow> int \<Rightarrow> int \<Rightarrow> buffer \<Rightarrow> buffer result" where
  "generateCounter seq roc src sessionSalt =
     rbind (buf_writeUInt 4 (buf_alloc 16) 4 src) (\<lambda>c.
     rbind (buf_writeUInt 4 c 8 roc) (\<lambda>c.
     rbind (buf_writeUInt 4 c 12 (push_bit 16 seq)) (\<lambda>c.
     Inr (xor_prefix c sessionSalt))))"

definition generateSrtpAuthTag :: "srtp_crypto \<Rightarrow> srtp_context \<Rightarrow> int \<Rightarrow> buffer list \<Rightarrow> buffer result" where
  "generateSrtpAuthTag cr c roc bufs =
     rbind (writeUInt32BE roc) (\<lambda>rocRaw.
     Inr (buf_slice (sha1_hmac cr (srtpSessionAuthTag c) (concat bufs @ rocRaw)) 0 10))"

definition generateSrtcpAuthTag :: "srtp_crypto \<Rightarrow> srtp_context \<Rightarrow> buffer \<Rightarrow> buffer" where
  "generateSrtcpAuthTag cr c buf = buf_slice (sha1_hmac cr (srtcpSessionAuthTag c) buf) 0 10"

definition assertAuthTag :: "buffer \<Rightarrow> buffer \<Rightarrow> string \<Rightarrow> unit srtp_result" where
  "assertAuthTag actual expected message =
     (if length actual \<noteq> length expected \<or> actual \<noteq> expected then Inl (SrtpAuthenticationError message) else Inr ())"

definition header_bytes :: "rtp_header \<Rightarrow> buffer result" where
  "header_bytes h = rbind (header_serializeSize h) (\<lambda>n. rbind (RtpHeader_serialize n h) (\<lambda>(b, _). Inr b))"

definition ctr_encryptRtp :: "srtp_crypto \<Rightarrow> srtp_context \<Rightarrow> rtp_header \<Rightarrow> buffer \<Rightarrow> int \<Rightarrow> buffer srtp_result" where
  "ctr_encryptRtp cr c h pl roc =
     rbind (js (header_bytes h)) (\<lambda>headerBuffer.
     rbind (js (generateCounter (sequenceNumber h) roc (ssrc h) (srtpSessionSalt c))) (\<lambda>counter.
     let enc = ctr_encrypt cr (srtpSessionKey c) counter pl
     in rbind (js (generateSrtpAuthTag cr c roc [headerBuffer, enc])) (\<lambda>authTag.
        Inr (headerBuffer @ enc @ authTag))))"

definition ctr_decryptRtp ::
  "srtp_crypto \<Rightarrow> srtp_context \<Rightarrow> buffer \<Rightarrow> int \<Rightarrow> rtp_header \<Rightarrow> (buffer \<times> rtp_header) srtp_result" where
  "ctr_decryptRtp cr c cipherText roc h =
     (let authTagOffset = length cipherText - ctr_authTagLength;
          encryptedPacket = buf_slice cipherText 0 authTagOffset;
          actualAuthTag = drop authTagOffset cipherText
      in rbind (js (generateSrtpAuthTag cr c roc
                [buf_slice encryptedPacket 0 (payloadOffset h), drop (payloadOffset h) encryptedPacket])) (\<lambda>expectedAuthTag.
         rbind (assertAuthTag actualAuthTag expectedAuthTag srtp_message) (\<lambda>_.
         rbind (js (generateCounter (sequenceNumber h) roc (ssrc h) (srtpSessionSalt c))) (\<lambda>counter.
         let pl = drop (payloadOffset h) encryptedPacket;
             buf = ctr_decrypt cr (srtpSessionKey c) counter pl;
             dst = buf_slice encryptedPacket 0 (payloadOffset h) @ buf
         in rbind (finalizeSrtpRtpHeader h dst) (\<lambda>h. Inr (dst, h))))))"

text \<open>\<^verbatim>\<open>srtcpIndex >> 16\<close> is an arithmetic shift of the 32-bit value.\<close>

definition js_shr :: "int \<Rightarrow> nat \<Rightarrow> int" where
  "js_shr v n = sint (signed_drop_bit n (word_of_int v :: 32 word))"

definition set_top_bit :: "buffer \<Rightarrow> nat \<Rightarrow> buffer" where
  "set_top_bit b i = b[i := b ! i OR 0x80]"

definition ctr_encryptRTCP :: "srtp_crypto \<Rightarrow> srtp_context \<Rightarrow> buffer \<Rightarrow> int \<Rightarrow> buffer srtp_result" where
  "ctr_encryptRTCP cr c rtcpPacket index =
     (let out = rtcpPacket
      in rbind (js (readUInt32BE out 4)) (\<lambda>src.
         rbind (js (generateCounter (index AND 0xffff) (js_shr index 16) src (srtcpSessionSalt c))) (\<lambda>counter.
         let buf = ctr_encrypt cr (srtcpSessionKey c) counter (drop 8 out);
             out = buf_copy out 8 buf @ buf_alloc 4
         in rbind (js (buf_writeUInt 4 out (length out - 4) index)) (\<lambda>out.
            let out = set_top_bit out (length out - 4)
            in Inr (out @ generateSrtcpAuthTag cr c out)))))"

definition ctr_decryptRTCP :: "srtp_crypto \<Rightarrow> srtp_context \<Rightarrow> buffer \<Rightarrow> (buffer \<times> rtcp_header) srtp_result" where
  "ctr_decryptRTCP cr c encrypted =
     rbind (parseSrtcpHeader encrypted ctr_authTagLength srtcpIndexSize) (\<lambda>h.
     let tailOffset = length encrypted - (ctr_authTagLength + srtcpIndexSize);
         authenticatedPortion = buf_slice encrypted 0 (length encrypted - ctr_authTagLength);
         actualTag = drop (length encrypted - ctr_authTagLength) encrypted
     in rbind (assertAuthTag actualTag (generateSrtcpAuthTag cr c authenticatedPortion) srtcp_message) (\<lambda>_.
        let out = buf_slice encrypted 0 tailOffset
        in if drop_bit 7 (encrypted ! tailOffset) = 0 then Inr (out, h)
           else rbind (js (readUInt32BE encrypted tailOffset)) (\<lambda>v.
                let index = v AND 0x7fffffff
                in rbind (js (readUInt32BE encrypted 4)) (\<lambda>src.
                   rbind (js (generateCounter (index AND 0xffff) (js_shr index 16) src (srtcpSessionSalt c))) (\<lambda>counter.
                   let buf = ctr_decrypt cr (srtcpSessionKey c) counter (drop 8 out)
                   in Inr (buf_copy out 8 buf, h))))))"

section \<open>AEAD\<close>

text \<open>The writers reuse one buffer, which is written from the first byte to the last on every
  call, so that a call starts from a zero buffer as far as its result is concerned.\<close>

definition rtpInitializationVector :: "srtp_context \<Rightarrow> rtp_header \<Rightarrow> int \<Rightarrow> buffer result" where
  "rtpInitializationVector c h roc =
     rbind (bufferWriter [2, 4, 4, 2] [0, ssrc h, roc, sequenceNumber h]) (\<lambda>iv. Inr (xor_prefix iv (srtpSessionSalt c)))"

definition rtcpInitializationVector :: "srtp_context \<Rightarrow> int \<Rightarrow> int \<Rightarrow> buffer result" where
  "rtcpInitializationVector c src index =
     rbind (bufferWriter [2, 4, 2, 4] [0, src, 0, index]) (\<lambda>iv. Inr (xor_prefix iv (srtcpSessionSalt c)))"

definition rtcpAdditionalAuthenticatedData :: "buffer \<Rightarrow> int \<Rightarrow> buffer result" where
  "rtcpAdditionalAuthenticatedData rtcpPacket index =
     rbind (bufferWriter [4] [index]) (\<lambda>w. Inr (set_top_bit (buf_slice rtcpPacket 0 8 @ w) 8))"

definition gcm_encryptRtp :: "srtp_crypto \<Rightarrow> srtp_context \<Rightarrow> rtp_header \<Rightarrow> buffer \<Rightarrow> int \<Rightarrow> buffer srtp_result" where
  "gcm_encryptRtp cr c h pl roc =
     rbind (js (header_bytes h)) (\<lambda>hdr.
     rbind (js (rtpInitializationVector c h roc)) (\<lambda>iv.
     let (enc, authTag) = gcm_encrypt cr (srtpSessionKey c) iv hdr pl
     in Inr (hdr @ enc @ authTag)))"

definition growBufferSize :: "buffer \<Rightarrow> nat \<Rightarrow> buffer" where
  "growBufferSize buf n = buf_copy (buf_alloc n) 0 buf"

definition gcm_decryptRtp ::
  "srtp_crypto \<Rightarrow> srtp_context \<Rightarrow> buffer \<Rightarrow> int \<Rightarrow> rtp_header \<Rightarrow> (buffer \<times> rtp_header) srtp_result" where
  "gcm_decryptRtp cr c cipherText roc h =
     (let headerBuffer = buf_slice cipherText 0 (payloadOffset h);
          authTagOffset = length cipherText - gcm_authTagLength;
          authTag = drop authTagOffset cipherText;
          dst = growBufferSize [] (length cipherText - gcm_authTagLength);
          dst = buf_copy dst 0 headerBuffer
      in rbind (js (rtpInitializationVector c h roc)) (\<lambda>iv.
         let enc = buf_slice cipherText (payloadOffset h) authTagOffset
         in case gcm_decrypt cr (srtpSessionKey c) iv headerBuffer enc authTag of
              None \<Rightarrow> Inl (SrtpAuthenticationError srtp_message)
            | Some dec \<Rightarrow>
                let dst = buf_copy dst (payloadOffset h) dec
                in rbind (finalizeSrtpRtpHeader h dst) (\<lambda>h. Inr (dst, h))))"

definition gcm_encryptRTCP :: "srtp_crypto \<Rightarrow> srtp_context \<Rightarrow> buffer \<Rightarrow> int \<Rightarrow> buffer srtp_result" where
  "gcm_encryptRTCP cr c rtcpPacket index =
     rbind (js (readUInt32BE rtcpPacket 4)) (\<lambda>src.
     let addPos = length rtcpPacket + gcm_authTagLength;
         dst = growBufferSize [] (addPos + srtcpIndexSize);
         dst = buf_copy dst 0 (buf_slice rtcpPacket 0 8)
     in rbind (js (rtcpInitializationVector c src index)) (\<lambda>iv.
        rbind (js (rtcpAdditionalAuthenticatedData rtcpPacket index)) (\<lambda>aad.
        let (enc, authTag) = gcm_encrypt cr (srtcpSessionKey c) iv aad (drop 8 rtcpPacket);
            dst = buf_copy dst 8 enc;
            dst = buf_copy dst (8 + length enc) authTag
        in Inr (buf_copy dst addPos (buf_slice aad 8 12)))))"

definition gcm_decryptRTCP :: "srtp_crypto \<Rightarrow> srtp_context \<Rightarrow> buffer \<Rightarrow> (buffer \<times> rtcp_header) srtp_result" where
  "gcm_decryptRTCP cr c encrypted =
     rbind (parseSrtcpHeader encrypted gcm_authTagLength srtcpIndexSize) (\<lambda>h.
     let srtcpIndexOffset = length encrypted - srtcpIndexSize;
         authTagOffset = srtcpIndexOffset - gcm_authTagLength
     in rbind (js (readUInt32BE encrypted 4)) (\<lambda>src.
        rbind (js (readUInt32BE encrypted srtcpIndexOffset)) (\<lambda>encodedSrtcpIndex.
        let isEncrypted = (encodedSrtcpIndex div 2 ^ 31 = 1);
            index = encodedSrtcpIndex AND 0x7fffffff
        in rbind (js (rtcpInitializationVector c src index)) (\<lambda>iv.
           let aad = (if isEncrypted then buf_slice encrypted 0 8 @ drop srtcpIndexOffset encrypted
                      else buf_slice encrypted 0 authTagOffset @ drop srtcpIndexOffset encrypted);
               cipherText = (if isEncrypted then buf_slice encrypted 8 authTagOffset else buf_alloc 0);
               dst = (if isEncrypted then buf_copy (buf_alloc authTagOffset) 0 (buf_slice encrypted 0 8)
                      else buf_slice encrypted 0 authTagOffset)
           in case gcm_decrypt cr (srtcpSessionKey c) iv aad cipherText (buf_slice encrypted authTagOffset srtcpIndexOffset) of
                None \<Rightarrow> Inl (SrtpAuthenticationError srtcp_message)
              | Some dec \<Rightarrow> Inr (if isEncrypted then buf_copy dst 8 dec else dst, h)))))"

section \<open>Counter blocks and initialization vectors are never shared\<close>

lemma length_xor_prefix [simp]: "length (xor_prefix b s) = length b"
  by (simp add: xor_prefix_def)

lemma xor_cancel_right: "x XOR k = y XOR k \<Longrightarrow> x = (y :: byte)"
proof -
  assume "x XOR k = y XOR k"
  then have "(x XOR k) XOR k = (y XOR k) XOR k" by (rule arg_cong)
  then show "x = y" by (simp only: xor.assoc xor_self_eq xor.right_neutral)
qed

lemma xor_prefix_nth: "i < length b \<Longrightarrow> xor_prefix b s ! i = b ! i XOR (if i < length s then s ! i else 0)"
  by (simp add: xor_prefix_def)

lemma xor_prefix_inj:
  assumes "length b = length b'" "xor_prefix b s = xor_prefix b' s"
  shows "b = b'"
proof (rule nth_equalityI [OF assms(1)])
  fix i assume i: "i < length b"
  have "xor_prefix b s ! i = xor_prefix b' s ! i" using assms(2) by simp
  then show "b ! i = b' ! i"
    unfolding xor_prefix_nth [OF i] xor_prefix_nth [OF i [unfolded assms(1)]] by (rule xor_cancel_right)
qed

lemma take_xor_prefix: "take n (xor_prefix b s) = xor_prefix (take n b) s"
  by (rule nth_equalityI) (auto simp: xor_prefix_def)

definition counter_block :: "int \<Rightarrow> int \<Rightarrow> int \<Rightarrow> buffer" where
  "counter_block seq roc src = buf_alloc 4 @ be_bytes 4 src @ be_bytes 4 roc @ be_bytes 2 seq @ buf_alloc 2"

lemma be_bytes_shift: "be_bytes 4 (seq * 65536) = be_bytes 2 seq @ buf_alloc 2"
proof -
  have z: "(256 :: byte) = 0" "(65536 :: byte) = 0" by simp_all
  show ?thesis by (simp add: numeral_eq_Suc buf_alloc_def z)
qed

lemma generateCounter_ok:
  assumes "u16_ok seq" "u32_ok roc" "u32_ok src"
  shows "generateCounter seq roc src salt = Inr (xor_prefix (counter_block seq roc src) salt)"
proof -
  have s: "push_bit 16 seq = seq * 65536" "0 \<le> seq * 65536" "seq * 65536 < 256 ^ 4"
    using assms(1) by (simp_all add: push_bit_eq_mult u16_ok_def)
  have a: "buf_alloc 16 = buf_alloc 4 @ buf_alloc 12" by (simp add: buf_alloc_def flip: replicate_add)
  have 1: "buf_writeUInt 4 (buf_alloc 16) 4 src = Inr ((buf_alloc 4 @ be_bytes 4 src) @ buf_alloc 8)"
    using buf_writeUInt_fill [of src 4 12 "buf_alloc 4"] u32_okD [OF assms(3)] by (simp add: a)
  have 2: "buf_writeUInt 4 ((buf_alloc 4 @ be_bytes 4 src) @ buf_alloc 8) 8 roc =
      Inr ((buf_alloc 4 @ be_bytes 4 src @ be_bytes 4 roc) @ buf_alloc 4)"
    using buf_writeUInt_fill [of roc 4 8 "buf_alloc 4 @ be_bytes 4 src"] u32_okD [OF assms(2)] by simp
  have 3: "buf_writeUInt 4 ((buf_alloc 4 @ be_bytes 4 src @ be_bytes 4 roc) @ buf_alloc 4) 12 (push_bit 16 seq) =
      Inr (counter_block seq roc src)"
    using buf_writeUInt_fill [of "seq * 65536" 4 4 "buf_alloc 4 @ be_bytes 4 src @ be_bytes 4 roc"] s
    by (simp add: counter_block_def be_bytes_shift) (simp add: buf_alloc_def)
  show ?thesis by (simp only: generateCounter_def 1 2 3 rbind_simps)
qed

lemma be_bytes_inj: "0 \<le> v \<Longrightarrow> v < 256 ^ n \<Longrightarrow> 0 \<le> w \<Longrightarrow> w < 256 ^ n \<Longrightarrow> be_bytes n v = be_bytes n w \<Longrightarrow> v = w"
  by (metis be_bytes_int mod_pos_pos_trivial)

text \<open>C27: no two packets share key stream.  Under one session key and salt, the counter blocks
  of two packets differ in their first 14 bytes unless source, rollover counter and sequence
  number agree; the last two bytes count the blocks of one packet.\<close>

theorem counter_block_unique:
  assumes "u16_ok seq" "u32_ok roc" "u32_ok src" "u16_ok seq'" "u32_ok roc'" "u32_ok src'"
    and "generateCounter seq roc src salt = Inr b" "generateCounter seq' roc' src' salt = Inr b'"
    and "take 14 b = take 14 b'"
  shows "seq = seq' \<and> roc = roc' \<and> src = src'"
proof -
  have b: "b = xor_prefix (counter_block seq roc src) salt" "b' = xor_prefix (counter_block seq' roc' src') salt"
    using assms(7,8) by (simp_all add: generateCounter_ok assms(1-6))
  have t: "take 14 (counter_block seq roc src) = buf_alloc 4 @ be_bytes 4 src @ be_bytes 4 roc @ be_bytes 2 seq" for seq roc src
    by (simp add: counter_block_def)
  have "take 14 (counter_block seq roc src) = take 14 (counter_block seq' roc' src')"
    using assms(9) unfolding b take_xor_prefix by (rule xor_prefix_inj [rotated]) (simp add: counter_block_def)
  then have "be_bytes 4 src = be_bytes 4 src'" "be_bytes 4 roc = be_bytes 4 roc'" "be_bytes 2 seq = be_bytes 2 seq'"
    unfolding t by simp_all
  then show ?thesis
    using be_bytes_inj [of src 4 src'] be_bytes_inj [of roc 4 roc'] be_bytes_inj [of seq 2 seq'] assms(1-6) u16_okD u32_okD
    by blast
qed

theorem counter_block_unique_witness:
  "\<exists>b b'. generateCounter 1 0 7 [1, 2, 3] = Inr b \<and> generateCounter 0 1 7 [1, 2, 3] = Inr b' \<and> take 14 b \<noteq> take 14 b'"
proof -
  have u: "u16_ok 1" "u16_ok 0" "u32_ok 0" "u32_ok 1" "u32_ok 7" by (simp_all add: u16_ok_def u32_ok_def)
  then show ?thesis
    using counter_block_unique [OF u(1,3,5) u(2,4,5)] generateCounter_ok [OF u(1,3,5)] generateCounter_ok [OF u(2,4,5)]
    by (metis zero_neq_one)
qed

section \<open>The contract of an RTP cipher\<close>

lemma header_bytes_ok: "valid_rtp_header (with_extension h) \<Longrightarrow> header_bytes h = Inr (header_wire (with_extension h))"
  using RtpHeader_serialize_ok [of h 0]
  by (simp add: header_bytes_def header_serializeSize_ok) (simp add: buf_alloc_def)

text \<open>A packet that can be protected: its fields fit, and if the padding bit is set, the
  payload ends in its padding.\<close>

definition srtp_valid :: "rtp_header \<Rightarrow> buffer \<Rightarrow> bool" where
  "srtp_valid h pl \<longleftrightarrow> valid_rtp_header (with_extension h) \<and>
     (padding h \<longrightarrow> pl \<noteq> [] \<and> last pl \<noteq> 0 \<and> unat (last pl) \<le> length pl)"

definition same_keys :: "srtp_context \<Rightarrow> srtp_context \<Rightarrow> bool" where
  "same_keys c d \<longleftrightarrow> profile c = profile d \<and> srtpSessionKey c = srtpSessionKey d \<and> srtpSessionSalt c = srtpSessionSalt d \<and>
     srtpSessionAuthTag c = srtpSessionAuthTag d \<and> srtcpSessionKey c = srtcpSessionKey d \<and>
     srtcpSessionSalt c = srtcpSessionSalt d \<and> srtcpSessionAuthTag c = srtcpSessionAuthTag d"

text \<open>What a receiver is given: the plain packet and its header.\<close>

definition opened :: "rtp_header \<Rightarrow> buffer \<Rightarrow> buffer \<times> rtp_header" where
  "opened h pl = (header_wire (with_extension h) @ pl,
     (parsed_header (with_extension h))\<lparr>paddingSize := if padding h then uint (last pl) else 0\<rparr>)"

lemma finalize_opened:
  assumes "srtp_valid h pl"
  shows "finalizeSrtpRtpHeader (parsed_header (with_extension h)) (header_wire (with_extension h) @ pl) =
    Inr (snd (opened h pl))"
proof -
  let ?g = "with_extension h"
  have po: "payloadOffset (parsed_header ?g) = length (header_wire ?g)" "padding (parsed_header ?g) = padding h"
    by (simp_all add: parsed_header_def)
  show ?thesis
  proof (cases "padding h")
    case False
    then show ?thesis by (simp add: finalizeSrtpRtpHeader_def opened_def po)
  next
    case True
    then have pl: "pl \<noteq> []" "last pl \<noteq> 0" "unat (last pl) \<le> length pl" using assms by (auto simp: srtp_valid_def)
    then have l: "(header_wire ?g @ pl) ! (length (header_wire ?g @ pl) - 1) = last pl"
      by (cases pl rule: rev_cases) (simp_all add: nth_append)
    have u: "0 < uint (last pl)" "uint (last pl) \<le> int (length pl)"
    proof -
      have "uint (last pl) \<noteq> 0" using pl(2) by (simp add: uint_0_iff)
      then show "0 < uint (last pl)" using uint_ge_0 [of "last pl"] by linarith
      have "int (unat (last pl)) \<le> int (length pl)" using pl(3) by linarith
      then show "uint (last pl) \<le> int (length pl)" by simp
    qed
    show ?thesis
      unfolding finalizeSrtpRtpHeader_def po l Let_def
      using True pl(1) u by (simp add: assertAuthenticatedPacketLength_def opened_def)
  qed
qed

locale srtp_cipher =
  fixes encr :: "srtp_crypto \<Rightarrow> srtp_context \<Rightarrow> rtp_header \<Rightarrow> buffer \<Rightarrow> int \<Rightarrow> buffer srtp_result"
    and decr :: "srtp_crypto \<Rightarrow> srtp_context \<Rightarrow> buffer \<Rightarrow> int \<Rightarrow> rtp_header \<Rightarrow> (buffer \<times> rtp_header) srtp_result"
    and tag :: nat
  assumes seal: "crypto_ok cr \<Longrightarrow> srtp_valid h pl \<Longrightarrow> u32_ok roc \<Longrightarrow> same_keys c d \<Longrightarrow>
      \<exists>body. encr cr c h pl roc = Inr (header_wire (with_extension h) @ body) \<and> length body = length pl + tag \<and>
        decr cr d (header_wire (with_extension h) @ body) roc (parsed_header (with_extension h)) = Inr (opened h pl)"
begin

lemma parse_sealed:
  assumes "srtp_valid h pl" "length body = length pl + tag"
  shows "parseSrtpRtpHeader (header_wire (with_extension h) @ body) tag = Inr (parsed_header (with_extension h))"
proof -
  let ?g = "with_extension h" and ?n = "length (header_wire (with_extension h))"
  have v: "valid_rtp_header ?g" using assms(1) by (simp add: srtp_valid_def)
  have sl: "buf_slice (header_wire ?g @ body) 0 (length (header_wire ?g @ body) - tag) = header_wire ?g @ take (length pl) body"
    using assms(2) by (simp add: buf_slice_def)
  have a: "RtpHeader_deSerialize (header_wire ?g @ take (length pl) body) False =
      applyRtpPaddingSize (parsed_header ?g) (header_wire ?g @ take (length pl) body) False"
    by (rule RtpHeader_deSerialize_wire [OF v])
  have "\<exists>x. applyRtpPaddingSize (parsed_header ?g) (header_wire ?g @ take (length pl) body) False = Inr ((parsed_header ?g)\<lparr>paddingSize := x\<rparr>)"
    by (auto simp: applyRtpPaddingSize_def Let_def)
  then obtain x where x: "RtpHeader_deSerialize (header_wire ?g @ take (length pl) body) False = Inr ((parsed_header ?g)\<lparr>paddingSize := x\<rparr>)"
    unfolding a by blast
  have n12: "12 \<le> ?n" by (simp add: header_wire_def)
  have po: "payloadOffset (parsed_header ?g) = ?n" "paddingSize (parsed_header ?g) = 0" by (simp_all add: parsed_header_def)
  have z: "(parsed_header ?g)\<lparr>paddingSize := 0\<rparr> = parsed_header ?g" by (simp add: parsed_header_def)
  show ?thesis
    unfolding parseSrtpRtpHeader_def Let_def sl x
    using assms(2) n12 by (simp add: assertAuthenticatedPacketLength_def wrapAuthenticationError_def minRtpHeaderSize_def po z)
qed

lemma seal_open:
  assumes "crypto_ok cr" "srtp_valid h pl" "u32_ok roc" "same_keys c d"
  shows "\<exists>b. encr cr c h pl roc = Inr b \<and> parseSrtpRtpHeader b tag = Inr (parsed_header (with_extension h)) \<and>
    decr cr d b roc (parsed_header (with_extension h)) = Inr (opened h pl)"
  using seal [OF assms] parse_sealed [OF assms(2)] by blast

end

lemma generateSrtpAuthTag_ok:
  "u32_ok roc \<Longrightarrow> crypto_ok cr \<Longrightarrow> \<exists>t. generateSrtpAuthTag cr c roc bufs = Inr t \<and> length t = 10"
  by (simp add: generateSrtpAuthTag_def wire_simps crypto_ok_def)

lemma ctr_seal:
  assumes "crypto_ok cr" "srtp_valid h pl" "u32_ok roc" "same_keys c d"
  shows "\<exists>body. ctr_encryptRtp cr c h pl roc = Inr (header_wire (with_extension h) @ body) \<and> length body = length pl + ctr_authTagLength \<and>
    ctr_decryptRtp cr d (header_wire (with_extension h) @ body) roc (parsed_header (with_extension h)) = Inr (opened h pl)"
proof -
  let ?g = "with_extension h"
  let ?w = "header_wire ?g"
  have v: "valid_rtp_header ?g" using assms(2) by (simp add: srtp_valid_def)
  have hf: "sequenceNumber (parsed_header ?g) = sequenceNumber h" "ssrc (parsed_header ?g) = ssrc h"
    "payloadOffset (parsed_header ?g) = length ?w" "u16_ok (sequenceNumber h)" "u32_ok (ssrc h)"
    using v by (auto simp: parsed_header_def with_extension_def valid_rtp_header_def split: if_splits)
  obtain ct where ct: "generateCounter (sequenceNumber h) roc (ssrc h) (srtpSessionSalt c) = Inr ct"
    using generateCounter_ok [OF hf(4) assms(3) hf(5)] by blast
  let ?e = "ctr_encrypt cr (srtpSessionKey c) ct pl"
  obtain t where t: "generateSrtpAuthTag cr c roc [?w, ?e] = Inr t" "length t = 10"
    using generateSrtpAuthTag_ok [OF assms(3,1)] by blast
  have k: "srtpSessionKey d = srtpSessionKey c" "srtpSessionSalt d = srtpSessionSalt c" "generateSrtpAuthTag cr d roc bufs = generateSrtpAuthTag cr c roc bufs" for bufs
    using assms(4) by (simp_all add: same_keys_def generateSrtpAuthTag_def)
  have e: "length ?e = length pl" "ctr_decrypt cr (srtpSessionKey c) ct ?e = pl"
    using assms(1) by (simp_all add: crypto_ok_def)
  have enc: "ctr_encryptRtp cr c h pl roc = Inr (?w @ ?e @ t)"
    by (simp add: ctr_encryptRtp_def header_bytes_ok [OF v] ct t Let_def)
  have off: "length (?w @ ?e @ t) - ctr_authTagLength = length (?w @ ?e)" by (simp add: t ctr_authTagLength_def)
  have s: "buf_slice (?w @ ?e @ t) 0 (length (?w @ ?e)) = ?w @ ?e" "drop (length (?w @ ?e)) (?w @ ?e @ t) = t"
    "buf_slice (?w @ ?e) 0 (length ?w) = ?w" "drop (length ?w) (?w @ ?e) = ?e"
    by (simp_all add: buf_slice_def)
  have dec: "ctr_decryptRtp cr d (?w @ ?e @ t) roc (parsed_header ?g) = Inr (opened h pl)"
    unfolding ctr_decryptRtp_def Let_def off s hf k t ct e js_simps rbind_simps finalize_opened [OF assms(2)]
    by (simp add: assertAuthTag_def) (simp add: opened_def)
  have "length (?e @ t) = length pl + ctr_authTagLength" using e t by (simp add: ctr_authTagLength_def)
  then show ?thesis using enc dec by blast
qed

lemma rtpInitializationVector_ok:
  assumes "u16_ok (sequenceNumber h)" "u32_ok roc" "u32_ok (ssrc h)"
  shows "rtpInitializationVector c h roc = Inr (xor_prefix (fields_bytes [2, 4, 4, 2] [0, ssrc h, roc, sequenceNumber h]) (srtpSessionSalt c))"
proof -
  have "list_all2 field_ok [2, 4, 4, 2] [0, ssrc h, roc, sequenceNumber h]"
    using assms by (simp add: field_ok_def int_size_ok_def u16_ok_def u32_ok_def)
  from bufferWriter_ok [OF this] show ?thesis by (simp add: rtpInitializationVector_def del: fields_bytes_simps)
qed

lemma gcm_seal:
  assumes "crypto_ok cr" "srtp_valid h pl" "u32_ok roc" "same_keys c d"
  shows "\<exists>body. gcm_encryptRtp cr c h pl roc = Inr (header_wire (with_extension h) @ body) \<and> length body = length pl + gcm_authTagLength \<and>
    gcm_decryptRtp cr d (header_wire (with_extension h) @ body) roc (parsed_header (with_extension h)) = Inr (opened h pl)"
proof -
  let ?g = "with_extension h"
  let ?w = "header_wire ?g"
  have v: "valid_rtp_header ?g" using assms(2) by (simp add: srtp_valid_def)
  have hf: "sequenceNumber (parsed_header ?g) = sequenceNumber h" "ssrc (parsed_header ?g) = ssrc h"
    "payloadOffset (parsed_header ?g) = length ?w" "u16_ok (sequenceNumber h)" "u32_ok (ssrc h)"
    using v by (auto simp: parsed_header_def with_extension_def valid_rtp_header_def split: if_splits)
  obtain iv where iv: "rtpInitializationVector c h roc = Inr iv"
    using rtpInitializationVector_ok [OF hf(4) assms(3) hf(5)] by blast
  have iv': "rtpInitializationVector d (parsed_header ?g) roc = Inr iv"
    using iv assms(4) hf(1,2) by (simp add: rtpInitializationVector_def same_keys_def)
  obtain e t where et: "gcm_encrypt cr (srtpSessionKey c) iv ?w pl = (e, t)" by fastforce
  have k: "srtpSessionKey d = srtpSessionKey c" using assms(4) by (simp add: same_keys_def)
  have e: "length e = length pl" "length t = 16" "gcm_decrypt cr (srtpSessionKey c) iv ?w e t = Some pl"
    using assms(1) et unfolding crypto_ok_def by (metis fst_conv, metis snd_conv, metis fst_conv snd_conv)
  have enc: "gcm_encryptRtp cr c h pl roc = Inr (?w @ e @ t)"
    by (simp add: gcm_encryptRtp_def header_bytes_ok [OF v] iv et)
  have off: "length (?w @ e @ t) - gcm_authTagLength = length (?w @ e)" using e by (simp add: gcm_authTagLength_def)
  have s: "buf_slice (?w @ e @ t) 0 (length ?w) = ?w" "drop (length (?w @ e)) (?w @ e @ t) = t"
    "buf_slice (?w @ e @ t) (length ?w) (length (?w @ e)) = e"
    by (simp_all add: buf_slice_def)
  have g1: "growBufferSize [] (length (?w @ e)) = buf_alloc (length (?w @ e))" by (simp add: growBufferSize_def buf_copy_def buf_replace_def)
  have g2: "buf_copy (buf_alloc (length (?w @ e))) 0 ?w = ?w @ buf_alloc (length e)"
    using buf_copy_fill [of ?w "length (?w @ e)" "[]"] by simp
  have g3: "buf_copy (?w @ buf_alloc (length e)) (length ?w) pl = ?w @ pl"
    using buf_copy_fill [of pl "length e" ?w] e(1) by (simp add: buf_alloc_def [of 0])
  have dec: "gcm_decryptRtp cr d (?w @ e @ t) roc (parsed_header ?g) = Inr (opened h pl)"
    unfolding gcm_decryptRtp_def Let_def off s hf iv' js_simps rbind_simps k e(3) g1 g2 g3 option.case finalize_opened [OF assms(2)]
    by (simp add: opened_def)
  have "length (e @ t) = length pl + gcm_authTagLength" using e by (simp add: gcm_authTagLength_def)
  then show ?thesis using enc dec by blast
qed

interpretation ctr: srtp_cipher ctr_encryptRtp ctr_decryptRtp ctr_authTagLength
  by unfold_locales (rule ctr_seal)

interpretation gcm: srtp_cipher gcm_encryptRtp gcm_decryptRtp gcm_authTagLength
  by unfold_locales (rule gcm_seal)

section \<open>RTCP packets\<close>

lemma be_bytes_cong: "v mod 256 ^ n = w mod 256 ^ n \<Longrightarrow> be_bytes n v = be_bytes n w"
  by (rule be_int_inj) (simp_all add: be_bytes_int)

lemma top_bit_bytes:
  assumes "0 \<le> v" "v < 2 ^ 31"
  shows "set_top_bit (x @ be_bytes 4 v @ y) (length x) = x @ be_bytes 4 (v + 2 ^ 31) @ y"
proof -
  define q where "q = v div 256 ^ 3"
  have q: "0 \<le> q" "q < 128" "(v + 2 ^ 31) div 256 ^ 3 = q + 128" using assms by (auto simp: q_def)
  have nb: "\<not> bit q 7"
  proof -
    have "take_bit 7 q = q" using q by (simp add: take_bit_int_eq_self)
    then show ?thesis by (metis bit_take_bit_iff less_irrefl)
  qed
  have "(word_of_int q :: byte) OR 0x80 = word_of_int q + 0x80"
  proof (rule disjunctive_add [symmetric])
    fix n
    have "bit (0x80 :: byte) n \<longleftrightarrow> n = 7" using bit_exp_iff [where 'a = "8 word", of 7 n] by auto
    then show "\<not> bit (word_of_int q :: byte) n \<or> \<not> bit (0x80 :: byte) n" using nb by (auto simp: bit_word_of_int_iff)
  qed
  then have top: "(word_of_int q :: byte) OR 0x80 = word_of_int (q + 128)" by simp
  have b4: "be_bytes 4 w = word_of_int (w div 256 ^ 3) # be_bytes 3 w" for w
    by (simp add: numeral_eq_Suc)
  have b3: "be_bytes 3 (v + 2 ^ 31) = be_bytes 3 v" 
    using mod_mult_self1 [of v 128 "2 ^ 24"] by (intro be_bytes_cong) simp
  show ?thesis
    unfolding b4 b3 q(3) top [symmetric] q_def [symmetric] by (simp add: set_top_bit_def)
qed

lemma and_7fffffff: "0 \<le> v \<Longrightarrow> v < 2 ^ 31 \<Longrightarrow> (v + 2 ^ 31) AND 0x7fffffff = (v :: int)"
proof -
  assume v: "0 \<le> v" "v < 2 ^ 31"
  have "(0x7fffffff :: int) = mask 31" by (simp add: mask_eq_exp_minus_1)
  then have "(v + 2 ^ 31) AND 0x7fffffff = (v + 2 ^ 31) mod 2 ^ 31"
    by (simp only: take_bit_eq_mod flip: take_bit_eq_mask)
  then show ?thesis using v by simp
qed

lemma js_shr_16: "0 \<le> v \<Longrightarrow> v < 2 ^ 31 \<Longrightarrow> js_shr v 16 = v div 65536"
proof -
  assume v: "0 \<le> v" "v < 2 ^ 31"
  have "sint (word_of_int v :: 32 word) = v"
    using v by (simp add: sint_sbintrunc' signed_take_bit_int_eq_self)
  then show ?thesis by (simp add: js_shr_def sint_signed_drop_bit_eq drop_bit_eq_div)
qed

lemma srtcp_counter_ok:
  assumes "0 \<le> v" "v < 2 ^ 31" "u32_ok src"
  shows "\<exists>ct. generateCounter (v AND 0xffff) (js_shr v 16) src salt = Inr ct"
proof -
  have "(0xffff :: int) = mask 16" by (simp add: mask_eq_exp_minus_1)
  then have "v AND 0xffff = v mod 2 ^ 16" by (simp only: take_bit_eq_mod flip: take_bit_eq_mask)
  then have "u16_ok (v AND 0xffff)" by (simp add: u16_ok_def)
  moreover have "u32_ok (js_shr v 16)" using assms by (simp add: js_shr_16 u32_ok_def) linarith
  ultimately show ?thesis using generateCounter_ok assms(3) by blast
qed

lemma rtcp_header_exists: "4 \<le> length b \<Longrightarrow> \<exists>h. RtcpHeader_deSerialize b = Inr h"
proof -
  assume l: "4 \<le> length b"
  obtain v0 v1 v2 where v: "bufferReader b [1, 1, 2] = Inr [v0, v1, v2]" "0 \<le> v0" "v0 < 256"
    using l readUIntBE_ok [of 0 1 b] readUIntBE_ok [of 1 1 b] readUIntBE_ok [of 2 2 b] readUIntBE_Inr_bounds [of 1 b 0]
    by (auto simp: bufferReader_def read_field_def int_size_ok_def numeral_2_eq_2)
  then show ?thesis by (simp add: RtcpHeader_deSerialize_def num_field_byte)
qed

text \<open>A packet that can be protected: a header and a source.\<close>

definition srtcp_valid :: "buffer \<Rightarrow> int \<Rightarrow> bool" where
  "srtcp_valid p index \<longleftrightarrow> 8 \<le> length p \<and> 0 \<le> index \<and> index < 2 ^ 31"

locale srtcp_cipher =
  fixes encr :: "srtp_crypto \<Rightarrow> srtp_context \<Rightarrow> buffer \<Rightarrow> int \<Rightarrow> buffer srtp_result"
    and decr :: "srtp_crypto \<Rightarrow> srtp_context \<Rightarrow> buffer \<Rightarrow> (buffer \<times> rtcp_header) srtp_result"
  assumes seal: "crypto_ok cr \<Longrightarrow> srtcp_valid p index \<Longrightarrow> same_keys c d \<Longrightarrow>
      RtcpHeader_deSerialize (buf_slice p 0 4) = Inr h \<Longrightarrow>
      \<exists>b. encr cr c p index = Inr b \<and> decr cr d b = Inr (p, h)"
begin

lemma seal_open:
  assumes "crypto_ok cr" "srtcp_valid p index" "same_keys c d"
  shows "\<exists>b h. encr cr c p index = Inr b \<and> decr cr d b = Inr (p, h) \<and> RtcpHeader_deSerialize (buf_slice p 0 4) = Inr h"
proof -
  have "4 \<le> length (buf_slice p 0 4)" using assms(2) by (simp add: srtcp_valid_def)
  then obtain h where h: "RtcpHeader_deSerialize (buf_slice p 0 4) = Inr h" using rtcp_header_exists by blast
  from seal [OF assms h] h show ?thesis by blast
qed

end

lemma parseSrtcpHeader_ok:
  assumes "length b \<ge> 8 + n + 4" "take 8 b = take 8 p" "8 \<le> length p" "RtcpHeader_deSerialize (buf_slice p 0 4) = Inr h"
  shows "parseSrtcpHeader b n srtcpIndexSize = Inr h"
proof -
  have "take 4 (take 8 b) = take 4 (take 8 p)" using assms(2) by simp
  then have "buf_slice b 0 4 = buf_slice p 0 4" by (simp add: buf_slice_def)
  with assms(1,4) show ?thesis
    by (simp add: parseSrtcpHeader_def assertAuthenticatedPacketLength_def minRtcpPacketSize_def srtcpIndexSize_def
        wrapAuthenticationError_def RTCP_HEADER_SIZE_def)
qed

lemma ctr_srtcp_seal:
  assumes "crypto_ok cr" "srtcp_valid p index" "same_keys c d" "RtcpHeader_deSerialize (buf_slice p 0 4) = Inr h"
  shows "\<exists>b. ctr_encryptRTCP cr c p index = Inr b \<and> ctr_decryptRTCP cr d b = Inr (p, h)"
proof -
  have v: "8 \<le> length p" "0 \<le> index" "index < 2 ^ 31" using assms(2) by (auto simp: srtcp_valid_def)
  obtain src where src: "readUInt32BE p 4 = Inr src" using readUIntBE_ok [of 4 4 p] v(1) by auto
  have us: "u32_ok src" using readUIntBE_Inr_bounds [OF src] by (simp add: u32_ok_def)
  obtain ct where ct: "generateCounter (index AND 0xffff) (js_shr index 16) src (srtcpSessionSalt c) = Inr ct"
    using srtcp_counter_ok [OF v(2,3) us] by blast
  define a r e where "a = take 8 p" and "r = drop 8 p" and "e = ctr_encrypt cr (srtcpSessionKey c) ct (drop 8 p)"
  have p: "p = a @ r" "length a = 8" using v(1) by (simp_all add: a_def r_def)
  have e: "length e = length r" "ctr_decrypt cr (srtcpSessionKey c) ct e = r"
    using assms(1) by (simp_all add: crypto_ok_def e_def r_def)
  have cp: "buf_copy p 8 e = a @ e" using p e by (simp add: buf_copy_def buf_replace_def)
  let ?x = "be_bytes 4 (index + 2 ^ 31)"
  have w: "buf_writeUInt 4 ((a @ e) @ buf_alloc 4) (length ((a @ e) @ buf_alloc 4) - 4) index = Inr ((a @ e) @ be_bytes 4 index)"
    using buf_writeUInt_fill [of index 4 4 "a @ e"] v by (simp add: buf_alloc_def [of 0])
  have tb: "set_top_bit ((a @ e) @ be_bytes 4 index) (length ((a @ e) @ be_bytes 4 index) - 4) = (a @ e) @ ?x"
    using top_bit_bytes [OF v(2,3), of "a @ e" "[]"] by simp
  define t where "t = generateSrtcpAuthTag cr c ((a @ e) @ ?x)"
  have t: "length t = 10" using assms(1) by (simp add: t_def generateSrtcpAuthTag_def crypto_ok_def)
  have enc: "ctr_encryptRTCP cr c p index = Inr (((a @ e) @ ?x) @ t)"
    by (simp only: ctr_encryptRTCP_def Let_def src ct js_simps rbind_simps e_def [symmetric] cp w tb t_def)
  let ?b = "((a @ e) @ ?x) @ t"
  have hd: "parseSrtcpHeader ?b ctr_authTagLength srtcpIndexSize = Inr h"
    by (rule parseSrtcpHeader_ok [OF _ _ v(1) assms(4)]) (simp_all add: p t e ctr_authTagLength_def)
  have off: "length ?b - ctr_authTagLength = length ((a @ e) @ ?x)" "length ?b - (ctr_authTagLength + srtcpIndexSize) = length (a @ e)"
    by (simp_all add: t ctr_authTagLength_def srtcpIndexSize_def)
  have s: "buf_slice ?b 0 (length ((a @ e) @ ?x)) = (a @ e) @ ?x" "drop (length ((a @ e) @ ?x)) ?b = t"
    "buf_slice ?b 0 (length (a @ e)) = a @ e" "drop 8 (a @ e) = e"
    using p(2) by (simp_all add: buf_slice_def)
  have top: "drop_bit 7 (?b ! length (a @ e)) \<noteq> 0"
  proof -
    have x: "?x = word_of_int ((index + 2 ^ 31) div 256 ^ 3) # be_bytes 3 (index + 2 ^ 31)" by (simp add: numeral_eq_Suc)
    have nth: "?b ! length (a @ e) = word_of_int ((index + 2 ^ 31) div 256 ^ 3)" unfolding x by (simp add: nth_append)
    have "128 \<le> (index + 2 ^ 31) div 256 ^ 3" "(index + 2 ^ 31) div 256 ^ 3 < 256" using v(2,3) by auto
    then have "uint (?b ! length (a @ e)) div 2 ^ 7 \<noteq> 0" unfolding nth by (simp only: uint_word_of_int) simp
    moreover have "uint (drop_bit 7 y) = uint y div 2 ^ 7" for y :: byte by (simp add: drop_bit_eq_div uint_div)
    ultimately show ?thesis by (metis unsigned_0)
  qed
  have rd: "readUInt32BE ?b (length (a @ e)) = Inr (index + 2 ^ 31)" "readUInt32BE ?b 4 = Inr src"
  proof -
    show "readUInt32BE ?b (length (a @ e)) = Inr (index + 2 ^ 31)"
      using v by (simp add: readUIntBE_append_later read_written)
    show "readUInt32BE ?b 4 = Inr src" using src p by (simp add: readUIntBE_def buf_slice_def)
  qed
  have k: "srtcpSessionKey d = srtcpSessionKey c" "srtcpSessionSalt d = srtcpSessionSalt c"
    "generateSrtcpAuthTag cr d x = generateSrtcpAuthTag cr c x" for x
    using assms(3) by (simp_all add: same_keys_def generateSrtcpAuthTag_def)
  have cp2: "buf_copy (a @ e) 8 r = p" using p e by (simp add: buf_copy_def buf_replace_def)
  have "ctr_decryptRTCP cr d ?b = Inr (p, h)"
    unfolding ctr_decryptRTCP_def hd rbind_simps Let_def off s k t_def [symmetric] rd js_simps and_7fffffff [OF v(2,3)] ct e cp2
    using top by (simp add: assertAuthTag_def)
  with enc show ?thesis by blast
qed

lemma rtcpInitializationVector_ok:
  assumes "u32_ok src" "0 \<le> index" "index < 2 ^ 31"
  shows "\<exists>iv. rtcpInitializationVector c src index = Inr iv"
proof -
  have "list_all2 field_ok [2, 4, 2, 4] [0, src, 0, index]"
    using assms by (simp add: field_ok_def int_size_ok_def u32_ok_def)
  from bufferWriter_ok [OF this] show ?thesis by (simp add: rtcpInitializationVector_def del: fields_bytes_simps)
qed

lemma gcm_srtcp_seal:
  assumes "crypto_ok cr" "srtcp_valid p index" "same_keys c d" "RtcpHeader_deSerialize (buf_slice p 0 4) = Inr h"
  shows "\<exists>b. gcm_encryptRTCP cr c p index = Inr b \<and> gcm_decryptRTCP cr d b = Inr (p, h)"
proof -
  have v: "8 \<le> length p" "0 \<le> index" "index < 2 ^ 31" using assms(2) by (auto simp: srtcp_valid_def)
  obtain src where src: "readUInt32BE p 4 = Inr src" using readUIntBE_ok [of 4 4 p] v(1) by auto
  have us: "u32_ok src" using readUIntBE_Inr_bounds [OF src] by (simp add: u32_ok_def)
  obtain iv where iv: "rtcpInitializationVector c src index = Inr iv"
    using rtcpInitializationVector_ok [OF us v(2,3)] by blast
  define a r where "a = take 8 p" and "r = drop 8 p"
  have p: "p = a @ r" "length a = 8" using v(1) by (simp_all add: a_def r_def)
  let ?x = "be_bytes 4 (index + 2 ^ 31)"
  have aad: "rtcpAdditionalAuthenticatedData p index = Inr (a @ ?x)"
  proof -
    have "list_all2 field_ok [4] [index]" using v by (simp add: field_ok_def int_size_ok_def)
    from bufferWriter_ok [OF this] have "bufferWriter [4] [index] = Inr (be_bytes 4 index)" by simp
    moreover have "buf_slice p 0 8 = a" by (simp add: buf_slice_def a_def)
    ultimately show ?thesis
      using top_bit_bytes [OF v(2,3), of a "[]"] p(2) by (simp add: rtcpAdditionalAuthenticatedData_def)
  qed
  obtain e t where et: "gcm_encrypt cr (srtcpSessionKey c) iv (a @ ?x) r = (e, t)" by fastforce
  have e: "length e = length r" "length t = 16" "gcm_decrypt cr (srtcpSessionKey c) iv (a @ ?x) e t = Some r"
    using assms(1) et unfolding crypto_ok_def by (metis fst_conv, metis snd_conv, metis fst_conv snd_conv)
  have grow: "growBufferSize [] n = buf_alloc n" for n by (simp add: growBufferSize_def buf_copy_def buf_replace_def)
  have n: "length p + gcm_authTagLength + srtcpIndexSize = 8 + (length r + 20)"
    using p by (simp add: gcm_authTagLength_def srtcpIndexSize_def)
  have al: "buf_alloc (8 + (length r + 20)) = [] @ buf_alloc (8 + (length r + 20))" by simp
  have f1: "buf_copy (buf_alloc (8 + (length r + 20))) 0 a = a @ buf_alloc (length r + 20)"
    using buf_copy_fill [of a "8 + (length r + 20)" "[]"] p(2) by (simp add: add.commute)
  have f2: "buf_copy (a @ buf_alloc (length r + 20)) 8 e = (a @ e) @ buf_alloc 20"
    using buf_copy_fill [of e "length r + 20" a] p(2) e(1) by simp
  have f3: "buf_copy ((a @ e) @ buf_alloc 20) (8 + length e) t = (a @ e @ t) @ buf_alloc 4"
    using buf_copy_fill [of t 20 "a @ e"] p(2) e(2) by simp
  have f4: "buf_copy ((a @ e @ t) @ buf_alloc 4) (length p + gcm_authTagLength) ?x = a @ e @ t @ ?x"
    using buf_copy_fill [of ?x 4 "a @ e @ t"] p e(1,2) by (simp add: gcm_authTagLength_def buf_alloc_def [of 0])
  have sl: "buf_slice p 0 8 = a" "drop 8 p = r" "buf_slice (a @ ?x) 8 12 = ?x"
    using p(2) by (simp_all add: buf_slice_def a_def r_def)
  have enc: "gcm_encryptRTCP cr c p index = Inr (a @ e @ t @ ?x)"
    by (simp only: gcm_encryptRTCP_def src js_simps rbind_simps Let_def n grow sl f1 iv aad et split_conv f2 f3 f4)
  let ?b = "a @ e @ t @ ?x"
  have hd: "parseSrtcpHeader ?b gcm_authTagLength srtcpIndexSize = Inr h"
    by (rule parseSrtcpHeader_ok [OF _ _ v(1) assms(4)]) (simp_all add: p e gcm_authTagLength_def)
  have off: "length ?b - srtcpIndexSize = length (a @ e @ t)" "length (a @ e @ t) - gcm_authTagLength = length (a @ e)"
    using e(2) by (simp_all add: srtcpIndexSize_def gcm_authTagLength_def)
  have rd: "readUInt32BE ?b (length (a @ e @ t)) = Inr (index + 2 ^ 31)" "readUInt32BE ?b 4 = Inr src"
  proof -
    show "readUInt32BE ?b (length (a @ e @ t)) = Inr (index + 2 ^ 31)"
      using v by (simp add: readUIntBE_append_later read_written_only)
    show "readUInt32BE ?b 4 = Inr src" using src p by (simp add: readUIntBE_def buf_slice_def)
  qed
  have one: "((index + 2 ^ 31) div 2 ^ 31 = 1) = True" using v(2,3) by simp
  have s: "buf_slice ?b 0 8 = a" "drop (length (a @ e @ t)) ?b = ?x" "buf_slice ?b 8 (length (a @ e)) = e"
    "buf_slice ?b (length (a @ e)) (length (a @ e @ t)) = t"
    using p(2) by (simp_all add: buf_slice_def)
  have k: "srtcpSessionKey d = srtcpSessionKey c" "rtcpInitializationVector d src index = Inr iv"
    using assms(3) iv by (simp_all add: same_keys_def rtcpInitializationVector_def)
  have c1: "buf_copy (buf_alloc (length (a @ e))) 0 a = a @ buf_alloc (length e)"
    using buf_copy_fill [of a "length (a @ e)" "[]"] by simp
  have c2: "buf_copy (a @ buf_alloc (length e)) 8 r = p"
    using buf_copy_fill [of r "length e" a] p e(1) by (simp add: buf_alloc_def [of 0])
  have "gcm_decryptRTCP cr d ?b = Inr (p, h)"
    by (simp only: gcm_decryptRTCP_def hd rbind_simps Let_def off rd js_simps and_7fffffff [OF v(2,3)] one if_True s k e(3)
        option.case c1 c2)
  with enc show ?thesis by blast
qed

interpretation ctr_rtcp: srtcp_cipher ctr_encryptRTCP ctr_decryptRTCP
  by unfold_locales (rule ctr_srtcp_seal)

interpretation gcm_rtcp: srtcp_cipher gcm_encryptRTCP gcm_decryptRTCP
  by unfold_locales (rule gcm_srtcp_seal)

end
