(* ===== verification/Srtp.thy ===== *)
theory Srtp
  imports Srtp_Cipher
begin

text \<open>
  SRTP and SRTCP contexts and sessions (\<^verbatim>\<open>packages/rtp/src/srtp/context/srtp.ts\<close>,
  \<^verbatim>\<open>context/srtcp.ts\<close>, \<^verbatim>\<open>session.ts\<close>, \<^verbatim>\<open>srtp.ts\<close>, \<^verbatim>\<open>srtcp.ts\<close>): protection of a stream of packets,
  with the rollover counter of each source and the SRTCP index.  Proved: every packet of a
  stream that the network delivers, in any order and any number of times, decrypts to what was
  sent; a packet that fails authentication leaves the receiver as it was; and SRTCP indices
  repeat only after 2^31 packets.

  An operation returns its result or exception together with the context it leaves.
\<close>

section \<open>Operations\<close>

definition cipher_encryptRtp :: "srtp_crypto \<Rightarrow> srtp_context \<Rightarrow> rtp_header \<Rightarrow> buffer \<Rightarrow> int \<Rightarrow> buffer srtp_result" where
  "cipher_encryptRtp cr c = (case profile c of
       ProtectionProfileAes128CmHmacSha1_80 \<Rightarrow> ctr_encryptRtp cr c
     | ProtectionProfileAeadAes128Gcm \<Rightarrow> gcm_encryptRtp cr c)"

definition cipher_decryptRtp ::
  "srtp_crypto \<Rightarrow> srtp_context \<Rightarrow> buffer \<Rightarrow> int \<Rightarrow> rtp_header \<Rightarrow> (buffer \<times> rtp_header) srtp_result" where
  "cipher_decryptRtp cr c = (case profile c of
       ProtectionProfileAes128CmHmacSha1_80 \<Rightarrow> ctr_decryptRtp cr c
     | ProtectionProfileAeadAes128Gcm \<Rightarrow> gcm_decryptRtp cr c)"

definition cipher_encryptRTCP :: "srtp_crypto \<Rightarrow> srtp_context \<Rightarrow> buffer \<Rightarrow> int \<Rightarrow> buffer srtp_result" where
  "cipher_encryptRTCP cr c = (case profile c of
       ProtectionProfileAes128CmHmacSha1_80 \<Rightarrow> ctr_encryptRTCP cr c
     | ProtectionProfileAeadAes128Gcm \<Rightarrow> gcm_encryptRTCP cr c)"

definition cipher_decryptRTCP :: "srtp_crypto \<Rightarrow> srtp_context \<Rightarrow> buffer \<Rightarrow> (buffer \<times> rtcp_header) srtp_result" where
  "cipher_decryptRTCP cr c = (case profile c of
       ProtectionProfileAes128CmHmacSha1_80 \<Rightarrow> ctr_decryptRTCP cr c
     | ProtectionProfileAeadAes128Gcm \<Rightarrow> gcm_decryptRTCP cr c)"

definition rtpAuthTagLength :: "srtp_context \<Rightarrow> nat" where
  "rtpAuthTagLength c = (if profile c = ProtectionProfileAeadAes128Gcm then 16 else 10)"

definition put_ssrc_state :: "int \<Rightarrow> srtp_ssrc_state \<Rightarrow> srtp_context \<Rightarrow> srtp_context" where
  "put_ssrc_state src s c = c\<lparr>srtpSSRCStates := (srtpSSRCStates c)(src \<mapsto> s)\<rparr>"

definition SrtpContext_encryptRtp ::
  "srtp_crypto \<Rightarrow> buffer \<Rightarrow> rtp_header \<Rightarrow> srtp_context \<Rightarrow> buffer srtp_result \<times> srtp_context" where
  "SrtpContext_encryptRtp cr pl h c0 =
     (let (s, c) = getSrtpSsrcState (ssrc h) c0
      in case estimateRolloverCounter (sequenceNumber h) s of
           Inl e \<Rightarrow> (Inl e, c)
         | Inr roc \<Rightarrow>
             (case cipher_encryptRtp cr c h pl roc of
                Inl e \<Rightarrow> (Inl e, c)
              | Inr enc \<Rightarrow> (Inr enc, put_ssrc_state (ssrc h) (commitPacketIndex (sequenceNumber h) roc s) c)))"

text \<open>The message of a rollover counter error is kept by the authentication error it becomes;
  the model names it by its source.\<close>

definition overflow_message :: string where
  "overflow_message = ''SRTP rollover counter exhausted, re-keying required''"

definition SrtpContext_decryptRtp ::
  "srtp_crypto \<Rightarrow> buffer \<Rightarrow> srtp_context \<Rightarrow> (buffer \<times> rtp_header) srtp_result \<times> srtp_context" where
  "SrtpContext_decryptRtp cr cipherText c =
     (case parseSrtpRtpHeader cipherText (rtpAuthTagLength c) of
        Inl e \<Rightarrow> (Inl e, c)
      | Inr h \<Rightarrow>
          let state = (case srtpSSRCStates c (ssrc h) of Some s \<Rightarrow> s | None \<Rightarrow> new_ssrc_state (ssrc h))
          in case estimateRolloverCounter (sequenceNumber h) state of
               Inl e \<Rightarrow> (case e of SrtpRolloverCounterOverflowError _ \<Rightarrow> (Inl (SrtpAuthenticationError overflow_message), c)
                         | _ \<Rightarrow> (Inl e, c))
             | Inr roc \<Rightarrow>
                 (case cipher_decryptRtp cr c cipherText roc h of
                    Inl e \<Rightarrow> (Inl e, c)
                  | Inr dec \<Rightarrow> (Inr dec, put_ssrc_state (ssrc h) (commitPacketIndex (sequenceNumber h) roc state) c)))"

definition maxSRTCPIndex :: int where "maxSRTCPIndex = 0x7fffffff"

text \<open>The shift distance 0x7fffffff counts modulo 32: the test is that of bit 31.\<close>

definition srtcp_next_index :: "int \<Rightarrow> int" where
  "srtcp_next_index i = (let i = i + 1 in if js_shr i (nat (maxSRTCPIndex mod 32)) \<noteq> 0 then 0 else i)"

definition SrtcpContext_encryptRTCP :: "srtp_crypto \<Rightarrow> buffer \<Rightarrow> srtp_context \<Rightarrow> buffer srtp_result \<times> srtp_context" where
  "SrtcpContext_encryptRTCP cr rawRtcp c0 =
     (case js (readUInt32BE rawRtcp 4) of
        Inl e \<Rightarrow> (Inl e, c0)
      | Inr src \<Rightarrow>
          let (s, c) = getSrtcpSsrcState src c0;
              s = s\<lparr>srtcpIndex := srtcp_next_index (srtcpIndex s)\<rparr>;
              c = c\<lparr>srtcpSSRCStates := (srtcpSSRCStates c)(src \<mapsto> s)\<rparr>
          in (cipher_encryptRTCP cr c rawRtcp (srtcpIndex s), c))"

definition SrtcpContext_decryptRTCP :: "srtp_crypto \<Rightarrow> buffer \<Rightarrow> srtp_context \<Rightarrow> (buffer \<times> rtcp_header) srtp_result \<times> srtp_context" where
  "SrtcpContext_decryptRTCP cr encrypted c = (cipher_decryptRTCP cr c encrypted, c)"

section \<open>Sessions\<close>

record srtp_session =
  localContext :: srtp_context
  remoteContext :: srtp_context

definition Session_start :: "srtp_crypto \<Rightarrow> buffer \<Rightarrow> buffer \<Rightarrow> buffer \<Rightarrow> buffer \<Rightarrow> srtp_profile \<Rightarrow> srtp_session" where
  "Session_start cr localMasterKey localMasterSalt remoteMasterKey remoteMasterSalt prof =
     \<lparr>localContext = new_Context cr localMasterKey localMasterSalt prof,
      remoteContext = new_Context cr remoteMasterKey remoteMasterSalt prof\<rparr>"

definition SrtpSession_encrypt :: "srtp_crypto \<Rightarrow> buffer \<Rightarrow> rtp_header \<Rightarrow> srtp_session \<Rightarrow> buffer srtp_result \<times> srtp_session" where
  "SrtpSession_encrypt cr pl h s =
     (let (r, c) = SrtpContext_encryptRtp cr pl h (localContext s) in (r, s\<lparr>localContext := c\<rparr>))"

definition SrtpSession_decrypt :: "srtp_crypto \<Rightarrow> buffer \<Rightarrow> srtp_session \<Rightarrow> buffer srtp_result \<times> srtp_session" where
  "SrtpSession_decrypt cr buf s =
     (let (r, c) = SrtpContext_decryptRtp cr buf (remoteContext s)
      in (rbind r (\<lambda>(decrypted, _). Inr decrypted), s\<lparr>remoteContext := c\<rparr>))"

definition SrtcpSession_encrypt :: "srtp_crypto \<Rightarrow> buffer \<Rightarrow> srtp_session \<Rightarrow> buffer srtp_result \<times> srtp_session" where
  "SrtcpSession_encrypt cr rawRtcp s =
     (let (r, c) = SrtcpContext_encryptRTCP cr rawRtcp (localContext s) in (r, s\<lparr>localContext := c\<rparr>))"

definition SrtcpSession_decrypt :: "srtp_crypto \<Rightarrow> buffer \<Rightarrow> srtp_session \<Rightarrow> buffer srtp_result \<times> srtp_session" where
  "SrtcpSession_decrypt cr buf s =
     (let (r, c) = SrtcpContext_decryptRTCP cr buf (remoteContext s)
      in (rbind r (\<lambda>(decrypted, _). Inr decrypted), s\<lparr>remoteContext := c\<rparr>))"

section \<open>A protected stream\<close>

lemma same_keys_refl: "same_keys c c" and same_keys_sym: "same_keys c d \<Longrightarrow> same_keys d c"
  and same_keys_trans: "same_keys c d \<Longrightarrow> same_keys d e \<Longrightarrow> same_keys c e"
  by (simp_all add: same_keys_def)

lemma same_keys_put [simp]: "same_keys c (put_ssrc_state src s d) = same_keys c d"
  by (simp add: same_keys_def put_ssrc_state_def)

lemma cipher_same_keys: "same_keys c d \<Longrightarrow> cipher_encryptRtp cr c h pl roc = cipher_encryptRtp cr d h pl roc"
  by (simp add: same_keys_def cipher_encryptRtp_def ctr_encryptRtp_def gcm_encryptRtp_def rtpInitializationVector_def
      generateSrtpAuthTag_def split: srtp_profile.split)

lemma cipher_seal_open:
  assumes "crypto_ok cr" "srtp_valid h pl" "u32_ok roc" "same_keys c d"
  shows "\<exists>b. cipher_encryptRtp cr c h pl roc = Inr b \<and>
    parseSrtpRtpHeader b (rtpAuthTagLength d) = Inr (parsed_header (with_extension h)) \<and>
    cipher_decryptRtp cr d b roc (parsed_header (with_extension h)) = Inr (opened h pl)"
  using ctr.seal_open [OF assms] gcm.seal_open [OF assms] assms(4)
  by (cases "profile d")
    (simp_all add: cipher_encryptRtp_def cipher_decryptRtp_def rtpAuthTagLength_def same_keys_def
      ctr_authTagLength_def gcm_authTagLength_def)

text \<open>\<open>expects c src i m\<close>: the context computes the true rollover counter for index \<open>i\<close> of the
  source, and its highest index is \<open>m\<close> afterwards.\<close>

definition state_for :: "srtp_context \<Rightarrow> int \<Rightarrow> srtp_ssrc_state" where
  "state_for c src = (case srtpSSRCStates c src of Some s \<Rightarrow> s | None \<Rightarrow> new_ssrc_state src)"

definition expects :: "srtp_context \<Rightarrow> int \<Rightarrow> int \<Rightarrow> int \<Rightarrow> bool" where
  "expects c src i m \<longleftrightarrow> u32_ok (i div 65536) \<and>
     estimateRolloverCounter (i mod 65536) (state_for c src) = Inr (i div 65536) \<and>
     state_at (commitPacketIndex (i mod 65536) (i div 65536) (state_for c src)) m"

lemma expects_first: "srtpSSRCStates c src = None \<Longrightarrow> 0 \<le> i \<Longrightarrow> i < 65536 \<Longrightarrow> expects c src i i"
  using commit_first [of "new_ssrc_state src" i] estimate_first [of "new_ssrc_state src" i]
  by (simp add: expects_def state_for_def new_ssrc_state_def u32_ok_def)

lemma expects_next:
  assumes "state_at (state_for c src) m" "\<bar>i - m\<bar> < 32768" "0 \<le> i" "i < 2 ^ 48"
  shows "expects c src i (max m i)"
proof -
  have "u32_ok (i div 65536)" using assms(3,4) by (auto simp: u32_ok_def)
  then show ?thesis using estimate_true [OF assms] commit_max [OF assms(1,2)] by (simp add: expects_def)
qed

lemma encrypt_step:
  assumes "crypto_ok cr" "srtp_valid h pl" "sequenceNumber h = i mod 65536" "expects c (ssrc h) i m"
  shows "\<exists>b c'. SrtpContext_encryptRtp cr pl h c = (Inr b, c') \<and> cipher_encryptRtp cr c h pl (i div 65536) = Inr b \<and>
    same_keys c c' \<and> state_at (state_for c' (ssrc h)) m"
proof -
  obtain s d where g: "getSrtpSsrcState (ssrc h) c = (s, d)" by fastforce
  have s: "s = state_for c (ssrc h)" "same_keys c d"
    using g by (auto simp: getSrtpSsrcState_def state_for_def same_keys_def Let_def split: option.splits)
  obtain b where b: "cipher_encryptRtp cr c h pl (i div 65536) = Inr b"
    using cipher_seal_open [OF assms(1,2) _ same_keys_refl] assms(4) by (auto simp: expects_def)
  then have "cipher_encryptRtp cr d h pl (i div 65536) = Inr b" using cipher_same_keys [OF s(2)] by simp
  then show ?thesis
    using b g s assms(3,4)
    by (auto simp: SrtpContext_encryptRtp_def expects_def) (simp add: put_ssrc_state_def state_for_def)
qed

lemma decrypt_step:
  assumes "crypto_ok cr" "srtp_valid h pl" "sequenceNumber h = i mod 65536" "expects c (ssrc h) i m"
    and "cipher_encryptRtp cr c h pl (i div 65536) = Inr b"
  shows "\<exists>c'. SrtpContext_decryptRtp cr b c = (Inr (opened h pl), c') \<and> same_keys c c' \<and> state_at (state_for c' (ssrc h)) m"
proof -
  let ?g = "parsed_header (with_extension h)"
  have f: "sequenceNumber ?g = sequenceNumber h" "ssrc ?g = ssrc h"
    by (simp_all add: parsed_header_def with_extension_def)
  have u: "u32_ok (i div 65536)" using assms(4) by (simp add: expects_def)
  have o: "parseSrtpRtpHeader b (rtpAuthTagLength c) = Inr ?g" "cipher_decryptRtp cr c b (i div 65536) ?g = Inr (opened h pl)"
    using cipher_seal_open [OF assms(1,2) u same_keys_refl [of c]] assms(5) by auto
  show ?thesis
    unfolding SrtpContext_decryptRtp_def o(1) sum.case f Let_def state_for_def [symmetric]
    using assms(3,4) o(2) by (simp add: expects_def f same_keys_refl) (simp add: put_ssrc_state_def state_for_def)
qed

text \<open>A stream is a list of packets, each with its true index.  Runs of a session over it.\<close>

type_synonym indexed_packet = "int \<times> rtp_header \<times> buffer"

definition stream_ok :: "int \<Rightarrow> indexed_packet list \<Rightarrow> bool" where
  "stream_ok src tx \<longleftrightarrow> (\<forall>(i, h, pl) \<in> set tx. ssrc h = src \<and> sequenceNumber h = i mod 65536 \<and> srtp_valid h pl)"

fun starts :: "int list \<Rightarrow> bool" where
  "starts [] = True"
| "starts (i # is) \<longleftrightarrow> 0 \<le> i \<and> i < 65536 \<and> near i is"

fun send_all :: "srtp_crypto \<Rightarrow> (rtp_header \<times> buffer) list \<Rightarrow> srtp_session \<Rightarrow> buffer srtp_result list \<times> srtp_session" where
  "send_all cr [] s = ([], s)"
| "send_all cr ((h, pl) # ps) s =
     (let (r, s) = SrtpSession_encrypt cr pl h s; (rs, s) = send_all cr ps s in (r # rs, s))"

fun recv_all :: "srtp_crypto \<Rightarrow> buffer list \<Rightarrow> srtp_session \<Rightarrow> buffer srtp_result list \<times> srtp_session" where
  "recv_all cr [] s = ([], s)"
| "recv_all cr (b # bs) s =
     (let (r, s) = SrtpSession_decrypt cr b s; (rs, s) = recv_all cr bs s in (r # rs, s))"

definition sealed :: "srtp_crypto \<Rightarrow> srtp_context \<Rightarrow> indexed_packet \<Rightarrow> buffer \<Rightarrow> bool" where
  "sealed cr c = (\<lambda>(i, h, pl) b. cipher_encryptRtp cr c h pl (i div 65536) = Inr b)"

definition plain :: "indexed_packet \<Rightarrow> buffer" where
  "plain = (\<lambda>(i, h, pl). header_wire (with_extension h) @ pl)"

lemma sealed_same_keys: "same_keys c d \<Longrightarrow> sealed cr c = sealed cr d"
  by (auto simp: sealed_def fun_eq_iff cipher_same_keys [of c d])

lemma send_all_near:
  assumes "crypto_ok cr"
  shows "stream_ok src tx \<Longrightarrow> state_at (state_for (localContext s) src) m \<Longrightarrow> near m (map fst tx) \<Longrightarrow>
    \<exists>bs. fst (send_all cr (map snd tx) s) = map Inr bs \<and> list_all2 (sealed cr (localContext s)) tx bs"
proof (induction tx arbitrary: s m)
  case (Cons x tx)
  obtain i h pl where x: "x = (i, h, pl)" by (cases x)
  have h: "ssrc h = src" "sequenceNumber h = i mod 65536" "srtp_valid h pl" "stream_ok src tx"
    using Cons.prems(1) by (auto simp: stream_ok_def x)
  have n: "\<bar>i - m\<bar> < 32768" "0 \<le> i" "i < 2 ^ 48" "near (max m i) (map fst tx)" using Cons.prems(3) by (simp_all add: x)
  obtain b c' where b: "SrtpContext_encryptRtp cr pl h (localContext s) = (Inr b, c')"
    "cipher_encryptRtp cr (localContext s) h pl (i div 65536) = Inr b" "same_keys (localContext s) c'"
    "state_at (state_for c' src) (max m i)"
    using encrypt_step [OF assms h(3,2)] expects_next [OF Cons.prems(2) n(1-3)] h(1) by blast
  let ?s = "s\<lparr>localContext := c'\<rparr>"
  obtain bs where bs: "fst (send_all cr (map snd tx) ?s) = map Inr bs" "list_all2 (sealed cr c') tx bs"
    using Cons.IH [OF h(4), of ?s "max m i"] b(4) n(4) by auto
  have sx: "sealed cr (localContext s) (i, h, pl) b" using b(2) by (simp add: sealed_def)
  have e: "SrtpSession_encrypt cr pl h s = (Inr b, ?s)" by (simp add: SrtpSession_encrypt_def b(1))
  show ?case
    using bs sx sealed_same_keys [OF b(3), of cr]
    by (intro exI [of _ "b # bs"]) (simp add: x e Let_def split_def)
qed simp

lemma recv_all_near:
  assumes "crypto_ok cr"
  shows "stream_ok src rx \<Longrightarrow> state_at (state_for (remoteContext s) src) m \<Longrightarrow> near m (map fst rx) \<Longrightarrow>
    list_all2 (sealed cr (remoteContext s)) rx bs \<Longrightarrow>
    fst (recv_all cr bs s) = map (\<lambda>x. Inr (plain x)) rx"
proof (induction rx arbitrary: s m bs)
  case (Cons x rx)
  obtain i h pl where x: "x = (i, h, pl)" by (cases x)
  obtain b bs' where bs: "bs = b # bs'" "sealed cr (remoteContext s) x b" "list_all2 (sealed cr (remoteContext s)) rx bs'"
    using Cons.prems(4) by (cases bs) auto
  have h: "ssrc h = src" "sequenceNumber h = i mod 65536" "srtp_valid h pl" "stream_ok src rx"
    using Cons.prems(1) by (auto simp: stream_ok_def x)
  have n: "\<bar>i - m\<bar> < 32768" "0 \<le> i" "i < 2 ^ 48" "near (max m i) (map fst rx)" using Cons.prems(3) by (simp_all add: x)
  have ci: "cipher_encryptRtp cr (remoteContext s) h pl (i div 65536) = Inr b" using bs(2) by (simp add: sealed_def x)
  obtain c' where c: "SrtpContext_decryptRtp cr b (remoteContext s) = (Inr (opened h pl), c')"
    "same_keys (remoteContext s) c'" "state_at (state_for c' src) (max m i)"
    using decrypt_step [OF assms h(3,2) _ ci] expects_next [OF Cons.prems(2) n(1-3)] h(1) by blast
  let ?s = "s\<lparr>remoteContext := c'\<rparr>"
  have d: "SrtpSession_decrypt cr b s = (Inr (plain x), ?s)"
    by (simp add: SrtpSession_decrypt_def c(1) plain_def opened_def x)
  have "fst (recv_all cr bs' ?s) = map (\<lambda>x. Inr (plain x)) rx"
    using Cons.IH [OF h(4), of ?s "max m i" bs'] c(3) n(4) bs(3) sealed_same_keys [OF c(2)] by simp
  then show ?case by (simp add: bs(1) d split_def Let_def)
qed simp

lemma send_all_start:
  assumes "crypto_ok cr" "stream_ok src tx" "srtpSSRCStates (localContext s) src = None" "starts (map fst tx)"
  shows "\<exists>bs. fst (send_all cr (map snd tx) s) = map Inr bs \<and> list_all2 (sealed cr (localContext s)) tx bs"
proof (cases tx)
  case (Cons x tx')
  obtain i h pl where x: "x = (i, h, pl)" by (cases x)
  have h: "ssrc h = src" "sequenceNumber h = i mod 65536" "srtp_valid h pl" "stream_ok src tx'"
    using assms(2) by (auto simp: stream_ok_def x Cons)
  have n: "0 \<le> i" "i < 65536" "near i (map fst tx')" using assms(4) by (simp_all add: x Cons)
  obtain b c' where b: "SrtpContext_encryptRtp cr pl h (localContext s) = (Inr b, c')"
    "cipher_encryptRtp cr (localContext s) h pl (i div 65536) = Inr b" "same_keys (localContext s) c'"
    "state_at (state_for c' src) i"
    using encrypt_step [OF assms(1) h(3,2)] expects_first [OF assms(3) n(1,2)] h(1) by blast
  let ?s = "s\<lparr>localContext := c'\<rparr>"
  obtain bs where bs: "fst (send_all cr (map snd tx') ?s) = map Inr bs" "list_all2 (sealed cr c') tx' bs"
    using send_all_near [OF assms(1) h(4), of ?s i] b(4) n(3) by auto
  have sx: "sealed cr (localContext s) (i, h, pl) b" using b(2) by (simp add: sealed_def)
  have e: "SrtpSession_encrypt cr pl h s = (Inr b, ?s)" by (simp add: SrtpSession_encrypt_def b(1))
  show ?thesis
    using bs sx sealed_same_keys [OF b(3), of cr]
    by (intro exI [of _ "b # bs"]) (simp add: x Cons e Let_def split_def)
qed simp

lemma recv_all_start:
  assumes "crypto_ok cr" "stream_ok src rx" "srtpSSRCStates (remoteContext s) src = None" "starts (map fst rx)"
    "list_all2 (sealed cr (remoteContext s)) rx bs"
  shows "fst (recv_all cr bs s) = map (\<lambda>x. Inr (plain x)) rx"
proof (cases rx)
  case Nil
  then show ?thesis using assms(5) by simp
next
  case (Cons x rx')
  obtain i h pl where x: "x = (i, h, pl)" by (cases x)
  obtain b bs' where bs: "bs = b # bs'" "sealed cr (remoteContext s) x b" "list_all2 (sealed cr (remoteContext s)) rx' bs'"
    using assms(5) Cons by (cases bs) auto
  have h: "ssrc h = src" "sequenceNumber h = i mod 65536" "srtp_valid h pl" "stream_ok src rx'"
    using assms(2) by (auto simp: stream_ok_def x Cons)
  have n: "0 \<le> i" "i < 65536" "near i (map fst rx')" using assms(4) by (simp_all add: x Cons)
  have ci: "cipher_encryptRtp cr (remoteContext s) h pl (i div 65536) = Inr b" using bs(2) by (simp add: sealed_def x)
  obtain c' where c: "SrtpContext_decryptRtp cr b (remoteContext s) = (Inr (opened h pl), c')"
    "same_keys (remoteContext s) c'" "state_at (state_for c' src) i"
    using decrypt_step [OF assms(1) h(3,2) _ ci] expects_first [OF assms(3) n(1,2)] h(1) by blast
  let ?s = "s\<lparr>remoteContext := c'\<rparr>"
  have d: "SrtpSession_decrypt cr b s = (Inr (plain x), ?s)"
    by (simp add: SrtpSession_decrypt_def c(1) plain_def opened_def x)
  have "fst (recv_all cr bs' ?s) = map (\<lambda>x. Inr (plain x)) rx'"
    using recv_all_near [OF assms(1) h(4), of ?s i bs'] c(3) n(3) bs(3) sealed_same_keys [OF c(2)] by simp
  then show ?thesis by (simp add: bs(1) Cons d split_def Let_def)
qed

text \<open>C1: a protected stream is delivered.  Two sessions set up with each other's keys, for
  either protection profile: one protects the packets of a source in sending order (indices
  within half a cycle of the highest so far, starting in the first cycle); the other receives
  any of them, in any order and repeatedly, under the same condition on its side.  Every packet
  sent is protected without an exception, and every packet received is restored byte for byte.\<close>

theorem srtp_stream_delivered:
  assumes "crypto_ok cr" "stream_ok src tx" "starts (map fst tx)"
    and "\<forall>k \<in> set ks. k < length tx" "starts (map (\<lambda>k. fst (tx ! k)) ks)"
  shows "\<exists>bs. fst (send_all cr (map snd tx) (Session_start cr k1 s1 k2 s2 prof)) = map Inr bs \<and>
    fst (recv_all cr (map (\<lambda>k. bs ! k) ks) (Session_start cr k2 s2 k1 s1 prof)) = map (\<lambda>k. Inr (plain (tx ! k))) ks"
proof -
  let ?a = "Session_start cr k1 s1 k2 s2 prof" and ?b = "Session_start cr k2 s2 k1 s1 prof"
  have st: "srtpSSRCStates (localContext ?a) src = None" "srtpSSRCStates (remoteContext ?b) src = None"
    and eq: "localContext ?a = remoteContext ?b"
    by (simp_all add: Session_start_def new_Context_def Let_def)
  obtain bs where bs: "fst (send_all cr (map snd tx) ?a) = map Inr bs" "list_all2 (sealed cr (localContext ?a)) tx bs"
    using send_all_start [OF assms(1,2) st(1) assms(3)] by blast
  have rx: "stream_ok src (map (\<lambda>k. tx ! k) ks)"
  proof -
    have "set (map (\<lambda>k. tx ! k) ks) \<subseteq> set tx" using assms(4) by auto
    then show ?thesis using assms(2) unfolding stream_ok_def by blast
  qed
  have "list_all2 (sealed cr (remoteContext ?b)) (map (\<lambda>k. tx ! k) ks) (map (\<lambda>k. bs ! k) ks)"
    using assms(4) list_all2_nthD [OF bs(2)] by (auto simp: list_all2_conv_all_nth eq)
  from recv_all_start [OF assms(1) rx st(2) _ this] assms(5)
  have "fst (recv_all cr (map (\<lambda>k. bs ! k) ks) ?b) = map (\<lambda>k. Inr (plain (tx ! k))) ks" by (simp add: comp_def)
  with bs(1) show ?thesis by blast
qed

definition null_crypto :: srtp_crypto where
  "null_crypto = \<lparr>aes128EcbEncrypt = (\<lambda>k p. p), ctr_encrypt = (\<lambda>k iv d. d), ctr_decrypt = (\<lambda>k iv d. d),
     sha1_hmac = (\<lambda>k d. buf_alloc 20), gcm_encrypt = (\<lambda>k iv a d. (d, buf_alloc 16)),
     gcm_decrypt = (\<lambda>k iv a d t. if t = buf_alloc 16 then Some d else None)\<rparr>"

lemma null_crypto_ok: "crypto_ok null_crypto"
  by (simp add: crypto_ok_def null_crypto_def)

definition sample_stream :: "indexed_packet list" where
  "sample_stream = [(65535, new_RtpHeader\<lparr>sequenceNumber := 65535, ssrc := 7\<rparr>, [1]),
     (65536, new_RtpHeader\<lparr>sequenceNumber := 0, ssrc := 7\<rparr>, [2])]"

theorem srtp_stream_delivered_witness:
  "\<exists>bs. fst (send_all null_crypto (map snd sample_stream) (Session_start null_crypto [1] [2] [3] [4] ProtectionProfileAeadAes128Gcm)) = map Inr bs \<and>
    fst (recv_all null_crypto [bs ! 0, bs ! 1, bs ! 1] (Session_start null_crypto [3] [4] [1] [2] ProtectionProfileAeadAes128Gcm)) =
      [Inr (plain (sample_stream ! 0)), Inr (plain (sample_stream ! 1)), Inr (plain (sample_stream ! 1))]"
proof -
  have v: "stream_ok 7 sample_stream"
    by (simp add: stream_ok_def sample_stream_def srtp_valid_def with_extension_def valid_rtp_header_def new_RtpHeader_def u16_ok_def u32_ok_def)
  have s: "starts (map fst sample_stream)" "\<forall>k \<in> set [0, 1, 1]. k < length sample_stream"
    "starts (map (\<lambda>k. fst (sample_stream ! k)) [0, 1, 1])"
    by (simp_all add: sample_stream_def)
  show ?thesis
    using srtp_stream_delivered [OF null_crypto_ok v s, of "[1]" "[2]" "[3]" "[4]" ProtectionProfileAeadAes128Gcm] by simp
qed

section \<open>Failed authentication\<close>

lemma parse_extensions_keeps:
  assumes "parse_extensions raw off h = Inr (g, off')"
  shows "sequenceNumber g = sequenceNumber h \<and> ssrc g = ssrc h"
proof -
  have r: "rbind A (\<lambda>(exts, off). Inr (k\<lparr>extensions := exts\<rparr>, off)) = Inr (g, off') \<Longrightarrow> \<exists>es. g = k\<lparr>extensions := es\<rparr>"
    for A :: "(rtp_extension list \<times> nat) result" and k
    by auto
  from assms obtain pr ws es where "g = h\<lparr>extensionProfile := pr, extensionLength := ws, extensions := es\<rparr>"
    unfolding parse_extensions_def Let_def rbind_eq_Inr
    apply (elim exE conjE)
    apply (split if_split_asm)
     apply (drule r)
     apply blast
    apply (split if_split_asm)
     apply (drule r)
     apply blast
    apply (drule Inr_inject)
    apply (drule prod.inject [THEN iffD1])
    apply blast
    done
  then show ?thesis by simp
qed
lemma applyRtpPaddingSize_keeps:
  "applyRtpPaddingSize h raw v = Inr g \<Longrightarrow> sequenceNumber g = sequenceNumber h \<and> ssrc g = ssrc h"
  by (auto simp: applyRtpPaddingSize_def Let_def split: if_splits)

lemma parsed_ranges:
  assumes "RtpHeader_deSerialize raw v = Inr h"
  shows "u16_ok (sequenceNumber h) \<and> u32_ok (ssrc h)"
proof -
  obtain seq src where r: "readUInt16BE raw 2 = Inr seq" "readUInt32BE raw 8 = Inr src" "sequenceNumber h = seq" "ssrc h = src"
    using assms by (auto simp: RtpHeader_deSerialize_def Let_def split: if_splits
        dest!: applyRtpPaddingSize_keeps parse_extensions_keeps)
  show ?thesis
    using readUIntBE_Inr_bounds [OF r(1)] readUIntBE_Inr_bounds [OF r(2)] by (simp add: r(3,4) u16_ok_def u32_ok_def)
qed

lemma parseSrtpRtpHeader_ranges:
  assumes "parseSrtpRtpHeader b n = Inr h"
  shows "u16_ok (sequenceNumber h) \<and> u32_ok (ssrc h)"
proof (cases "RtpHeader_deSerialize (buf_slice b 0 (length b - n)) False")
  case (Inl e)
  then show ?thesis using assms by (simp add: parseSrtpRtpHeader_def wrapAuthenticationError_def)
next
  case (Inr g)
  then have "h = g\<lparr>paddingSize := 0\<rparr>"
    using assms by (auto simp: parseSrtpRtpHeader_def wrapAuthenticationError_def Let_def)
  then show ?thesis using parsed_ranges [OF Inr] by simp
qed

lemma parseSrtpRtpHeader_error: "parseSrtpRtpHeader b n = Inl e \<Longrightarrow> \<exists>m. e = SrtpAuthenticationError m"
  by (auto simp: parseSrtpRtpHeader_def Let_def wrapAuthenticationError_def assertAuthenticatedPacketLength_def rbind_eq_Inl
      split: if_splits sum.splits)

lemma estimate_range:
  "estimateRolloverCounter seq s = Inr roc \<Longrightarrow> u32_ok roc"
  "estimateRolloverCounter seq s = Inl e \<Longrightarrow> \<exists>i. e = SrtpRolloverCounterOverflowError i"
  by (auto simp: estimateRolloverCounter_def Let_def MaxRolloverCounter_def u32_ok_def split: if_splits)

lemma finalize_error: "finalizeSrtpRtpHeader h b = Inl e \<Longrightarrow> \<exists>m. e = SrtpAuthenticationError m"
  by (auto simp: finalizeSrtpRtpHeader_def Let_def assertAuthenticatedPacketLength_def split: if_splits)

lemma cipher_decrypt_error:
  assumes "u16_ok (sequenceNumber h)" "u32_ok (ssrc h)" "u32_ok roc" "cipher_decryptRtp cr c b roc h = Inl e"
  shows "\<exists>m. e = SrtpAuthenticationError m"
proof (cases "profile c")
  case ProtectionProfileAes128CmHmacSha1_80
  then show ?thesis
    using assms generateCounter_ok [OF assms(1,3,2)]
    by (auto simp: cipher_decryptRtp_def ctr_decryptRtp_def Let_def generateSrtpAuthTag_def wire_simps assertAuthTag_def
        rbind_eq_Inl dest: finalize_error split: if_splits)
next
  case ProtectionProfileAeadAes128Gcm
  then show ?thesis
    using assms rtpInitializationVector_ok [OF assms(1,3,2)]
    by (auto simp: cipher_decryptRtp_def gcm_decryptRtp_def Let_def rbind_eq_Inl dest: finalize_error
        split: option.splits)
qed

text \<open>C28: forged and damaged packets do no harm.  Whatever bytes arrive, \<^verbatim>\<open>decryptRtp\<close> either
  returns a packet, or raises \<^verbatim>\<open>SrtpAuthenticationError\<close> (never another exception) and leaves
  the context, with all its rollover counters, exactly as it was.\<close>

theorem srtp_failure_harmless:
  "case SrtpContext_decryptRtp cr b c of
     (Inl e, c') \<Rightarrow> (\<exists>m. e = SrtpAuthenticationError m) \<and> c' = c
   | (Inr _, c') \<Rightarrow> same_keys c c'"
proof (cases "parseSrtpRtpHeader b (rtpAuthTagLength c)")
  case (Inl e)
  then show ?thesis using parseSrtpRtpHeader_error [OF Inl] by (simp add: SrtpContext_decryptRtp_def)
next
  case (Inr h)
  let ?s = "state_for c (ssrc h)"
  have r: "u16_ok (sequenceNumber h)" "u32_ok (ssrc h)" using parseSrtpRtpHeader_ranges [OF Inr] by auto
  show ?thesis
  proof (cases "estimateRolloverCounter (sequenceNumber h) ?s")
    case (Inl e)
    then show ?thesis
      using Inr estimate_range(2) [OF Inl] by (auto simp: SrtpContext_decryptRtp_def state_for_def)
  next
    case roc: (Inr roc)
    show ?thesis
    proof (cases "cipher_decryptRtp cr c b roc h")
      case (Inl e)
      then show ?thesis
        using Inr roc cipher_decrypt_error [OF r estimate_range(1) [OF roc] Inl]
        by (simp add: SrtpContext_decryptRtp_def Let_def flip: state_for_def)
    next
      case dec: (Inr d)
      then show ?thesis using Inr roc
        by (simp add: SrtpContext_decryptRtp_def Let_def same_keys_refl flip: state_for_def)
    qed
  qed
qed

section \<open>SRTCP\<close>

lemma srtcp_next_index_mod: "0 \<le> i \<Longrightarrow> i < 2 ^ 31 \<Longrightarrow> srtcp_next_index i = (i + 1) mod 2 ^ 31"
proof -
  assume i: "0 \<le> i" "i < 2 ^ 31"
  have m: "nat (maxSRTCPIndex mod 32) = 31" by (simp add: maxSRTCPIndex_def)
  show ?thesis
  proof (cases "i + 1 = 2 ^ 31")
    case True
    then have "js_shr (i + 1) 31 = - 1" by (simp add: js_shr_def) 
    with True show ?thesis by (simp add: srtcp_next_index_def m Let_def)
  next
    case False
    then have "i + 1 < 2 ^ 31" using i by simp
    moreover have "js_shr (i + 1) 31 = 0"
    proof -
      have "sint (word_of_int (i + 1) :: 32 word) = i + 1"
        using i calculation by (simp add: sint_sbintrunc' signed_take_bit_int_eq_self del: of_int_add)
      then show ?thesis
        using i calculation by (simp add: js_shr_def sint_signed_drop_bit_eq drop_bit_eq_div del: of_int_add)
    qed
    ultimately show ?thesis using i by (simp add: srtcp_next_index_def m Let_def)
  qed
qed

fun srtcp_send_all :: "srtp_crypto \<Rightarrow> buffer list \<Rightarrow> srtp_session \<Rightarrow> buffer srtp_result list \<times> srtp_session" where
  "srtcp_send_all cr [] s = ([], s)"
| "srtcp_send_all cr (p # ps) s =
     (let (r, s) = SrtcpSession_encrypt cr p s; (rs, s) = srtcp_send_all cr ps s in (r # rs, s))"

lemma cipher_rtcp_same_keys: "same_keys c d \<Longrightarrow> cipher_encryptRTCP cr c p i = cipher_encryptRTCP cr d p i"
  by (simp add: same_keys_def cipher_encryptRTCP_def ctr_encryptRTCP_def gcm_encryptRTCP_def rtcpInitializationVector_def
      generateSrtcpAuthTag_def split: srtp_profile.split)

lemma cipher_rtcp_seal_open:
  assumes "crypto_ok cr" "srtcp_valid p i" "same_keys c d"
  shows "\<exists>b h. cipher_encryptRTCP cr c p i = Inr b \<and> cipher_decryptRTCP cr d b = Inr (p, h)"
  using ctr_rtcp.seal_open [OF assms] gcm_rtcp.seal_open [OF assms] assms(3)
  by (cases "profile d") (auto simp: cipher_encryptRTCP_def cipher_decryptRTCP_def same_keys_def)

text \<open>The index that protects the \<open>k\<close>-th packet (from 0) of a source starting at index \<open>i\<close>.\<close>

lemma srtcp_send_step:
  assumes "readUInt32BE p 4 = Inr src" "srtcp_index src (localContext s) = i" "0 \<le> i" "i < 2 ^ 31"
  shows "\<exists>s'. SrtcpSession_encrypt cr p s = (cipher_encryptRTCP cr (localContext s) p ((i + 1) mod 2 ^ 31), s') \<and>
    srtcp_index src (localContext s') = (i + 1) mod 2 ^ 31 \<and> same_keys (localContext s) (localContext s')"
proof -
  obtain t d where g: "getSrtcpSsrcState src (localContext s) = (t, d)" by fastforce
  have t: "srtcpIndex t = i" "same_keys (localContext s) d"
    using g assms(2) by (auto simp: getSrtcpSsrcState_def srtcp_index_def same_keys_def Let_def split: option.splits)
  let ?d = "d\<lparr>srtcpSSRCStates := (srtcpSSRCStates d)(src \<mapsto> t\<lparr>srtcpIndex := (i + 1) mod 2 ^ 31\<rparr>)\<rparr>"
  have k: "same_keys (localContext s) ?d" using t(2) by (simp add: same_keys_def)
  have n: "srtcp_next_index i = (i + 1) mod 2 ^ 31" by (rule srtcp_next_index_mod [OF assms(3,4)])
  have "SrtcpContext_encryptRTCP cr p (localContext s) = (cipher_encryptRTCP cr ?d p ((i + 1) mod 2 ^ 31), ?d)"
    unfolding SrtcpContext_encryptRTCP_def assms(1) js_simps sum.case g split_conv Let_def t(1) n
    using cipher_rtcp_same_keys [OF k] cipher_rtcp_same_keys [OF t(2)] by simp
  then have "SrtcpSession_encrypt cr p s = (cipher_encryptRTCP cr (localContext s) p ((i + 1) mod 2 ^ 31), s\<lparr>localContext := ?d\<rparr>)"
    using cipher_rtcp_same_keys [OF k] by (simp add: SrtcpSession_encrypt_def)
  then show ?thesis using k by (intro exI [of _ "s\<lparr>localContext := ?d\<rparr>"]) (simp add: srtcp_index_def)
qed

lemma srtcp_send_run:
  "\<forall>p \<in> set ps. readUInt32BE p 4 = Inr src \<Longrightarrow> srtcp_index src (localContext s) = i \<Longrightarrow> 0 \<le> i \<Longrightarrow> i < 2 ^ 31 \<Longrightarrow>
    fst (srtcp_send_all cr ps s) =
      map (\<lambda>k. cipher_encryptRTCP cr (localContext s) (ps ! k) ((i + 1 + int k) mod 2 ^ 31)) [0..<length ps]"
proof (induction ps arbitrary: s i)
  case (Cons p ps)
  obtain s' where st: "SrtcpSession_encrypt cr p s = (cipher_encryptRTCP cr (localContext s) p ((i + 1) mod 2 ^ 31), s')"
    "srtcp_index src (localContext s') = (i + 1) mod 2 ^ 31" "same_keys (localContext s) (localContext s')"
    using srtcp_send_step [OF _ Cons.prems(2-4), of p cr] Cons.prems(1) by auto
  have ih: "fst (srtcp_send_all cr ps s') =
      map (\<lambda>k. cipher_encryptRTCP cr (localContext s') (ps ! k) (((i + 1) mod 2 ^ 31 + 1 + int k) mod 2 ^ 31)) [0..<length ps]"
    using Cons.IH [OF _ st(2)] Cons.prems(1) by simp
  have m: "((i + 1) mod 2 ^ 31 + 1 + int k) mod 2 ^ 31 = (i + 1 + int (Suc k)) mod 2 ^ 31" for k
    using mod_add_left_eq [of "i + 1" "2 ^ 31" "1 + int k"] by (simp add: ac_simps)
  have "[0..<length (p # ps)] = 0 # map Suc [0..<length ps]" by (simp add: upt_conv_Cons map_Suc_upt del: upt_Suc)
  then show ?case
    unfolding ih [unfolded m, folded cipher_rtcp_same_keys [OF st(3)]] srtcp_send_all.simps
    by (simp add: st(1) ih [unfolded m] split_def Let_def comp_def cipher_rtcp_same_keys [OF st(3)])
qed simp

text \<open>C29: SRTCP.  The reports of a source sent over a new session are all protected without an
  exception, the \<open>k\<close>-th with the index \<open>k + 1\<close> modulo 2^31, so that no index repeats within 2^31
  reports, and the peer restores each of them byte for byte, whichever arrive and in whatever
  order.\<close>

theorem srtcp_reports_delivered:
  assumes "crypto_ok cr" "\<forall>p \<in> set ps. 8 \<le> length p \<and> readUInt32BE p 4 = Inr src"
  shows "\<exists>bs. fst (srtcp_send_all cr ps (Session_start cr k1 s1 k2 s2 prof)) = map Inr bs \<and> length bs = length ps \<and>
    (\<forall>k < length ps. cipher_encryptRTCP cr (new_Context cr k1 s1 prof) (ps ! k) ((int k + 1) mod 2 ^ 31) = Inr (bs ! k) \<and>
       (\<forall>t. localContext t = new_Context cr k2 s2 prof \<and> remoteContext t = new_Context cr k1 s1 prof \<longrightarrow>
          SrtcpSession_decrypt cr (bs ! k) t = (Inr (ps ! k), t)))"
proof -
  let ?c = "new_Context cr k1 s1 prof" and ?f = "\<lambda>k. (int k + 1) mod 2 ^ 31"
  have l: "localContext (Session_start cr k1 s1 k2 s2 prof) = ?c" by (simp add: Session_start_def)
  have i0: "srtcp_index src (localContext (Session_start cr k1 s1 k2 s2 prof)) = 0"
    unfolding l by (simp add: new_Context_def Let_def srtcp_index_def)
  have run: "fst (srtcp_send_all cr ps (Session_start cr k1 s1 k2 s2 prof)) =
      map (\<lambda>k. cipher_encryptRTCP cr ?c (ps ! k) (?f k)) [0..<length ps]"
    using srtcp_send_run [OF _ i0, of ps cr] assms(2) by (simp add: l add.commute)
  have ok: "\<exists>b h. cipher_encryptRTCP cr ?c (ps ! k) (?f k) = Inr b \<and> cipher_decryptRTCP cr ?c b = Inr (ps ! k, h)"
    if "k < length ps" for k
    using assms that by (intro cipher_rtcp_seal_open) (auto simp: srtcp_valid_def same_keys_refl)
  define bs where "bs = map (\<lambda>k. projr (cipher_encryptRTCP cr ?c (ps ! k) (?f k))) [0..<length ps]"
  have enc: "cipher_encryptRTCP cr ?c (ps ! k) (?f k) = Inr (bs ! k)" if "k < length ps" for k
    using ok [OF that] that by (auto simp: bs_def)
  have "fst (srtcp_send_all cr ps (Session_start cr k1 s1 k2 s2 prof)) = map Inr bs"
    unfolding run bs_def by (simp add: comp_def) (use enc in \<open>auto simp: bs_def\<close>)
  moreover have "SrtcpSession_decrypt cr (bs ! k) t = (Inr (ps ! k), t)"
    if "k < length ps" "remoteContext t = ?c" for k t
    using ok [OF that(1)] enc [OF that(1)] that(2)
    by (auto simp: SrtcpSession_decrypt_def SrtcpContext_decryptRTCP_def)
  ultimately show ?thesis using enc by (intro exI [of _ bs]) (auto simp: bs_def)
qed

theorem srtcp_reports_delivered_witness:
  "\<exists>b. fst (srtcp_send_all null_crypto [[0x80, 201, 0, 1, 0, 0, 0, 7]] (Session_start null_crypto [1] [2] [3] [4] ProtectionProfileAes128CmHmacSha1_80)) = [Inr b] \<and>
    SrtcpSession_decrypt null_crypto b (Session_start null_crypto [3] [4] [1] [2] ProtectionProfileAes128CmHmacSha1_80) =
      (Inr [0x80, 201, 0, 1, 0, 0, 0, 7], Session_start null_crypto [3] [4] [1] [2] ProtectionProfileAes128CmHmacSha1_80)"
proof -
  have h: "\<forall>p \<in> set [[0x80, 201, 0, 1, 0, 0, 0, 7 :: byte]]. 8 \<le> length p \<and> readUInt32BE p 4 = Inr 7"
    by (simp add: readUIntBE_def buf_slice_def)
  have t: "localContext (Session_start null_crypto [3] [4] [1] [2] prof) = new_Context null_crypto [3] [4] prof"
    "remoteContext (Session_start null_crypto [3] [4] [1] [2] prof) = new_Context null_crypto [1] [2] prof" for prof
    by (simp_all add: Session_start_def)
  from srtcp_reports_delivered [OF null_crypto_ok h, of "[1]" "[2]" "[3]" "[4]" ProtectionProfileAes128CmHmacSha1_80]
  obtain bs where bs: "fst (srtcp_send_all null_crypto [[0x80, 201, 0, 1, 0, 0, 0, 7]] (Session_start null_crypto [1] [2] [3] [4] ProtectionProfileAes128CmHmacSha1_80)) = map Inr bs"
    "length bs = 1" "SrtcpSession_decrypt null_crypto (bs ! 0) (Session_start null_crypto [3] [4] [1] [2] ProtectionProfileAes128CmHmacSha1_80) =
      (Inr [0x80, 201, 0, 1, 0, 0, 0, 7], Session_start null_crypto [3] [4] [1] [2] ProtectionProfileAes128CmHmacSha1_80)"
    using t by (auto simp del: srtcp_send_all.simps)
  then show ?thesis by (cases bs) auto
qed

end
