(* ===== verification/Utf8.thy ===== *)
theory Utf8
  imports Prelude
begin

text \<open>
  UTF-8 as Node.js buffers use it: \<^verbatim>\<open>Buffer.from(s)\<close> and \<^verbatim>\<open>buf.toString()\<close>.  A JavaScript
  string is kept as the list of its code points.  The encoder writes the replacement character
  for a surrogate without its partner; the decoder replaces every maximal ill-formed
  subsequence by it.  Proved: a well-formed string survives; what is decoded is well-formed.
\<close>

type_synonym js_text = "nat list"

definition replacement :: nat where "replacement = 0xfffd"

definition scalar :: "nat \<Rightarrow> bool" where
  "scalar c \<longleftrightarrow> c < 0xd800 \<or> 0xe000 \<le> c \<and> c < 0x110000"

definition utf8_char :: "nat \<Rightarrow> nat list" where
  "utf8_char c =
     (if c < 0x80 then [c]
      else if c < 0x800 then [0xc0 + c div 64, 0x80 + c mod 64]
      else if \<not> scalar c then [0xef, 0xbf, 0xbd]
      else if c < 0x10000 then [0xe0 + c div 4096, 0x80 + c div 64 mod 64, 0x80 + c mod 64]
      else [0xf0 + c div 262144, 0x80 + c div 4096 mod 64, 0x80 + c div 64 mod 64, 0x80 + c mod 64])"

definition cont :: "nat \<Rightarrow> bool" where "cont b \<longleftrightarrow> 0x80 \<le> b \<and> b \<le> 0xbf"

text \<open>The second byte of a three- or four-byte sequence has a range of its own, which excludes
  overlong forms, surrogates and numbers beyond the last plane.\<close>

definition second_ok :: "nat \<Rightarrow> nat \<Rightarrow> bool" where
  "second_ok b c \<longleftrightarrow> cont c \<and> (b = 0xe0 \<longrightarrow> 0xa0 \<le> c) \<and> (b = 0xed \<longrightarrow> c \<le> 0x9f) \<and>
     (b = 0xf0 \<longrightarrow> 0x90 \<le> c) \<and> (b = 0xf4 \<longrightarrow> c \<le> 0x8f)"

fun utf8_decode :: "nat list \<Rightarrow> js_text" where
  "utf8_decode [] = []"
| "utf8_decode (b # bs) =
     (if b < 0x80 then b # utf8_decode bs
      else if 0xc2 \<le> b \<and> b \<le> 0xdf
      then (case bs of
              c # cs \<Rightarrow> if cont c then (b mod 32 * 64 + c mod 64) # utf8_decode cs
                        else replacement # utf8_decode bs
            | [] \<Rightarrow> [replacement])
      else if 0xe0 \<le> b \<and> b \<le> 0xef
      then (case bs of
              c # cs \<Rightarrow>
                if second_ok b c
                then (case cs of
                        d # ds \<Rightarrow> if cont d then (b mod 16 * 4096 + c mod 64 * 64 + d mod 64) # utf8_decode ds
                                  else replacement # utf8_decode cs
                      | [] \<Rightarrow> [replacement])
                else replacement # utf8_decode bs
            | [] \<Rightarrow> [replacement])
      else if 0xf0 \<le> b \<and> b \<le> 0xf4
      then (case bs of
              c # cs \<Rightarrow>
                if second_ok b c
                then (case cs of
                        d # ds \<Rightarrow>
                          if cont d
                          then (case ds of
                                  e # es \<Rightarrow>
                                    if cont e
                                    then (b mod 8 * 262144 + c mod 64 * 4096 + d mod 64 * 64 + e mod 64) # utf8_decode es
                                    else replacement # utf8_decode ds
                                | [] \<Rightarrow> [replacement])
                          else replacement # utf8_decode cs
                      | [] \<Rightarrow> [replacement])
                else replacement # utf8_decode bs
            | [] \<Rightarrow> [replacement])
      else replacement # utf8_decode bs)"

definition buf_from_text :: "js_text \<Rightarrow> buffer" where
  "buf_from_text s = map of_nat (concat (map utf8_char s))"

definition buf_to_text :: "buffer \<Rightarrow> js_text" where
  "buf_to_text b = utf8_decode (map unat b)"

declare utf8_decode.simps [simp del]
lemmas utf8_decode_Nil [simp] = utf8_decode.simps(1)

lemma utf8_char_byte: "scalar c \<Longrightarrow> \<forall>x \<in> set (utf8_char c). x < 256"
  by (auto simp: utf8_char_def scalar_def)

lemma low_bits: "x < m \<Longrightarrow> (m * k + x) mod m = (x :: nat)" by simp

lemma cont_low: "(0x80 + x mod 64) mod 64 = x mod (64 :: nat)" "cont (0x80 + x mod 64)"
  using low_bits [of "x mod 64" 64 2] mod_less_divisor [of 64 x] by (simp_all add: cont_def)

lemma digits3: "c div 4096 * 4096 + c div 64 mod 64 * 64 + c mod 64 = (c :: nat)"
proof -
  have "c div 64 div 64 = c div 4096" by (simp add: div_mult2_eq [symmetric])
  then show ?thesis using mult_div_mod_eq [of 64 "c div 64"] mult_div_mod_eq [of 64 c] by linarith
qed

lemma digits4: "c div 262144 * 262144 + c div 4096 mod 64 * 4096 + c div 64 mod 64 * 64 + c mod 64 = (c :: nat)"
proof -
  have "c div 4096 div 64 = c div 262144" by (simp add: div_mult2_eq [symmetric])
  then show ?thesis using mult_div_mod_eq [of 64 "c div 4096"] digits3 [of c] by linarith
qed

lemma utf8_decode_1: "c < 0x80 \<Longrightarrow> utf8_decode (c # r) = c # utf8_decode r"
  by (simp add: utf8_decode.simps)

lemma utf8_decode_2:
  assumes "0x80 \<le> c" "c < 0x800"
  shows "utf8_decode ((0xc0 + c div 64) # (0x80 + c mod 64) # r) = c # utf8_decode r"
proof -
  have d: "2 \<le> c div 64" "c div 64 < 32" using assms by linarith+
  then have "(0xc0 + c div 64) mod 32 = c div 64" using low_bits [of "c div 64" 32 6] by simp
  then show ?thesis using d cont_low [of c] mult_div_mod_eq [of 64 c] by (simp add: utf8_decode.simps)
qed

lemma utf8_decode_3:
  assumes "0x800 \<le> c" "c < 0x10000" "scalar c"
  shows "utf8_decode ((0xe0 + c div 4096) # (0x80 + c div 64 mod 64) # (0x80 + c mod 64) # r) = c # utf8_decode r"
proof -
  have d: "c div 4096 < 16" using assms by linarith
  have a: "(0xe0 + c div 4096) mod 16 = c div 4096" using low_bits [OF d, of 14] by simp
  note m = cont_low(1) and c = cont_low(2)
  have "c div 64 div 64 = c div 4096" by (simp add: div_mult2_eq [symmetric])
  then have e: "c div 64 = 64 * (c div 4096) + c div 64 mod 64" using mult_div_mod_eq [of 64 "c div 64"] by simp
  have 1: "c div 4096 = 0 \<longrightarrow> 32 \<le> c div 64 mod 64" using e div_le_mono [OF assms(1), of 64] by simp
  have 2: "c div 4096 = 13 \<longrightarrow> c div 64 mod 64 \<le> 31"
  proof
    assume "c div 4096 = 13"
    moreover have "c < 0xd800" using calculation assms(3) by (auto simp: scalar_def)
    then have "c div 64 < 864" by simp
    ultimately show "c div 64 mod 64 \<le> 31" using e by linarith
  qed
  have "second_ok (0xe0 + c div 4096) (0x80 + c div 64 mod 64)"
    using d 1 2 c by (auto simp: second_ok_def)
  then show ?thesis using d digits3 [of c] by (simp add: utf8_decode.simps c a m)
qed

lemma utf8_decode_4:
  assumes "0x10000 \<le> c" "c < 0x110000"
  shows "utf8_decode ((0xf0 + c div 262144) # (0x80 + c div 4096 mod 64) # (0x80 + c div 64 mod 64) # (0x80 + c mod 64) # r)
    = c # utf8_decode r"
proof -
  have d: "c div 262144 \<le> 4" using assms by linarith
  have a: "(0xf0 + c div 262144) mod 8 = c div 262144" using low_bits [of "c div 262144" 8 30] d by simp
  note m = cont_low(1) and c = cont_low(2)
  have "c div 4096 div 64 = c div 262144" by (simp add: div_mult2_eq [symmetric])
  then have e: "c div 4096 = 64 * (c div 262144) + c div 4096 mod 64" using mult_div_mod_eq [of 64 "c div 4096"] by simp
  have 1: "c div 262144 = 0 \<longrightarrow> 16 \<le> c div 4096 mod 64" using e div_le_mono [OF assms(1), of 4096] by simp
  have f: "c div 4096 < 272" using assms(2) by linarith
  then have 2: "c div 262144 = 4 \<longrightarrow> c div 4096 mod 64 \<le> 15" using e by linarith
  have "second_ok (0xf0 + c div 262144) (0x80 + c div 4096 mod 64)"
    using d 1 2 c by (auto simp: second_ok_def)
  then show ?thesis using d digits4 [of c] by (simp add: utf8_decode.simps c a m)
qed

lemma utf8_decode_char: "scalar c \<Longrightarrow> utf8_decode (utf8_char c @ r) = c # utf8_decode r"
  using utf8_decode_1 [of c r] utf8_decode_2 [of c r] utf8_decode_3 [of c r] utf8_decode_4 [of c r]
  by (auto simp: utf8_char_def) (auto simp: scalar_def)

lemma buf_text_roundtrip [simp]:
  assumes "list_all scalar s"
  shows "buf_to_text (buf_from_text s) = s"
proof -
  have "map unat (map of_nat xs :: buffer) = xs" if "\<forall>x \<in> set xs. x < 256" for xs
    using that by (induction xs) (auto simp: unat_of_nat)
  moreover have "\<forall>x \<in> set (concat (map utf8_char s)). x < 256"
    using assms utf8_char_byte by (fastforce simp: list_all_iff)
  ultimately have "buf_to_text (buf_from_text s) = utf8_decode (concat (map utf8_char s))"
    by (simp add: buf_to_text_def buf_from_text_def)
  also have "\<dots> = s" using assms by (induction s) (simp_all add: utf8_decode_char)
  finally show ?thesis .
qed

text \<open>The bytes of a decoded string are those it was decoded from exactly when they were
  well-formed; one ill-formed byte becomes three.\<close>

lemma ill_formed_byte_grows: "buf_from_text (buf_to_text [0xff]) = [0xef, 0xbf, 0xbd]"
  by (simp add: buf_to_text_def utf8_decode.simps buf_from_text_def utf8_char_def replacement_def scalar_def)

end
