(* ===== verification/Rtcp_Report.thy ===== *)
theory Rtcp_Report
  imports Rtcp_Header Utf8
begin

text \<open>
  RTCP reports: receiver reports (\<^verbatim>\<open>packages/rtp/src/rtcp/rr.ts\<close>), sender reports (\<^verbatim>\<open>sr.ts\<close>) and
  source descriptions (\<^verbatim>\<open>sdes.ts\<close>).  Every report is a codec in the sense of \<open>wire_codec\<close>; a
  description survives when each of its chunks but the last ends inside a word, because the
  serializer leaves the terminating zero out when the items end on a word boundary.
\<close>

section \<open>Reception report blocks\<close>

record receiver_info =
  ri_ssrc :: int
  ri_fractionLost :: int
  ri_packetsLost :: int
  ri_highestSequence :: int
  ri_jitter :: int
  ri_lsr :: int
  ri_dlsr :: int

definition ReceiverInfo_serialize :: "receiver_info \<Rightarrow> buffer result" where
  "ReceiverInfo_serialize r =
     bufferWriter [4, 1, 3, 4, 4, 4, 4]
       [ri_ssrc r, ri_fractionLost r, ri_packetsLost r, ri_highestSequence r, ri_jitter r, ri_lsr r, ri_dlsr r]"

definition ReceiverInfo_deSerialize :: "buffer \<Rightarrow> receiver_info result" where
  "ReceiverInfo_deSerialize data =
     rbind (bufferReader data [4, 1, 3, 4, 4, 4, 4]) (\<lambda>vs.
     Inr \<lparr>ri_ssrc = vs ! 0, ri_fractionLost = vs ! 1, ri_packetsLost = vs ! 2, ri_highestSequence = vs ! 3,
       ri_jitter = vs ! 4, ri_lsr = vs ! 5, ri_dlsr = vs ! 6\<rparr>)"

definition valid_receiver_info :: "receiver_info \<Rightarrow> bool" where
  "valid_receiver_info r \<longleftrightarrow> u32_ok (ri_ssrc r) \<and> u8_ok (ri_fractionLost r) \<and>
     0 \<le> ri_packetsLost r \<and> ri_packetsLost r < 2 ^ 24 \<and> u32_ok (ri_highestSequence r) \<and> u32_ok (ri_jitter r) \<and>
     u32_ok (ri_lsr r) \<and> u32_ok (ri_dlsr r)"

definition ri_bytes :: "receiver_info \<Rightarrow> buffer" where
  "ri_bytes r = fields_bytes [4, 1, 3, 4, 4, 4, 4]
     [ri_ssrc r, ri_fractionLost r, ri_packetsLost r, ri_highestSequence r, ri_jitter r, ri_lsr r, ri_dlsr r]"

lemma length_ri_bytes [simp]: "length (ri_bytes r) = 24"
  by (simp add: ri_bytes_def length_fields_bytes)

lemma ri_fields_ok: "valid_receiver_info r \<Longrightarrow> list_all2 field_ok [4, 1, 3, 4, 4, 4, 4]
  [ri_ssrc r, ri_fractionLost r, ri_packetsLost r, ri_highestSequence r, ri_jitter r, ri_lsr r, ri_dlsr r]"
  by (simp add: valid_receiver_info_def field_ok_def int_size_ok_def u8_ok_def u32_ok_def)

lemma ReceiverInfo_wire:
  assumes "valid_receiver_info r"
  shows "ReceiverInfo_serialize r = Inr (ri_bytes r)" "ReceiverInfo_deSerialize (ri_bytes r @ rest) = Inr r"
  unfolding ReceiverInfo_serialize_def ReceiverInfo_deSerialize_def ri_bytes_def
  by (simp_all only: bufferWriter_ok [OF ri_fields_ok [OF assms]] bufferReader_bytes [OF ri_fields_ok [OF assms]]) simp

interpretation receiver_info: wire_codec ReceiverInfo_serialize ReceiverInfo_deSerialize valid_receiver_info
  using ReceiverInfo_wire(1) ReceiverInfo_wire(2) [where rest = "[]"] by unfold_locales auto

text \<open>The report blocks of a packet, and the loop that reads them.\<close>

definition serialize_reports :: "receiver_info list \<Rightarrow> buffer result" where
  "serialize_reports rs = rbind (rmap ReceiverInfo_serialize rs) (\<lambda>bs. Inr (concat bs))"

definition read_reports :: "buffer \<Rightarrow> nat \<Rightarrow> nat \<Rightarrow> receiver_info list result" where
  "read_reports data pos count =
     rmap (\<lambda>i. ReceiverInfo_deSerialize (buf_slice data (pos + 24 * i) (pos + 24 * i + 24))) [0..<count]"

lemma serialize_reports_wire:
  assumes "\<forall>r \<in> set rs. valid_receiver_info r"
  shows "serialize_reports rs = Inr (concat (map ri_bytes rs))"
  using assms rmap_total [of rs ReceiverInfo_serialize ri_bytes] ReceiverInfo_wire(1)
  by (simp add: serialize_reports_def)

lemma length_report_bytes: "length (concat (map ri_bytes rs)) = 24 * length rs"
  by (induction rs) auto

lemma report_slice:
  assumes "i < length rs"
  shows "buf_slice (pre @ concat (map ri_bytes rs)) (length pre + 24 * i) (length pre + 24 * i + 24) = ri_bytes (rs ! i)"
proof -
  have "rs = take i rs @ rs ! i # drop (Suc i) rs" using assms by (rule id_take_nth_drop)
  then have "concat (map ri_bytes rs) = concat (map ri_bytes (take i rs)) @ ri_bytes (rs ! i) @ concat (map ri_bytes (drop (Suc i) rs))"
    by (metis concat.simps(2) concat_append list.simps(9) map_append)
  moreover have "length (concat (map ri_bytes (take i rs))) = 24 * i" using assms by (simp add: length_report_bytes)
  ultimately show ?thesis by (simp add: buf_slice_def)
qed

lemma read_reports_wire:
  assumes "\<forall>r \<in> set rs. valid_receiver_info r"
  shows "read_reports (pre @ concat (map ri_bytes rs)) (length pre) (length rs) = Inr rs"
proof -
  have "ReceiverInfo_deSerialize (buf_slice (pre @ concat (map ri_bytes rs)) (length pre + 24 * i) (length pre + 24 * i + 24)) = Inr (rs ! i)"
    if "i \<in> set [0..<length rs]" for i
    using that assms ReceiverInfo_wire(2) [of "rs ! i" "[]"] by (simp add: report_slice)
  then show ?thesis
    unfolding read_reports_def by (subst rmap_total [where g = "\<lambda>i. rs ! i"]) (auto simp: map_nth)
qed

section \<open>Receiver reports\<close>

record rr_packet =
  rr_ssrc :: int
  rr_reports :: "receiver_info list"

definition RtcpRrPacket_type :: int where "RtcpRrPacket_type = 201"

definition Rr_serialize :: "rr_packet \<Rightarrow> buffer result" where
  "Rr_serialize p =
     rbind (bufferWriter [4] [rr_ssrc p]) (\<lambda>pl.
     rbind (serialize_reports (rr_reports p)) (\<lambda>rs.
     let pl = pl @ rs
     in RtcpHeader_serialize_packet RtcpRrPacket_type (int (length (rr_reports p))) pl (int (length pl div 4))))"

definition Rr_deSerialize :: "buffer \<Rightarrow> nat \<Rightarrow> rr_packet result" where
  "Rr_deSerialize data count =
     rbind (bufferReader data [4]) (\<lambda>vs.
     rbind (read_reports data 4 count) (\<lambda>rs.
     Inr \<lparr>rr_ssrc = vs ! 0, rr_reports = rs\<rparr>))"

section \<open>Sender reports\<close>

record sender_info =
  si_ntpTimestamp :: int
  si_rtpTimestamp :: int
  si_packetCount :: int
  si_octetCount :: int

record sr_packet =
  sr_ssrc :: int
  sr_senderInfo :: sender_info
  sr_reports :: "receiver_info list"

definition RtcpSrPacket_type :: int where "RtcpSrPacket_type = 200"

definition SenderInfo_serialize :: "sender_info \<Rightarrow> buffer result" where
  "SenderInfo_serialize s =
     bufferWriter [8, 4, 4, 4] [si_ntpTimestamp s, si_rtpTimestamp s, si_packetCount s, si_octetCount s]"

definition SenderInfo_deSerialize :: "buffer \<Rightarrow> sender_info result" where
  "SenderInfo_deSerialize data =
     rbind (bufferReader data [8, 4, 4, 4]) (\<lambda>vs.
     Inr \<lparr>si_ntpTimestamp = vs ! 0, si_rtpTimestamp = vs ! 1, si_packetCount = vs ! 2, si_octetCount = vs ! 3\<rparr>)"

definition Sr_serialize :: "sr_packet \<Rightarrow> buffer result" where
  "Sr_serialize p =
     rbind (writeUInt32BE (sr_ssrc p)) (\<lambda>pl.
     rbind (SenderInfo_serialize (sr_senderInfo p)) (\<lambda>si.
     let pl = pl @ si
     in rbind (serialize_reports (sr_reports p)) (\<lambda>rs.
        let pl = pl @ rs
        in RtcpHeader_serialize_packet RtcpSrPacket_type (int (length (sr_reports p))) pl (int (length pl div 4)))))"

definition Sr_deSerialize :: "buffer \<Rightarrow> nat \<Rightarrow> sr_packet result" where
  "Sr_deSerialize pl count =
     rbind (readUInt32BE pl 0) (\<lambda>src.
     rbind (SenderInfo_deSerialize (buf_slice pl 4 24)) (\<lambda>si.
     rbind (read_reports pl 24 count) (\<lambda>rs.
     Inr \<lparr>sr_ssrc = src, sr_senderInfo = si, sr_reports = rs\<rparr>)))"

text \<open>\<^verbatim>\<open>ntpTime2Sec\<close> as an exact quotient.\<close>

definition ntpTime2Sec :: "int \<Rightarrow> rat result" where
  "ntpTime2Sec ntp =
     rbind (bufferWriter [8] [ntp]) (\<lambda>b.
     rbind (bufferReader b [4, 4]) (\<lambda>vs.
     Inr (of_int (vs ! 0) + of_int (vs ! 1) / 2 ^ 32)))"

section \<open>Round trips of the reports\<close>

definition rtcp_head :: "int \<Rightarrow> int \<Rightarrow> int \<Rightarrow> rtcp_header" where
  "rtcp_head type count len =
     \<lparr>rtcp_version = 2, rtcp_padding = False, rtcp_count = count, rtcp_type = type, rtcp_length = len\<rparr>"

definition head_bytes :: "rtcp_header \<Rightarrow> buffer" where
  "head_bytes h = fields_bytes [1, 1, 2] [bw_number (v_p_rc h), rtcp_type h, rtcp_length h]"

lemma length_head_bytes [simp]: "length (head_bytes h) = 4"
  by (simp add: head_bytes_def length_fields_bytes)

lemma head_read: "valid_rtcp_header h \<Longrightarrow> RtcpHeader_deSerialize (head_bytes h @ r) = Inr h"
  unfolding head_bytes_def by (rule rtcp_header_wire(2))

lemma valid_rtcp_head:
  "0 \<le> c \<Longrightarrow> c < 32 \<Longrightarrow> u8_ok t \<Longrightarrow> u16_ok l \<Longrightarrow> valid_rtcp_header (rtcp_head t c l)"
  by (simp add: valid_rtcp_header_def rtcp_head_def)

lemma serialize_packet_wire:
  assumes "valid_rtcp_header (rtcp_head t c l)"
  shows "RtcpHeader_serialize_packet t c pl l = Inr (head_bytes (rtcp_head t c l) @ pl)"
  using rtcp_header_wire(1) [OF assms]
  by (simp add: RtcpHeader_serialize_packet_def head_bytes_def flip: rtcp_head_def)

definition valid_rr :: "rr_packet \<Rightarrow> bool" where
  "valid_rr p \<longleftrightarrow> u32_ok (rr_ssrc p) \<and> length (rr_reports p) < 32 \<and> (\<forall>r \<in> set (rr_reports p). valid_receiver_info r)"

definition rr_body :: "rr_packet \<Rightarrow> buffer" where
  "rr_body p = be_bytes 4 (rr_ssrc p) @ concat (map ri_bytes (rr_reports p))"

lemma length_rr_body: "length (rr_body p) = 4 * (6 * length (rr_reports p) + 1)"
  by (simp add: rr_body_def length_report_bytes)

lemma Rr_wire:
  assumes "valid_rr p"
  defines "n \<equiv> length (rr_reports p)"
  shows "valid_rtcp_header (rtcp_head 201 (int n) (1 + 6 * int n))"
    "Rr_serialize p = Inr (head_bytes (rtcp_head 201 (int n) (1 + 6 * int n)) @ rr_body p)"
    "Rr_deSerialize (rr_body p) n = Inr p"
proof -
  have f: "list_all2 field_ok [4] [rr_ssrc p]"
    using assms by (simp add: valid_rr_def field_ok_def int_size_ok_def u32_ok_def)
  have v: "\<forall>r \<in> set (rr_reports p). valid_receiver_info r" and n: "n < 32" using assms by (auto simp: valid_rr_def)
  show h: "valid_rtcp_header (rtcp_head 201 (int n) (1 + 6 * int n))"
    using n by (intro valid_rtcp_head) (auto simp: u8_ok_def u16_ok_def)
  have "length (be_bytes 4 (rr_ssrc p) @ concat (map ri_bytes (rr_reports p))) div 4 = 6 * n + 1"
    by (simp add: length_report_bytes n_def)
  then show "Rr_serialize p = Inr (head_bytes (rtcp_head 201 (int n) (1 + 6 * int n)) @ rr_body p)"
    using serialize_packet_wire [OF h, of "rr_body p"] bufferWriter_ok [OF f] serialize_reports_wire [OF v]
    by (simp add: Rr_serialize_def RtcpRrPacket_type_def rr_body_def n_def)
  show "Rr_deSerialize (rr_body p) n = Inr p"
    using bufferReader_bytes [OF f] read_reports_wire [OF v, of "be_bytes 4 (rr_ssrc p)"]
    by (simp add: Rr_deSerialize_def rr_body_def n_def)
qed

definition valid_sender_info :: "sender_info \<Rightarrow> bool" where
  "valid_sender_info s \<longleftrightarrow> 0 \<le> si_ntpTimestamp s \<and> si_ntpTimestamp s < 2 ^ 64 \<and> u32_ok (si_rtpTimestamp s) \<and>
     u32_ok (si_packetCount s) \<and> u32_ok (si_octetCount s)"

definition si_bytes :: "sender_info \<Rightarrow> buffer" where
  "si_bytes s = fields_bytes [8, 4, 4, 4] [si_ntpTimestamp s, si_rtpTimestamp s, si_packetCount s, si_octetCount s]"

lemma length_si_bytes [simp]: "length (si_bytes s) = 20"
  by (simp add: si_bytes_def length_fields_bytes)

lemma SenderInfo_wire:
  assumes "valid_sender_info s"
  shows "SenderInfo_serialize s = Inr (si_bytes s)" "SenderInfo_deSerialize (si_bytes s @ rest) = Inr s"
proof -
  have f: "list_all2 field_ok [8, 4, 4, 4] [si_ntpTimestamp s, si_rtpTimestamp s, si_packetCount s, si_octetCount s]"
    using assms by (simp add: valid_sender_info_def field_ok_def int_size_ok_def u32_ok_def)
  show "SenderInfo_serialize s = Inr (si_bytes s)" "SenderInfo_deSerialize (si_bytes s @ rest) = Inr s"
    unfolding SenderInfo_serialize_def SenderInfo_deSerialize_def si_bytes_def
    by (simp_all only: bufferWriter_ok [OF f] bufferReader_bytes [OF f]) simp
qed

interpretation sender_info: wire_codec SenderInfo_serialize SenderInfo_deSerialize valid_sender_info
  using SenderInfo_wire(1) SenderInfo_wire(2) [where rest = "[]"] by unfold_locales auto

definition valid_sr :: "sr_packet \<Rightarrow> bool" where
  "valid_sr p \<longleftrightarrow> u32_ok (sr_ssrc p) \<and> valid_sender_info (sr_senderInfo p) \<and> length (sr_reports p) < 32 \<and>
     (\<forall>r \<in> set (sr_reports p). valid_receiver_info r)"

definition sr_body :: "sr_packet \<Rightarrow> buffer" where
  "sr_body p = be_bytes 4 (sr_ssrc p) @ si_bytes (sr_senderInfo p) @ concat (map ri_bytes (sr_reports p))"

lemma Sr_wire:
  assumes "valid_sr p"
  defines "n \<equiv> length (sr_reports p)"
  shows "valid_rtcp_header (rtcp_head 200 (int n) (6 + 6 * int n))"
    "Sr_serialize p = Inr (head_bytes (rtcp_head 200 (int n) (6 + 6 * int n)) @ sr_body p)"
    "Sr_deSerialize (sr_body p) n = Inr p"
proof -
  have s: "u32_ok (sr_ssrc p)" "valid_sender_info (sr_senderInfo p)" and n: "n < 32"
    and v: "\<forall>r \<in> set (sr_reports p). valid_receiver_info r"
    using assms by (auto simp: valid_sr_def)
  show h: "valid_rtcp_header (rtcp_head 200 (int n) (6 + 6 * int n))"
    using n by (intro valid_rtcp_head) (auto simp: u8_ok_def u16_ok_def)
  have l: "length (sr_body p) = 4 * (6 * n + 6)" by (simp add: sr_body_def length_report_bytes n_def)
  then show "Sr_serialize p = Inr (head_bytes (rtcp_head 200 (int n) (6 + 6 * int n)) @ sr_body p)"
    using serialize_packet_wire [OF h, of "sr_body p"] s
    by (simp add: Sr_serialize_def RtcpSrPacket_type_def writeUInt32BE_ok SenderInfo_wire serialize_reports_wire [OF v]
        Let_def sr_body_def n_def)
  have "buf_slice (sr_body p) 4 24 = si_bytes (sr_senderInfo p)" by (simp add: sr_body_def buf_slice_def)
  moreover have "read_reports (sr_body p) 24 n = Inr (sr_reports p)"
    using read_reports_wire [OF v, of "be_bytes 4 (sr_ssrc p) @ si_bytes (sr_senderInfo p)"] by (simp add: sr_body_def n_def)
  moreover have "readUInt32BE (sr_body p) 0 = Inr (sr_ssrc p)" using s by (simp add: sr_body_def read32_ok)
  ultimately show "Sr_deSerialize (sr_body p) n = Inr p"
    using SenderInfo_wire(2) [OF s(2), of "[]"] by (simp add: Sr_deSerialize_def)
qed

section \<open>Source descriptions\<close>

record sdes_item =
  sdes_type :: int
  sdes_text :: js_text

record sdes_chunk =
  sdes_source :: int
  sdes_items :: "sdes_item list"

definition getPadding :: "nat \<Rightarrow> nat" where
  "getPadding len = (if len mod 4 = 0 then 0 else 4 - len mod 4)"

definition item_length :: "sdes_item \<Rightarrow> nat" where
  "item_length it = 1 + 1 + length (buf_from_text (sdes_text it))"

definition Item_serialize :: "sdes_item \<Rightarrow> buffer result" where
  "Item_serialize it =
     (let t = buf_from_text (sdes_text it)
      in rbind (bufferWriter [1, 1] [sdes_type it, int (length t)]) (\<lambda>b. Inr (b @ t)))"

text \<open>The caller has checked that the first byte exists; a missing length byte makes the slice
  empty.\<close>

definition Item_deSerialize :: "buffer \<Rightarrow> sdes_item" where
  "Item_deSerialize data =
     \<lparr>sdes_type = uint (data ! 0),
      sdes_text = (if 1 < length data then buf_to_text (buf_slice data 2 (2 + unat (data ! 1))) else [])\<rparr>"

definition chunk_length :: "sdes_chunk \<Rightarrow> nat" where
  "chunk_length c =
     (let len = 4 + sum_list (map item_length (sdes_items c)) + 1 in len + getPadding len)"

definition Chunk_serialize :: "sdes_chunk \<Rightarrow> buffer result" where
  "Chunk_serialize c =
     rbind (bufferWriter [4] [sdes_source c]) (\<lambda>src.
     rbind (rmap Item_serialize (sdes_items c)) (\<lambda>items.
     let data = src @ concat items in Inr (data @ buf_alloc (getPadding (length data)))))"

text \<open>The loop over the items, on what is left of the chunk.\<close>

function items_loop :: "buffer \<Rightarrow> sdes_item list" where
  "items_loop data =
     (if data = [] then []
      else if data ! 0 = 0 then []
      else let item = Item_deSerialize data in item # items_loop (drop (item_length item) data))"
  by pat_completeness auto
termination
  by (relation "measure length") (auto simp: item_length_def)

definition Chunk_deSerialize :: "buffer \<Rightarrow> sdes_chunk result" where
  "Chunk_deSerialize data =
     rbind (readUInt32BE data 0) (\<lambda>source. Inr \<lparr>sdes_source = source, sdes_items = items_loop (drop 4 data)\<rparr>)"

definition RtcpSourceDescriptionPacket_type :: int where "RtcpSourceDescriptionPacket_type = 202"

definition Sdes_serialize :: "sdes_chunk list \<Rightarrow> buffer result" where
  "Sdes_serialize chunks =
     rbind (rmap Chunk_serialize chunks) (\<lambda>bs.
     let pl = concat bs; pl = pl @ buf_alloc (getPadding (length pl))
     in RtcpHeader_serialize_packet RtcpSourceDescriptionPacket_type (int (length chunks)) pl (int (length pl div 4)))"

function Sdes_deSerialize :: "buffer \<Rightarrow> sdes_chunk list result" where
  "Sdes_deSerialize pl =
     (if pl = [] then Inr []
      else rbind (Chunk_deSerialize pl) (\<lambda>c.
           rbind (Sdes_deSerialize (drop (chunk_length c) pl)) (\<lambda>cs. Inr (c # cs))))"
  by pat_completeness auto
termination
  by (relation "measure length") (auto simp: chunk_length_def Let_def)

declare items_loop.simps [simp del] Sdes_deSerialize.simps [simp del]

subsection \<open>Round trip\<close>

definition valid_item :: "sdes_item \<Rightarrow> bool" where
  "valid_item it \<longleftrightarrow> 1 \<le> sdes_type it \<and> sdes_type it < 256 \<and> list_all scalar (sdes_text it) \<and>
     length (buf_from_text (sdes_text it)) < 256"

definition item_bytes :: "sdes_item \<Rightarrow> buffer" where
  "item_bytes it = be_bytes 1 (sdes_type it) @ be_bytes 1 (int (length (buf_from_text (sdes_text it)))) @
     buf_from_text (sdes_text it)"

lemma length_item_bytes [simp]: "length (item_bytes it) = item_length it"
  by (simp add: item_bytes_def item_length_def)

lemma Item_wire:
  assumes "valid_item it"
  shows "Item_serialize it = Inr (item_bytes it)" "Item_deSerialize (item_bytes it @ r) = it"
    "item_bytes it @ r \<noteq> []" "(item_bytes it @ r) ! 0 \<noteq> 0"
proof -
  let ?t = "buf_from_text (sdes_text it)"
  have ok: "1 \<le> sdes_type it" "sdes_type it < 256" "list_all scalar (sdes_text it)" "length ?t < 256"
    using assms by (auto simp: valid_item_def)
  have "list_all2 field_ok [1, 1] [sdes_type it, int (length ?t)]"
    using ok by (simp add: field_ok_def int_size_ok_def)
  from bufferWriter_ok [OF this] show "Item_serialize it = Inr (item_bytes it)"
    by (simp add: Item_serialize_def Let_def item_bytes_def del: be_bytes.simps One_nat_def)
  have b1: "be_bytes 1 v = [word_of_int v]" for v by simp
  have u: "uint (word_of_int (sdes_type it) :: byte) = sdes_type it" using ok by (simp add: uint_word_of_int)
  have n: "unat (word_of_int (int (length ?t)) :: byte) = length ?t" using ok(4) by (simp add: unat_of_nat)
  show "item_bytes it @ r \<noteq> []" by (simp add: item_bytes_def)
  have "word_of_int (sdes_type it) \<noteq> (0 :: byte)" using u ok(1) by force
  then show "(item_bytes it @ r) ! 0 \<noteq> 0" by (simp add: item_bytes_def b1)
  show "Item_deSerialize (item_bytes it @ r) = it"
    using ok u n by (simp add: Item_deSerialize_def item_bytes_def b1 buf_slice_def)
qed

lemma items_loop_wire:
  assumes "\<forall>it \<in> set its. valid_item it" "r = [] \<or> r ! 0 = 0"
  shows "items_loop (concat (map item_bytes its) @ r) = its"
  using assms(1)
proof (induction its)
  case Nil
  then show ?case using assms(2) by (auto simp: items_loop.simps)
next
  case (Cons it its)
  note w = Item_wire(2,3,4) [of it "concat (map item_bytes its) @ r"]
  show ?case
    using Cons w by (subst items_loop.simps) (auto simp: Let_def simp flip: append_assoc)
qed

definition valid_chunk :: "sdes_chunk \<Rightarrow> bool" where
  "valid_chunk c \<longleftrightarrow> u32_ok (sdes_source c) \<and> (\<forall>it \<in> set (sdes_items c). valid_item it)"

definition chunk_data :: "sdes_chunk \<Rightarrow> buffer" where
  "chunk_data c = be_bytes 4 (sdes_source c) @ concat (map item_bytes (sdes_items c))"

definition sdes_chunk_bytes :: "sdes_chunk \<Rightarrow> buffer" where
  "sdes_chunk_bytes c = chunk_data c @ buf_alloc (getPadding (length (chunk_data c)))"

text \<open>A chunk is closed when the serializer ends it with a zero byte.\<close>

definition closed_chunk :: "sdes_chunk \<Rightarrow> bool" where
  "closed_chunk c \<longleftrightarrow> length (chunk_data c) mod 4 \<noteq> 0"

lemma length_items: "length (concat (map item_bytes its)) = sum_list (map item_length its)"
  by (induction its) auto

lemma length_chunk_data: "length (chunk_data c) = 4 + sum_list (map item_length (sdes_items c))"
  by (simp add: chunk_data_def length_items)

lemma pad_mod: "(n + getPadding n) mod 4 = 0"
  by (simp add: getPadding_def) presburger

lemma pad_step: "n mod 4 \<noteq> 0 \<Longrightarrow> n + getPadding n = n + 1 + getPadding (n + 1)"
  "n + getPadding n \<le> n + 1 + getPadding (n + 1)"
proof -
  have "n mod 4 < 4" by simp
  then consider "n mod 4 = 0" | "n mod 4 = 1" | "n mod 4 = 2" | "n mod 4 = 3" by linarith
  then have "(n mod 4 \<noteq> 0 \<longrightarrow> n + getPadding n = n + 1 + getPadding (n + 1)) \<and> n + getPadding n \<le> n + 1 + getPadding (n + 1)"
    by cases (simp_all add: getPadding_def mod_Suc)
  then show "n mod 4 \<noteq> 0 \<Longrightarrow> n + getPadding n = n + 1 + getPadding (n + 1)"
    "n + getPadding n \<le> n + 1 + getPadding (n + 1)" by blast+
qed

lemma length_sdes_chunk_bytes:
  "length (sdes_chunk_bytes c) mod 4 = 0"
  "closed_chunk c \<Longrightarrow> length (sdes_chunk_bytes c) = chunk_length c"
  "length (sdes_chunk_bytes c) \<le> chunk_length c"
proof -
  show "length (sdes_chunk_bytes c) mod 4 = 0" by (simp add: sdes_chunk_bytes_def pad_mod)
  let ?n = "length (chunk_data c)"
  have c: "chunk_length c = ?n + 1 + getPadding (?n + 1)" by (simp add: chunk_length_def Let_def length_chunk_data)
  show "length (sdes_chunk_bytes c) = chunk_length c" if "closed_chunk c"
    using that pad_step(1) [of ?n] unfolding c closed_chunk_def by (simp add: sdes_chunk_bytes_def)
  show "length (sdes_chunk_bytes c) \<le> chunk_length c"
    unfolding c using pad_step(2) [of ?n] by (simp add: sdes_chunk_bytes_def)
qed

lemma Chunk_wire:
  assumes "valid_chunk c"
  shows "Chunk_serialize c = Inr (sdes_chunk_bytes c)"
    "closed_chunk c \<or> r = [] \<Longrightarrow> Chunk_deSerialize (sdes_chunk_bytes c @ r) = Inr c"
proof -
  have s: "u32_ok (sdes_source c)" and v: "\<forall>it \<in> set (sdes_items c). valid_item it"
    using assms by (auto simp: valid_chunk_def)
  have "list_all2 field_ok [4] [sdes_source c]" using s by (simp add: field_ok_def int_size_ok_def u32_ok_def)
  from bufferWriter_ok [OF this] rmap_total [of "sdes_items c" Item_serialize item_bytes]
  show "Chunk_serialize c = Inr (sdes_chunk_bytes c)"
    using v by (simp add: Chunk_serialize_def Let_def sdes_chunk_bytes_def chunk_data_def Item_wire(1) length_items)
  show "Chunk_deSerialize (sdes_chunk_bytes c @ r) = Inr c" if "closed_chunk c \<or> r = []"
  proof -
    let ?p = "buf_alloc (getPadding (length (chunk_data c))) @ r"
    have "?p = [] \<or> ?p ! 0 = 0"
      using that by (cases "closed_chunk c") (auto simp: closed_chunk_def getPadding_def buf_alloc_def nth_append)
    then have "items_loop (concat (map item_bytes (sdes_items c)) @ ?p) = sdes_items c" by (rule items_loop_wire [OF v])
    then show ?thesis using s by (simp add: Chunk_deSerialize_def sdes_chunk_bytes_def chunk_data_def read32_ok)
  qed
qed

lemma Sdes_body_wire:
  assumes "\<forall>c \<in> set cs. valid_chunk c" "\<forall>c \<in> set (butlast cs). closed_chunk c"
  shows "Sdes_deSerialize (concat (map sdes_chunk_bytes cs)) = Inr cs"
  using assms
proof (induction cs)
  case (Cons c cs)
  have ne: "sdes_chunk_bytes c \<noteq> []"
    using length_be_bytes [of 4 "sdes_source c"] by (auto simp: sdes_chunk_bytes_def chunk_data_def simp del: length_be_bytes)
  have cl: "closed_chunk c \<or> concat (map sdes_chunk_bytes cs) = []" using Cons.prems by (cases cs) auto
  have d: "drop (chunk_length c) (sdes_chunk_bytes c @ concat (map sdes_chunk_bytes cs)) = concat (map sdes_chunk_bytes cs)"
    using cl
  proof
    assume "concat (map sdes_chunk_bytes cs) = []"
    then show ?thesis using length_sdes_chunk_bytes(3) [of c] by (simp only: append_Nil2 drop_all)
  qed (simp add: length_sdes_chunk_bytes(2))
  show ?case
    using Cons cl ne d Chunk_wire(2) [of c "concat (map sdes_chunk_bytes cs)"]
    by (subst Sdes_deSerialize.simps) (simp add: butlast.simps split: if_splits)
qed (simp add: Sdes_deSerialize.simps)

definition valid_sdes :: "sdes_chunk list \<Rightarrow> bool" where
  "valid_sdes cs \<longleftrightarrow> length cs < 32 \<and> (\<forall>c \<in> set cs. valid_chunk c) \<and> (\<forall>c \<in> set (butlast cs). closed_chunk c) \<and>
     length (concat (map sdes_chunk_bytes cs)) < 4 * 2 ^ 16"

lemma Sdes_wire:
  assumes "valid_sdes cs"
  defines "h \<equiv> rtcp_head 202 (int (length cs)) (int (length (concat (map sdes_chunk_bytes cs)) div 4))"
  shows "valid_rtcp_header h" "Sdes_serialize cs = Inr (head_bytes h @ concat (map sdes_chunk_bytes cs))"
    "Sdes_deSerialize (concat (map sdes_chunk_bytes cs)) = Inr cs" "length (concat (map sdes_chunk_bytes cs)) mod 4 = 0"
proof -
  have v: "\<forall>c \<in> set cs. valid_chunk c" and l: "length cs < 32" "length (concat (map sdes_chunk_bytes cs)) < 4 * 2 ^ 16"
    using assms by (auto simp: valid_sdes_def)
  show "Sdes_deSerialize (concat (map sdes_chunk_bytes cs)) = Inr cs"
    using assms by (intro Sdes_body_wire) (auto simp: valid_sdes_def)
  show h: "valid_rtcp_header h"
    unfolding h_def using l by (intro valid_rtcp_head) (auto simp: u8_ok_def u16_ok_def)
  show m: "length (concat (map sdes_chunk_bytes cs)) mod 4 = 0"
  proof (induction cs)
    case (Cons c cs)
    then show ?case using length_sdes_chunk_bytes(1) [of c] by (simp add: mod_add_eq) presburger
  qed simp
  have "rmap Chunk_serialize cs = Inr (map sdes_chunk_bytes cs)"
    using v by (intro rmap_total) (simp add: Chunk_wire(1))
  then show "Sdes_serialize cs = Inr (head_bytes h @ concat (map sdes_chunk_bytes cs))"
    using serialize_packet_wire [OF h [unfolded h_def]] m
    by (simp add: Sdes_serialize_def Let_def h_def getPadding_def buf_alloc_def RtcpSourceDescriptionPacket_type_def)
qed

text \<open>Without the closing zero a chunk runs into the next one: the second source is read as an
  item of the first.\<close>

lemma sdes_chunks_merge:
  "Sdes_deSerialize (concat (map sdes_chunk_bytes
     [\<lparr>sdes_source = 7, sdes_items = [\<lparr>sdes_type = 1, sdes_text = [97, 98]\<rparr>]\<rparr>, \<lparr>sdes_source = 0x01020304, sdes_items = []\<rparr>]))
   = Inr [\<lparr>sdes_source = 7, sdes_items = [\<lparr>sdes_type = 1, sdes_text = [97, 98]\<rparr>, \<lparr>sdes_type = 1, sdes_text = [3, 4]\<rparr>]\<rparr>]"
  by code_simp

end
