(* ===== verification/Rtcp_Feedback.thy ===== *)
theory Rtcp_Feedback
  imports Rtcp_Report
begin

unbundle bit_operations_syntax

text \<open>
  RTCP feedback without transport-wide feedback: full intra requests, picture loss indications
  and bit rate estimates (\<^verbatim>\<open>packages/rtp/src/rtcp/psfb/\<close>) and generic negative
  acknowledgements (\<^verbatim>\<open>rtpfb/nack.ts\<close>).
\<close>

section \<open>Full intra request\<close>

text \<open>A request cut off behind its source has no sequence number (\<^verbatim>\<open>undefined\<close>, \<open>None\<close>).\<close>

record fir_entry =
  fir_ssrc :: int
  fir_sequenceNumber :: "int option"

record fir_feedback =
  fir_senderSsrc :: int
  fir_mediaSsrc :: int
  fir_fir :: "fir_entry list"

fun fir_loop :: "buffer \<Rightarrow> fir_entry list result" where
  "fir_loop data =
     (if data = [] then Inr []
      else rbind (readUInt32BE data 0) (\<lambda>src.
           let e = \<lparr>fir_ssrc = src, fir_sequenceNumber = (if 4 < length data then Some (uint (data ! 4)) else None)\<rparr>
           in rbind (fir_loop (drop 8 data)) (\<lambda>es. Inr (e # es))))"

declare fir_loop.simps [simp del]

definition Fir_deSerialize :: "buffer \<Rightarrow> fir_feedback result" where
  "Fir_deSerialize data =
     rbind (bufferReader data [4, 4]) (\<lambda>vs.
     rbind (fir_loop (drop 8 data)) (\<lambda>es.
     Inr \<lparr>fir_senderSsrc = vs ! 0, fir_mediaSsrc = vs ! 1, fir_fir = es\<rparr>))"

text \<open>An indexed store into a buffer keeps the low byte; \<^verbatim>\<open>undefined\<close> is stored as 0.\<close>

definition fir_entry_bytes :: "fir_entry \<Rightarrow> buffer result" where
  "fir_entry_bytes e =
     rbind (writeUInt32BE (fir_ssrc e)) (\<lambda>src.
     Inr (src @ [case fir_sequenceNumber e of Some n \<Rightarrow> word_of_int n | None \<Rightarrow> 0] @ buf_alloc 3))"

definition Fir_serialize :: "fir_feedback \<Rightarrow> buffer result" where
  "Fir_serialize f =
     rbind (bufferWriter [4, 4] [fir_senderSsrc f, fir_mediaSsrc f]) (\<lambda>ssrcs.
     rbind (rmap fir_entry_bytes (fir_fir f)) (\<lambda>es. Inr (ssrcs @ concat es)))"

section \<open>Picture loss indication\<close>

record pli_feedback =
  pli_senderSsrc :: int
  pli_mediaSsrc :: int

definition Pli_deSerialize :: "buffer \<Rightarrow> pli_feedback result" where
  "Pli_deSerialize data =
     rbind (bufferReader data [4, 4]) (\<lambda>vs. Inr \<lparr>pli_senderSsrc = vs ! 0, pli_mediaSsrc = vs ! 1\<rparr>)"

definition Pli_serialize :: "pli_feedback \<Rightarrow> buffer result" where
  "Pli_serialize p = bufferWriter [4, 4] [pli_senderSsrc p, pli_mediaSsrc p]"

section \<open>Receiver estimated maximum bit rate\<close>

text \<open>The mantissa is \<^verbatim>\<open>NaN\<close> (\<open>None\<close>) when the last of its bytes is missing.\<close>

record remb_feedback =
  remb_senderSsrc :: int
  remb_mediaSsrc :: int
  remb_uniqueID :: js_text
  remb_ssrcNum :: int
  remb_brExp :: int
  remb_brMantissa :: "int option"
  remb_bitrate :: int
  remb_ssrcFeedbacks :: "int list"

fun remb_loop :: "buffer \<Rightarrow> int list result" where
  "remb_loop data =
     (if data = [] then Inr []
      else rbind (readUIntBE 4 data 0) (\<lambda>f. rbind (remb_loop (drop 4 data)) (\<lambda>fs. Inr (f # fs))))"

declare remb_loop.simps [simp del]

definition Remb_deSerialize :: "buffer \<Rightarrow> remb_feedback result" where
  "Remb_deSerialize data =
     rbind (bufferReader data [4, 4, 4, 1, 1]) (\<lambda>vs.
     rbind (num_field (vs ! 4) 0 6) (\<lambda>brExp.
     rbind (num_field (vs ! 4) 6 2) (\<lambda>top.
     let brMantissa = (if 15 < length data
           then Some (int top * 2 ^ 16 + uint (data ! 14) * 2 ^ 8 + uint (data ! 15)) else None)
     in rbind (if 46 < brExp then Inr 18446744073709551615
               else case brMantissa of Some m \<Rightarrow> Inr (push_bit brExp m) | None \<Rightarrow> Inl RangeError) (\<lambda>bitrate.
        rbind (remb_loop (drop 16 data)) (\<lambda>fs.
        rbind (bufferWriter [4] [vs ! 2]) (\<lambda>u.
        Inr \<lparr>remb_senderSsrc = vs ! 0, remb_mediaSsrc = vs ! 1, remb_uniqueID = buf_to_text u, remb_ssrcNum = vs ! 3,
          remb_brExp = int brExp, remb_brMantissa = brMantissa, remb_bitrate = bitrate, remb_ssrcFeedbacks = fs\<rparr>))))))"

definition remb_bits :: "remb_feedback \<Rightarrow> bit_writer" where
  "remb_bits r =
     bw_set 18 6 (case remb_brMantissa r of Some m \<Rightarrow> m | None \<Rightarrow> 0) (bw_set 6 0 (remb_brExp r) (BitWriter 24))"

definition Remb_serialize :: "remb_feedback \<Rightarrow> buffer result" where
  "Remb_serialize r =
     rbind (bufferWriter [4, 4] [remb_senderSsrc r, remb_mediaSsrc r]) (\<lambda>ssrcs.
     rbind (bufferWriter [1] [remb_ssrcNum r]) (\<lambda>num.
     rbind (rmap (\<lambda>f. bufferWriter [4] [f]) (remb_ssrcFeedbacks r)) (\<lambda>fs.
     rbind (bufferWriter [3] [bw_number (remb_bits r)]) (\<lambda>b3.
     Inr ((ssrcs @ buf_from_text (remb_uniqueID r) @ num) @ b3 @ concat fs)))))"

section \<open>Payload-specific feedback\<close>

datatype psfb_feedback = FullIntraRequest fir_feedback | PictureLossIndication pli_feedback
  | ReceiverEstimatedMaxBitrate remb_feedback

definition RtcpPayloadSpecificFeedback_type :: int where "RtcpPayloadSpecificFeedback_type = 206"

definition psfb_count :: "psfb_feedback \<Rightarrow> int" where
  "psfb_count f = (case f of FullIntraRequest _ \<Rightarrow> 4 | PictureLossIndication _ \<Rightarrow> 1 | ReceiverEstimatedMaxBitrate _ \<Rightarrow> 15)"

definition psfb_serialize_feedback :: "psfb_feedback \<Rightarrow> buffer result" where
  "psfb_serialize_feedback f = (case f of FullIntraRequest x \<Rightarrow> Fir_serialize x | PictureLossIndication x \<Rightarrow> Pli_serialize x
     | ReceiverEstimatedMaxBitrate x \<Rightarrow> Remb_serialize x)"

text \<open>The length field of a request is that of a second serialization, of an estimate the one
  its serialization left behind, of an indication a constant.\<close>

definition psfb_length :: "psfb_feedback \<Rightarrow> buffer \<Rightarrow> int" where
  "psfb_length f pl = (case f of PictureLossIndication _ \<Rightarrow> 2 | _ \<Rightarrow> int (length pl div 4))"

definition Psfb_serialize :: "psfb_feedback option \<Rightarrow> buffer result" where
  "Psfb_serialize fo =
     (case fo of
        None \<Rightarrow> Inl (TypeError ''Cannot read properties of undefined'')
      | Some f \<Rightarrow>
          rbind (psfb_serialize_feedback f) (\<lambda>pl.
          RtcpHeader_serialize_packet RtcpPayloadSpecificFeedback_type (psfb_count f) pl (psfb_length f pl)))"

definition Psfb_deSerialize :: "buffer \<Rightarrow> rtcp_header \<Rightarrow> psfb_feedback option result" where
  "Psfb_deSerialize data h =
     (if rtcp_count h = 4 then rbind (Fir_deSerialize data) (\<lambda>f. Inr (Some (FullIntraRequest f)))
      else if rtcp_count h = 1 then rbind (Pli_deSerialize data) (\<lambda>f. Inr (Some (PictureLossIndication f)))
      else if rtcp_count h = 15 then rbind (Remb_deSerialize data) (\<lambda>f. Inr (Some (ReceiverEstimatedMaxBitrate f)))
      else Inr None)"

section \<open>Generic negative acknowledgement\<close>

record nack_feedback =
  nack_header :: rtcp_header
  nack_senderSsrc :: int
  nack_mediaSourceSsrc :: int
  nack_lost :: "int list"

definition RtcpTransportLayerFeedbackType :: int where "RtcpTransportLayerFeedbackType = 205"

definition new_RtcpHeader :: "int \<Rightarrow> int \<Rightarrow> rtcp_header" where
  "new_RtcpHeader type count =
     \<lparr>rtcp_version = 2, rtcp_padding = False, rtcp_count = count, rtcp_type = type, rtcp_length = 0\<rparr>"

text \<open>The numbers of one entry: its first number and those of its bit mask, not reduced modulo
  2^16.\<close>

definition nack_entry :: "int \<Rightarrow> int \<Rightarrow> int list" where
  "nack_entry pid blp = pid # map (\<lambda>d. pid + int d + 1) (filter (\<lambda>d. drop_bit d blp AND 1 \<noteq> 0) [0..<16])"

fun nack_loop :: "buffer \<Rightarrow> int list result" where
  "nack_loop data =
     (if data = [] then Inr []
      else rbind (bufferReader data [2, 2]) (\<lambda>vs.
           rbind (nack_loop (drop 4 data)) (\<lambda>ls. Inr (nack_entry (vs ! 0) (vs ! 1) @ ls))))"

declare nack_loop.simps [simp del]

definition Nack_deSerialize :: "buffer \<Rightarrow> rtcp_header \<Rightarrow> nack_feedback result" where
  "Nack_deSerialize data h =
     rbind (bufferReader data [4, 4]) (\<lambda>vs.
     rbind (nack_loop (drop 8 data)) (\<lambda>ls.
     Inr \<lparr>nack_header = h, nack_senderSsrc = vs ! 0, nack_mediaSourceSsrc = vs ! 1, nack_lost = ls\<rparr>))"

text \<open>The entries of a list of lost numbers: a number within 16 of the first one of the entry
  sets a bit, any other closes the entry and opens its own.\<close>

fun nack_entries :: "int \<Rightarrow> int \<Rightarrow> int list \<Rightarrow> (int \<times> int) list" where
  "nack_entries headPid blp [] = [(headPid, blp)]"
| "nack_entries headPid blp (pid # ls) =
     (let diff = pid - headPid - 1
      in if 0 \<le> diff \<and> diff < 16 then nack_entries headPid (blp OR push_bit (nat diff) 1) ls
         else (headPid, blp) # nack_entries pid 0 ls)"

definition nack_fci :: "int list \<Rightarrow> (int \<times> int) list" where
  "nack_fci lost = (case lost of [] \<Rightarrow> [] | l # ls \<Rightarrow> nack_entries l 0 ls)"

text \<open>Serialization sets the length of the packet's own header.\<close>

definition Nack_serialize :: "nack_feedback \<Rightarrow> (buffer \<times> nack_feedback) result" where
  "Nack_serialize f =
     rbind (bufferWriter [4, 4] [nack_senderSsrc f, nack_mediaSourceSsrc f]) (\<lambda>ssrcPair.
     rbind (rmap (\<lambda>(p, b). bufferWriter [2, 2] [p, b]) (nack_fci (nack_lost f))) (\<lambda>fci.
     let buf = ssrcPair @ concat fci;
         f = f\<lparr>nack_header := (nack_header f)\<lparr>rtcp_length := int (length buf div 4)\<rparr>\<rparr>
     in rbind (RtcpHeader_serialize (nack_header f)) (\<lambda>h. Inr (h @ buf, f))))"

unbundle bit_operations_syntax

section \<open>Round trips of the feedback messages\<close>

definition valid_fir :: "fir_feedback \<Rightarrow> bool" where
  "valid_fir f \<longleftrightarrow> u32_ok (fir_senderSsrc f) \<and> u32_ok (fir_mediaSsrc f) \<and>
     (\<forall>e \<in> set (fir_fir f). u32_ok (fir_ssrc e) \<and> (\<exists>n. fir_sequenceNumber e = Some n \<and> u8_ok n))"

definition fir_bytes :: "fir_entry \<Rightarrow> buffer" where
  "fir_bytes e = be_bytes 4 (fir_ssrc e) @ [word_of_int (the (fir_sequenceNumber e))] @ buf_alloc 3"

definition pair_bytes :: "int \<Rightarrow> int \<Rightarrow> buffer" where
  "pair_bytes a b = fields_bytes [4, 4] [a, b]"

lemma length_pair_bytes [simp]: "length (pair_bytes a b) = 8"
  by (simp add: pair_bytes_def length_fields_bytes)

lemma pair_wire:
  assumes "u32_ok a" "u32_ok b"
  shows "bufferWriter [4, 4] [a, b] = Inr (pair_bytes a b)" "bufferReader (pair_bytes a b @ r) [4, 4] = Inr [a, b]"
proof -
  have "list_all2 field_ok [4, 4] [a, b]" using assms by (simp add: field_ok_def int_size_ok_def u32_ok_def)
  then show "bufferWriter [4, 4] [a, b] = Inr (pair_bytes a b)" "bufferReader (pair_bytes a b @ r) [4, 4] = Inr [a, b]"
    unfolding pair_bytes_def by (rule bufferWriter_ok bufferReader_bytes)+
qed

lemma length_fir_bytes [simp]: "length (fir_bytes e) = 8"
  by (simp add: fir_bytes_def)

lemma fir_loop_wire:
  assumes "\<forall>e \<in> set es. u32_ok (fir_ssrc e) \<and> (\<exists>n. fir_sequenceNumber e = Some n \<and> u8_ok n)"
  shows "fir_loop (concat (map fir_bytes es)) = Inr es" "rmap fir_entry_bytes es = Inr (map fir_bytes es)"
proof -
  show "rmap fir_entry_bytes es = Inr (map fir_bytes es)"
    using assms by (intro rmap_total) (auto simp: fir_entry_bytes_def fir_bytes_def writeUInt32BE_ok)
  show "fir_loop (concat (map fir_bytes es)) = Inr es"
    using assms
  proof (induction es)
    case (Cons e es)
    then obtain n where e: "u32_ok (fir_ssrc e)" "fir_sequenceNumber e = Some n" "u8_ok n" by auto
    have u: "uint (word_of_int n :: byte) = n" using e(3) by (simp add: uint_word_of_int u8_ok_def)
    let ?r = "concat (map fir_bytes es)"
    have ne: "fir_bytes e \<noteq> []" using length_fir_bytes [of e] by (metis length_0_conv zero_neq_numeral)
    have r4: "readUInt32BE (fir_bytes e @ ?r) 0 = Inr (fir_ssrc e)"
      using e(1) by (simp add: fir_bytes_def read32_ok)
    have n4: "(fir_bytes e @ ?r) ! 4 = word_of_int n" by (simp add: fir_bytes_def e(2) nth_append)
    have "e = \<lparr>fir_ssrc = fir_ssrc e, fir_sequenceNumber = Some n\<rparr>" using e(2) by simp
    with Cons ne r4 n4 u show ?case by (subst fir_loop.simps) (simp add: Let_def)
  qed (simp add: fir_loop.simps)
qed

definition fir_body :: "fir_feedback \<Rightarrow> buffer" where
  "fir_body f = pair_bytes (fir_senderSsrc f) (fir_mediaSsrc f) @ concat (map fir_bytes (fir_fir f))"

lemma length_fir_body: "length (fir_body f) = 4 * (2 + 2 * length (fir_fir f))"
proof -
  have "length (concat (map fir_bytes es)) = 8 * length es" for es by (induction es) auto
  then show ?thesis by (simp add: fir_body_def)
qed

lemma Fir_wire:
  assumes "valid_fir f"
  shows "Fir_serialize f = Inr (fir_body f)" "Fir_deSerialize (fir_body f) = Inr f"
proof -
  have s: "u32_ok (fir_senderSsrc f)" "u32_ok (fir_mediaSsrc f)"
    and v: "\<forall>e \<in> set (fir_fir f). u32_ok (fir_ssrc e) \<and> (\<exists>n. fir_sequenceNumber e = Some n \<and> u8_ok n)"
    using assms by (auto simp: valid_fir_def)
  note w = pair_wire [OF s] fir_loop_wire [OF v]
  show "Fir_serialize f = Inr (fir_body f)" by (simp add: Fir_serialize_def fir_body_def w)
  show "Fir_deSerialize (fir_body f) = Inr f" by (simp add: Fir_deSerialize_def fir_body_def w)
qed

lemma Pli_wire:
  assumes "u32_ok (pli_senderSsrc p)" "u32_ok (pli_mediaSsrc p)"
  shows "Pli_serialize p = Inr (pair_bytes (pli_senderSsrc p) (pli_mediaSsrc p))"
    "Pli_deSerialize (pair_bytes (pli_senderSsrc p) (pli_mediaSsrc p)) = Inr p"
  using pair_wire(1) [OF assms] pair_wire(2) [OF assms, of "[]"] by (simp_all add: Pli_serialize_def Pli_deSerialize_def)

subsection \<open>Bit rate estimates\<close>

definition remb_rate :: "int \<Rightarrow> int \<Rightarrow> int" where
  "remb_rate e m = (if 46 < e then 18446744073709551615 else push_bit (nat e) m)"

definition valid_remb :: "remb_feedback \<Rightarrow> bool" where
  "valid_remb r \<longleftrightarrow> u32_ok (remb_senderSsrc r) \<and> u32_ok (remb_mediaSsrc r) \<and>
     length (remb_uniqueID r) = 4 \<and> list_all (\<lambda>c. c < 128) (remb_uniqueID r) \<and> u8_ok (remb_ssrcNum r) \<and>
     0 \<le> remb_brExp r \<and> remb_brExp r < 64 \<and>
     (\<exists>m. remb_brMantissa r = Some m \<and> 0 \<le> m \<and> m < 2 ^ 18 \<and> remb_bitrate r = remb_rate (remb_brExp r) m) \<and>
     (\<forall>f \<in> set (remb_ssrcFeedbacks r). u32_ok f)"

lemma be_bytes_be_int: "length bs = n \<Longrightarrow> be_bytes n (be_int bs) = bs"
  using be_int_bound [of bs] by (intro be_int_inj) (simp_all add: be_bytes_int)

lemma sint_small: "0 \<le> k \<Longrightarrow> k < 2 ^ 31 \<Longrightarrow> sint (word_of_int k :: 32 word) = k"
  by (simp add: sint_uint uint_word_of_int signed_take_bit_int_eq_self)

lemma remb_bits_value:
  assumes "0 \<le> e" "e < 64" "0 \<le> m" "m < 2 ^ 18" "remb_brExp r = e" "remb_brMantissa r = Some m"
  shows "bw_number (remb_bits r) = e * 2 ^ 18 + m"
proof -
  let ?n = "push_bit 18 e OR m"
  have tm: "take_bit 18 m = m" and te: "take_bit 6 e = e" using assms by (auto simp: take_bit_int_eq_self_iff)
  have bm: "bit m j \<Longrightarrow> j < 18" for j using tm by (metis bit_take_bit_iff)
  have be: "bit e j \<Longrightarrow> j < 6" for j using te by (metis bit_take_bit_iff)
  have n: "?n = e * 2 ^ 18 + m"
  proof -
    have "push_bit 18 e AND m = 0"
      using bm by (intro bit_eqI) (fastforce simp: bit_and_iff bit_push_bit_iff)
    then show ?thesis by (simp add: disjunctive_add_eq_or [symmetric] push_bit_eq_mult)
  qed
  have "bit (bw_value (remb_bits r)) j \<longleftrightarrow> bit (word_of_int ?n :: 32 word) j" for j
    using assms be [of "j - 18"] bm [of j]
    by (auto simp: remb_bits_def BitWriter_def bw_bit bit_word_of_int_iff bit_or_iff bit_push_bit_iff)
  then have "bw_value (remb_bits r) = word_of_int ?n" by (intro bit_eqI) auto
  moreover have "0 \<le> ?n" "?n < 2 ^ 24" unfolding n using assms by auto
  then have "sint (word_of_int ?n :: 32 word) = ?n" by (intro sint_small) auto
  ultimately show ?thesis by (simp only: bw_number_def n)
qed

definition remb_body :: "remb_feedback \<Rightarrow> buffer" where
  "remb_body r = pair_bytes (remb_senderSsrc r) (remb_mediaSsrc r) @ map of_nat (remb_uniqueID r) @
     be_bytes 1 (remb_ssrcNum r) @ be_bytes 3 (remb_brExp r * 2 ^ 18 + the (remb_brMantissa r)) @
     concat (map (be_bytes 4) (remb_ssrcFeedbacks r))"

lemma ascii_text:
  assumes "list_all (\<lambda>c. c < 128) s"
  shows "buf_from_text s = map of_nat s" "buf_to_text (map of_nat s) = s"
proof -
  show f: "buf_from_text s = map of_nat s"
    using assms by (induction s) (auto simp: buf_from_text_def utf8_char_def)
  have "list_all scalar s" using assms by (auto simp: list_all_iff scalar_def)
  from buf_text_roundtrip [OF this] f show "buf_to_text (map of_nat s) = s" by simp
qed

lemma remb_loop_wire:
  "\<forall>f \<in> set fs. u32_ok f \<Longrightarrow> remb_loop (concat (map (be_bytes 4) fs)) = Inr fs"
proof (induction fs)
  case (Cons f fs)
  have "be_bytes 4 f \<noteq> []" using length_be_bytes [of 4 f] by (metis length_0_conv zero_neq_numeral)
  with Cons show ?case by (subst remb_loop.simps) (simp add: read32_ok)
qed (simp add: remb_loop.simps)

lemma length_remb_body:
  "length (remb_uniqueID r) = 4 \<Longrightarrow> length (remb_body r) = 4 * (4 + length (remb_ssrcFeedbacks r))"
proof -
  have "length (concat (map (be_bytes 4) fs)) = 4 * length fs" for fs by (induction fs) auto
  then show "length (remb_uniqueID r) = 4 \<Longrightarrow> ?thesis" by (simp add: remb_body_def)
qed

lemma Remb_wire:
  assumes "valid_remb r"
  shows "Remb_serialize r = Inr (remb_body r)" "Remb_deSerialize (remb_body r) = Inr r"
proof -
  obtain m where s: "u32_ok (remb_senderSsrc r)" "u32_ok (remb_mediaSsrc r)" and n: "u8_ok (remb_ssrcNum r)"
    and u: "length (remb_uniqueID r) = 4" "list_all (\<lambda>c. c < 128) (remb_uniqueID r)"
    and e: "0 \<le> remb_brExp r" "remb_brExp r < 64"
    and m: "remb_brMantissa r = Some m" "0 \<le> m" "m < 2 ^ 18" "remb_bitrate r = remb_rate (remb_brExp r) m"
    and fs: "\<forall>f \<in> set (remb_ssrcFeedbacks r). u32_ok f"
    using assms by (auto simp: valid_remb_def)
  let ?N = "remb_brExp r * 2 ^ 18 + m" and ?F = "concat (map (be_bytes 4) (remb_ssrcFeedbacks r))"
  have N: "0 \<le> ?N" "?N < 2 ^ 24" using e m by auto
  have w1: "bufferWriter [k] [v] = Inr (be_bytes k v)" if "k \<in> {1, 3, 4}" "0 \<le> v" "v < 256 ^ k" for k v
  proof -
    have "list_all2 field_ok [k] [v]" using that by (auto simp: field_ok_def int_size_ok_def)
    from bufferWriter_ok [OF this] show ?thesis by simp
  qed
  have F: "rmap (\<lambda>f. bufferWriter [4] [f]) (remb_ssrcFeedbacks r) = Inr (map (be_bytes 4) (remb_ssrcFeedbacks r))"
    using fs by (intro rmap_total) (auto intro!: w1 simp: u32_ok_def)
  have bits: "bw_number (remb_bits r) = ?N" by (rule remb_bits_value) (use e m in auto)
  show "Remb_serialize r = Inr (remb_body r)"
    using w1 [of 1 "remb_ssrcNum r"] w1 [of 3 ?N] N n
    by (simp add: Remb_serialize_def remb_body_def pair_wire [OF s] F bits ascii_text [OF u(2)] m(1) u8_ok_def)
  let ?U = "map of_nat (remb_uniqueID r) :: buffer"
  have head: "remb_body r = fields_bytes [4, 4, 4, 1, 1]
      [remb_senderSsrc r, remb_mediaSsrc r, be_int ?U, remb_ssrcNum r, ?N div 2 ^ 16] @ be_bytes 2 ?N @ ?F"
    using be_bytes_be_int [of ?U 4] u(1)
    by (simp add: remb_body_def pair_bytes_def m(1) numeral_eq_Suc)
  have ok: "list_all2 field_ok [4, 4, 4, 1, 1] [remb_senderSsrc r, remb_mediaSsrc r, be_int ?U, remb_ssrcNum r, ?N div 2 ^ 16]"
  proof -
    have "0 \<le> ?N div 2 ^ 16" "?N div 2 ^ 16 < 256" using N by auto
    then show ?thesis
      using s n be_int_bound [of ?U] u(1) by (simp add: field_ok_def int_size_ok_def u32_ok_def u8_ok_def)
  qed
  have em: "num_field (?N div 2 ^ 16) 0 6 = Inr (nat (remb_brExp r))" "num_field (?N div 2 ^ 16) 6 2 = Inr (nat (m div 2 ^ 16))"
  proof -
    have "?N div 2 ^ 16 = remb_brExp r * 4 + m div 2 ^ 16" by simp
    moreover have m4: "0 \<le> m div 2 ^ 16" "m div 2 ^ 16 < 4" using m by auto
    ultimately have q: "nat (?N div 2 ^ 16) = nat (remb_brExp r) * 4 + nat (m div 2 ^ 16)"
      using e by (simp add: nat_add_distrib nat_mult_distrib)
    have l: "nat (m div 2 ^ 16) < 4" "nat (remb_brExp r) < 64" using m4 e by auto
    have "?N div 2 ^ 16 < 256" "0 \<le> ?N div 2 ^ 16" using N by auto
    then have f: "num_field (?N div 2 ^ 16) 0 6 = Inr (nat (?N div 2 ^ 16) div 4 mod 64)"
      "num_field (?N div 2 ^ 16) 6 2 = Inr (nat (?N div 2 ^ 16) mod 4)"
      using num_field_byte [of "?N div 2 ^ 16" 6 0] num_field_byte [of "?N div 2 ^ 16" 2 6] by simp_all
    show "num_field (?N div 2 ^ 16) 0 6 = Inr (nat (remb_brExp r))" "num_field (?N div 2 ^ 16) 6 2 = Inr (nat (m div 2 ^ 16))"
      unfolding f q using l by simp_all
  qed
  have tail: "remb_body r ! 14 = word_of_int (?N div 256)" "remb_body r ! 15 = word_of_int ?N"
      "drop 16 (remb_body r) = ?F" "15 < length (remb_body r)"
  proof -
    have "remb_body r = (pair_bytes (remb_senderSsrc r) (remb_mediaSsrc r) @ ?U @ be_bytes 1 (remb_ssrcNum r) @
        be_bytes 1 (?N div 2 ^ 16)) @ [word_of_int (?N div 256), word_of_int ?N] @ ?F" (is "_ = ?P @ _")
      by (simp add: remb_body_def m(1) numeral_eq_Suc)
    moreover have "length ?P = 14" using u(1) by simp
    ultimately show "remb_body r ! 14 = word_of_int (?N div 256)" "remb_body r ! 15 = word_of_int ?N"
      "drop 16 (remb_body r) = ?F" "15 < length (remb_body r)"
      by (simp_all add: nth_append)
  qed
  have mant: "m div 2 ^ 16 * 2 ^ 16 + uint (word_of_int (?N div 256) :: byte) * 2 ^ 8 + uint (word_of_int ?N :: byte) = m"
  proof -
    have "?N = m + remb_brExp r * 1024 * 256" by simp
    then have "?N mod 256 = m mod 256" by (metis mod_mult_self1)
    moreover have "?N div 256 = m div 256 + remb_brExp r * 4 * 256" by simp
    then have "?N div 256 mod 256 = m div 256 mod 256" by (metis mod_mult_self1)
    ultimately have d: "?N div 256 mod 256 = m div 256 mod 256" "?N mod 256 = m mod 256" by simp_all
    have "m div 256 div 256 = m div 65536" by (simp add: zdiv_zmult2_eq [symmetric])
    then have "m div 256 = 256 * (m div 65536) + m div 256 mod 256" using mult_div_mod_eq [of 256 "m div 256"] by simp
    moreover have "m = 256 * (m div 256) + m mod 256" by simp
    ultimately have "m div 65536 * 65536 + m div 256 mod 256 * 256 + m mod 256 = m" by linarith
    then show ?thesis using d by (simp add: uint_word_of_int del: of_int_add of_int_mult)
  qed
  have rate: "remb_bitrate r = (if 46 < nat (remb_brExp r) then 18446744073709551615 else push_bit (nat (remb_brExp r)) m)"
  proof -
    have "46 < nat (remb_brExp r) \<longleftrightarrow> 46 < remb_brExp r" by linarith
    then show ?thesis using m(4) by (simp add: remb_rate_def)
  qed
  have W: "bufferWriter [4] [be_int ?U] = Inr ?U"
    using w1 [of 4 "be_int ?U"] be_int_bound [of ?U] u(1) be_bytes_be_int [of ?U 4] by simp
  note rd = bufferReader_bytes [OF ok, of "be_bytes 2 ?N @ ?F", folded head]
  have mi: "int (nat (m div 2 ^ 16)) = m div 2 ^ 16" using m by simp
  show "Remb_deSerialize (remb_body r) = Inr r"
    unfolding Remb_deSerialize_def rd
    using em tail mant rate W e remb_loop_wire [OF fs] ascii_text(2) [OF u(2)] m(1) mi
    by (cases "46 < nat (remb_brExp r)") (simp_all add: Let_def)
qed

subsection \<open>Negative acknowledgements\<close>

definition nack_numbers :: "(int \<times> int) list \<Rightarrow> int list" where
  "nack_numbers es = concat (map (\<lambda>(p, b). nack_entry p b) es)"

lemma set_nack_entry: "set (nack_entry p b) = insert p {p + int d + 1 | d. d < 16 \<and> bit b d}"
  by (auto simp: nack_entry_def bit_iff_odd_drop_bit and_one_eq odd_iff_mod_2_eq_one)

lemma set_nack_entry_add:
  assumes "d < 16"
  shows "set (nack_entry p (b OR push_bit d 1)) = insert (p + int d + 1) (set (nack_entry p b))"
  using assms unfolding set_nack_entry by (auto simp: bit_or_iff bit_exp_iff)

text \<open>Whatever the order of the lost numbers, the entries stand for exactly these.\<close>

lemma nack_entries_set: "set (nack_numbers (nack_entries h b ls)) = set (nack_entry h b) \<union> set ls"
proof (induction ls arbitrary: h b)
  case (Cons l ls)
  show ?case
  proof (cases "0 \<le> l - h - 1 \<and> l - h - 1 < 16")
    case True
    have n: "nat (l - h - 1) < 16" "h + int (nat (l - h - 1)) + 1 = l" using True by auto
    have "set (nack_entry h (b OR push_bit (nat (l - h - 1)) 1)) = insert l (set (nack_entry h b))"
      using set_nack_entry_add [OF n(1), of h b] unfolding n(2) .
    then show ?thesis using True Cons [of h "b OR push_bit (nat (l - h - 1)) 1"] by (auto simp: Let_def)
  next
    case False
    have "set (nack_entry l 0) = {l}" by (simp add: set_nack_entry)
    then show ?thesis using False Cons [of l 0] by (auto simp: Let_def nack_numbers_def)
  qed
qed (simp add: nack_numbers_def)

text \<open>A strictly ascending list of lost numbers comes back as it is.\<close>

lemma filter_upt_snoc:
  assumes "d < 16" "\<And>j. P j \<Longrightarrow> j < d"
  shows "filter (\<lambda>j. P j \<or> j = d) [0..<16] = filter P [0..<16] @ [d]"
proof -
  have s: "[0..<16] = [0..<d] @ d # [Suc d..<16]"
    using assms(1) upt_add_eq_append [of 0 d "16 - d"] by (simp add: upt_conv_Cons)
  have "filter P (d # [Suc d..<16]) = []" using assms(2) by (force simp: filter_empty_conv)
  moreover have "filter (\<lambda>j. P j \<or> j = d) [Suc d..<16] = []" using assms(2) by (force simp: filter_empty_conv)
  moreover have "filter (\<lambda>j. P j \<or> j = d) [0..<d] = filter P [0..<d]" by (intro filter_cong) auto
  ultimately show ?thesis unfolding s by simp
qed

lemma nack_entry_bits: "nack_entry p b = p # map (\<lambda>d. p + int d + 1) (filter (bit b) [0..<16])"
proof -
  have "(drop_bit j b AND 1 \<noteq> 0) = bit b j" for j
    by (simp add: bit_iff_odd_drop_bit and_one_eq odd_iff_mod_2_eq_one)
  then show ?thesis by (simp add: nack_entry_def)
qed

lemma nack_entry_snoc:
  assumes "d < 16" "\<And>j. bit b j \<Longrightarrow> j < d"
  shows "nack_entry p (b OR push_bit d 1) = nack_entry p b @ [p + int d + 1]"
proof -
  have "bit (b OR push_bit d 1) = (\<lambda>j. bit b j \<or> j = d)" by (auto simp: bit_or_iff bit_exp_iff)
  then show ?thesis using filter_upt_snoc [of d "bit b", OF assms] by (simp only: nack_entry_bits) simp
qed

lemma nack_entries_sorted:
  assumes "sorted_wrt (<) ls" "\<forall>l \<in> set ls. h < l" "\<And>j l. bit b j \<Longrightarrow> l \<in> set ls \<Longrightarrow> h + int j + 1 < l"
  shows "nack_numbers (nack_entries h b ls) = nack_entry h b @ ls"
  using assms
proof (induction ls arbitrary: h b)
  case (Cons l ls)
  show ?case
  proof (cases "l - h - 1 < 16")
    case True
    define d where "d = nat (l - h - 1)"
    have hl: "h < l" using Cons.prems by simp
    have d: "d < 16" "l = h + int d + 1" using True hl by (auto simp: d_def)
    have bd: "j < d" if "bit b j" for j using Cons.prems(3) [OF that, of l] d by simp
    have "nack_numbers (nack_entries h (b OR push_bit d 1) ls) = nack_entry h (b OR push_bit d 1) @ ls"
    proof (rule Cons.IH)
      fix j l' assume "bit (b OR push_bit d 1) j" "l' \<in> set ls"
      then show "h + int j + 1 < l'" using Cons.prems d by (auto simp: bit_or_iff bit_exp_iff)
    qed (use Cons.prems in auto)
    then show ?thesis using True hl nack_entry_snoc [of d b h, OF d(1) bd] d by (simp add: Let_def flip: d_def)
  next
    case False
    have "nack_numbers (nack_entries l 0 ls) = nack_entry l 0 @ ls"
      by (rule Cons.IH) (use Cons.prems in auto)
    moreover have "nack_entry l 0 = [l]" by (simp add: nack_entry_def)
    ultimately show ?thesis using False by (simp add: Let_def nack_numbers_def)
  qed
qed (simp add: nack_numbers_def)

lemma u16_take_bit: "u16_ok x \<longleftrightarrow> take_bit 16 x = x"
  by (simp add: u16_ok_def take_bit_int_eq_self_iff)

lemma nack_entries_range:
  assumes "u16_ok h" "u16_ok b" "\<forall>l \<in> set ls. u16_ok l"
  shows "\<forall>(p, m) \<in> set (nack_entries h b ls). u16_ok p \<and> u16_ok m"
  using assms
proof (induction ls arbitrary: h b)
  case (Cons l ls)
  have "u16_ok (b OR push_bit (nat (l - h - 1)) 1)" if "0 \<le> l - h - 1" "l - h - 1 < 16"
  proof -
    let ?d = "nat (l - h - 1)"
    have "take_bit 16 (push_bit ?d 1) = (push_bit ?d 1 :: int)"
      using that by (intro bit_eqI) (auto simp: bit_take_bit_iff bit_exp_iff)
    then show ?thesis using Cons.prems(2) by (simp only: u16_take_bit take_bit_or)
  qed
  moreover have "u16_ok 0" by (simp add: u16_ok_def)
  ultimately show ?case
    using Cons.prems Cons.IH [of h "b OR push_bit (nat (l - h - 1)) 1"] Cons.IH [of l 0]
    by (cases "0 \<le> l - h - 1 \<and> l - h - 1 < 16") (auto simp: Let_def)
qed simp

definition valid_nack :: "nack_feedback \<Rightarrow> bool" where
  "valid_nack f \<longleftrightarrow> u32_ok (nack_senderSsrc f) \<and> u32_ok (nack_mediaSourceSsrc f) \<and>
     (\<forall>l \<in> set (nack_lost f). u16_ok l) \<and> length (nack_lost f) < 2 ^ 15 \<and> valid_rtcp_header (nack_header f)"

definition nack_body :: "nack_feedback \<Rightarrow> buffer" where
  "nack_body f = pair_bytes (nack_senderSsrc f) (nack_mediaSourceSsrc f) @
     concat (map (\<lambda>(p, b). be_bytes 2 p @ be_bytes 2 b) (nack_fci (nack_lost f)))"

lemma nack_fci_range: "\<forall>l \<in> set ls. u16_ok l \<Longrightarrow> \<forall>(p, b) \<in> set (nack_fci ls). u16_ok p \<and> u16_ok b"
  using nack_entries_range [of "hd ls" 0 "tl ls"] by (cases ls) (auto simp: nack_fci_def u16_ok_def)

lemma nack_fci_length: "length (nack_fci ls) \<le> length ls"
proof -
  have "length (nack_entries h b ls) \<le> Suc (length ls)" for h b
    by (induction ls arbitrary: h b) (auto simp: Let_def le_SucI)
  moreover have "length (nack_entries h b ls') \<le> Suc (length ls')" for h b ls'
    by (induction ls' arbitrary: h b) (auto simp: Let_def le_SucI)
  ultimately show ?thesis by (cases ls) (auto simp: nack_fci_def)
qed

lemma nack_loop_wire:
  assumes "\<forall>(p, b) \<in> set es. u16_ok p \<and> u16_ok b"
  shows "nack_loop (concat (map (\<lambda>(p, b). be_bytes 2 p @ be_bytes 2 b) es)) = Inr (nack_numbers es)"
    "rmap (\<lambda>(p, b). bufferWriter [2, 2] [p, b]) es = Inr (map (\<lambda>(p, b). be_bytes 2 p @ be_bytes 2 b) es)"
proof -
  have f: "list_all2 field_ok [2, 2] [p, b]" if "(p, b) \<in> set es" for p b
    using assms that by (auto simp: field_ok_def int_size_ok_def u16_ok_def)
  show "rmap (\<lambda>(p, b). bufferWriter [2, 2] [p, b]) es = Inr (map (\<lambda>(p, b). be_bytes 2 p @ be_bytes 2 b) es)"
    by (intro rmap_total) (auto simp: bufferWriter_ok [OF f])
  show "nack_loop (concat (map (\<lambda>(p, b). be_bytes 2 p @ be_bytes 2 b) es)) = Inr (nack_numbers es)"
    using f
  proof (induction es)
    case (Cons e es)
    obtain p b where e: "e = (p, b)" by force
    have r: "bufferReader (be_bytes 2 p @ be_bytes 2 b @ r) [2, 2] = Inr [p, b]" for r
      using bufferReader_bytes [OF Cons.prems [of p b], of r] e by simp
    have ne: "be_bytes 2 p \<noteq> []" using length_be_bytes [of 2 p] by (metis length_0_conv zero_neq_numeral)
    have IH: "nack_loop (concat (map (\<lambda>(p, b). be_bytes 2 p @ be_bytes 2 b) es)) = Inr (nack_numbers es)"
      by (rule Cons.IH) (rule Cons.prems, simp)
    show ?case using ne IH by (subst nack_loop.simps) (simp add: e r nack_numbers_def)
  qed (simp add: nack_loop.simps nack_numbers_def)
qed

lemma length_nack_body: "length (nack_body f) = 4 * (2 + length (nack_fci (nack_lost f)))"
proof -
  have "length (concat (map (\<lambda>(p, b). be_bytes 2 p @ be_bytes 2 b) es)) = 4 * length es" for es
    by (induction es) auto
  then show ?thesis by (simp add: nack_body_def)
qed

lemma nack_numbers_fci: "set (nack_numbers (nack_fci ls)) = set ls"
  "sorted_wrt (<) ls \<Longrightarrow> nack_numbers (nack_fci ls) = ls"
  using nack_entries_set [of "hd ls" 0 "tl ls"] nack_entries_sorted [of "tl ls" "hd ls" 0]
  by (cases ls; simp add: nack_fci_def nack_numbers_def nack_entry_def)+

lemma Nack_wire:
  assumes "valid_nack f"
  defines "h \<equiv> (nack_header f)\<lparr>rtcp_length := int (length (nack_body f) div 4)\<rparr>"
  shows "valid_rtcp_header h" "Nack_serialize f = Inr (head_bytes h @ nack_body f, f\<lparr>nack_header := h\<rparr>)"
    "Nack_deSerialize (nack_body f) h' = Inr (f\<lparr>nack_header := h', nack_lost := nack_numbers (nack_fci (nack_lost f))\<rparr>)"
proof -
  have s: "u32_ok (nack_senderSsrc f)" "u32_ok (nack_mediaSourceSsrc f)" and l: "\<forall>l \<in> set (nack_lost f). u16_ok l"
    and n: "length (nack_lost f) < 2 ^ 15" and hd: "valid_rtcp_header (nack_header f)"
    using assms by (auto simp: valid_nack_def)
  note w = pair_wire [OF s] nack_loop_wire [OF nack_fci_range [OF l]]
  have len: "length (nack_body f) div 4 = 2 + length (nack_fci (nack_lost f))" by (simp add: length_nack_body)
  show h: "valid_rtcp_header h"
    using hd n nack_fci_length [of "nack_lost f"] unfolding h_def len by (simp add: valid_rtcp_header_def u16_ok_def)
  show "Nack_serialize f = Inr (head_bytes h @ nack_body f, f\<lparr>nack_header := h\<rparr>)"
    unfolding Nack_serialize_def w(1) w(4) rbind_simps Let_def nack_body_def [symmetric] h_def [symmetric]
    using rtcp_header_wire(1) [OF h] by (simp add: head_bytes_def flip: h_def)
  show "Nack_deSerialize (nack_body f) h' = Inr (f\<lparr>nack_header := h', nack_lost := nack_numbers (nack_fci (nack_lost f))\<rparr>)"
    by (simp add: Nack_deSerialize_def nack_body_def w)
qed

text \<open>Numbers that an entry of a peer carries past the wrap are not reduced: with first number
  65535 and the first bit set the parser reports 65536 instead of 0.\<close>

lemma nack_parse_no_wrap: "nack_entry 65535 1 = [65535, 65536]"
  by code_simp

end
