(* ===== verification/Rtcp_Twcc.thy ===== *)
theory Rtcp_Twcc
  imports Rtcp_Report
begin

unbundle bit_operations_syntax

text \<open>
  Transport-wide congestion control feedback (\<^verbatim>\<open>packages/rtp/src/rtcp/rtpfb/twcc.ts\<close>): status
  chunks as run lengths and as symbol vectors, receive deltas, the packet codec and the expansion
  into one result per packet.

  A run length read from a chunk whose second byte is missing is \<^verbatim>\<open>NaN\<close> (\<open>None\<close>).  Times in
  milliseconds are exact quotients; on the wire they are multiples of a quarter.
\<close>

section \<open>Data\<close>

datatype twcc_chunk = RunLengthChunk nat "int option" | StatusVectorChunk nat "nat list"

definition TypeTCCPacketNotReceived :: nat where "TypeTCCPacketNotReceived = 0"
definition TypeTCCPacketReceivedSmallDelta :: nat where "TypeTCCPacketReceivedSmallDelta = 1"
definition TypeTCCPacketReceivedLargeDelta :: nat where "TypeTCCPacketReceivedLargeDelta = 2"
definition TypeTCCPacketReceivedWithoutDelta :: nat where "TypeTCCPacketReceivedWithoutDelta = 3"

lemmas twcc_status_defs [simp] = TypeTCCPacketNotReceived_def TypeTCCPacketReceivedSmallDelta_def
  TypeTCCPacketReceivedLargeDelta_def TypeTCCPacketReceivedWithoutDelta_def

record recv_delta =
  rd_type :: "nat option"
  rd_delta :: int
  rd_parsed :: bool

record twcc_feedback =
  tw_senderSsrc :: int
  tw_mediaSourceSsrc :: int
  tw_baseSequenceNumber :: int
  tw_packetStatusCount :: int
  tw_referenceTime :: int
  tw_fbPktCount :: int
  tw_packetChunks :: "twcc_chunk list"
  tw_recvDeltas :: "recv_delta list"
  tw_header :: rtcp_header

record packet_result =
  pr_sequenceNumber :: int
  pr_delta :: int
  pr_received :: bool
  pr_receivedAtMs :: rat
  pr_status :: nat

section \<open>Status chunks\<close>

definition RunLengthChunk_deSerialize :: "buffer \<Rightarrow> (nat \<times> int option) result" where
  "RunLengthChunk_deSerialize data =
     rbind (get_field data 0 1 2) (\<lambda>packetStatus.
     rbind (get_field data 0 3 5) (\<lambda>top.
     Inr (packetStatus, if 1 < length data then Some (int top * 2 ^ 8 + uint (data ! 1)) else None)))"

text \<open>\<^verbatim>\<open>BigInt(NaN)\<close> raises a \<open>RangeError\<close>.\<close>

definition RunLengthChunk_serialize :: "nat \<Rightarrow> int option \<Rightarrow> buffer result" where
  "RunLengthChunk_serialize packetStatus runLength =
     rbind (BitWriter2 16) (\<lambda>w.
     case runLength of
       None \<Rightarrow> Inl RangeError
     | Some n \<Rightarrow> bw2_buffer (bw2_set n 13 (bw2_set (int packetStatus) 2 (bw2_set 0 1 w))))"

definition StatusVectorChunk_deSerialize :: "buffer \<Rightarrow> (nat \<times> nat list) result" where
  "StatusVectorChunk_deSerialize data =
     rbind (get_field data 0 1 1) (\<lambda>symbolSize.
     if symbolSize = 0
     then rbind (rmap (\<lambda>i. get_field data 0 (2 + i) 1) [0..<6]) (\<lambda>a.
          rbind (rmap (\<lambda>i. get_field data 1 i 1) [0..<8]) (\<lambda>b. Inr (symbolSize, a @ b)))
     else rbind (rmap (\<lambda>i. get_field data 0 (2 + i * 2) 2) [0..<3]) (\<lambda>a.
          rbind (rmap (\<lambda>i. get_field data 1 (i * 2) 2) [0..<4]) (\<lambda>b. Inr (symbolSize, a @ b))))"

definition StatusVectorChunk_serialize :: "nat \<Rightarrow> nat list \<Rightarrow> buffer result" where
  "StatusVectorChunk_serialize symbolSize symbolList =
     rbind (BitWriter2 16) (\<lambda>w.
     let writer = bw2_set (int symbolSize) 1 (bw2_set 1 1 w);
         bits = (if symbolSize = 0 then 1 else 2);
         writer = fold (\<lambda>v. bw2_set (int v) bits) symbolList writer
     in buf_writeUInt 2 (buf_alloc 2) 0 (bw2_value writer))"

definition chunk_serialize :: "twcc_chunk \<Rightarrow> buffer result" where
  "chunk_serialize c = (case c of RunLengthChunk st n \<Rightarrow> RunLengthChunk_serialize st n
     | StatusVectorChunk sz syms \<Rightarrow> StatusVectorChunk_serialize sz syms)"

section \<open>Receive deltas\<close>

definition int16 :: "int \<Rightarrow> int" where
  "int16 v = (if v < 2 ^ 15 then v else v - 2 ^ 16)"

definition RecvDelta_deSerialize :: "buffer \<Rightarrow> (nat \<times> int) result" where
  "RecvDelta_deSerialize data =
     (if length data = 1 then Inr (TypeTCCPacketReceivedSmallDelta, 250 * uint (data ! 0))
      else if length data = 2
      then rbind (readUInt16BE data 0) (\<lambda>v. Inr (TypeTCCPacketReceivedLargeDelta, 250 * int16 v))
      else Inl (Error ''''))"

definition parseDelta :: "recv_delta \<Rightarrow> recv_delta" where
  "parseDelta r =
     (let d = rd_delta r div 250
      in if d < 0 \<or> d > 255
         then r\<lparr>rd_delta := (if d > 32767 then 32767 else if d < - 32768 then - 32768 else d),
                rd_type := (case rd_type r of None \<Rightarrow> Some TypeTCCPacketReceivedLargeDelta | t \<Rightarrow> t), rd_parsed := True\<rparr>
         else r\<lparr>rd_delta := d,
                rd_type := (case rd_type r of None \<Rightarrow> Some TypeTCCPacketReceivedSmallDelta | t \<Rightarrow> t), rd_parsed := True\<rparr>)"

definition writeInt16BE :: "int \<Rightarrow> buffer result" where
  "writeInt16BE v = (if - 32768 \<le> v \<and> v \<le> 32767 then Inr (be_bytes 2 v) else Inl RangeError)"

definition RecvDelta_serialize :: "recv_delta \<Rightarrow> buffer result \<times> recv_delta" where
  "RecvDelta_serialize r0 =
     (let r = (if \<not> rd_parsed r0 then parseDelta r0 else r0)
      in (if rd_type r = Some TypeTCCPacketReceivedSmallDelta then writeUInt8 (rd_delta r)
          else if rd_type r = Some TypeTCCPacketReceivedLargeDelta then writeInt16BE (rd_delta r)
          else Inl (Error ''errDeltaExceedLimit''), r))"

section \<open>Packets\<close>

text \<open>\<^verbatim>\<open>left\<close> is what \<^verbatim>\<open>processedPacketNum\<close> still misses of the status count.  Returned are the
  chunks, the types of the deltas they announce, and what follows them.  A vector announces a
  delta for each received symbol, also for those beyond the count.\<close>

function read_chunks :: "int \<Rightarrow> buffer \<Rightarrow> (twcc_chunk list \<times> nat list \<times> buffer) result" where
  "read_chunks left data =
     (if left \<le> 0 then Inr ([], [], data)
      else rbind (get_field data 0 0 1) (\<lambda>type.
        if type = 0
        then rbind (RunLengthChunk_deSerialize (buf_slice data 0 2)) (\<lambda>(st, runLength).
          case runLength of
            None \<Rightarrow> Inr ([RunLengthChunk st None], [], drop 2 data)
          | Some n \<Rightarrow>
              let k = min left n;
                  ts = (if st = TypeTCCPacketReceivedSmallDelta \<or> st = TypeTCCPacketReceivedLargeDelta
                        then replicate (nat k) st else [])
              in rbind (read_chunks (left - k) (drop 2 data)) (\<lambda>(cs, ts', rest).
                 Inr (RunLengthChunk st (Some n) # cs, ts @ ts', rest)))
        else rbind (StatusVectorChunk_deSerialize (buf_slice data 0 2)) (\<lambda>(sz, syms).
          let ts = filter (\<lambda>v. v = TypeTCCPacketReceivedSmallDelta \<or>
                     (sz = 1 \<and> v = TypeTCCPacketReceivedLargeDelta)) syms
          in rbind (read_chunks (left - int (length syms)) (drop 2 data)) (\<lambda>(cs, ts', rest).
             Inr (StatusVectorChunk sz syms # cs, ts @ ts', rest)))))"
  by pat_completeness auto
termination
  by (relation "measure (length \<circ> snd)") (auto simp: get_field_def split: if_splits)

declare read_chunks.simps [simp del]

fun read_deltas :: "nat list \<Rightarrow> buffer \<Rightarrow> recv_delta list result" where
  "read_deltas [] data = Inr []"
| "read_deltas (t # ts) data =
     (let n = (if t = TypeTCCPacketReceivedSmallDelta then 1 else 2)
      in rbind (RecvDelta_deSerialize (buf_slice data 0 n)) (\<lambda>(_, d).
         rbind (read_deltas ts (drop n data)) (\<lambda>ds.
         Inr (\<lparr>rd_type = Some t, rd_delta = d, rd_parsed = False\<rparr> # ds))))"

definition TransportWideCC_deSerialize :: "buffer \<Rightarrow> rtcp_header \<Rightarrow> twcc_feedback result" where
  "TransportWideCC_deSerialize data h =
     rbind (bufferReader data [4, 4, 2, 2, 3, 1]) (\<lambda>vs.
     rbind (read_chunks (vs ! 3) (drop 16 data)) (\<lambda>(cs, ts, rest).
     rbind (read_deltas ts rest) (\<lambda>ds.
     Inr \<lparr>tw_senderSsrc = vs ! 0, tw_mediaSourceSsrc = vs ! 1, tw_baseSequenceNumber = vs ! 2,
       tw_packetStatusCount = vs ! 3, tw_referenceTime = vs ! 4, tw_fbPktCount = vs ! 5,
       tw_packetChunks = cs, tw_recvDeltas = ds, tw_header = h\<rparr>)))"

text \<open>A delta that does not fit is left out.  The padding bit and the length are set in the
  packet's own header, the deltas are left parsed.\<close>

definition delta_bytes :: "recv_delta \<Rightarrow> buffer" where
  "delta_bytes d = (case fst (RecvDelta_serialize d) of Inr b \<Rightarrow> b | Inl _ \<Rightarrow> [])"

definition twcc_padding :: "nat \<Rightarrow> buffer" where
  "twcc_padding rest = buf_alloc (rest - 1) @ [of_nat rest]"

definition TransportWideCC_serialize :: "twcc_feedback \<Rightarrow> (buffer \<times> twcc_feedback) result" where
  "TransportWideCC_serialize t =
     rbind (bufferWriter [4, 4, 2, 2, 3, 1]
       [tw_senderSsrc t, tw_mediaSourceSsrc t, tw_baseSequenceNumber t, tw_packetStatusCount t, tw_referenceTime t,
        tw_fbPktCount t]) (\<lambda>constBuf.
     rbind (rmap chunk_serialize (tw_packetChunks t)) (\<lambda>chunks.
     let deltas = concat (map delta_bytes (tw_recvDeltas t));
         t = t\<lparr>tw_recvDeltas := map (snd \<circ> RecvDelta_serialize) (tw_recvDeltas t)\<rparr>;
         body = constBuf @ concat chunks @ deltas;
         unaligned = (length body mod 4 \<noteq> 0);
         body = (if unaligned then body @ twcc_padding (4 - length body mod 4) else body);
         h = (tw_header t)\<lparr>rtcp_padding := unaligned, rtcp_length := int (length body div 4)\<rparr>
     in rbind (RtcpHeader_serialize h) (\<lambda>hb. Inr (hb @ body, t\<lparr>tw_header := h\<rparr>))))"

section \<open>Results per packet\<close>

definition isTwccReceivedStatus :: "nat \<Rightarrow> bool" where
  "isTwccReceivedStatus st \<longleftrightarrow> st = TypeTCCPacketReceivedSmallDelta \<or> st = TypeTCCPacketReceivedLargeDelta \<or>
     st = TypeTCCPacketReceivedWithoutDelta"

definition new_result :: "int \<Rightarrow> nat \<Rightarrow> packet_result" where
  "new_result seq st = \<lparr>pr_sequenceNumber = seq, pr_delta = 0, pr_received = isTwccReceivedStatus st,
     pr_receivedAtMs = 0, pr_status = st\<rparr>"

text \<open>The remaining count is \<open>None\<close> once it is \<^verbatim>\<open>NaN\<close>; then no test stops the loops any more.\<close>

definition exhausted :: "int option \<Rightarrow> bool" where
  "exhausted remaining \<longleftrightarrow> (case remaining of None \<Rightarrow> False | Some r \<Rightarrow> r \<le> 0)"

fun expand_symbols :: "int \<Rightarrow> int option \<Rightarrow> nat list \<Rightarrow> packet_result list \<times> int \<times> int option" where
  "expand_symbols seq remaining [] = ([], seq, remaining)"
| "expand_symbols seq remaining (v # vs) =
     (if exhausted remaining then ([], seq, remaining)
      else let (rs, seq', remaining') = expand_symbols ((seq + 1) AND 0xffff) (map_option (\<lambda>r. r - 1) remaining) vs
           in (new_result seq v # rs, seq', remaining'))"

fun expand_chunks :: "int \<Rightarrow> int option \<Rightarrow> twcc_chunk list \<Rightarrow> packet_result list" where
  "expand_chunks seq remaining [] = []"
| "expand_chunks seq remaining (c # cs) =
     (if exhausted remaining then []
      else case c of
        RunLengthChunk st runLength \<Rightarrow>
          (case (runLength, remaining) of
             (Some n, Some r) \<Rightarrow>
               let count = min (max 0 n) r
               in map (\<lambda>i. new_result ((seq + int i) AND 0xffff) st) [0..<nat count] @
                  expand_chunks ((seq + count) AND 0xffff) (Some (r - count)) cs
           | _ \<Rightarrow> expand_chunks 0 None cs)
      | StatusVectorChunk sz syms \<Rightarrow>
          (let (rs, seq', remaining') = expand_symbols seq remaining syms
           in rs @ expand_chunks seq' remaining' cs))"

fun assign_times :: "recv_delta list \<Rightarrow> rat \<Rightarrow> packet_result list \<Rightarrow> packet_result list" where
  "assign_times ds t [] = []"
| "assign_times ds t (r # rs) =
     (if \<not> pr_received r then r # assign_times ds t rs
      else if pr_status r = TypeTCCPacketReceivedWithoutDelta then r # assign_times ds t rs
      else case ds of
             [] \<Rightarrow> r # rs
           | d # ds \<Rightarrow>
               let t = t + of_int (rd_delta d) / 1000
               in r\<lparr>pr_delta := rd_delta d, pr_receivedAtMs := t\<rparr> # assign_times ds t rs)"

definition packetResults :: "twcc_feedback \<Rightarrow> packet_result list" where
  "packetResults t =
     assign_times (tw_recvDeltas t) (of_int (tw_referenceTime t * 64))
       (expand_chunks (tw_baseSequenceNumber t AND 0xffff) (Some (tw_packetStatusCount t)) (tw_packetChunks t))"

definition RunLengthChunk_results :: "nat \<Rightarrow> int \<Rightarrow> int \<Rightarrow> packet_result list" where
  "RunLengthChunk_results st runLength current =
     map (\<lambda>i. new_result ((current + int i + 1) AND 0xffff) st) [0..<nat runLength]"

section \<open>Round trip of the status chunks\<close>

text \<open>Numbers written digit by digit.\<close>

definition radix :: "nat \<Rightarrow> nat list \<Rightarrow> nat" where
  "radix B ds = foldl (\<lambda>a d. B * a + d) 0 ds"

lemma radix_Nil [simp]: "radix B [] = 0"
  by (simp add: radix_def)

lemma radix_snoc [simp]: "radix B (ds @ [d]) = B * radix B ds + d"
  by (simp add: radix_def)

lemma radix_append: "radix B (xs @ ys) = radix B xs * B ^ length ys + radix B ys"
proof (induction ys rule: rev_induct)
  case (snoc y ys)
  have "radix B ((xs @ ys) @ [y]) = B * radix B (xs @ ys) + y" by (rule radix_snoc)
  with snoc show ?case by (simp add: algebra_simps)
qed simp

lemma radix_bound: "\<forall>d \<in> set ds. d < B \<Longrightarrow> radix B ds < B ^ length ds"
proof (induction ds rule: rev_induct)
  case (snoc d ds)
  then have "Suc (radix B ds) \<le> B ^ length ds" "d < B" by auto
  then have "B * Suc (radix B ds) \<le> B * B ^ length ds" by (intro mult_le_mono2)
  with \<open>d < B\<close> show ?case by simp
qed simp

lemma radix_split:
  assumes "\<forall>d \<in> set ys. d < B"
  shows "radix B (xs @ ys) div B ^ length ys = radix B xs" "radix B (xs @ ys) mod B ^ length ys = radix B ys"
proof -
  have "(k * m + x) div m = k \<and> (k * m + x) mod m = x" if "x < m" for k m x :: nat
    using that by simp
  from this [OF radix_bound [OF assms]]
  show "radix B (xs @ ys) div B ^ length ys = radix B xs" "radix B (xs @ ys) mod B ^ length ys = radix B ys"
    unfolding radix_append by blast+
qed

lemma radix_nth:
  assumes "\<forall>d \<in> set ds. d < B" "i < length ds"
  shows "radix B ds div B ^ (length ds - Suc i) mod B = ds ! i"
proof -
  have s: "ds = (take i ds @ [ds ! i]) @ drop (Suc i) ds" using assms(2) by (simp add: id_take_nth_drop)
  have l: "length (drop (Suc i) ds) = length ds - Suc i" by simp
  have "radix B ds div B ^ (length ds - Suc i) = radix B (take i ds @ [ds ! i])"
    using radix_split(1) [of "drop (Suc i) ds" B "take i ds @ [ds ! i]"] assms(1) s l by (auto dest: in_set_dropD)
  moreover have "ds ! i < B" using assms by simp
  ultimately show ?thesis by simp
qed

text \<open>A writer that has been filled up to its offset holds a number shifted to the top.\<close>

definition holds :: "bit_writer2 \<Rightarrow> int \<Rightarrow> bool" where
  "holds w q \<longleftrightarrow> 0 \<le> bw2_offset w \<and> bw2_offset w \<le> bw2_bitLength w \<and> 0 \<le> q \<and>
     bw2_value w = q * 2 ^ nat (bw2_bitLength w - bw2_offset w)"

lemma holds_set:
  assumes "holds w q" "0 \<le> v" "v < 2 ^ n" "bw2_offset w + int n \<le> bw2_bitLength w"
  shows "holds (bw2_set v n w) (q * 2 ^ n + v)"
    "bw2_offset (bw2_set v n w) = bw2_offset w + int n" "bw2_bitLength (bw2_set v n w) = bw2_bitLength w"
proof -
  let ?d = "bw2_bitLength w - int n - bw2_offset w"
  have e: "nat (bw2_bitLength w - bw2_offset w) = n + nat ?d" using assms(4) by simp
  have tv: "v AND (push_bit n 1 - 1) = v"
    using assms(2,3) take_bit_eq_mask [of n v] by (simp add: mask_eq_exp_minus_1 take_bit_int_eq_self)
  have V: "bw2_value w = push_bit (nat ?d) (push_bit n q)"
    using assms(1) e by (simp add: holds_def push_bit_eq_mult power_add algebra_simps)
  have "push_bit n q AND v = 0"
  proof (rule bit_eqI)
    fix k
    have "bit v k \<Longrightarrow> k < n" using assms(2,3) by (metis bit_take_bit_iff take_bit_int_eq_self_iff)
    then show "bit (push_bit n q AND v) k = bit (0 :: int) k" by (auto simp: bit_and_iff bit_push_bit_iff)
  qed
  then have o: "push_bit n q OR v = q * 2 ^ n + v" by (simp add: disjunctive_add_eq_or [symmetric] push_bit_eq_mult)
  have "bw2_value w OR push_bit (nat ?d) v = push_bit (nat ?d) (q * 2 ^ n + v)"
    unfolding V o [symmetric] by (simp only: push_bit_or)
  moreover have "nat (bw2_bitLength w - (bw2_offset w + int n)) = nat ?d" by (simp add: algebra_simps)
  ultimately show "holds (bw2_set v n w) (q * 2 ^ n + v)"
    using assms unfolding bw2_set_def Let_def tv by (simp add: holds_def push_bit_eq_mult)
qed (simp_all add: bw2_set_def Let_def)

lemma holds_fold:
  assumes "holds w q" "\<forall>v \<in> set vs. v < 2 ^ n" "bw2_offset w + int (n * length vs) \<le> bw2_bitLength w"
  shows "holds (fold (\<lambda>v. bw2_set (int v) n) vs w) (q * 2 ^ (n * length vs) + int (radix (2 ^ n) vs)) \<and>
    bw2_offset (fold (\<lambda>v. bw2_set (int v) n) vs w) = bw2_offset w + int (n * length vs) \<and>
    bw2_bitLength (fold (\<lambda>v. bw2_set (int v) n) vs w) = bw2_bitLength w"
  using assms(2,3)
proof (induction vs rule: rev_induct)
  case (snoc v vs)
  let ?w = "fold (\<lambda>v. bw2_set (int v) n) vs w"
  have IH: "holds ?w (q * 2 ^ (n * length vs) + int (radix (2 ^ n) vs))"
    "bw2_offset ?w = bw2_offset w + int (n * length vs)" "bw2_bitLength ?w = bw2_bitLength w"
    using snoc by (auto simp: algebra_simps)
  have "bw2_offset ?w + int n \<le> bw2_bitLength ?w" using snoc.prems(2) IH by (simp add: algebra_simps)
  moreover have "int v < 2 ^ n" using snoc.prems(1) by (metis in_set_conv_decomp of_nat_less_iff of_nat_numeral of_nat_power)
  ultimately show ?case
    using holds_set [OF IH(1), of "int v" n] IH by (simp add: algebra_simps power_add)
qed (simp add: assms(1))

definition writer16 :: bit_writer2 where "writer16 = \<lparr>bw2_bitLength = 16, bw2_value = 0, bw2_offset = 0\<rparr>"

lemma writer16: "BitWriter2 16 = Inr writer16" "holds writer16 0" "bw2_offset writer16 = 0" "bw2_bitLength writer16 = 16"
  by (simp_all add: BitWriter2_def writer16_def holds_def)

lemma full_writer:
  assumes "holds w q" "bw2_offset w = 16" "bw2_bitLength w = 16" "q < 2 ^ 16"
  shows "bw2_buffer w = Inr (be_bytes 2 q)" "buf_writeUInt 2 (buf_alloc 2) 0 (bw2_value w) = Inr (be_bytes 2 q)"
proof -
  have v: "bw2_value w = q" "0 \<le> q" using assms by (auto simp: holds_def)
  have "buf_writeUInt 2 (buf_alloc 2) 0 q = Inr (be_bytes 2 q)"
    using buf_writeUInt_fill [of q 2 2 "[]"] v assms(4) by (simp add: buf_alloc_def)
  then show "buf_writeUInt 2 (buf_alloc 2) 0 (bw2_value w) = Inr (be_bytes 2 q)" by (simp add: v)
  then show "bw2_buffer w = Inr (be_bytes 2 q)" using assms(3) by (simp add: bw2_buffer_def Let_def)
qed

lemma get_field_two:
  assumes "a < 256" "b < 256" "0 < n" "s + n \<le> 8"
  shows "get_field (be_bytes 2 (int (a * 256 + b))) 0 s n = Inr (a div 2 ^ (8 - s - n) mod 2 ^ n)"
    "get_field (be_bytes 2 (int (a * 256 + b))) 1 s n = Inr (b div 2 ^ (8 - s - n) mod 2 ^ n)"
    "uint (be_bytes 2 (int (a * 256 + b)) ! 1) = int b"
proof -
  have l: "length (be_bytes 2 v) = 2" for v by simp
  have z: "be_bytes 2 v ! 0 = word_of_int (v div 256)" "be_bytes 2 v ! 1 = word_of_int v" for v
    by (simp_all add: numeral_2_eq_2)
  have d: "int (a * 256 + b) div 256 = int a" using assms(2) by simp
  have u0: "unat (be_bytes 2 (int (a * 256 + b)) ! 0) = a" unfolding z d using assms(1) by (simp add: unat_of_nat)
  have "uint (word_of_int (int (a * 256 + b)) :: byte) = int (a * 256 + b) mod 256" by (simp only: uint_word_of_int) simp
  also have "\<dots> = int b" using assms(2) by simp
  finally show u: "uint (be_bytes 2 (int (a * 256 + b)) ! 1) = int b" unfolding z .
  then have u1: "unat (be_bytes 2 (int (a * 256 + b)) ! 1) = b" by (metis nat_int unat_eq_nat_uint)
  show "get_field (be_bytes 2 (int (a * 256 + b))) 0 s n = Inr (a div 2 ^ (8 - s - n) mod 2 ^ n)"
    "get_field (be_bytes 2 (int (a * 256 + b))) 1 s n = Inr (b div 2 ^ (8 - s - n) mod 2 ^ n)"
    unfolding get_field_def u0 u1 l using getBit_byte [of a n s] getBit_byte [of b n s] assms by simp_all
qed

definition valid_chunk16 :: "twcc_chunk \<Rightarrow> bool" where
  "valid_chunk16 c \<longleftrightarrow> (case c of
     RunLengthChunk st n \<Rightarrow> st < 4 \<and> (\<exists>k. n = Some k \<and> 0 \<le> k \<and> k < 2 ^ 13)
   | StatusVectorChunk sz syms \<Rightarrow> sz = 0 \<and> length syms = 14 \<and> (\<forall>v \<in> set syms. v < 2) \<or>
       sz = 1 \<and> length syms = 7 \<and> (\<forall>v \<in> set syms. v < 4))"

definition chunk_number :: "twcc_chunk \<Rightarrow> nat" where
  "chunk_number c = (case c of
     RunLengthChunk st n \<Rightarrow> st * 2 ^ 13 + nat (the n)
   | StatusVectorChunk sz syms \<Rightarrow> if sz = 0 then radix 2 ([1, 0] @ syms) else radix 4 ([3] @ syms))"

definition chunk16 :: "twcc_chunk \<Rightarrow> buffer" where
  "chunk16 c = be_bytes 2 (int (chunk_number c))"

lemma run_length_wire:
  assumes "st < 4" "0 \<le> k" "k < 2 ^ 13"
  shows "RunLengthChunk_serialize st (Some k) = Inr (be_bytes 2 (int st * 2 ^ 13 + k))"
    "get_field (be_bytes 2 (int st * 2 ^ 13 + k)) 0 0 1 = Inr 0"
    "RunLengthChunk_deSerialize (be_bytes 2 (int st * 2 ^ 13 + k)) = Inr (st, Some k)"
proof -
  let ?w1 = "bw2_set 0 1 writer16" and ?w2 = "bw2_set (int st) 2 (bw2_set 0 1 writer16)"
  let ?w3 = "bw2_set k 13 ?w2"
  have 1: "holds ?w1 0" "bw2_offset ?w1 = 1" "bw2_bitLength ?w1 = 16"
    using holds_set [OF writer16(2), of 0 1] writer16 by simp_all
  have 2: "holds ?w2 (int st)" "bw2_offset ?w2 = 3" "bw2_bitLength ?w2 = 16"
    using holds_set [OF 1(1), of "int st" 2] 1 assms by simp_all
  have 3: "holds ?w3 (int st * 2 ^ 13 + k)" "bw2_offset ?w3 = 16" "bw2_bitLength ?w3 = 16"
    using holds_set [OF 2(1), of k 13] 2 assms by simp_all
  have "int st * 2 ^ 13 + k < 2 ^ 16" using assms by auto
  from full_writer(1) [OF 3 this] show "RunLengthChunk_serialize st (Some k) = Inr (be_bytes 2 (int st * 2 ^ 13 + k))"
    by (simp add: RunLengthChunk_serialize_def writer16(1))
  let ?a = "st * 32 + nat (k div 256)" and ?b = "nat (k mod 256)"
  have kd: "0 \<le> k div 256" "k div 256 < 32" using assms by auto
  then have ab: "?a < 256" "?b < 256" using assms(1) by auto
  have e: "int st * 2 ^ 13 + k = int (?a * 256 + ?b)"
    using kd(1) mult_div_mod_eq [of 256 k] by (simp add: algebra_simps)
  have f: "?a div 2 ^ 5 mod 2 ^ 2 = st" "?a mod 2 ^ 5 = nat (k div 256)" "?a div 2 ^ 7 mod 2 = 0"
    using kd assms(1) by auto
  show "get_field (be_bytes 2 (int st * 2 ^ 13 + k)) 0 0 1 = Inr 0"
    unfolding e using get_field_two(1) [OF ab, of 1 0] f(3) by (simp del: of_nat_add of_nat_mult)
  have k: "int (nat (k div 256)) * 2 ^ 8 + int ?b = k" using kd(1) mult_div_mod_eq [of 256 k] by (simp add: algebra_simps)
  show "RunLengthChunk_deSerialize (be_bytes 2 (int st * 2 ^ 13 + k)) = Inr (st, Some k)"
    unfolding e RunLengthChunk_deSerialize_def
    using get_field_two(1) [OF ab, of 2 1] get_field_two(1) [OF ab, of 5 3] get_field_two(3) [OF ab, of 1 0] f k
    by (simp del: of_nat_add of_nat_mult)
qed

lemma radix_field:
  assumes "\<forall>d \<in> set ds. d < 2 ^ w" "w * length ds = 8" "i < length ds" "0 < w"
  shows "radix (2 ^ w) ds < 256" "radix (2 ^ w) ds div 2 ^ (8 - w * i - w) mod 2 ^ w = ds ! i"
proof -
  have p: "(2 ^ w) ^ k = (2 :: nat) ^ (w * k)" for k by (simp add: power_mult)
  show "radix (2 ^ w) ds < 256" using radix_bound [OF assms(1)] unfolding p assms(2) by simp
  have "8 - w * i - w = w * (length ds - Suc i)" using assms(2) by (simp add: diff_mult_distrib2)
  then show "radix (2 ^ w) ds div 2 ^ (8 - w * i - w) mod 2 ^ w = ds ! i"
    using radix_nth [OF assms(1,3)] by (simp add: p)
qed

lemma vector_fields:
  assumes "\<forall>d \<in> set (xs @ ys). d < 2 ^ w" "w * length xs = 8" "w * length ys = 8" "0 < w"
  shows "radix (2 ^ w) (xs @ ys) = radix (2 ^ w) xs * 256 + radix (2 ^ w) ys"
    "i < length xs \<Longrightarrow> get_field (be_bytes 2 (int (radix (2 ^ w) (xs @ ys)))) 0 (w * i) w = Inr (xs ! i)"
    "i < length ys \<Longrightarrow> get_field (be_bytes 2 (int (radix (2 ^ w) (xs @ ys)))) 1 (w * i) w = Inr (ys ! i)"
proof -
  have "(2 ^ w) ^ length ys = (256 :: nat)" using assms(3) by (simp flip: power_mult)
  then show e: "radix (2 ^ w) (xs @ ys) = radix (2 ^ w) xs * 256 + radix (2 ^ w) ys" by (simp add: radix_append)
  have x: "\<forall>d \<in> set xs. d < 2 ^ w" and y: "\<forall>d \<in> set ys. d < 2 ^ w" using assms(1) by auto
  have lx: "0 < length xs" "0 < length ys" using assms(2,3) by auto
  note b = radix_field(1) [OF x assms(2) lx(1) assms(4)] radix_field(1) [OF y assms(3) lx(2) assms(4)]
  have le: "w * i + w \<le> 8" if "i < length zs" "w * length zs = 8" for zs :: "nat list"
    using that mult_le_mono2 [of "Suc i" "length zs" w] by simp
  show "i < length xs \<Longrightarrow> get_field (be_bytes 2 (int (radix (2 ^ w) (xs @ ys)))) 0 (w * i) w = Inr (xs ! i)"
    unfolding e using get_field_two(1) [OF b assms(4) le [of xs]] radix_field(2) [OF x assms(2) _ assms(4)] assms(2) by simp
  show "i < length ys \<Longrightarrow> get_field (be_bytes 2 (int (radix (2 ^ w) (xs @ ys)))) 1 (w * i) w = Inr (ys ! i)"
    unfolding e using get_field_two(2) [OF b assms(4) le [of ys]] radix_field(2) [OF y assms(3) _ assms(4)] assms(3) by simp
qed

lemma rmap_nths:
  assumes "\<And>i. i < n \<Longrightarrow> f i = Inr (xs ! (k + i))" "k + n \<le> length xs"
  shows "rmap f [0..<n] = Inr (take n (drop k xs))"
proof -
  have "rmap f [0..<n] = Inr (map (\<lambda>i. xs ! (k + i)) [0..<n])" by (intro rmap_total) (simp add: assms(1))
  also have "map (\<lambda>i. xs ! (k + i)) [0..<n] = take n (drop k xs)" using assms(2) by (intro nth_equalityI) auto
  finally show ?thesis .
qed

lemma vector_serialize:
  assumes "sz < 2" "bits = (if sz = 0 then 1 else 2)" "bits * length syms = 14" "\<forall>v \<in> set syms. v < 2 ^ bits"
    "N = (2 + sz) * 2 ^ 14 + radix (2 ^ bits) syms"
  shows "StatusVectorChunk_serialize sz syms = Inr (be_bytes 2 (int N))"
proof -
  let ?w = "bw2_set (int sz) 1 (bw2_set 1 1 writer16)"
  have 1: "holds (bw2_set 1 1 writer16) 1" "bw2_offset (bw2_set 1 1 writer16) = 1" "bw2_bitLength (bw2_set 1 1 writer16) = 16"
    using holds_set [OF writer16(2), of 1 1] writer16 by simp_all
  have 2: "holds ?w (2 + int sz)" "bw2_offset ?w = 2" "bw2_bitLength ?w = 16"
    using holds_set [OF 1(1), of "int sz" 1] 1 assms(1) by simp_all
  let ?f = "fold (\<lambda>v. bw2_set (int v) bits) syms ?w"
  have 3: "holds ?f (int N)" "bw2_offset ?f = 16" "bw2_bitLength ?f = 16"
    using holds_fold [OF 2(1) assms(4)] 2 assms(3) by (simp_all add: assms(5))
  have "radix (2 ^ bits) syms < 2 ^ 14"
    using radix_bound [OF assms(4)] assms(3) by (simp flip: power_mult)
  then have "N < 2 ^ 16" using assms(1) by (simp add: assms(5))
  then have "int N < 2 ^ 16" by simp
  from full_writer(2) [OF 3 this] show ?thesis
    by (simp add: StatusVectorChunk_serialize_def writer16(1) Let_def flip: assms(2))
qed

lemma vector_wire_one:
  assumes "sz = 0" "length syms = 14" "\<forall>v \<in> set syms. v < 2"
  shows "StatusVectorChunk_serialize sz syms = Inr (chunk16 (StatusVectorChunk sz syms))"
    "get_field (chunk16 (StatusVectorChunk sz syms)) 0 0 1 = Inr 1"
    "StatusVectorChunk_deSerialize (chunk16 (StatusVectorChunk sz syms)) = Inr (sz, syms)"
proof -
  let ?d = "[1, 0] @ syms"
  have c: "chunk16 (StatusVectorChunk sz syms) = be_bytes 2 (int (radix 2 ?d))"
    using assms by (simp add: chunk16_def chunk_number_def)
  have n: "radix 2 ?d = (2 + sz) * 2 ^ 14 + radix (2 ^ 1) syms"
    using assms radix_append [of 2 "[1, 0]" syms] by (simp add: radix_def)
  show "StatusVectorChunk_serialize sz syms = Inr (chunk16 (StatusVectorChunk sz syms))"
    unfolding c using vector_serialize [OF _ _ _ _ n] assms by simp
  have split: "?d = take 8 ?d @ drop 8 ?d" by (rule append_take_drop_id [symmetric])
  have all: "\<forall>d \<in> set (take 8 ?d @ drop 8 ?d). d < 2 ^ 1" using assms by auto
  have l: "1 * length (take 8 ?d) = 8" "1 * length (drop 8 ?d) = 8" using assms by simp_all
  note v = vector_fields(2,3) [OF all l, folded split]
  have f0: "get_field (be_bytes 2 (int (radix 2 ?d))) 0 i 1 = Inr (?d ! i)" if "i < 8" for i
    using v(1) [of i] that assms by (simp del: take_Cons_numeral)
  have f1: "get_field (be_bytes 2 (int (radix 2 ?d))) 1 i 1 = Inr (?d ! (8 + i))" if "i < 8" for i
    using v(2) [of i] that assms by (simp del: drop_Cons_numeral)
  show "get_field (chunk16 (StatusVectorChunk sz syms)) 0 0 1 = Inr 1" unfolding c using f0 [of 0] by simp
  have r0: "rmap (\<lambda>i. get_field (be_bytes 2 (int (radix 2 ?d))) 0 (2 + i) 1) [0..<6] = Inr (take 6 (drop 2 ?d))"
    by (rule rmap_nths) (use f0 assms in auto)
  have r1: "rmap (\<lambda>i. get_field (be_bytes 2 (int (radix 2 ?d))) 1 i 1) [0..<8] = Inr (take 8 (drop 8 ?d))"
    by (rule rmap_nths) (use f1 assms in auto)
  have s: "take 6 (drop 2 ?d) @ take 8 (drop 8 ?d) = syms"
    using assms by (simp add: append_take_drop_id)
  show "StatusVectorChunk_deSerialize (chunk16 (StatusVectorChunk sz syms)) = Inr (sz, syms)"
    unfolding c StatusVectorChunk_deSerialize_def using r0 r1 s f0 [of 1] assms by simp
qed

lemma top_bits: "(x :: nat) mod 4 = 3 \<Longrightarrow> x mod 2 = 1" "(x :: nat) mod 4 = 3 \<Longrightarrow> x div 2 mod 2 = 1"
  by presburger+

lemma vector_wire_two:
  assumes "sz = 1" "length syms = 7" "\<forall>v \<in> set syms. v < 4"
  shows "StatusVectorChunk_serialize sz syms = Inr (chunk16 (StatusVectorChunk sz syms))"
    "get_field (chunk16 (StatusVectorChunk sz syms)) 0 0 1 = Inr 1"
    "StatusVectorChunk_deSerialize (chunk16 (StatusVectorChunk sz syms)) = Inr (sz, syms)"
proof -
  let ?d = "[3] @ syms"
  have c: "chunk16 (StatusVectorChunk sz syms) = be_bytes 2 (int (radix 4 ?d))"
    using assms by (simp add: chunk16_def chunk_number_def)
  have n: "radix 4 ?d = (2 + sz) * 2 ^ 14 + radix (2 ^ 2) syms"
    using assms radix_append [of 4 "[3]" syms] by (simp add: radix_def)
  show "StatusVectorChunk_serialize sz syms = Inr (chunk16 (StatusVectorChunk sz syms))"
    unfolding c using vector_serialize [OF _ _ _ _ n] assms by simp
  have split: "?d = take 4 ?d @ drop 4 ?d" by (rule append_take_drop_id [symmetric])
  have all: "\<forall>d \<in> set (take 4 ?d @ drop 4 ?d). d < 2 ^ 2" using assms by auto
  have l: "2 * length (take 4 ?d) = 8" "2 * length (drop 4 ?d) = 8" using assms by simp_all
  note v = vector_fields(2,3) [OF all l, folded split]
  have f0: "get_field (be_bytes 2 (int (radix 4 ?d))) 0 (2 * i) 2 = Inr (?d ! i)" if "i < 4" for i
    using v(1) [of i] that assms by (simp del: take_Cons_numeral)
  have f1: "get_field (be_bytes 2 (int (radix 4 ?d))) 1 (2 * i) 2 = Inr (?d ! (4 + i))" if "i < 4" for i
    using v(2) [of i] that assms by (simp del: drop_Cons_numeral)
  have top: "get_field (be_bytes 2 (int (radix 4 ?d))) 0 0 1 = Inr 1" "get_field (be_bytes 2 (int (radix 4 ?d))) 0 1 1 = Inr 1"
  proof -
    let ?a = "radix 4 (take 4 ?d)" and ?b = "radix 4 (drop 4 ?d)"
    have x: "\<forall>d \<in> set (take 4 ?d). d < 2 ^ 2" "\<forall>d \<in> set (drop 4 ?d). d < 2 ^ 2" using all unfolding set_append by blast+
    have ab: "?a < 256" "?b < 256"
      using radix_field(1) [OF x(1) l(1), of 0] radix_field(1) [OF x(2) l(2), of 0] assms by simp_all
    have e: "radix 4 ?d = ?a * 256 + ?b" using vector_fields(1) [OF all l, folded split] by simp
    have "?a div 64 mod 4 = 3" using radix_field(2) [OF x(1) l(1), of 0] assms by simp
    from top_bits [OF this] have "?a div 64 mod 2 = 1" "?a div 64 div 2 mod 2 = 1" .
    then have "?a div 2 ^ 7 mod 2 ^ 1 = 1" "?a div 2 ^ 6 mod 2 ^ 1 = 1" by (simp_all add: div_mult2_eq [symmetric])
    then show "get_field (be_bytes 2 (int (radix 4 ?d))) 0 0 1 = Inr 1" "get_field (be_bytes 2 (int (radix 4 ?d))) 0 1 1 = Inr 1"
      unfolding e using get_field_two(1) [OF ab, of 1 0] get_field_two(1) [OF ab, of 1 1] by simp_all
  qed
  show "get_field (chunk16 (StatusVectorChunk sz syms)) 0 0 1 = Inr 1" unfolding c by (rule top(1))
  have f0': "get_field (be_bytes 2 (int (radix 4 ?d))) 0 (2 + k * 2) 2 = Inr (?d ! (1 + k))" if "k < 3" for k
    using f0 [of "Suc k"] that by (simp add: mult.commute)
  have f1': "get_field (be_bytes 2 (int (radix 4 ?d))) 1 (k * 2) 2 = Inr (?d ! (4 + k))" if "k < 4" for k
    using f1 [of k] that by (simp add: mult.commute)
  have r0: "rmap (\<lambda>i. get_field (be_bytes 2 (int (radix 4 ?d))) 0 (2 + i * 2) 2) [0..<3] = Inr (take 3 (drop 1 ?d))"
    by (rule rmap_nths) (use f0' assms in auto)
  have r1: "rmap (\<lambda>i. get_field (be_bytes 2 (int (radix 4 ?d))) 1 (i * 2) 2) [0..<4] = Inr (take 4 (drop 4 ?d))"
    by (rule rmap_nths) (use f1' assms in auto)
  have s: "take 3 (drop 1 ?d) @ take 4 (drop 4 ?d) = syms"
    using assms by (simp add: append_take_drop_id)
  show "StatusVectorChunk_deSerialize (chunk16 (StatusVectorChunk sz syms)) = Inr (sz, syms)"
    unfolding c StatusVectorChunk_deSerialize_def top(2) using r0 r1 s assms by simp
qed

lemma chunk_wire: "valid_chunk16 c \<Longrightarrow> chunk_serialize c = Inr (chunk16 c)"
proof (cases c)
  case (RunLengthChunk st n)
  assume "valid_chunk16 c"
  then obtain k where k: "st < 4" "n = Some k" "0 \<le> k" "k < 2 ^ 13" by (auto simp: valid_chunk16_def RunLengthChunk)
  have "chunk16 c = be_bytes 2 (int st * 2 ^ 13 + k)" using k by (simp add: chunk16_def chunk_number_def RunLengthChunk)
  then show ?thesis using run_length_wire(1) [OF k(1,3,4)] by (simp add: chunk_serialize_def RunLengthChunk k(2))
next
  case (StatusVectorChunk sz syms)
  assume v: "valid_chunk16 c"
  then have "sz = 0 \<and> length syms = 14 \<and> (\<forall>v \<in> set syms. v < 2) \<or> sz = 1 \<and> length syms = 7 \<and> (\<forall>v \<in> set syms. v < 4)"
    by (auto simp: valid_chunk16_def StatusVectorChunk)
  then have "StatusVectorChunk_serialize sz syms = Inr (chunk16 (StatusVectorChunk sz syms))"
    using vector_wire_one(1) [of sz syms] vector_wire_two(1) [of sz syms] by blast
  then show ?thesis by (simp add: chunk_serialize_def StatusVectorChunk)
qed

section \<open>Round trip of the packet\<close>

text \<open>What the chunks cover of a status count, and the types of the deltas they announce.\<close>

definition covers :: "int \<Rightarrow> twcc_chunk \<Rightarrow> int" where
  "covers left c = (case c of RunLengthChunk st n \<Rightarrow> min left (the n) | StatusVectorChunk sz syms \<Rightarrow> int (length syms))"

definition announces :: "int \<Rightarrow> twcc_chunk \<Rightarrow> nat list" where
  "announces left c = (case c of
     RunLengthChunk st n \<Rightarrow> if st = 1 \<or> st = 2 then replicate (nat (covers left c)) st else []
   | StatusVectorChunk sz syms \<Rightarrow> filter (\<lambda>v. v = 1 \<or> (sz = 1 \<and> v = 2)) syms)"

fun chunks_fit :: "int \<Rightarrow> twcc_chunk list \<Rightarrow> bool" where
  "chunks_fit left [] \<longleftrightarrow> left \<le> 0"
| "chunks_fit left (c # cs) \<longleftrightarrow> 0 < left \<and> valid_chunk16 c \<and> chunks_fit (left - covers left c) cs"

fun announced :: "int \<Rightarrow> twcc_chunk list \<Rightarrow> nat list" where
  "announced left [] = []"
| "announced left (c # cs) = announces left c @ announced (left - covers left c) cs"

lemma length_chunk16 [simp]: "length (chunk16 c) = 2"
  by (simp add: chunk16_def)

lemma get_field_first:
  assumes "i < length x"
  shows "get_field (x @ r) i s n = get_field x i s n"
  using assms by (simp add: get_field_def nth_append)

lemma read_chunks_wire:
  "chunks_fit left cs \<Longrightarrow> read_chunks left (concat (map chunk16 cs) @ r) = Inr (cs, announced left cs, r)"
proof (induction left cs rule: announced.induct)
  case (1 left)
  then show ?case by (subst read_chunks.simps) simp
next
  case (2 left c cs)
  then have l: "0 < left" "valid_chunk16 c" and fit: "chunks_fit (left - covers left c) cs" by auto
  let ?d = "chunk16 c @ concat (map chunk16 cs) @ r"
  have s: "buf_slice ?d 0 2 = chunk16 c" "drop 2 ?d = concat (map chunk16 cs) @ r" by (simp_all add: buf_slice_def)
  have g: "get_field ?d 0 0 1 = get_field (chunk16 c) 0 0 1" by (rule get_field_first) simp
  note IH = "2.IH" [OF fit]
  show ?case
  proof (cases c)
    case (RunLengthChunk st n)
    obtain k where k: "st < 4" "n = Some k" "0 \<le> k" "k < 2 ^ 13" using l(2) by (auto simp: valid_chunk16_def RunLengthChunk)
    have c16: "chunk16 c = be_bytes 2 (int st * 2 ^ 13 + k)" using k by (simp add: chunk16_def chunk_number_def RunLengthChunk)
    note w = run_length_wire(2,3) [OF k(1,3,4), folded c16]
    have cv: "covers left c = min left k" by (simp add: covers_def RunLengthChunk k(2))
    have "read_chunks left ?d = Inr (c # cs, announced left (c # cs), r)"
      unfolding read_chunks.simps [of left ?d] s g w using l(1) IH
      by (simp add: RunLengthChunk k(2) announces_def Let_def flip: cv)
    then show ?thesis by simp
  next
    case (StatusVectorChunk sz syms)
    have v: "sz = 0 \<and> length syms = 14 \<and> (\<forall>v \<in> set syms. v < 2) \<or> sz = 1 \<and> length syms = 7 \<and> (\<forall>v \<in> set syms. v < 4)"
      using l(2) by (auto simp: valid_chunk16_def StatusVectorChunk)
    then have w: "get_field (chunk16 c) 0 0 1 = Inr 1" "StatusVectorChunk_deSerialize (chunk16 c) = Inr (sz, syms)"
      using vector_wire_one(2,3) [of sz syms] vector_wire_two(2,3) [of sz syms] unfolding StatusVectorChunk by blast+
    have cv: "covers left c = int (length syms)" by (simp add: covers_def StatusVectorChunk)
    have "read_chunks left ?d = Inr (c # cs, announced left (c # cs), r)"
      unfolding read_chunks.simps [of left ?d] s g w using l(1) IH
      by (simp add: StatusVectorChunk announces_def Let_def covers_def)
    then show ?thesis by simp
  qed
qed

definition prepared :: "recv_delta \<Rightarrow> recv_delta" where
  "prepared d = (if rd_parsed d then d else parseDelta d)"

definition delta_fits :: "recv_delta \<Rightarrow> bool" where
  "delta_fits d \<longleftrightarrow> (rd_type (prepared d) = Some 1 \<and> 0 \<le> rd_delta (prepared d) \<and> rd_delta (prepared d) < 256) \<or>
     (rd_type (prepared d) = Some 2 \<and> - 32768 \<le> rd_delta (prepared d) \<and> rd_delta (prepared d) \<le> 32767)"

definition received_delta :: "recv_delta \<Rightarrow> recv_delta" where
  "received_delta d = \<lparr>rd_type = rd_type (prepared d), rd_delta = 250 * rd_delta (prepared d), rd_parsed = False\<rparr>"

lemma int16_mod: "- 32768 \<le> v \<Longrightarrow> v \<le> 32767 \<Longrightarrow> int16 (v mod 2 ^ 16) = v"
proof -
  assume v: "- 32768 \<le> v" "v \<le> 32767"
  show ?thesis
  proof (cases "0 \<le> v")
    case True
    then show ?thesis using v by (simp add: int16_def)
  next
    case False
    have "v mod 2 ^ 16 = (v + 2 ^ 16) mod 2 ^ 16" by simp
    also have "\<dots> = v + 2 ^ 16" using v False by (intro mod_pos_pos_trivial) auto
    finally show ?thesis using v False by (simp add: int16_def)
  qed
qed

lemma read_deltas_wire:
  assumes "\<forall>d \<in> set ds. delta_fits d"
  shows "read_deltas (map (the \<circ> rd_type \<circ> prepared) ds) (concat (map delta_bytes ds) @ r) = Inr (map received_delta ds)"
  using assms
proof (induction ds)
  case (Cons d ds)
  let ?p = "prepared d" and ?r = "concat (map delta_bytes ds) @ r"
  have IH: "read_deltas (map (the \<circ> rd_type \<circ> prepared) ds) ?r = Inr (map received_delta ds)"
    by (rule Cons.IH) (use Cons.prems in simp)
  have ser: "RecvDelta_serialize d = (if rd_type ?p = Some 1 then writeUInt8 (rd_delta ?p)
      else if rd_type ?p = Some 2 then writeInt16BE (rd_delta ?p) else Inl (Error ''errDeltaExceedLimit''), ?p)"
    by (simp add: RecvDelta_serialize_def prepared_def Let_def)
  from Cons.prems consider (small) "rd_type ?p = Some 1" "0 \<le> rd_delta ?p" "rd_delta ?p < 256"
    | (large) "rd_type ?p = Some 2" "- 32768 \<le> rd_delta ?p" "rd_delta ?p \<le> 32767"
    by (auto simp: delta_fits_def)
  then show ?case
  proof cases
    case small
    have b: "delta_bytes d = [word_of_int (rd_delta ?p)]"
      using small by (simp add: delta_bytes_def ser writeUIntBE_def)
    have "RecvDelta_deSerialize (buf_slice (delta_bytes d @ ?r) 0 1) = Inr (1, 250 * rd_delta ?p)"
      using small by (simp add: b buf_slice_def RecvDelta_deSerialize_def uint_word_of_int)
    then show ?thesis using small IH [unfolded o_def] by (simp add: received_delta_def [of d] b)
  next
    case large
    have b: "delta_bytes d = be_bytes 2 (rd_delta ?p)"
      using large by (simp add: delta_bytes_def ser writeInt16BE_def)
    have "readUInt16BE (be_bytes 2 (rd_delta ?p)) 0 = Inr (rd_delta ?p mod 2 ^ 16)"
      using be_bytes_int [of 2 "rd_delta ?p"] by (simp add: readUIntBE_def buf_slice_def)
    then have "RecvDelta_deSerialize (buf_slice (delta_bytes d @ ?r) 0 2) = Inr (2, 250 * rd_delta ?p)"
      using large int16_mod [of "rd_delta ?p"] by (simp add: b buf_slice_def RecvDelta_deSerialize_def)
    moreover have "drop 2 (delta_bytes d @ ?r) = ?r" by (simp add: b)
    ultimately show ?thesis using large IH [unfolded o_def] by (simp add: received_delta_def [of d])
  qed
qed simp

definition twcc_fields :: "twcc_feedback \<Rightarrow> int list" where
  "twcc_fields t = [tw_senderSsrc t, tw_mediaSourceSsrc t, tw_baseSequenceNumber t, tw_packetStatusCount t,
     tw_referenceTime t, tw_fbPktCount t]"

definition twcc_body :: "twcc_feedback \<Rightarrow> buffer" where
  "twcc_body t = fields_bytes [4, 4, 2, 2, 3, 1] (twcc_fields t) @ concat (map chunk16 (tw_packetChunks t)) @
     concat (map delta_bytes (tw_recvDeltas t))"

definition padded :: "buffer \<Rightarrow> buffer" where
  "padded b = (if length b mod 4 \<noteq> 0 then b @ twcc_padding (4 - length b mod 4) else b)"

definition valid_twcc :: "twcc_feedback \<Rightarrow> bool" where
  "valid_twcc t \<longleftrightarrow> u32_ok (tw_senderSsrc t) \<and> u32_ok (tw_mediaSourceSsrc t) \<and> u16_ok (tw_baseSequenceNumber t) \<and>
     u16_ok (tw_packetStatusCount t) \<and> 0 \<le> tw_referenceTime t \<and> tw_referenceTime t < 2 ^ 24 \<and> u8_ok (tw_fbPktCount t) \<and>
     chunks_fit (tw_packetStatusCount t) (tw_packetChunks t) \<and> (\<forall>d \<in> set (tw_recvDeltas t). delta_fits d) \<and>
     map (the \<circ> rd_type \<circ> prepared) (tw_recvDeltas t) = announced (tw_packetStatusCount t) (tw_packetChunks t) \<and>
     valid_rtcp_header (tw_header t) \<and> length (twcc_body t) < 4 * 2 ^ 16 - 4"

definition sent_header :: "twcc_feedback \<Rightarrow> rtcp_header" where
  "sent_header t = (tw_header t)\<lparr>rtcp_padding := length (twcc_body t) mod 4 \<noteq> 0,
     rtcp_length := int (length (padded (twcc_body t)) div 4)\<rparr>"

lemma length_padded: "length (padded b) mod 4 = 0" "length (padded b) < length b + 4"
proof -
  have "length (padded b) = (if length b mod 4 \<noteq> 0 then length b + (4 - length b mod 4) else length b)"
    using mod_less_divisor [of 4 "length b"] by (simp add: padded_def twcc_padding_def) arith
  then show "length (padded b) mod 4 = 0" "length (padded b) < length b + 4" by presburger+
qed

lemma chunks_fit_valid: "chunks_fit left cs \<Longrightarrow> \<forall>c \<in> set cs. valid_chunk16 c"
  by (induction left cs rule: chunks_fit.induct) auto

lemma Twcc_wire:
  assumes "valid_twcc t"
  shows "valid_rtcp_header (sent_header t)"
    "TransportWideCC_serialize t = Inr (head_bytes (sent_header t) @ padded (twcc_body t),
       t\<lparr>tw_recvDeltas := map prepared (tw_recvDeltas t), tw_header := sent_header t\<rparr>)"
    "TransportWideCC_deSerialize (twcc_body t @ r) h = Inr (t\<lparr>tw_recvDeltas := map received_delta (tw_recvDeltas t), tw_header := h\<rparr>)"
proof -
  have ok: "list_all2 field_ok [4, 4, 2, 2, 3, 1] (twcc_fields t)"
    using assms by (simp add: valid_twcc_def twcc_fields_def field_ok_def int_size_ok_def u32_ok_def u16_ok_def u8_ok_def)
  have fit: "chunks_fit (tw_packetStatusCount t) (tw_packetChunks t)"
    and ds: "\<forall>d \<in> set (tw_recvDeltas t). delta_fits d"
    and ts: "map (the \<circ> rd_type \<circ> prepared) (tw_recvDeltas t) = announced (tw_packetStatusCount t) (tw_packetChunks t)"
    and hd: "valid_rtcp_header (tw_header t)" and sz: "length (twcc_body t) < 4 * 2 ^ 16 - 4"
    using assms by (simp_all add: valid_twcc_def)
  have "length (padded (twcc_body t)) div 4 < 2 ^ 16" using length_padded(2) [of "twcc_body t"] sz by simp
  then show h: "valid_rtcp_header (sent_header t)"
    using hd by (simp add: valid_rtcp_header_def sent_header_def u16_ok_def)
  have cs: "rmap chunk_serialize (tw_packetChunks t) = Inr (map chunk16 (tw_packetChunks t))"
    using chunks_fit_valid [OF fit] by (intro rmap_total) (simp add: chunk_wire)
  have pr: "map (snd \<circ> RecvDelta_serialize) ds = map prepared ds" for ds
    by (simp add: RecvDelta_serialize_def prepared_def Let_def)
  have "TransportWideCC_serialize t = rbind (RtcpHeader_serialize (sent_header t)) (\<lambda>hb. Inr (hb @ padded (twcc_body t),
       t\<lparr>tw_recvDeltas := map prepared (tw_recvDeltas t), tw_header := sent_header t\<rparr>))"
    unfolding TransportWideCC_serialize_def twcc_fields_def [symmetric]
    unfolding bufferWriter_ok [OF ok] cs rbind_simps Let_def pr twcc_body_def [symmetric] padded_def [symmetric]
    by (simp add: sent_header_def)
  then show "TransportWideCC_serialize t = Inr (head_bytes (sent_header t) @ padded (twcc_body t),
       t\<lparr>tw_recvDeltas := map prepared (tw_recvDeltas t), tw_header := sent_header t\<rparr>)"
    using rtcp_header_wire(1) [OF h] by (simp add: head_bytes_def)
  let ?rest = "concat (map chunk16 (tw_packetChunks t)) @ concat (map delta_bytes (tw_recvDeltas t)) @ r"
  have d: "drop 16 (twcc_body t @ r) = ?rest"
    by (simp add: twcc_body_def length_fields_bytes twcc_fields_def)
  have b: "bufferReader (twcc_body t @ r) [4, 4, 2, 2, 3, 1] = Inr (twcc_fields t)"
    unfolding twcc_body_def append_assoc by (rule bufferReader_bytes [OF ok])
  show "TransportWideCC_deSerialize (twcc_body t @ r) h = Inr (t\<lparr>tw_recvDeltas := map received_delta (tw_recvDeltas t), tw_header := h\<rparr>)"
    unfolding TransportWideCC_deSerialize_def b d
    using read_chunks_wire [OF fit, of "concat (map delta_bytes (tw_recvDeltas t)) @ r"] read_deltas_wire [OF ds, of r, unfolded ts]
    by (simp add: twcc_fields_def)
qed

end
