(* ===== verification/Rtcp_Compound.thy ===== *)
theory Rtcp_Compound
  imports Rtcp_Feedback Rtcp_Twcc
begin

text \<open>
  RTCP packets and compound packets (\<^verbatim>\<open>packages/rtp/src/rtcp/rtcp.ts\<close>, \<^verbatim>\<open>rtpfb/index.ts\<close>): the
  union of the report and feedback packets, and the converter that reads a compound packet.
  Proved: a compound of valid packets is read back packet by packet, and a packet that does not
  parse is skipped without touching the others.
\<close>

datatype rtpfb_feedback = GenericNack nack_feedback | TransportWideCC twcc_feedback

definition Rtpfb_deSerialize :: "buffer \<Rightarrow> rtcp_header \<Rightarrow> rtpfb_feedback option result" where
  "Rtpfb_deSerialize data h =
     (if rtcp_count h = 1 then rbind (Nack_deSerialize data h) (\<lambda>f. Inr (Some (GenericNack f)))
      else if rtcp_count h = 15 then rbind (TransportWideCC_deSerialize data h) (\<lambda>f. Inr (Some (TransportWideCC f)))
      else Inr None)"

definition Rtpfb_serialize :: "rtpfb_feedback option \<Rightarrow> buffer result" where
  "Rtpfb_serialize fo =
     (case fo of
        None \<Rightarrow> Inl (TypeError ''Cannot read properties of undefined'')
      | Some (GenericNack f) \<Rightarrow> rbind (Nack_serialize f) (\<lambda>(b, _). Inr b)
      | Some (TransportWideCC f) \<Rightarrow> rbind (TransportWideCC_serialize f) (\<lambda>(b, _). Inr b))"

datatype rtcp_packet =
    RtcpSrPacket sr_packet
  | RtcpRrPacket rr_packet
  | RtcpSourceDescriptionPacket "sdes_chunk list"
  | RtcpTransportLayerFeedback "rtpfb_feedback option" rtcp_header
  | RtcpPayloadSpecificFeedback "psfb_feedback option"

definition rtcp_serialize :: "rtcp_packet \<Rightarrow> buffer result" where
  "rtcp_serialize p = (case p of
     RtcpSrPacket x \<Rightarrow> Sr_serialize x
   | RtcpRrPacket x \<Rightarrow> Rr_serialize x
   | RtcpSourceDescriptionPacket x \<Rightarrow> Sdes_serialize x
   | RtcpTransportLayerFeedback x _ \<Rightarrow> Rtpfb_serialize x
   | RtcpPayloadSpecificFeedback x \<Rightarrow> Psfb_serialize x)"

section \<open>The converter\<close>

text \<open>The switch on the packet type; \<open>None\<close> for a type that is not known.\<close>

definition rtcp_switch :: "rtcp_header \<Rightarrow> buffer \<Rightarrow> rtcp_packet option result" where
  "rtcp_switch h pl =
     (if rtcp_type h = RtcpSrPacket_type
      then rbind (Sr_deSerialize pl (nat (rtcp_count h))) (\<lambda>p. Inr (Some (RtcpSrPacket p)))
      else if rtcp_type h = RtcpRrPacket_type
      then rbind (Rr_deSerialize pl (nat (rtcp_count h))) (\<lambda>p. Inr (Some (RtcpRrPacket p)))
      else if rtcp_type h = RtcpSourceDescriptionPacket_type
      then rbind (Sdes_deSerialize pl) (\<lambda>p. Inr (Some (RtcpSourceDescriptionPacket p)))
      else if rtcp_type h = RtcpTransportLayerFeedbackType
      then rbind (Rtpfb_deSerialize pl h) (\<lambda>f. Inr (Some (RtcpTransportLayerFeedback f h)))
      else if rtcp_type h = RtcpPayloadSpecificFeedback_type
      then rbind (Psfb_deSerialize pl h) (\<lambda>f. Inr (Some (RtcpPayloadSpecificFeedback f)))
      else Inr None)"

definition strip_padding :: "rtcp_header \<Rightarrow> buffer \<Rightarrow> buffer" where
  "strip_padding h pl =
     (if rtcp_padding h \<and> 0 < length pl
      then let pad = unat (pl ! (length pl - 1))
           in if 0 < pad \<and> pad \<le> length pl then buf_slice pl 0 (length pl - pad) else pl
      else pl)"

text \<open>The loop over the compound packet, on what is left of it.  An exception inside a packet is
  caught and logged; one in the header ends the call.\<close>

function RtcpPacketConverter_deSerialize :: "buffer \<Rightarrow> rtcp_packet list result" where
  "RtcpPacketConverter_deSerialize data =
     (if data = [] then Inr []
      else rbind (RtcpHeader_deSerialize (buf_slice data 0 RTCP_HEADER_SIZE)) (\<lambda>h.
           let data1 = drop RTCP_HEADER_SIZE data;
               payloadLen = nat (rtcp_length h) * 4;
               pl = strip_padding h (buf_slice data1 0 payloadLen);
               now = (case rtcp_switch h pl of Inr (Some p) \<Rightarrow> [p] | _ \<Rightarrow> [])
           in rbind (RtcpPacketConverter_deSerialize (drop payloadLen data1)) (\<lambda>ps. Inr (now @ ps))))"
  by pat_completeness auto
termination
  by (relation "measure length") (auto simp: RTCP_HEADER_SIZE_def)

declare RtcpPacketConverter_deSerialize.simps [simp del]

definition isRtcp :: "buffer \<Rightarrow> bool" where
  "isRtcp buf \<longleftrightarrow> 2 \<le> length buf \<and> 192 \<le> unat (buf ! 1) \<and> unat (buf ! 1) \<le> 208"

section \<open>Round trip\<close>

definition valid_psfb :: "psfb_feedback \<Rightarrow> bool" where
  "valid_psfb f \<longleftrightarrow> (case f of
     FullIntraRequest x \<Rightarrow> valid_fir x \<and> length (fir_fir x) < 2 ^ 14
   | PictureLossIndication x \<Rightarrow> u32_ok (pli_senderSsrc x) \<and> u32_ok (pli_mediaSsrc x)
   | ReceiverEstimatedMaxBitrate x \<Rightarrow> valid_remb x \<and> length (remb_ssrcFeedbacks x) < 2 ^ 14)"

definition psfb_body :: "psfb_feedback \<Rightarrow> buffer" where
  "psfb_body f = (case f of FullIntraRequest x \<Rightarrow> fir_body x
     | PictureLossIndication x \<Rightarrow> pair_bytes (pli_senderSsrc x) (pli_mediaSsrc x)
     | ReceiverEstimatedMaxBitrate x \<Rightarrow> remb_body x)"

definition valid_rtcp :: "rtcp_packet \<Rightarrow> bool" where
  "valid_rtcp p \<longleftrightarrow> (case p of
     RtcpSrPacket x \<Rightarrow> valid_sr x
   | RtcpRrPacket x \<Rightarrow> valid_rr x
   | RtcpSourceDescriptionPacket x \<Rightarrow> valid_sdes x
   | RtcpTransportLayerFeedback (Some (GenericNack f)) _ \<Rightarrow>
       valid_nack f \<and> rtcp_type (nack_header f) = 205 \<and> rtcp_count (nack_header f) = 1 \<and> \<not> rtcp_padding (nack_header f)
   | RtcpTransportLayerFeedback (Some (TransportWideCC f)) _ \<Rightarrow>
       valid_twcc f \<and> rtcp_type (tw_header f) = 205 \<and> rtcp_count (tw_header f) = 15
   | RtcpTransportLayerFeedback None _ \<Rightarrow> False
   | RtcpPayloadSpecificFeedback (Some f) \<Rightarrow> valid_psfb f
   | RtcpPayloadSpecificFeedback None \<Rightarrow> False)"

text \<open>What the receiver gets: the packet itself, except that a negative acknowledgement lists its
  numbers entry by entry, deltas carry their microseconds and feedback carries the header it came
  with.\<close>

definition nack_head :: "nack_feedback \<Rightarrow> rtcp_header" where
  "nack_head f = (nack_header f)\<lparr>rtcp_length := int (length (nack_body f) div 4)\<rparr>"

definition received :: "rtcp_packet \<Rightarrow> rtcp_packet" where
  "received p = (case p of
     RtcpTransportLayerFeedback (Some (GenericNack f)) _ \<Rightarrow>
       RtcpTransportLayerFeedback (Some (GenericNack
         (f\<lparr>nack_header := nack_head f, nack_lost := nack_numbers (nack_fci (nack_lost f))\<rparr>))) (nack_head f)
   | RtcpTransportLayerFeedback (Some (TransportWideCC f)) _ \<Rightarrow>
       RtcpTransportLayerFeedback (Some (TransportWideCC
         (f\<lparr>tw_recvDeltas := map received_delta (tw_recvDeltas f), tw_header := sent_header f\<rparr>))) (sent_header f)
   | _ \<Rightarrow> p)"

text \<open>A packet on the wire: header, body, and what the switch makes of it.\<close>

definition on_wire :: "rtcp_packet \<Rightarrow> rtcp_header \<Rightarrow> buffer \<Rightarrow> bool" where
  "on_wire p h body \<longleftrightarrow> valid_rtcp_header h \<and> rtcp_serialize p = Inr (head_bytes h @ body) \<and>
     length body = 4 * nat (rtcp_length h) \<and> rtcp_switch h (strip_padding h body) = Inr (Some (received p))"

lemma strip_none: "\<not> rtcp_padding h \<Longrightarrow> strip_padding h pl = pl"
  by (simp add: strip_padding_def)

lemma rtcp_head_simps [simp]:
  "rtcp_padding (rtcp_head t c l) = False" "rtcp_type (rtcp_head t c l) = t"
  "rtcp_count (rtcp_head t c l) = c" "rtcp_length (rtcp_head t c l) = l"
  by (simp_all add: rtcp_head_def)

lemmas rtcp_types = RtcpSrPacket_type_def RtcpRrPacket_type_def RtcpSourceDescriptionPacket_type_def
  RtcpTransportLayerFeedbackType_def RtcpPayloadSpecificFeedback_type_def

lemma on_wire_sr: "valid_sr x \<Longrightarrow> \<exists>h b. on_wire (RtcpSrPacket x) h b"
  using Sr_wire [of x]
  by (intro exI) (auto simp: on_wire_def rtcp_serialize_def strip_none rtcp_switch_def rtcp_types received_def
      sr_body_def length_report_bytes nat_add_distrib nat_mult_distrib)

lemma on_wire_rr: "valid_rr x \<Longrightarrow> \<exists>h b. on_wire (RtcpRrPacket x) h b"
  using Rr_wire [of x]
  by (intro exI) (auto simp: on_wire_def rtcp_serialize_def strip_none rtcp_switch_def rtcp_types received_def
      length_rr_body nat_add_distrib nat_mult_distrib)

lemma on_wire_sdes: "valid_sdes x \<Longrightarrow> \<exists>h b. on_wire (RtcpSourceDescriptionPacket x) h b"
  using Sdes_wire [of x]
  by (intro exI) (auto simp: on_wire_def rtcp_serialize_def strip_none rtcp_switch_def rtcp_types received_def)

lemma Psfb_wire:
  assumes "valid_psfb f"
  shows "psfb_serialize_feedback f = Inr (psfb_body f)" "length (psfb_body f) = 4 * nat (psfb_length f (psfb_body f))"
    "0 \<le> psfb_length f (psfb_body f)" "psfb_length f (psfb_body f) < 2 ^ 16"
    "rtcp_count h = psfb_count f \<Longrightarrow> Psfb_deSerialize (psfb_body f) h = Inr (Some f)"
proof -
  have "psfb_serialize_feedback f = Inr (psfb_body f) \<and> length (psfb_body f) = 4 * nat (psfb_length f (psfb_body f)) \<and>
    0 \<le> psfb_length f (psfb_body f) \<and> psfb_length f (psfb_body f) < 2 ^ 16 \<and>
    (rtcp_count h = psfb_count f \<longrightarrow> Psfb_deSerialize (psfb_body f) h = Inr (Some f))"
  proof (cases f)
    case (FullIntraRequest x)
    then have v: "valid_fir x" "length (fir_fir x) < 2 ^ 14" using assms by (auto simp: valid_psfb_def)
    show ?thesis
      using Fir_wire [OF v(1)] v(2)
      by (simp add: FullIntraRequest psfb_serialize_feedback_def psfb_body_def psfb_length_def psfb_count_def
          Psfb_deSerialize_def length_fir_body)
  next
    case (PictureLossIndication x)
    then have v: "u32_ok (pli_senderSsrc x)" "u32_ok (pli_mediaSsrc x)" using assms by (auto simp: valid_psfb_def)
    show ?thesis
      using Pli_wire [OF v]
      by (simp add: PictureLossIndication psfb_serialize_feedback_def psfb_body_def psfb_length_def psfb_count_def
          Psfb_deSerialize_def)
  next
    case (ReceiverEstimatedMaxBitrate x)
    then have v: "valid_remb x" "length (remb_ssrcFeedbacks x) < 2 ^ 14" using assms by (auto simp: valid_psfb_def)
    then have "length (remb_uniqueID x) = 4" by (simp add: valid_remb_def)
    from length_remb_body [OF this] show ?thesis
      using Remb_wire [OF v(1)] v(2)
      by (simp add: ReceiverEstimatedMaxBitrate psfb_serialize_feedback_def psfb_body_def psfb_length_def psfb_count_def
          Psfb_deSerialize_def)
  qed
  then show "psfb_serialize_feedback f = Inr (psfb_body f)" "length (psfb_body f) = 4 * nat (psfb_length f (psfb_body f))"
    "0 \<le> psfb_length f (psfb_body f)" "psfb_length f (psfb_body f) < 2 ^ 16"
    "rtcp_count h = psfb_count f \<Longrightarrow> Psfb_deSerialize (psfb_body f) h = Inr (Some f)" by blast+
qed

lemma on_wire_psfb:
  assumes "valid_psfb f"
  shows "\<exists>h b. on_wire (RtcpPayloadSpecificFeedback (Some f)) h b"
proof -
  note w = Psfb_wire [OF assms]
  let ?h = "rtcp_head 206 (psfb_count f) (psfb_length f (psfb_body f))"
  have h: "valid_rtcp_header ?h"
    using w(3,4) by (intro valid_rtcp_head) (auto simp: u8_ok_def u16_ok_def psfb_count_def split: psfb_feedback.splits)
  have "on_wire (RtcpPayloadSpecificFeedback (Some f)) ?h (psfb_body f)"
    using w(1,2) w(5) [of ?h] serialize_packet_wire [OF h] h
    by (simp add: on_wire_def rtcp_serialize_def Psfb_serialize_def strip_none rtcp_switch_def rtcp_types received_def)
  then show ?thesis by blast
qed

lemma on_wire_nack:
  assumes "valid_nack f" "rtcp_type (nack_header f) = 205" "rtcp_count (nack_header f) = 1" "\<not> rtcp_padding (nack_header f)"
  shows "on_wire (RtcpTransportLayerFeedback (Some (GenericNack f)) h0) (nack_head f) (nack_body f)"
  using Nack_wire(1,2) [OF assms(1), folded nack_head_def] Nack_wire(3) [OF assms(1), of "nack_head f"] assms(2-4)
  by (simp add: on_wire_def rtcp_serialize_def Rtpfb_serialize_def strip_none rtcp_switch_def rtcp_types received_def
      Rtpfb_deSerialize_def length_nack_body nack_head_def)

lemma strip_padded:
  assumes "rtcp_padding h \<longleftrightarrow> length b mod 4 \<noteq> 0"
  shows "strip_padding h (padded b) = b"
proof (cases "length b mod 4 = 0")
  case True
  then show ?thesis using assms by (simp add: strip_padding_def padded_def)
next
  case False
  define k where "k = 4 - length b mod 4"
  have k: "0 < k" "k < 4" using False by (auto simp: k_def)
  have e: "padded b = b @ buf_alloc (k - 1) @ [of_nat k]" using False by (simp add: padded_def twcc_padding_def k_def)
  have n: "(b @ buf_alloc j @ [x]) ! (length b + j) = x" for j x by (simp add: nth_append)
  have l: "length (padded b) = length b + k" using k by (simp add: e)
  have "length (padded b) - 1 = length b + (k - 1)" using k by (simp add: l)
  then have "padded b ! (length (padded b) - 1) = of_nat k" unfolding e by (simp only: n)
  moreover have "unat (of_nat k :: byte) = k" using k by (simp add: unat_of_nat)
  moreover have "buf_slice (padded b) 0 (length b) = b" by (simp add: e buf_slice_def)
  ultimately show ?thesis using False assms k l by (simp add: strip_padding_def Let_def)
qed

lemma on_wire_twcc:
  assumes "valid_twcc f" "rtcp_type (tw_header f) = 205" "rtcp_count (tw_header f) = 15"
  shows "on_wire (RtcpTransportLayerFeedback (Some (TransportWideCC f)) h0) (sent_header f) (padded (twcc_body f))"
proof -
  have "strip_padding (sent_header f) (padded (twcc_body f)) = twcc_body f"
    by (rule strip_padded) (simp add: sent_header_def)
  moreover have "length (padded (twcc_body f)) = 4 * nat (rtcp_length (sent_header f))"
    using length_padded(1) [of "twcc_body f"] mult_div_mod_eq [of 4 "length (padded (twcc_body f))"]
    by (simp add: sent_header_def)
  moreover have "rtcp_type (sent_header f) = 205" "rtcp_count (sent_header f) = 15"
    using assms(2,3) by (simp_all add: sent_header_def)
  moreover have "TransportWideCC_deSerialize (twcc_body f) (sent_header f) =
      Inr (f\<lparr>tw_recvDeltas := map received_delta (tw_recvDeltas f), tw_header := sent_header f\<rparr>)"
    using Twcc_wire(3) [OF assms(1), of "[]" "sent_header f"] by simp
  ultimately show ?thesis
    unfolding on_wire_def
    by (simp add: Twcc_wire(1,2) [OF assms(1)] rtcp_serialize_def Rtpfb_serialize_def rtcp_switch_def rtcp_types received_def
        Rtpfb_deSerialize_def)
qed

lemma valid_on_wire: "valid_rtcp p \<Longrightarrow> \<exists>h b. on_wire p h b"
  using on_wire_sr on_wire_rr on_wire_sdes on_wire_psfb on_wire_nack on_wire_twcc
  by (cases p) (fastforce simp: valid_rtcp_def split: option.splits rtpfb_feedback.splits)+

lemma converter_step:
  assumes "valid_rtcp_header h" "length body = 4 * nat (rtcp_length h)"
  shows "RtcpPacketConverter_deSerialize ((head_bytes h @ body) @ rest) =
    rbind (RtcpPacketConverter_deSerialize rest) (\<lambda>ps.
      Inr ((case rtcp_switch h (strip_padding h body) of Inr (Some p) \<Rightarrow> [p] | _ \<Rightarrow> []) @ ps))"
proof -
  have ne: "head_bytes h \<noteq> []" using length_head_bytes [of h] by (metis length_0_conv zero_neq_numeral)
  have s: "buf_slice ((head_bytes h @ body) @ rest) 0 4 = head_bytes h @ []" by (simp add: buf_slice_def)
  have d: "drop 4 ((head_bytes h @ body) @ rest) = body @ rest" by simp
  have b: "buf_slice (body @ rest) 0 (nat (rtcp_length h) * 4) = body" "drop (nat (rtcp_length h) * 4) (body @ rest) = rest"
    using assms(2) by (simp_all add: buf_slice_def)
  show ?thesis
    by (subst RtcpPacketConverter_deSerialize.simps)
      (use ne in \<open>simp add: RTCP_HEADER_SIZE_def s d b Let_def head_read [OF assms(1), of "[]", simplified] del: append_assoc drop_append\<close>)
qed

lemma compound_wire:
  assumes "\<forall>p \<in> set ps. valid_rtcp p"
  shows "\<exists>bs. rmap rtcp_serialize ps = Inr bs \<and> RtcpPacketConverter_deSerialize (concat bs) = Inr (map received ps)"
  using assms
proof (induction ps)
  case Nil
  then show ?case by (simp add: RtcpPacketConverter_deSerialize.simps)
next
  case (Cons p ps)
  then obtain bs where bs: "rmap rtcp_serialize ps = Inr bs" "RtcpPacketConverter_deSerialize (concat bs) = Inr (map received ps)"
    by auto
  obtain h b where w: "on_wire p h b" using Cons.prems valid_on_wire by fastforce
  have "RtcpPacketConverter_deSerialize ((head_bytes h @ b) @ concat bs) = Inr (received p # map received ps)"
    using w bs(2) by (subst converter_step) (auto simp: on_wire_def)
  then show ?case using w bs by (intro exI [of _ "(head_bytes h @ b) # bs"]) (simp add: on_wire_def)
qed

text \<open>C16: a compound packet survives the wire.  Any list of valid reports, descriptions and feedback
  messages serializes without an exception, and the converter reads exactly these packets back, in
  order: reports, descriptions and payload feedback unchanged, a negative acknowledgement with its
  numbers entry by entry, transport-wide feedback with its deltas in microseconds and without the
  padding the serializer added.\<close>

theorem rtcp_compound_roundtrip:
  assumes "\<forall>p \<in> set ps. valid_rtcp p"
  shows "\<exists>bs. rmap rtcp_serialize ps = Inr bs \<and> RtcpPacketConverter_deSerialize (concat bs) = Inr (map received ps)"
  using assms by (rule compound_wire)

definition sample_rtcp :: "rtcp_packet list" where
  "sample_rtcp =
     [RtcpRrPacket \<lparr>rr_ssrc = 1, rr_reports = [\<lparr>ri_ssrc = 2, ri_fractionLost = 12, ri_packetsLost = 70000,
        ri_highestSequence = 4000000000, ri_jitter = 5, ri_lsr = 6, ri_dlsr = 7\<rparr>]\<rparr>,
      RtcpPayloadSpecificFeedback (Some (PictureLossIndication \<lparr>pli_senderSsrc = 1, pli_mediaSsrc = 2\<rparr>)),
      RtcpTransportLayerFeedback (Some (GenericNack \<lparr>nack_header = new_RtcpHeader 205 1, nack_senderSsrc = 1,
        nack_mediaSourceSsrc = 2, nack_lost = [5, 7, 9, 65535]\<rparr>)) (new_RtcpHeader 205 1),
      RtcpTransportLayerFeedback (Some (TransportWideCC \<lparr>tw_senderSsrc = 1, tw_mediaSourceSsrc = 2,
        tw_baseSequenceNumber = 65534, tw_packetStatusCount = 5, tw_referenceTime = 3, tw_fbPktCount = 255,
        tw_packetChunks = [RunLengthChunk 1 (Some 2), RunLengthChunk 0 (Some 2), RunLengthChunk 2 (Some 1)],
        tw_recvDeltas = [\<lparr>rd_type = Some 1, rd_delta = 4, rd_parsed = True\<rparr>, \<lparr>rd_type = None, rd_delta = 1000, rd_parsed = False\<rparr>,
          \<lparr>rd_type = None, rd_delta = - 1000, rd_parsed = False\<rparr>],
        tw_header = new_RtcpHeader 205 15\<rparr>)) (new_RtcpHeader 205 15)]"

lemma valid_chunk16_code [code]:
  "valid_chunk16 c \<longleftrightarrow> (case c of
     RunLengthChunk st n \<Rightarrow> st < 4 \<and> (case n of Some k \<Rightarrow> 0 \<le> k \<and> k < 2 ^ 13 | None \<Rightarrow> False)
   | StatusVectorChunk sz syms \<Rightarrow> sz = 0 \<and> length syms = 14 \<and> (\<forall>v \<in> set syms. v < 2) \<or>
       sz = 1 \<and> length syms = 7 \<and> (\<forall>v \<in> set syms. v < 4))"
  by (auto simp: valid_chunk16_def split: twcc_chunk.splits option.splits)

lemma valid_fir_code [code]:
  "valid_fir f \<longleftrightarrow> u32_ok (fir_senderSsrc f) \<and> u32_ok (fir_mediaSsrc f) \<and>
     (\<forall>e \<in> set (fir_fir f). u32_ok (fir_ssrc e) \<and> (case fir_sequenceNumber e of Some n \<Rightarrow> u8_ok n | None \<Rightarrow> False))"
  by (fastforce simp: valid_fir_def split: option.splits)

lemma valid_remb_code [code]:
  "valid_remb r \<longleftrightarrow> u32_ok (remb_senderSsrc r) \<and> u32_ok (remb_mediaSsrc r) \<and>
     length (remb_uniqueID r) = 4 \<and> list_all (\<lambda>c. c < 128) (remb_uniqueID r) \<and> u8_ok (remb_ssrcNum r) \<and>
     0 \<le> remb_brExp r \<and> remb_brExp r < 64 \<and>
     (case remb_brMantissa r of Some m \<Rightarrow> 0 \<le> m \<and> m < 2 ^ 18 \<and> remb_bitrate r = remb_rate (remb_brExp r) m | None \<Rightarrow> False) \<and>
     (\<forall>f \<in> set (remb_ssrcFeedbacks r). u32_ok f)"
  by (auto simp: valid_remb_def split: option.splits)

lemma sample_rtcp_valid: "list_all valid_rtcp sample_rtcp"
  by (simp add: sample_rtcp_def valid_rtcp_def valid_rr_def valid_receiver_info_def valid_psfb_def valid_nack_def
      valid_twcc_def valid_rtcp_header_def new_RtcpHeader_def u8_ok_def u16_ok_def u32_ok_def valid_chunk16_def
      covers_def announces_def delta_fits_def prepared_def parseDelta_def Let_def twcc_body_def length_fields_bytes
      twcc_fields_def delta_bytes_def RecvDelta_serialize_def writeInt16BE_def writeUIntBE_def) (simp add: numeral_2_eq_2)

theorem rtcp_compound_roundtrip_witness:
  "\<exists>bs. rmap rtcp_serialize sample_rtcp = Inr bs \<and>
     RtcpPacketConverter_deSerialize (concat bs) = Inr (map received sample_rtcp)"
  using rtcp_compound_roundtrip [of sample_rtcp] sample_rtcp_valid by (simp add: list_all_iff)

text \<open>C17: one bad packet does not take the others with it.  If a packet of a compound has a valid
  header and a body of the declared length that does not parse (its parser raises, or its type is
  unknown), it is skipped and the valid packets before and behind it are all delivered.\<close>

theorem rtcp_bad_packet_skipped:
  assumes "\<forall>p \<in> set ps. valid_rtcp p" "\<forall>p \<in> set qs. valid_rtcp p"
    and "valid_rtcp_header h" "length body = 4 * nat (rtcp_length h)"
    and "\<forall>p. rtcp_switch h (strip_padding h body) \<noteq> Inr (Some p)"
  shows "\<exists>bs cs. rmap rtcp_serialize ps = Inr bs \<and> rmap rtcp_serialize qs = Inr cs \<and>
    RtcpPacketConverter_deSerialize (concat bs @ (head_bytes h @ body) @ concat cs) = Inr (map received (ps @ qs))"
  using assms(1)
proof (induction ps)
  case Nil
  obtain cs where cs: "rmap rtcp_serialize qs = Inr cs" "RtcpPacketConverter_deSerialize (concat cs) = Inr (map received qs)"
    using compound_wire [OF assms(2)] by blast
  have "(case rtcp_switch h (strip_padding h body) of Inr (Some p) \<Rightarrow> [p] | _ \<Rightarrow> []) = []"
    using assms(5) by (auto split: sum.splits option.splits)
  then show ?case using converter_step [OF assms(3,4), of "concat cs"] cs by simp
next
  case (Cons p ps)
  then obtain bs cs where b: "rmap rtcp_serialize ps = Inr bs" "rmap rtcp_serialize qs = Inr cs"
    "RtcpPacketConverter_deSerialize (concat bs @ (head_bytes h @ body) @ concat cs) = Inr (map received (ps @ qs))"
    by auto
  obtain h' b' where w: "on_wire p h' b'" using Cons.prems valid_on_wire by fastforce
  then have "RtcpPacketConverter_deSerialize ((head_bytes h' @ b') @ concat bs @ (head_bytes h @ body) @ concat cs) =
      Inr (received p # map received (ps @ qs))"
    using b(3) by (subst converter_step) (auto simp: on_wire_def)
  then show ?case using w b
    by (intro exI [of _ "(head_bytes h' @ b') # bs"] exI [of _ cs]) (simp add: on_wire_def)
qed

theorem rtcp_bad_packet_skipped_witness:
  "\<exists>bs cs. rmap rtcp_serialize sample_rtcp = Inr bs \<and> rmap rtcp_serialize sample_rtcp = Inr cs \<and>
    RtcpPacketConverter_deSerialize (concat bs @ (head_bytes (rtcp_head 200 1 1) @ [1, 2, 3, 4]) @ concat cs) =
      Inr (map received (sample_rtcp @ sample_rtcp))"
proof (rule rtcp_bad_packet_skipped)
  show "valid_rtcp_header (rtcp_head 200 1 1)" by (intro valid_rtcp_head) (simp_all add: u8_ok_def u16_ok_def)
  have "rtcp_switch (rtcp_head 200 1 1) [1, 2, 3, 4] = Inl RangeError"
    by (simp add: rtcp_switch_def rtcp_types Sr_deSerialize_def SenderInfo_deSerialize_def bufferReader_def
        read_field_def int_size_ok_def readUIntBE_def buf_slice_def)
  then show "\<forall>p. rtcp_switch (rtcp_head 200 1 1) (strip_padding (rtcp_head 200 1 1) [1, 2, 3, 4]) \<noteq> Inr (Some p)"
    by (simp add: strip_none)
qed (use sample_rtcp_valid in \<open>simp_all add: list_all_iff\<close>)

text \<open>C18: a negative acknowledgement asks for exactly the numbers handed to it, in whatever order
  they come, and lists them unchanged when they are ascending.\<close>

theorem nack_lost_exact:
  assumes "valid_nack f"
  shows "\<exists>b f' g. Nack_serialize f = Inr (b, f') \<and> Nack_deSerialize (drop 4 b) h = Inr g \<and>
    set (nack_lost g) = set (nack_lost f) \<and> (sorted_wrt (<) (nack_lost f) \<longrightarrow> nack_lost g = nack_lost f)"
  using Nack_wire(2) [OF assms] Nack_wire(3) [OF assms, of h] nack_numbers_fci [of "nack_lost f"] by simp

theorem nack_lost_exact_witness:
  "\<exists>b f' g. Nack_serialize \<lparr>nack_header = new_RtcpHeader 205 1, nack_senderSsrc = 1, nack_mediaSourceSsrc = 2,
       nack_lost = [10, 9, 30, 11]\<rparr> = Inr (b, f') \<and> Nack_deSerialize (drop 4 b) (new_RtcpHeader 205 1) = Inr g \<and>
     set (nack_lost g) = set [10, 9, 30, 11]"
proof -
  let ?f = "\<lparr>nack_header = new_RtcpHeader 205 1, nack_senderSsrc = 1, nack_mediaSourceSsrc = 2, nack_lost = [10, 9, 30, 11]\<rparr>"
  have "valid_nack ?f"
    by (simp add: valid_nack_def valid_rtcp_header_def new_RtcpHeader_def u8_ok_def u16_ok_def u32_ok_def)
  from nack_lost_exact [OF this, of "new_RtcpHeader 205 1"] have "\<exists>b f' g. Nack_serialize ?f = Inr (b, f') \<and>
      Nack_deSerialize (drop 4 b) (new_RtcpHeader 205 1) = Inr g \<and> set (nack_lost g) = set (nack_lost ?f)" by blast
  then show ?thesis by (simp only: nack_feedback.select_convs)
qed

end
