(* ===== verification/Js_Object.thy ===== *)
theory Js_Object
  imports Prelude
begin

text \<open>
  JavaScript objects used as maps from numbers.  Keys that are array indices are listed by
  \<^verbatim>\<open>Object.keys\<close> and \<^verbatim>\<open>Object.values\<close> in ascending order, so such an object is an association
  list sorted by its keys; a write replaces the value of its key, \<^verbatim>\<open>delete\<close> removes it, and a
  read is \<open>map_of\<close>.
\<close>

definition obj_ok :: "(int \<times> 'a) list \<Rightarrow> bool" where
  "obj_ok m \<longleftrightarrow> sorted_wrt (<) (map fst m)"

fun obj_put :: "int \<Rightarrow> 'a \<Rightarrow> (int \<times> 'a) list \<Rightarrow> (int \<times> 'a) list" where
  "obj_put k v [] = [(k, v)]"
| "obj_put k v ((k', v') # xs) =
     (if k < k' then (k, v) # (k', v') # xs
      else if k = k' then (k, v) # xs
      else (k', v') # obj_put k v xs)"

definition obj_delete :: "int \<Rightarrow> (int \<times> 'a) list \<Rightarrow> (int \<times> 'a) list" where
  "obj_delete k m = filter (\<lambda>e. fst e \<noteq> k) m"

lemma obj_ok_Nil [simp]: "obj_ok []"
  by (simp add: obj_ok_def)

lemma obj_ok_distinct: "obj_ok m \<Longrightarrow> distinct (map fst m)"
  by (simp add: obj_ok_def strict_sorted_iff)

lemma obj_put_fst: "fst ` set (obj_put k v m) = insert k (fst ` set m)"
  by (induction k v m rule: obj_put.induct) auto

lemma obj_put_ok: "obj_ok m \<Longrightarrow> obj_ok (obj_put k v m)"
  unfolding obj_ok_def
proof (induction k v m rule: obj_put.induct)
  case (2 k v k' v' xs)
  then show ?case using obj_put_fst [of k v xs] by auto
qed simp

lemma obj_put_set: "set (obj_put k v m) \<subseteq> insert (k, v) (set m)" "(k, v) \<in> set (obj_put k v m)"
  by (induction k v m rule: obj_put.induct) auto

lemma obj_put_length: "length (obj_put k v m) \<le> Suc (length m)"
  by (induction k v m rule: obj_put.induct) auto

lemma map_of_obj_put [simp]: "map_of (obj_put k v m) = (map_of m)(k \<mapsto> v)"
  by (induction k v m rule: obj_put.induct) (auto simp: fun_eq_iff)

lemma obj_delete_ok: "obj_ok m \<Longrightarrow> obj_ok (obj_delete k m)"
  by (simp add: obj_ok_def obj_delete_def sorted_wrt_map sorted_wrt_filter)

lemma map_of_obj_delete [simp]: "map_of (obj_delete k m) = (map_of m)(k := None)"
  by (induction m) (auto simp: obj_delete_def fun_eq_iff)

lemma obj_delete_length: "map_of m k \<noteq> None \<Longrightarrow> length (obj_delete k m) < length m"
proof -
  assume "map_of m k \<noteq> None"
  then obtain v where "(k, v) \<in> set m" by (auto dest: map_of_SomeD)
  then show ?thesis unfolding obj_delete_def by (rule length_filter_less) simp
qed

lemma obj_delete_length_le: "length (obj_delete k m) \<le> length m"
  by (simp add: obj_delete_def)

lemma obj_length_card: "obj_ok m \<Longrightarrow> length m = card (dom (map_of m))"
  by (metis distinct_card dom_map_of_conv_image_fst length_map list.set_map obj_ok_distinct)

end
