(* ===== verification/Twcc_Receiver.thy ===== *)
theory Twcc_Receiver
  imports Rtcp_Compound Number Js_Object "HOL-Library.AList" "HOL-Library.Multiset"
begin

text \<open>
  The receiver side of transport-wide congestion control
  (\<^verbatim>\<open>packages/webrtc/src/media/receiver/receiverTwcc.ts\<close>, class \<^verbatim>\<open>ReceiverTWCC\<close>): arrivals are
  collected under their extended sequence number and reported in feedback windows.

  \<open>extensionInfo\<close> is the object keyed by the 16-bit number; as its keys are array indices,
  \<^verbatim>\<open>Object.values\<close> lists it by ascending key, so it is an association list in that order.  The
  clock (microseconds, positive) is an argument.  What \<^verbatim>\<open>sendRtcp\<close> is called with is returned.
  Proved: the windows of all feedbacks tile the extended numbers, what the sender reads from a
  report is what arrived, with a bound on the error of the times, and a transport has one running
  generator exactly while somebody holds it.
\<close>

section \<open>State\<close>

record extension_info =
  ei_tsn :: int
  ei_timestamp :: int
  ei_ext :: "int option"

record receiver_twcc =
  tr_rtcpSsrc :: int
  tr_mediaSourceSsrc :: int
  extensionInfo :: "(int \<times> extension_info) list"
  twccRunning :: bool
  tr_fbPktCount :: int
  nextReportExt :: "int option"
  highestRecvExt :: "int option"

definition TWCC_SEQ_MOD :: int where "TWCC_SEQ_MOD = 65536"
definition MAX_FEEDBACK_SPAN :: int where "MAX_FEEDBACK_SPAN = 32767"
definition RUN_LENGTH_MAX :: int where "RUN_LENGTH_MAX = 8191"

lemmas twcc_consts [simp] = TWCC_SEQ_MOD_def MAX_FEEDBACK_SPAN_def RUN_LENGTH_MAX_def

definition new_ReceiverTWCC :: "int \<Rightarrow> int \<Rightarrow> receiver_twcc" where
  "new_ReceiverTWCC rtcpSsrc mediaSourceSsrc =
     \<lparr>tr_rtcpSsrc = rtcpSsrc, tr_mediaSourceSsrc = mediaSourceSsrc, extensionInfo = [], twccRunning = True,
      tr_fbPktCount = 0, nextReportExt = None, highestRecvExt = None\<rparr>"

definition setMediaSourceSsrc :: "int \<Rightarrow> receiver_twcc \<Rightarrow> receiver_twcc" where
  "setMediaSourceSsrc mediaSourceSsrc s = s\<lparr>tr_mediaSourceSsrc := mediaSourceSsrc\<rparr>"

section \<open>Numbers\<close>

definition unwrapTsn :: "receiver_twcc \<Rightarrow> int \<Rightarrow> int" where
  "unwrapTsn s tsn =
     (case (case highestRecvExt s of None \<Rightarrow> nextReportExt s | r \<Rightarrow> r) of
        None \<Rightarrow> tsn AND 0xffff
      | Some ref \<Rightarrow>
          let delta = js_rem ((tsn AND 0xffff) - (ref AND 0xffff) + TWCC_SEQ_MOD) TWCC_SEQ_MOD;
              delta = (if delta > TWCC_SEQ_MOD div 2 then delta - TWCC_SEQ_MOD else delta)
          in ref + delta)"

definition nextReportTsn :: "receiver_twcc \<Rightarrow> int option" where
  "nextReportTsn s = map_option (\<lambda>e. e AND 0xffff) (nextReportExt s)"

definition set_nextReportTsn :: "int option \<Rightarrow> receiver_twcc \<Rightarrow> receiver_twcc" where
  "set_nextReportTsn tsn s = s\<lparr>nextReportExt := map_option (unwrapTsn s) tsn\<rparr>"

section \<open>One feedback\<close>

text \<open>The statuses of the window and the deltas of its received packets, by offset.\<close>

fun status_loop :: "(int \<Rightarrow> extension_info option) \<Rightarrow> int \<Rightarrow> nat list \<Rightarrow> recv_delta list \<times> nat list" where
  "status_loop lookup prevRecvUs [] = ([], [])"
| "status_loop lookup prevRecvUs (offset # offsets) =
     (case lookup (int offset) of
        None \<Rightarrow>
          let (ds, ss) = status_loop lookup prevRecvUs offsets
          in (ds, TypeTCCPacketNotReceived # ss)
      | Some info \<Rightarrow>
          let recvDelta = parseDelta \<lparr>rd_type = None, rd_delta = ei_timestamp info - prevRecvUs, rd_parsed = False\<rparr>;
              (ds, ss) = status_loop lookup (ei_timestamp info) offsets
          in (recvDelta # ds, the (rd_type recvDelta) # ss))"

function pushRunLengthChunks :: "nat \<Rightarrow> int \<Rightarrow> twcc_chunk list" where
  "pushRunLengthChunks packetStatus remaining =
     (if 0 < remaining
      then let n = min remaining RUN_LENGTH_MAX
           in RunLengthChunk packetStatus (Some n) # pushRunLengthChunks packetStatus (remaining - n)
      else [])"
  by pat_completeness auto
termination
  by (relation "measure (nat \<circ> snd)") auto

declare pushRunLengthChunks.simps [simp del]

text \<open>\<open>len\<close> is \<^verbatim>\<open>i - runStart\<close>.\<close>

fun run_loop :: "nat \<Rightarrow> int \<Rightarrow> nat list \<Rightarrow> twcc_chunk list" where
  "run_loop runStatus len [] = pushRunLengthChunks runStatus len"
| "run_loop runStatus len (status # statuses) =
     (if status \<noteq> runStatus then pushRunLengthChunks runStatus len @ run_loop status 1 statuses
      else run_loop runStatus (len + 1) statuses)"

definition first_received :: "(int \<Rightarrow> extension_info option) \<Rightarrow> int \<Rightarrow> int option" where
  "first_received lookup packetStatusCount =
     map_option ei_timestamp (List.find (\<lambda>_. True) (List.map_filter (\<lambda>offset. lookup (int offset)) [0..<nat packetStatusCount]))"

definition sendFeedbackWindow ::
  "receiver_twcc \<Rightarrow> int \<Rightarrow> int \<Rightarrow> (int \<Rightarrow> extension_info option) \<Rightarrow> receiver_twcc \<times> twcc_feedback list" where
  "sendFeedbackWindow s base packetStatusCount byExt =
     (let lookup = (\<lambda>offset. byExt (base + offset))
      in case first_received lookup packetStatusCount of
        None \<Rightarrow> (s, [])
      | Some firstRecvTimestamp \<Rightarrow>
          let referenceTimeUnits = firstRecvTimestamp div 1000 div 64;
              referenceTimeUs = referenceTimeUnits * 64 * 1000;
              (recvDeltas, statuses) = status_loop lookup referenceTimeUs [0..<nat packetStatusCount];
              packetChunks = run_loop (hd statuses) 1 (tl statuses)
          in (s\<lparr>tr_fbPktCount := uint8Add (tr_fbPktCount s) 1\<rparr>,
              [\<lparr>tw_senderSsrc = tr_rtcpSsrc s, tw_mediaSourceSsrc = tr_mediaSourceSsrc s,
                tw_baseSequenceNumber = base AND 0xffff, tw_packetStatusCount = packetStatusCount,
                tw_referenceTime = uint24 referenceTimeUnits, tw_fbPktCount = tr_fbPktCount s,
                tw_packetChunks = packetChunks, tw_recvDeltas = recvDeltas, tw_header = new_RtcpHeader 205 15\<rparr>]))"

section \<open>Windows\<close>

text \<open>The inner loop: the last pending number of the window at \<open>base\<close>, and what is left.\<close>

fun window_end :: "int \<Rightarrow> int \<Rightarrow> int list \<Rightarrow> int \<times> int list" where
  "window_end base prev [] = (prev, [])"
| "window_end base prev (p # ps) =
     (if p - base < MAX_FEEDBACK_SPAN then window_end base p ps else (prev, p # ps))"

lemma window_end_length: "length (snd (window_end base l ps)) \<le> length ps"
  by (induction ps arbitrary: l) (auto intro: le_SucI)

definition window_base :: "int option \<Rightarrow> int \<Rightarrow> int" where
  "window_base cursor first =
     (case cursor of Some c \<Rightarrow> if first - c < MAX_FEEDBACK_SPAN then c else first | None \<Rightarrow> first)"

lemma window_base_first: "first - window_base cursor first < 32767"
  by (simp add: window_base_def split: option.splits)

lemma window_end_shorter:
  "(e, rest) = window_end (window_base cursor first) l (first # ps) \<Longrightarrow> length rest < Suc (length ps)"
  using window_base_first [of first cursor] window_end_length [of "window_base cursor first" first ps]
  by (auto simp: less_Suc_eq_le dest: arg_cong [where f = snd])

function send_windows ::
  "receiver_twcc \<Rightarrow> (int \<Rightarrow> extension_info option) \<Rightarrow> int list \<Rightarrow> receiver_twcc \<times> twcc_feedback list" where
  "send_windows s byExt [] = (s, [])"
| "send_windows s byExt (first # pending) =
     (let base = window_base (nextReportExt s) first;
          (end_tsn, rest) = window_end base first (first # pending);
          (s, fs) = sendFeedbackWindow s base (end_tsn - base + 1) byExt;
          (s, fs') = send_windows (s\<lparr>nextReportExt := Some (end_tsn + 1)\<rparr>) byExt rest
      in (s, fs @ fs'))"
  by pat_completeness auto
termination
  by (relation "measure (\<lambda>(_, _, ps). length ps)") (auto simp del: window_end.simps dest: window_end_shorter)

definition by_ext :: "receiver_twcc \<Rightarrow> extension_info list \<Rightarrow> (int \<times> extension_info) list" where
  "by_ext s entries =
     fold (\<lambda>e m.
       let ext = (case ei_ext e of Some x \<Rightarrow> x | None \<Rightarrow> unwrapTsn s (ei_tsn e))
       in if (case nextReportExt s of Some c \<Rightarrow> ext < c | None \<Rightarrow> False) then m else AList.update ext e m) entries []"

definition sendTWCC :: "receiver_twcc \<Rightarrow> receiver_twcc \<times> twcc_feedback list" where
  "sendTWCC s0 =
     (let entries = map snd (extensionInfo s0);
          s = s0\<lparr>extensionInfo := []\<rparr>
      in if entries = [] then (s, [])
         else let byExt = by_ext s entries;
                  pending = sort (map fst byExt)
              in send_windows s (map_of byExt) pending)"

definition handleTWCC :: "int \<Rightarrow> int \<Rightarrow> receiver_twcc \<Rightarrow> receiver_twcc \<times> twcc_feedback list" where
  "handleTWCC now transportSequenceNumber s =
     (let tsn = transportSequenceNumber AND 0xffff;
          ext = unwrapTsn s tsn;
          s = s\<lparr>highestRecvExt := Some (max (case highestRecvExt s of None \<Rightarrow> ext | Some h \<Rightarrow> h) ext)\<rparr>;
          info = \<lparr>ei_tsn = tsn, ei_timestamp = now, ei_ext = Some ext\<rparr>;
          s = s\<lparr>extensionInfo := obj_put tsn info (extensionInfo s)\<rparr>
      in if length (extensionInfo s) > 10 then sendTWCC s else (s, []))"

text \<open>One turn of the periodic loop.\<close>

definition runTWCC :: "receiver_twcc \<Rightarrow> receiver_twcc \<times> twcc_feedback list" where
  "runTWCC s = (if twccRunning s then sendTWCC s else (s, []))"

section \<open>Status runs\<close>

definition chunk_statuses :: "twcc_chunk \<Rightarrow> nat list" where
  "chunk_statuses c = (case c of RunLengthChunk st (Some n) \<Rightarrow> replicate (nat n) st | _ \<Rightarrow> [])"

definition statuses_of :: "twcc_chunk list \<Rightarrow> nat list" where
  "statuses_of cs = concat (map chunk_statuses cs)"

definition run_ok :: "twcc_chunk \<Rightarrow> bool" where
  "run_ok c \<longleftrightarrow> (case c of RunLengthChunk st (Some n) \<Rightarrow> st < 4 \<and> 0 < n \<and> n \<le> 8191 | _ \<Rightarrow> False)"

lemma statuses_simps [simp]:
  "statuses_of [] = []" "statuses_of (c # cs) = chunk_statuses c @ statuses_of cs"
  "statuses_of (cs @ ds) = statuses_of cs @ statuses_of ds"
  by (simp_all add: statuses_of_def)

lemma run_okE:
  assumes "run_ok c"
  obtains st n where "c = RunLengthChunk st (Some n)" "st < 4" "0 < n" "n \<le> 8191" "chunk_statuses c = replicate (nat n) st"
  using assms by (cases c) (auto simp: run_ok_def chunk_statuses_def split: option.splits)

lemma push_statuses:
  "st < 4 \<Longrightarrow> 0 \<le> n \<Longrightarrow> statuses_of (pushRunLengthChunks st n) = replicate (nat n) st \<and> list_all run_ok (pushRunLengthChunks st n)"
proof (induction st n rule: pushRunLengthChunks.induct)
  case (1 st n)
  show ?case
  proof (cases "0 < n")
    case True
    with 1 have IH: "statuses_of (pushRunLengthChunks st (n - min n 8191)) = replicate (nat (n - min n 8191)) st"
        "list_all run_ok (pushRunLengthChunks st (n - min n 8191))" by auto
    have "nat n = nat (min n 8191) + nat (n - min n 8191)" using True by linarith
    then show ?thesis
      using True IH 1(2) by (subst (1 2) pushRunLengthChunks.simps)
        (simp add: Let_def chunk_statuses_def run_ok_def replicate_add)
  qed (use 1 in \<open>simp add: pushRunLengthChunks.simps\<close>)
qed

lemma run_loop_statuses:
  "st < 4 \<Longrightarrow> 0 < n \<Longrightarrow> list_all (\<lambda>s. s < 4) ss \<Longrightarrow>
     statuses_of (run_loop st n ss) = replicate (nat n) st @ ss \<and> list_all run_ok (run_loop st n ss)"
proof (induction st n ss rule: run_loop.induct)
  case (2 st n s ss)
  have "replicate (nat (n + 1)) st = replicate (nat n) st @ [st]"
    using 2 by (simp add: nat_add_distrib replicate_append_same)
  then show ?case using 2 push_statuses [of st n] by auto
qed (simp add: push_statuses)

lemma runs_fit:
  "list_all run_ok cs \<Longrightarrow> chunks_fit (int (length (statuses_of cs))) cs \<and>
     announced (int (length (statuses_of cs))) cs = filter (\<lambda>s. s = 1 \<or> s = 2) (statuses_of cs)"
proof (induction cs)
  case (Cons c cs)
  then obtain st n where c: "c = RunLengthChunk st (Some n)" "st < 4" "0 < n" "n \<le> 8191"
      "chunk_statuses c = replicate (nat n) st" by (auto elim: run_okE)
  have cv: "covers (int (length (statuses_of (c # cs)))) c = n"
    using c by (simp add: covers_def)
  have l: "int (length (statuses_of (c # cs))) - n = int (length (statuses_of cs))" using c by simp
  have v: "valid_chunk16 c" using c by (simp add: valid_chunk16_def)
  have f: "filter (\<lambda>s. s = 1 \<or> s = 2) (replicate (nat n) st) = (if st = 1 \<or> st = 2 then replicate (nat n) st else [])"
    by simp
  have a: "announces (int (length (statuses_of (c # cs)))) c = filter (\<lambda>s. s = 1 \<or> s = 2) (chunk_statuses c)"
    unfolding announces_def cv unfolding c(1) twcc_chunk.case f c(5) [unfolded c(1)] by simp
  show ?case
    unfolding chunks_fit.simps announced.simps cv l a using Cons c v by simp
qed simp

definition numbered :: "int \<Rightarrow> nat list \<Rightarrow> packet_result list" where
  "numbered seq ss = map (\<lambda>i. new_result ((seq + int i) AND 0xffff) (ss ! i)) [0..<length ss]"

lemma and_0xffff: "(v :: int) AND 0xffff = v mod 65536"
  using take_bit_eq_mask [of 16 v] by (simp add: take_bit_eq_mod mask_eq_exp_minus_1)

lemma length_numbered [simp]: "length (numbered seq ss) = length ss"
  by (simp add: numbered_def)

lemma numbered_append: "numbered seq (ss @ ts) = numbered seq ss @ numbered ((seq + int (length ss)) AND 0xffff) ts"
proof (rule nth_equalityI)
  fix i
  assume "i < length (numbered seq (ss @ ts))"
  then show "numbered seq (ss @ ts) ! i = (numbered seq ss @ numbered ((seq + int (length ss)) AND 0xffff) ts) ! i"
    by (auto simp: numbered_def nth_append and_0xffff mod_simps algebra_simps)
qed simp

lemma numbered_Cons: "numbered seq (s # ss) = new_result (seq AND 0xffff) s # numbered ((seq + 1) AND 0xffff) ss"
  using numbered_append [of seq "[s]" ss] by (simp add: numbered_def)

lemma expand_runs:
  "list_all run_ok cs \<Longrightarrow> expand_chunks seq (Some (int (length (statuses_of cs)))) cs = numbered seq (statuses_of cs)"
proof (induction cs arbitrary: seq)
  case Nil
  then show ?case by (simp add: numbered_def)
next
  case (Cons c cs)
  then obtain st n where c: "c = RunLengthChunk st (Some n)" "0 < n" "chunk_statuses c = replicate (nat n) st"
    by (auto elim: run_okE)
  have m: "min (max 0 n) (int (length (statuses_of (c # cs)))) = n" using c by simp
  have l: "int (length (statuses_of (c # cs))) - n = int (length (statuses_of cs))"
      "\<not> exhausted (Some (int (length (statuses_of (c # cs)))))" using c by (simp_all add: exhausted_def)
  have "expand_chunks seq (Some (int (length (statuses_of (c # cs))))) (c # cs) =
      map (\<lambda>i. new_result ((seq + int i) AND 0xffff) st) [0..<nat n] @ numbered ((seq + n) AND 0xffff) (statuses_of cs)"
    unfolding expand_chunks.simps if_not_P [OF l(2)] using m l(1) Cons by (simp add: c(1) Let_def del: statuses_simps)
  moreover have "map (\<lambda>i. new_result ((seq + int i) AND 0xffff) st) [0..<nat n] = numbered seq (chunk_statuses c)"
    using c by (auto simp: numbered_def)
  moreover have "numbered seq (statuses_of (c # cs)) = numbered seq (chunk_statuses c) @ numbered ((seq + n) AND 0xffff) (statuses_of cs)"
    using c by (simp add: numbered_append)
  ultimately show ?case by (simp only:)
qed

section \<open>Statuses and deltas\<close>

definition arrivals_near :: "int \<Rightarrow> (int \<Rightarrow> extension_info option) \<Rightarrow> nat list \<Rightarrow> bool" where
  "arrivals_near prev lookup offs \<longleftrightarrow>
     (\<forall>o1 \<in> set offs. \<forall>x. lookup (int o1) = Some x \<longrightarrow> \<bar>ei_timestamp x - prev\<bar> \<le> 8100000 \<and>
       (\<forall>o2 \<in> set offs. \<forall>y. lookup (int o2) = Some y \<longrightarrow> \<bar>ei_timestamp x - ei_timestamp y\<bar> \<le> 8100000))"

lemma near_tail:
  "arrivals_near prev lookup (k # offs) \<Longrightarrow> arrivals_near prev lookup offs"
  "arrivals_near prev lookup (k # offs) \<Longrightarrow> lookup (int k) = Some x \<Longrightarrow> arrivals_near (ei_timestamp x) lookup offs"
  "arrivals_near prev lookup (k # offs) \<Longrightarrow> lookup (int k) = Some x \<Longrightarrow> \<bar>ei_timestamp x - prev\<bar> \<le> 8100000"
  by (auto simp: arrivals_near_def)

definition new_delta :: "int \<Rightarrow> recv_delta" where
  "new_delta d = parseDelta \<lparr>rd_type = None, rd_delta = d, rd_parsed = False\<rparr>"

lemma new_delta_props:
  assumes "\<bar>d\<bar> \<le> 8100000"
  shows "delta_fits (new_delta d)" "prepared (new_delta d) = new_delta d" "rd_delta (new_delta d) = d div 250"
    "\<exists>t. rd_type (new_delta d) = Some t \<and> (t = 1 \<or> t = 2)"
proof -
  have b: "- 32400 \<le> d div 250" "d div 250 \<le> 32400" using assms by linarith+
  then show "rd_delta (new_delta d) = d div 250" by (simp add: new_delta_def parseDelta_def Let_def)
  have p: "rd_parsed (new_delta d)" by (simp add: new_delta_def parseDelta_def Let_def)
  then show "prepared (new_delta d) = new_delta d" by (simp add: prepared_def)
  then show "delta_fits (new_delta d)" using b by (auto simp: delta_fits_def new_delta_def parseDelta_def Let_def)
  show "\<exists>t. rd_type (new_delta d) = Some t \<and> (t = 1 \<or> t = 2)" by (auto simp: new_delta_def parseDelta_def Let_def)
qed

lemma status_loop_Cons:
  "status_loop lookup prev (k # offs) =
     (case lookup (int k) of
        None \<Rightarrow> (fst (status_loop lookup prev offs), 0 # snd (status_loop lookup prev offs))
      | Some x \<Rightarrow> (new_delta (ei_timestamp x - prev) # fst (status_loop lookup (ei_timestamp x) offs),
          the (rd_type (new_delta (ei_timestamp x - prev))) # snd (status_loop lookup (ei_timestamp x) offs)))"
  by (simp add: new_delta_def Let_def case_prod_beta split: option.split)

declare status_loop.simps(2) [simp del]

lemma status_loop_props:
  "arrivals_near prev lookup offs \<Longrightarrow>
     length (snd (status_loop lookup prev offs)) = length offs \<and>
     list_all (\<lambda>s. s < 3) (snd (status_loop lookup prev offs)) \<and>
     list_all delta_fits (fst (status_loop lookup prev offs)) \<and>
     map (the \<circ> rd_type \<circ> prepared) (fst (status_loop lookup prev offs)) =
       filter (\<lambda>s. s = 1 \<or> s = 2) (snd (status_loop lookup prev offs)) \<and>
     length (fst (status_loop lookup prev offs)) \<le> length offs"
proof (induction offs arbitrary: prev)
  case (Cons k offs)
  show ?case
  proof (cases "lookup (int k)")
    case None
    then show ?thesis using Cons.IH [OF near_tail(1) [OF Cons.prems]] by (simp add: status_loop_Cons le_SucI)
  next
    case (Some x)
    note near = near_tail(2,3) [OF Cons.prems Some]
    show ?thesis
      using Cons.IH [OF near(1)] new_delta_props [OF near(2)] Some by (auto simp: status_loop_Cons)
  qed
qed simp

section \<open>Times\<close>

definition arrived :: "(int \<Rightarrow> extension_info option) \<Rightarrow> nat list \<Rightarrow> nat" where
  "arrived lookup offs = length (filter (\<lambda>k. lookup (int k) \<noteq> None) offs)"

lemma floor_error:
  fixes d :: int
  shows "(of_int (250 * (d div 250)) :: rat) \<le> of_int d" "(of_int d :: rat) < of_int (250 * (d div 250)) + 250"
proof -
  have "250 * (d div 250) \<le> d" "d < 250 * (d div 250) + 250" by presburger+
  then show "(of_int (250 * (d div 250)) :: rat) \<le> of_int d" by (simp only: of_int_le_iff)
  from \<open>d < 250 * (d div 250) + 250\<close> have "(of_int d :: rat) < of_int (250 * (d div 250) + 250)" by (simp only: of_int_less_iff)
  then show "(of_int d :: rat) < of_int (250 * (d div 250)) + 250" by simp
qed

lemma assign_times_window:
  assumes "arrivals_near prev lookup offs" "length seqs = length offs" "i < length offs"
  defines "rs \<equiv> \<lambda>prev t. assign_times (map received_delta (fst (status_loop lookup prev offs))) t
      (map2 new_result seqs (snd (status_loop lookup prev offs)))"
  shows "pr_sequenceNumber (rs prev t ! i) = seqs ! i \<and> (pr_received (rs prev t ! i) \<longleftrightarrow> lookup (int (offs ! i)) \<noteq> None) \<and>
    (\<forall>x. lookup (int (offs ! i)) = Some x \<longrightarrow>
       (let e = (of_int (ei_timestamp x) / 1000 - pr_receivedAtMs (rs prev t ! i)) - (of_int prev / 1000 - t)
        in 0 \<le> e \<and> e < of_nat (arrived lookup (take (Suc i) offs)) / 4))"
  using assms(1-3) unfolding rs_def
proof (induction offs arbitrary: prev t seqs i)
  case (Cons k offs)
  obtain q qs where seqs: "seqs = q # qs" "length qs = length offs" using Cons.prems by (cases seqs) auto
  show ?case
  proof (cases "lookup (int k)")
    case None
    then show ?thesis
      using Cons.IH [OF near_tail(1) [OF Cons.prems(1)] seqs(2), of "i - 1" t] Cons.prems(3)
      by (cases i) (simp_all add: status_loop_Cons seqs new_result_def isTwccReceivedStatus_def arrived_def)
  next
    case (Some x)
    note near = near_tail(2,3) [OF Cons.prems(1) Some]
    let ?d = "ei_timestamp x - prev"
    note nd = new_delta_props [OF near(2)]
    obtain ty where ty: "rd_type (new_delta ?d) = Some ty" "ty = 1 \<or> ty = 2" using nd(4) by blast
    have rd: "rd_delta (received_delta (new_delta ?d)) = 250 * (?d div 250)" by (simp add: received_delta_def nd)
    note fe = floor_error [of ?d]
    let ?t = "t + of_int (250 * (?d div 250)) / 1000"
    have e0: "(of_int (ei_timestamp x) / 1000 - ?t) - (of_int prev / 1000 - t) =
        (of_int ?d - of_int (250 * (?d div 250))) / (1000 :: rat)"
      by (simp add: diff_divide_distrib add_divide_distrib)
    have e: "0 \<le> (of_int (ei_timestamp x) / 1000 - ?t) - (of_int prev / 1000 - t)"
        "(of_int (ei_timestamp x) / 1000 - ?t) - (of_int prev / 1000 - t) < 1 / 4"
      unfolding e0 using fe by (simp_all add: divide_less_eq)
    show ?thesis
    proof (cases i)
      case 0
      then show ?thesis using e ty
        by (auto simp: status_loop_Cons seqs Some new_result_def isTwccReceivedStatus_def rd Let_def arrived_def)
    next
      case (Suc j)
      have IH: "pr_sequenceNumber (assign_times (map received_delta (fst (status_loop lookup (ei_timestamp x) offs))) ?t
          (map2 new_result qs (snd (status_loop lookup (ei_timestamp x) offs))) ! j) = qs ! j \<and>
        (pr_received (assign_times (map received_delta (fst (status_loop lookup (ei_timestamp x) offs))) ?t
          (map2 new_result qs (snd (status_loop lookup (ei_timestamp x) offs))) ! j) \<longleftrightarrow> lookup (int (offs ! j)) \<noteq> None) \<and>
        (\<forall>y. lookup (int (offs ! j)) = Some y \<longrightarrow>
         (let e = (of_int (ei_timestamp y) / 1000 - pr_receivedAtMs (assign_times (map received_delta (fst (status_loop lookup (ei_timestamp x) offs))) ?t
          (map2 new_result qs (snd (status_loop lookup (ei_timestamp x) offs))) ! j)) - (of_int (ei_timestamp x) / 1000 - ?t)
          in 0 \<le> e \<and> e < of_nat (arrived lookup (take (Suc j) offs)) / 4))"
        by (rule Cons.IH [OF near(1) seqs(2)]) (use Cons.prems Suc in auto)
      have "assign_times (map received_delta (fst (status_loop lookup prev (k # offs)))) t
          (map2 new_result seqs (snd (status_loop lookup prev (k # offs)))) ! i =
        assign_times (map received_delta (fst (status_loop lookup (ei_timestamp x) offs))) ?t
          (map2 new_result qs (snd (status_loop lookup (ei_timestamp x) offs))) ! j"
        using ty by (auto simp: status_loop_Cons seqs Some new_result_def isTwccReceivedStatus_def rd Let_def Suc)
      moreover have "arrived lookup (take (Suc i) (k # offs)) = Suc (arrived lookup (take (Suc j) offs))"
        using Some Suc by (simp add: arrived_def)
      ultimately show ?thesis
        using IH e Suc seqs by (auto simp: Let_def add_divide_distrib)
    qed
  qed
qed simp

section \<open>One feedback is accurate\<close>

definition twcc_packet :: "twcc_feedback \<Rightarrow> rtcp_packet" where
  "twcc_packet f = RtcpTransportLayerFeedback (Some (TransportWideCC f)) (tw_header f)"

text \<open>What the sender of the media gets from a feedback.\<close>

definition delivered_feedback :: "twcc_feedback \<Rightarrow> twcc_feedback" where
  "delivered_feedback f = f\<lparr>tw_recvDeltas := map received_delta (tw_recvDeltas f), tw_header := sent_header f\<rparr>"

lemma received_twcc: "received (twcc_packet f) =
    RtcpTransportLayerFeedback (Some (TransportWideCC (delivered_feedback f))) (sent_header f)"
  by (simp add: received_def twcc_packet_def delivered_feedback_def)

definition accurate_report :: "(int \<Rightarrow> extension_info option) \<Rightarrow> twcc_feedback \<Rightarrow> int \<times> int \<Rightarrow> bool" where
  "accurate_report arrival f = (\<lambda>(base, n).
     let rs = packetResults (delivered_feedback f)
     in int (length rs) = n \<and>
        (\<exists>cycle :: int. \<forall>k < length rs.
           pr_sequenceNumber (rs ! k) = (base + int k) mod 2 ^ 16 \<and>
           (pr_received (rs ! k) \<longleftrightarrow> arrival (base + int k) \<noteq> None) \<and>
           (\<forall>x. arrival (base + int k) = Some x \<longrightarrow>
              (let e = of_int (ei_timestamp x) / 1000 - (pr_receivedAtMs (rs ! k) + of_int (cycle * 2 ^ 24 * 64))
               in 0 \<le> e \<and> e < of_nat (arrived (\<lambda>d. arrival (base + d)) [0..<Suc k]) / 4))))"

definition receiver_params_ok :: "receiver_twcc \<Rightarrow> bool" where
  "receiver_params_ok s \<longleftrightarrow> u32_ok (tr_rtcpSsrc s) \<and> u32_ok (tr_mediaSourceSsrc s) \<and> u8_ok (tr_fbPktCount s)"

lemma find_True: "List.find (\<lambda>_. True) xs = (case xs of [] \<Rightarrow> None | x # _ \<Rightarrow> Some x)"
  by (cases xs) simp_all

lemma first_received_Some:
  "first_received lookup n = Some t \<Longrightarrow> \<exists>k < nat n. \<exists>x. lookup (int k) = Some x \<and> t = ei_timestamp x"
proof -
  assume a: "first_received lookup n = Some t"
  then obtain x xs where x: "List.map_filter (\<lambda>k. lookup (int k)) [0..<nat n] = x # xs" "t = ei_timestamp x"
    by (auto simp: first_received_def find_True split: list.splits)
  have "x \<in> set (List.map_filter (\<lambda>k. lookup (int k)) [0..<nat n])" unfolding x(1) by simp
  then show ?thesis using x(2) by (force simp: List.map_filter_def)
qed

lemma first_received_None: "first_received lookup n = None \<Longrightarrow> k < nat n \<Longrightarrow> lookup (int k) = None"
  by (auto simp: first_received_def find_True List.map_filter_def filter_empty_conv split: list.splits)

lemma length_delta_bytes: "length (delta_bytes d) \<le> 2"
  by (auto simp: delta_bytes_def RecvDelta_serialize_def Let_def writeUIntBE_def writeInt16BE_def split: sum.splits)

lemma length_deltas: "length (concat (map delta_bytes ds)) \<le> 2 * length ds"
proof (induction ds)
  case (Cons d ds)
  then show ?case using length_delta_bytes [of d] by simp
qed simp

lemma length_runs: "list_all run_ok cs \<Longrightarrow> length cs \<le> length (statuses_of cs)"
  by (induction cs) (auto elim!: run_okE)

lemma feedback_window:
  assumes ok: "receiver_params_ok s" and n: "0 < n" "n < 2 ^ 15"
    and some: "arrival (base + j) \<noteq> None" "0 \<le> j" "j < n"
    and near: "\<And>x y p q. arrival p = Some x \<Longrightarrow> arrival q = Some y \<Longrightarrow> \<bar>ei_timestamp x - ei_timestamp y\<bar> \<le> 8000000"
  shows "\<exists>f. sendFeedbackWindow s base n arrival = (s\<lparr>tr_fbPktCount := uint8Add (tr_fbPktCount s) 1\<rparr>, [f]) \<and>
    tw_baseSequenceNumber f = base mod 2 ^ 16 \<and> tw_packetStatusCount f = n \<and>
    valid_rtcp (twcc_packet f) \<and> accurate_report arrival f (base, n)"
proof -
  let ?lookup = "\<lambda>d. arrival (base + d)" and ?offs = "[0..<nat n]"
  obtain t where t: "first_received ?lookup n = Some t"
    using some first_received_None [of ?lookup n "nat j"] by (cases "first_received ?lookup n") auto
  obtain k0 x0 where x0: "?lookup (int k0) = Some x0" "t = ei_timestamp x0" using first_received_Some [OF t] by blast
  let ?units = "t div 1000 div 64"
  let ?ref = "?units * 64 * 1000"
  have ref: "?ref \<le> t" "t < ?ref + 64000"
    using mult_div_mod_eq [of 1000 t] mult_div_mod_eq [of 64 "t div 1000"]
      pos_mod_bound [of 1000 t] pos_mod_bound [of 64 "t div 1000"] pos_mod_sign [of 1000 t] pos_mod_sign [of 64 "t div 1000"]
    by linarith+
  have nr: "arrivals_near ?ref ?lookup ?offs"
    unfolding arrivals_near_def
  proof (intro ballI allI impI conjI)
    fix o1 x assume x: "?lookup (int o1) = Some x"
    show "\<bar>ei_timestamp x - ?ref\<bar> \<le> 8100000" using near [OF x x0(1)] x0(2) ref by linarith
    fix o2 y assume y: "?lookup (int o2) = Some y"
    show "\<bar>ei_timestamp x - ei_timestamp y\<bar> \<le> 8100000" using near [OF x y] by linarith
  qed
  define ds where "ds = fst (status_loop ?lookup ?ref ?offs)"
  define ss where "ss = snd (status_loop ?lookup ?ref ?offs)"
  note props = status_loop_props [OF nr, folded ds_def ss_def]
  have len: "length ss = nat n" using props by simp
  then obtain s1 ss1 where ss: "ss = s1 # ss1" using n(1) by (cases ss) auto
  define cs where "cs = run_loop (hd ss) 1 (tl ss)"
  have s3: "list_all (\<lambda>s. s < 3) ss" using props by simp
  then have s4: "list_all (\<lambda>s. s < 4) ss" by (auto simp: list_all_iff)
  have cs: "statuses_of cs = ss" "list_all run_ok cs"
    using run_loop_statuses [of s1 1 ss1] s4 by (simp_all add: cs_def ss)
  let ?f = "\<lparr>tw_senderSsrc = tr_rtcpSsrc s, tw_mediaSourceSsrc = tr_mediaSourceSsrc s,
                tw_baseSequenceNumber = base AND 0xffff, tw_packetStatusCount = n,
                tw_referenceTime = uint24 ?units, tw_fbPktCount = tr_fbPktCount s,
                tw_packetChunks = cs, tw_recvDeltas = ds, tw_header = new_RtcpHeader 205 15\<rparr>"
  have send: "sendFeedbackWindow s base n arrival = (s\<lparr>tr_fbPktCount := uint8Add (tr_fbPktCount s) 1\<rparr>, [?f])"
    unfolding sendFeedbackWindow_def Let_def t by (simp add: cs_def ss_def ds_def case_prod_beta)
  have ln: "int (length (statuses_of cs)) = n" using len cs n by simp
  note fit = runs_fit [OF cs(2), unfolded ln]
  have body: "length (twcc_body ?f) < 4 * 2 ^ 16 - 4"
  proof -
    have "length cs \<le> nat n" "length ds \<le> nat n" using length_runs [OF cs(2)] cs(1) len props by simp_all
    moreover have "length (concat (map chunk16 cs)) = 2 * length cs" by (induction cs) simp_all
    moreover have "nat n < 32768" using n by simp
    ultimately show ?thesis
      using length_deltas [of ds] by (simp add: twcc_body_def twcc_fields_def length_fields_bytes)
  qed
  have "valid_twcc ?f"
    unfolding valid_twcc_def
    using ok n fit body props cs(1)
    by (simp add: receiver_params_ok_def u16_ok_def and_0xffff uint24_mod valid_rtcp_header_def new_RtcpHeader_def
        u8_ok_def list_all_iff)
  then have valid: "valid_rtcp (twcc_packet ?f)"
    by (simp add: valid_rtcp_def twcc_packet_def new_RtcpHeader_def)
  let ?seqs = "map (\<lambda>i. (base + int i) mod 2 ^ 16) ?offs"
  let ?t = "of_int (uint24 ?units * 64) :: rat"
  have "expand_chunks ((base AND 0xffff) AND 0xffff) (Some n) cs = numbered (base AND 0xffff) ss"
    using expand_runs [OF cs(2)] cs(1) unfolding ln by (simp add: and_0xffff)
  also have "numbered (base AND 0xffff) ss = map2 new_result ?seqs ss"
    by (rule nth_equalityI) (simp_all add: len numbered_def and_0xffff mod_simps)
  finally have pr: "packetResults (delivered_feedback ?f) = assign_times (map received_delta ds) ?t (map2 new_result ?seqs ss)"
    by (simp add: packetResults_def delivered_feedback_def)
  have la: "length (assign_times ds' t' rs') = length rs'" for ds' t' rs'
    by (induction ds' t' rs' rule: assign_times.induct) (auto simp: Let_def split: list.splits)
  have "accurate_report arrival ?f (base, n)"
    unfolding accurate_report_def Let_def prod.case
  proof (intro conjI exI [of _ "?units div 2 ^ 24"] allI impI)
    show "int (length (packetResults (delivered_feedback ?f))) = n" unfolding pr la using len n by simp
    fix k assume "k < length (packetResults (delivered_feedback ?f))"
    then have k: "k < nat n" unfolding pr la using len by simp
    note w = assign_times_window [OF nr, of ?seqs k ?t, folded ds_def ss_def, folded pr]
    have w: "pr_sequenceNumber (packetResults (delivered_feedback ?f) ! k) = ?seqs ! k \<and>
      (pr_received (packetResults (delivered_feedback ?f) ! k) \<longleftrightarrow> ?lookup (int (?offs ! k)) \<noteq> None) \<and>
      (\<forall>x. ?lookup (int (?offs ! k)) = Some x \<longrightarrow>
       (let e = (of_int (ei_timestamp x) / 1000 - pr_receivedAtMs (packetResults (delivered_feedback ?f) ! k)) - (of_int ?ref / 1000 - ?t)
        in 0 \<le> e \<and> e < of_nat (arrived ?lookup (take (Suc k) ?offs)) / 4))"
      by (rule w) (use k in auto)
    show "pr_sequenceNumber (packetResults (delivered_feedback ?f) ! k) = (base + int k) mod 2 ^ 16"
      using w k by simp
    show "pr_received (packetResults (delivered_feedback ?f) ! k) \<longleftrightarrow> arrival (base + int k) \<noteq> None"
      using w k by simp
    fix x assume x: "arrival (base + int k) = Some x"
    have u: "?units = uint24 ?units + ?units div 2 ^ 24 * 2 ^ 24" unfolding uint24_mod by (rule mod_div_mult_eq [symmetric])
    have "?ref = (uint24 ?units * 64 + ?units div 2 ^ 24 * 2 ^ 24 * 64) * 1000"
      using u by (simp add: algebra_simps)
    then have "(of_int ?ref / 1000 - ?t) = of_int (?units div 2 ^ 24 * 2 ^ 24 * 64)"
      by (simp add: field_simps)
    moreover have "take (Suc k) ?offs = [0..<Suc k]" using k by (simp add: take_upt)
    ultimately show "0 \<le> of_int (ei_timestamp x) / 1000 - (pr_receivedAtMs (packetResults (delivered_feedback ?f) ! k) + of_int (?units div 2 ^ 24 * 2 ^ 24 * 64))"
      "of_int (ei_timestamp x) / 1000 - (pr_receivedAtMs (packetResults (delivered_feedback ?f) ! k) + of_int (?units div 2 ^ 24 * 2 ^ 24 * 64)) < of_nat (arrived ?lookup [0..<Suc k]) / 4"
      using w x k by (simp_all add: Let_def diff_diff_eq del: upt_Suc)
  qed
  then show ?thesis using send valid by (intro exI [of _ ?f]) (simp add: and_0xffff)
qed

section \<open>The windows tile the numbers\<close>

text \<open>A window starts where the last one ended, or after a gap that alone would fill one.\<close>

fun tiled :: "int option \<Rightarrow> (int \<times> int) list \<Rightarrow> bool" where
  "tiled cursor [] \<longleftrightarrow> True"
| "tiled cursor ((base, n) # ws) \<longleftrightarrow> 0 < n \<and> n \<le> 32767 \<and>
     (case cursor of None \<Rightarrow> True | Some c \<Rightarrow> base = c \<or> c + 32767 \<le> base) \<and> tiled (Some (base + n)) ws"

definition cursor_after :: "int option \<Rightarrow> (int \<times> int) list \<Rightarrow> int option" where
  "cursor_after cursor ws = (if ws = [] then cursor else Some (fst (last ws) + snd (last ws)))"

lemma tiled_append: "tiled c (ws @ vs) \<longleftrightarrow> tiled c ws \<and> tiled (cursor_after c ws) vs"
  by (induction c ws rule: tiled.induct) (auto simp: cursor_after_def)



definition strict_sorted :: "int list \<Rightarrow> bool" where
  "strict_sorted = sorted_wrt (<)"

lemma window_end_props:
  "strict_sorted (l # ps) \<Longrightarrow> l - base < 32767 \<Longrightarrow> window_end base l ps = (e, rest) \<Longrightarrow>
     l \<le> e \<and> e - base < 32767 \<and> strict_sorted rest \<and> set rest \<subseteq> set ps \<and> (\<forall>p \<in> set rest. e < p) \<and>
     (\<forall>p \<in> set ps. p \<le> e \<or> p \<in> set rest) \<and> (e = l \<or> e \<in> set ps)"
proof (induction base l ps rule: window_end.induct)
  case (2 base l p ps)
  show ?case
  proof (cases "p - base < 32767")
    case True
    have "p \<le> e \<and> e - base < 32767 \<and> strict_sorted rest \<and> set rest \<subseteq> set ps \<and> (\<forall>p \<in> set rest. e < p) \<and>
        (\<forall>p \<in> set ps. p \<le> e \<or> p \<in> set rest) \<and> (e = p \<or> e \<in> set ps)"
      by (rule "2.IH") (use 2 True in \<open>auto simp: strict_sorted_def\<close>)
    then show ?thesis using "2.prems" by (auto simp: strict_sorted_def)
  qed (use 2 in \<open>auto simp: strict_sorted_def\<close>)
qed (auto simp: strict_sorted_def)

definition behind :: "int option \<Rightarrow> int \<Rightarrow> bool" where
  "behind cursor e = (case cursor of Some c \<Rightarrow> e < c | None \<Rightarrow> False)"

definition windows_sent :: "(int \<Rightarrow> extension_info option) \<Rightarrow> receiver_twcc \<Rightarrow> int list \<Rightarrow> receiver_twcc \<Rightarrow> twcc_feedback list \<Rightarrow> bool" where
  "windows_sent arrival s pending s' fs \<longleftrightarrow> (\<exists>ws. map (\<lambda>f. (tw_baseSequenceNumber f, tw_packetStatusCount f)) fs = map (\<lambda>(b, n). (b mod 2 ^ 16, n)) ws \<and>
      tiled (nextReportExt s) ws \<and> nextReportExt s' = cursor_after (nextReportExt s) ws \<and>
      s' = s\<lparr>nextReportExt := nextReportExt s', tr_fbPktCount := tr_fbPktCount s'\<rparr> \<and>
      (u8_ok (tr_fbPktCount s) \<longrightarrow> u8_ok (tr_fbPktCount s')) \<and>
      (\<forall>e. nextReportExt s' = Some e \<longrightarrow> nextReportExt s = Some e \<or> e - 1 \<in> set pending) \<and>
      (\<forall>p \<in> set pending. \<exists>(b, n) \<in> set ws. b \<le> p \<and> p < b + n) \<and>
      (receiver_params_ok s \<and>
        (\<forall>x y p q. arrival p = Some x \<longrightarrow> arrival q = Some y \<longrightarrow> \<bar>ei_timestamp x - ei_timestamp y\<bar> \<le> 8000000) \<longrightarrow>
        list_all2 (accurate_report arrival) fs ws \<and> (\<forall>f \<in> set fs. valid_rtcp (twcc_packet f))))"

lemma send_windows_tile:
  assumes "strict_sorted pending" "\<And>p. p \<in> set pending \<Longrightarrow> \<not> behind (nextReportExt s) p \<and> arrival p \<noteq> None"
    and "send_windows s arrival pending = (s', fs)"
  shows "windows_sent arrival s pending s' fs"
  using assms
proof (induction s arrival pending arbitrary: s' fs rule: send_windows.induct)
  case (1 s arrival)
  then show ?case unfolding windows_sent_def by (intro exI [of _ "[]"]) (simp add: cursor_after_def)
next
  case (2 s arrival first pending)
  let ?base = "window_base (nextReportExt s) first"
  obtain e rest where we: "window_end ?base first (first # pending) = (e, rest)" by (cases "window_end ?base first (first # pending)")
  have fb: "first - ?base < 32767" by (rule window_base_first)
  then have "window_end ?base first pending = (e, rest)" using we by simp
  note wp = window_end_props [OF "2.prems"(1) fb this]
  have first: "\<not> behind (nextReportExt s) first" "arrival first \<noteq> None" using "2.prems"(2) by auto
  have base: "?base \<le> first" "case nextReportExt s of None \<Rightarrow> True | Some c \<Rightarrow> ?base = c \<or> c + 32767 \<le> ?base"
    using first by (auto simp: window_base_def behind_def split: option.splits)
  let ?n = "e - ?base + 1"
  have n: "0 < ?n" "?n < 2 ^ 15" using wp base by auto
  have arr: "arrival (?base + (first - ?base)) \<noteq> None" "0 \<le> first - ?base" "first - ?base < ?n"
    using first base wp by auto
  obtain s1 fs1 where sf: "sendFeedbackWindow s ?base ?n arrival = (s1, fs1)" by fastforce
  have "first_received (\<lambda>d. arrival (?base + d)) ?n \<noteq> None"
  proof
    assume "first_received (\<lambda>d. arrival (?base + d)) ?n = None"
    from first_received_None [OF this, of "nat (first - ?base)"] arr show False by simp
  qed
  then obtain f where f: "s1 = s\<lparr>tr_fbPktCount := uint8Add (tr_fbPktCount s) 1\<rparr>" "fs1 = [f]"
    "tw_baseSequenceNumber f = ?base mod 2 ^ 16" "tw_packetStatusCount f = ?n"
    using sf by (auto simp: sendFeedbackWindow_def Let_def and_0xffff case_prod_beta split: option.splits)
  obtain s2 fs2 where rec: "send_windows (s1\<lparr>nextReportExt := Some (e + 1)\<rparr>) arrival rest = (s2, fs2)" by fastforce
  have res: "s' = s2" "fs = f # fs2" using "2.prems"(3) by (simp_all add: we sf rec f(2) del: window_end.simps)
  have "windows_sent arrival (s1\<lparr>nextReportExt := Some (e + 1)\<rparr>) rest s2 fs2"
  proof (rule "2.IH" [OF refl we [symmetric] refl sf [symmetric] refl _ _ rec])
    show "strict_sorted rest" using wp by blast
    fix p assume "p \<in> set rest"
    then show "\<not> behind (nextReportExt (s1\<lparr>nextReportExt := Some (e + 1)\<rparr>)) p \<and> arrival p \<noteq> None"
      using wp "2.prems"(2) [of p] by (auto simp: behind_def)
  qed
  then obtain ws where ws:
    "map (\<lambda>f. (tw_baseSequenceNumber f, tw_packetStatusCount f)) fs2 = map (\<lambda>(b, n). (b mod 2 ^ 16, n)) ws"
    "tiled (Some (e + 1)) ws" "nextReportExt s2 = cursor_after (Some (e + 1)) ws"
    "s2 = s1\<lparr>nextReportExt := nextReportExt s2, tr_fbPktCount := tr_fbPktCount s2\<rparr>"
    "u8_ok (tr_fbPktCount s1) \<longrightarrow> u8_ok (tr_fbPktCount s2)"
    "\<And>d. nextReportExt s2 = Some d \<Longrightarrow> d = e + 1 \<or> d - 1 \<in> set rest"
    "\<forall>p \<in> set rest. \<exists>(b, n) \<in> set ws. b \<le> p \<and> p < b + n"
    "receiver_params_ok s1 \<and>
      (\<forall>x y p q. arrival p = Some x \<longrightarrow> arrival q = Some y \<longrightarrow> \<bar>ei_timestamp x - ei_timestamp y\<bar> \<le> 8000000) \<longrightarrow>
      list_all2 (accurate_report arrival) fs2 ws \<and> (\<forall>f \<in> set fs2. valid_rtcp (twcc_packet f))"
    by (fastforce simp: windows_sent_def receiver_params_ok_def)
  have u8: "u8_ok (uint8Add c 1)" for c by (simp add: uint8Add_mod u8_ok_def)
  show ?case
    unfolding windows_sent_def
  proof (intro exI [of _ "(?base, ?n) # ws"] conjI impI)
    show "map (\<lambda>f. (tw_baseSequenceNumber f, tw_packetStatusCount f)) fs = map (\<lambda>(b, n). (b mod 2 ^ 16, n)) ((?base, ?n) # ws)"
      using ws(1) f by (simp add: res)
    show "tiled (nextReportExt s) ((?base, ?n) # ws)" using ws(2) base n by (simp add: add.commute)
    show "nextReportExt s' = cursor_after (nextReportExt s) ((?base, ?n) # ws)"
      using ws(3) by (simp add: res cursor_after_def)
    show "s' = s\<lparr>nextReportExt := nextReportExt s', tr_fbPktCount := tr_fbPktCount s'\<rparr>"
      using ws(4) by (simp add: res f(1))
    show "u8_ok (tr_fbPktCount s')" using ws(5) u8 by (simp add: res f(1))
    show "\<forall>d. nextReportExt s' = Some d \<longrightarrow> nextReportExt s = Some d \<or> d - 1 \<in> set (first # pending)"
    proof (intro allI impI)
      fix d assume "nextReportExt s' = Some d"
      then have "d = e + 1 \<or> d - 1 \<in> set rest" using ws(6) by (simp add: res)
      then show "nextReportExt s = Some d \<or> d - 1 \<in> set (first # pending)" using wp by auto
    qed
    show "\<forall>p \<in> set (first # pending). \<exists>(b, n) \<in> set ((?base, ?n) # ws). b \<le> p \<and> p < b + n"
    proof
      fix p assume p: "p \<in> set (first # pending)"
      have "first \<le> p" using p "2.prems"(1) by (auto simp: strict_sorted_def)
      then show "\<exists>(b, n) \<in> set ((?base, ?n) # ws). b \<le> p \<and> p < b + n"
      proof (cases "p \<in> set rest")
        case True
        then show ?thesis using ws(7) by auto
      next
        case False
        then have "p \<le> e" using p wp by auto
        then show ?thesis using \<open>first \<le> p\<close> base by simp
      qed
    qed
    assume a: "receiver_params_ok s \<and>
      (\<forall>x y p q. arrival p = Some x \<longrightarrow> arrival q = Some y \<longrightarrow> \<bar>ei_timestamp x - ei_timestamp y\<bar> \<le> 8000000)"
    then have ok: "receiver_params_ok s" and near: "\<And>x y p q. arrival p = Some x \<Longrightarrow> arrival q = Some y \<Longrightarrow>
        \<bar>ei_timestamp x - ei_timestamp y\<bar> \<le> 8000000" by blast+
    have "receiver_params_ok s1" using ok u8 by (simp add: receiver_params_ok_def f(1))
    then have rest: "list_all2 (accurate_report arrival) fs2 ws" "\<forall>f \<in> set fs2. valid_rtcp (twcc_packet f)"
      using ws(8) a by blast+
    obtain f' where "sendFeedbackWindow s ?base ?n arrival = (s\<lparr>tr_fbPktCount := uint8Add (tr_fbPktCount s) 1\<rparr>, [f'])"
      "valid_rtcp (twcc_packet f')" "accurate_report arrival f' (?base, ?n)"
      using feedback_window [of s ?n arrival ?base "first - ?base", OF ok n arr] near by blast
    then have "valid_rtcp (twcc_packet f)" "accurate_report arrival f (?base, ?n)"
      using sf f(2) by simp_all
    then show "list_all2 (accurate_report arrival) fs ((?base, ?n) # ws)" "\<forall>f \<in> set fs. valid_rtcp (twcc_packet f)"
      using rest by (simp_all add: res)
  qed
qed

section \<open>A receiver at work\<close>

datatype twcc_event = Packet int int | Tick | MediaSource int

fun twcc_step :: "twcc_event \<Rightarrow> receiver_twcc \<Rightarrow> receiver_twcc \<times> twcc_feedback list" where
  "twcc_step (Packet now tsn) s = handleTWCC now tsn s"
| "twcc_step Tick s = runTWCC s"
| "twcc_step (MediaSource src) s = (setMediaSourceSsrc src s, [])"

fun twcc_run :: "receiver_twcc \<Rightarrow> twcc_event list \<Rightarrow> receiver_twcc \<times> twcc_feedback list" where
  "twcc_run s [] = (s, [])"
| "twcc_run s (ev # evs) =
     (let (s, fs) = twcc_step ev s; (s, fs') = twcc_run s evs in (s, fs @ fs'))"

definition entry_ok :: "int option \<Rightarrow> int \<times> extension_info \<Rightarrow> bool" where
  "entry_ok highest kx \<longleftrightarrow> ei_tsn (snd kx) = fst kx \<and>
     (\<exists>e h. ei_ext (snd kx) = Some e \<and> highest = Some h \<and> e mod 2 ^ 16 = fst kx \<and> e \<le> h)"

definition twcc_inv :: "receiver_twcc \<Rightarrow> bool" where
  "twcc_inv s \<longleftrightarrow> strict_sorted (map fst (extensionInfo s)) \<and> list_all (entry_ok (highestRecvExt s)) (extensionInfo s) \<and>
     length (extensionInfo s) \<le> 10 \<and> u8_ok (tr_fbPktCount s) \<and>
     (\<forall>c. nextReportExt s = Some c \<longrightarrow> (\<exists>h. highestRecvExt s = Some h \<and> c \<le> h + 1))"

text \<open>The same without the bound on the buffer, as \<^verbatim>\<open>handleTWCC\<close> has it before it sends.\<close>

definition twcc_pre :: "receiver_twcc \<Rightarrow> bool" where
  "twcc_pre s \<longleftrightarrow> strict_sorted (map fst (extensionInfo s)) \<and> list_all (entry_ok (highestRecvExt s)) (extensionInfo s) \<and>
     u8_ok (tr_fbPktCount s) \<and>
     (\<forall>c. nextReportExt s = Some c \<longrightarrow> (\<exists>h. highestRecvExt s = Some h \<and> c \<le> h + 1))"

lemma twcc_inv_pre: "twcc_inv s \<longleftrightarrow> twcc_pre s \<and> length (extensionInfo s) \<le> 10"
  by (auto simp: twcc_inv_def twcc_pre_def)

definition buffered :: "receiver_twcc \<Rightarrow> extension_info list" where
  "buffered s = map snd (extensionInfo s)"

definition pending_map :: "receiver_twcc \<Rightarrow> int \<Rightarrow> extension_info option" where
  "pending_map s = map_of (by_ext s (buffered s))"

lemma by_ext_fold:
  assumes "list_all (\<lambda>x. ei_ext x \<noteq> None) xs" "distinct (map fst m @ map (\<lambda>x. the (ei_ext x)) xs)"
  shows "fold (\<lambda>e m.
       let ext = (case ei_ext e of Some x \<Rightarrow> x | None \<Rightarrow> unwrapTsn s (ei_tsn e))
       in if (case nextReportExt s of Some c \<Rightarrow> ext < c | None \<Rightarrow> False) then m else AList.update ext e m) xs m =
     m @ map (\<lambda>x. (the (ei_ext x), x)) (filter (\<lambda>x. \<not> behind (nextReportExt s) (the (ei_ext x))) xs)"
  unfolding behind_def [symmetric]
  using assms
proof (induction xs arbitrary: m)
  case (Cons x xs)
  obtain e where e: "ei_ext x = Some e" using Cons.prems by auto
  have new: "AList.update e x m = m @ [(e, x)]"
    using Cons.prems(2) by (induction m) (auto simp: e)
  show ?case
  proof (cases "behind (nextReportExt s) e")
    case True
    then show ?thesis using Cons.IH [of m] Cons.prems by (simp add: e)
  next
    case False
    then show ?thesis
      using Cons.IH [of "m @ [(e, x)]"] Cons.prems by (simp add: e new)
  qed
qed simp

lemma distinct_exts:
  assumes "twcc_pre s"
  shows "list_all (\<lambda>x. ei_ext x \<noteq> None) (buffered s)" "distinct (map (\<lambda>x. the (ei_ext x)) (buffered s))"
proof -
  have e: "entry_ok (highestRecvExt s) kx" if "kx \<in> set (extensionInfo s)" for kx
    using assms that by (auto simp: twcc_pre_def list_all_iff)
  show "list_all (\<lambda>x. ei_ext x \<noteq> None) (buffered s)" using e by (fastforce simp: buffered_def list_all_iff entry_ok_def)
  have "map (\<lambda>x. the (ei_ext x) mod 2 ^ 16) (buffered s) = map fst (extensionInfo s)"
    using e by (fastforce simp: buffered_def entry_ok_def)
  moreover have "distinct (map fst (extensionInfo s))"
    using assms by (simp add: twcc_pre_def strict_sorted_def strict_sorted_iff)
  ultimately have "distinct (map (\<lambda>e. e mod 2 ^ 16) (map (\<lambda>x. the (ei_ext x)) (buffered s)))"
    by (simp add: comp_def)
  then show "distinct (map (\<lambda>x. the (ei_ext x)) (buffered s))" by (simp only: distinct_map)
qed

lemma by_ext_buffered:
  assumes "twcc_pre s"
  shows "by_ext s (buffered s) =
    map (\<lambda>x. (the (ei_ext x), x)) (filter (\<lambda>x. \<not> behind (nextReportExt s) (the (ei_ext x))) (buffered s))"
  using by_ext_fold [of "buffered s" "[]" s] distinct_exts [OF assms] by (simp add: by_ext_def)

lemma pending_map_Some:
  assumes "twcc_pre s"
  shows "pending_map s e = Some x \<longleftrightarrow> x \<in> set (buffered s) \<and> ei_ext x = Some e \<and> \<not> behind (nextReportExt s) e"
proof -
  let ?l = "filter (\<lambda>x. \<not> behind (nextReportExt s) (the (ei_ext x))) (buffered s)"
  have d: "distinct (map fst (map (\<lambda>x. (the (ei_ext x), x)) ?l))"
    using distinct_exts(2) [OF assms] distinct_map_filter [of "\<lambda>x. the (ei_ext x)"] by (simp add: comp_def)
  have n: "y \<in> set (buffered s) \<Longrightarrow> ei_ext y \<noteq> None" for y
    using distinct_exts(1) [OF assms] by (simp add: list_all_iff)
  have "pending_map s e = Some x \<longleftrightarrow> (e, x) \<in> set (map (\<lambda>x. (the (ei_ext x), x)) ?l)"
    unfolding pending_map_def by_ext_buffered [OF assms] by (rule map_of_eq_Some_iff [OF d])
  also have "\<dots> \<longleftrightarrow> x \<in> set (buffered s) \<and> ei_ext x = Some e \<and> \<not> behind (nextReportExt s) e"
    by (auto simp: option.collapse [OF n] image_iff)
  finally show ?thesis .
qed

lemma sendTWCC_windows:
  assumes "twcc_pre s" "sendTWCC s = (s', fs)"
  shows "windows_sent (pending_map s) (s\<lparr>extensionInfo := []\<rparr>) (sort (map fst (by_ext s (buffered s)))) s' fs"
proof (cases "buffered s = []")
  case True
  then have "s' = s\<lparr>extensionInfo := []\<rparr>" "fs = []" "by_ext s (buffered s) = []"
    using assms(2) by (auto simp: sendTWCC_def buffered_def by_ext_def)
  then show ?thesis unfolding windows_sent_def by (intro exI [of _ "[]"]) (simp add: cursor_after_def)
next
  case False
  have b: "by_ext (s\<lparr>extensionInfo := []\<rparr>) (buffered s) = by_ext s (buffered s)"
  proof -
    have "unwrapTsn (s\<lparr>extensionInfo := []\<rparr>) = unwrapTsn s" by (simp add: unwrapTsn_def fun_eq_iff cong: option.case_cong)
    moreover have "nextReportExt (s\<lparr>extensionInfo := []\<rparr>) = nextReportExt s" by simp
    ultimately show ?thesis unfolding by_ext_def behind_def [symmetric] by (simp only:)
  qed
  have d: "distinct (map fst (by_ext s (buffered s)))"
    using distinct_exts(2) [OF assms(1)] distinct_map_filter [of "\<lambda>x. the (ei_ext x)"]
    unfolding by_ext_buffered [OF assms(1)] by (simp add: comp_def)
  show ?thesis
  proof (rule send_windows_tile)
    show "strict_sorted (sort (map fst (by_ext s (buffered s))))"
      using d by (simp add: strict_sorted_def strict_sorted_iff)
    show "send_windows (s\<lparr>extensionInfo := []\<rparr>) (pending_map s) (sort (map fst (by_ext s (buffered s)))) = (s', fs)"
      using assms(2) False b by (simp add: sendTWCC_def Let_def buffered_def pending_map_def)
    fix p assume "p \<in> set (sort (map fst (by_ext s (buffered s))))"
    then have "pending_map s p \<noteq> None" by (simp add: pending_map_def map_of_eq_None_iff)
    then show "\<not> behind (nextReportExt (s\<lparr>extensionInfo := []\<rparr>)) p \<and> pending_map s p \<noteq> None"
      using pending_map_Some [OF assms(1)] by auto
  qed
qed

definition feedback_windows :: "twcc_feedback list \<Rightarrow> (int \<times> int) list" where
  "feedback_windows fs = map (\<lambda>f. (tw_baseSequenceNumber f, tw_packetStatusCount f)) fs"

text \<open>What a step leaves: the invariant, and windows that continue the tiling.\<close>

definition continues :: "receiver_twcc \<Rightarrow> receiver_twcc \<Rightarrow> twcc_feedback list \<Rightarrow> bool" where
  "continues s s' fs \<longleftrightarrow> (\<exists>ws. feedback_windows fs = map (\<lambda>(b, n). (b mod 2 ^ 16, n)) ws \<and> tiled (nextReportExt s) ws \<and>
     nextReportExt s' = cursor_after (nextReportExt s) ws)"

lemma continues_refl: "nextReportExt s' = nextReportExt s \<Longrightarrow> continues s s' []"
  by (auto simp: continues_def feedback_windows_def cursor_after_def)

lemma continues_trans: "continues s s1 fs \<Longrightarrow> continues s1 s2 gs \<Longrightarrow> continues s s2 (fs @ gs)"
proof -
  assume "continues s s1 fs" "continues s1 s2 gs"
  then obtain ws vs where
    "feedback_windows fs = map (\<lambda>(b, n). (b mod 2 ^ 16, n)) ws" "tiled (nextReportExt s) ws"
    "nextReportExt s1 = cursor_after (nextReportExt s) ws"
    "feedback_windows gs = map (\<lambda>(b, n). (b mod 2 ^ 16, n)) vs" "tiled (nextReportExt s1) vs"
    "nextReportExt s2 = cursor_after (nextReportExt s1) vs" by (auto simp: continues_def)
  then show "continues s s2 (fs @ gs)"
    unfolding continues_def
    by (intro exI [of _ "ws @ vs"]) (auto simp: feedback_windows_def tiled_append cursor_after_def)
qed

lemma sendTWCC_step:
  assumes "twcc_pre s" "sendTWCC s = (s', fs)"
  shows "twcc_inv s' \<and> continues s s' fs \<and> extensionInfo s' = []"
proof -
  let ?p = "sort (map fst (by_ext s (buffered s)))"
  obtain ws where ws: "feedback_windows fs = map (\<lambda>(b, n). (b mod 2 ^ 16, n)) ws" "tiled (nextReportExt s) ws"
    "nextReportExt s' = cursor_after (nextReportExt s) ws"
    "s' = s\<lparr>extensionInfo := [], nextReportExt := nextReportExt s', tr_fbPktCount := tr_fbPktCount s'\<rparr>"
    "u8_ok (tr_fbPktCount s) \<longrightarrow> u8_ok (tr_fbPktCount s')"
    "\<forall>e. nextReportExt s' = Some e \<longrightarrow> nextReportExt s = Some e \<or> e - 1 \<in> set ?p"
    using sendTWCC_windows [OF assms] unfolding windows_sent_def feedback_windows_def
    by (elim exE conjE) (rule that; (assumption | simp add: feedback_windows_def))
  have e: "extensionInfo s' = []" "highestRecvExt s' = highestRecvExt s" by (subst ws(4), simp)+
  have "\<exists>h. highestRecvExt s = Some h \<and> c \<le> h + 1" if c: "nextReportExt s' = Some c" for c
  proof (cases "nextReportExt s = Some c")
    case True
    then show ?thesis using assms(1) by (auto simp: twcc_pre_def)
  next
    case False
    then have "c - 1 \<in> set ?p" using ws(6) c by blast
    then have "pending_map s (c - 1) \<noteq> None" by (simp add: pending_map_def map_of_eq_None_iff)
    then obtain x where "x \<in> set (buffered s)" "ei_ext x = Some (c - 1)" using pending_map_Some [OF assms(1)] by blast
    moreover have "list_all (entry_ok (highestRecvExt s)) (extensionInfo s)" using assms(1) by (simp add: twcc_pre_def)
    ultimately show ?thesis by (fastforce simp: buffered_def list_all_iff entry_ok_def)
  qed
  then have "twcc_inv s'" using e ws(5) assms(1) by (simp add: twcc_inv_def twcc_pre_def strict_sorted_def)
  then show ?thesis using e ws(1-3) unfolding continues_def by blast
qed

lemma obj_put_sorted: "strict_sorted (map fst m) \<Longrightarrow> strict_sorted (map fst (obj_put k v m))"
  using obj_put_ok [of m k v] by (simp add: obj_ok_def strict_sorted_def)

lemma unwrap_alt:
  "unwrapTsn s tsn = (case (case highestRecvExt s of None \<Rightarrow> nextReportExt s | r \<Rightarrow> r) of
     None \<Rightarrow> tsn mod 65536
   | Some ref \<Rightarrow> ref + (let d = (tsn - ref) mod 65536 in if 32768 < d then d - 65536 else d))"
proof -
  have "js_rem (tsn mod 65536 - ref mod 65536 + 65536) 65536 = (tsn - ref) mod 65536" for ref :: int
  proof -
    have "0 \<le> tsn mod 65536 - ref mod 65536 + 65536"
      using pos_mod_bound [of 65536 ref] pos_mod_sign [of 65536 tsn] by linarith
    then show ?thesis by (simp add: mod_simps)
  qed
  then show ?thesis by (simp add: unwrapTsn_def and_0xffff Let_def split: option.split)
qed

lemma unwrap_mod: "unwrapTsn s tsn mod 2 ^ 16 = tsn mod 2 ^ 16"
proof -
  have "(r + (tsn - r) mod 65536) mod 65536 = tsn mod 65536" for r by (simp add: mod_simps)
  moreover have "(r + (d - 65536)) mod 65536 = (r + d) mod 65536" for r d :: int
    using minus_mod_self2 [of "r + d" 65536] by (simp add: algebra_simps)
  ultimately show ?thesis by (simp add: unwrap_alt Let_def split: option.split)
qed

text \<open>Among all numbers with the same 16 bits the one nearest to the highest received is taken,
  and half the number space ahead counts as ahead.\<close>

lemma unwrap_near:
  assumes "highestRecvExt s = Some h"
  shows "- (2 ^ 15) < unwrapTsn s tsn - h" "unwrapTsn s tsn - h \<le> 2 ^ 15"
  using assms pos_mod_bound [of 65536 "tsn - h"] pos_mod_sign [of 65536 "tsn - h"]
  by (auto simp: unwrap_alt Let_def)

lemma entry_ok_mono: "entry_ok highest kx \<Longrightarrow> highest = Some h \<Longrightarrow> h \<le> h' \<Longrightarrow> entry_ok (Some h') kx"
  by (auto simp: entry_ok_def)

lemma handleTWCC_pre:
  assumes "twcc_inv s"
  shows "\<exists>s1. handleTWCC now tsn s = (if length (extensionInfo s1) > 10 then sendTWCC s1 else (s1, [])) \<and>
    twcc_pre s1 \<and> nextReportExt s1 = nextReportExt s \<and> tr_rtcpSsrc s1 = tr_rtcpSsrc s \<and>
    tr_mediaSourceSsrc s1 = tr_mediaSourceSsrc s \<and> tr_fbPktCount s1 = tr_fbPktCount s"
proof -
  let ?tsn = "tsn mod 65536"
  let ?ext = "unwrapTsn s ?tsn"
  let ?h = "max (case highestRecvExt s of None \<Rightarrow> ?ext | Some h \<Rightarrow> h) ?ext"
  let ?s = "s\<lparr>highestRecvExt := Some ?h,
    extensionInfo := obj_put ?tsn \<lparr>ei_tsn = ?tsn, ei_timestamp = now, ei_ext = Some ?ext\<rparr> (extensionInfo s)\<rparr>"
  have step: "handleTWCC now tsn s = (if length (extensionInfo ?s) > 10 then sendTWCC ?s else (?s, []))"
    by (simp add: handleTWCC_def and_0xffff Let_def)
  have inv: "strict_sorted (map fst (extensionInfo s))" "list_all (entry_ok (highestRecvExt s)) (extensionInfo s)"
    "u8_ok (tr_fbPktCount s)" "\<And>c. nextReportExt s = Some c \<Longrightarrow> \<exists>h. highestRecvExt s = Some h \<and> c \<le> h + 1"
    using assms(1) by (auto simp: twcc_inv_def)
  have old: "entry_ok (Some ?h) kx" if "kx \<in> set (extensionInfo s)" for kx
  proof -
    have "entry_ok (highestRecvExt s) kx" using inv(2) that by (auto simp: list_all_iff)
    moreover from this obtain h where "highestRecvExt s = Some h" by (auto simp: entry_ok_def)
    ultimately show ?thesis by (auto intro: entry_ok_mono)
  qed
  have new: "entry_ok (Some ?h) (?tsn, \<lparr>ei_tsn = ?tsn, ei_timestamp = now, ei_ext = Some ?ext\<rparr>)"
    using unwrap_mod [of s ?tsn] by (simp add: entry_ok_def)
  have "list_all (entry_ok (Some ?h)) (extensionInfo ?s)"
    using old new obj_put_set(1) [of ?tsn "\<lparr>ei_tsn = ?tsn, ei_timestamp = now, ei_ext = Some ?ext\<rparr>" "extensionInfo s"]
    by (auto simp: list_all_iff)
  moreover have "\<exists>h. highestRecvExt ?s = Some h \<and> c \<le> h + 1" if "nextReportExt ?s = Some c" for c
    using inv(4) [of c] that by auto
  ultimately have "twcc_pre ?s" using inv obj_put_sorted [of "extensionInfo s"] by (simp add: twcc_pre_def)
  with step show ?thesis by (intro exI [of _ ?s]) simp
qed

lemma handleTWCC_step:
  assumes "twcc_inv s" "handleTWCC now tsn s = (s', fs)"
  shows "twcc_inv s' \<and> continues s s' fs"
proof -
  obtain s1 where s1: "handleTWCC now tsn s = (if length (extensionInfo s1) > 10 then sendTWCC s1 else (s1, []))"
    "twcc_pre s1" "nextReportExt s1 = nextReportExt s" using handleTWCC_pre [OF assms(1)] by blast
  show ?thesis
  proof (cases "length (extensionInfo s1) > 10")
    case True
    then have "sendTWCC s1 = (s', fs)" using s1(1) assms(2) by simp
    from sendTWCC_step [OF s1(2) this] show ?thesis by (simp add: continues_def s1(3))
  next
    case False
    then have "s' = s1" "fs = []" using s1(1) assms(2) by auto
    then show ?thesis using s1(2) False continues_refl [OF s1(3)] by (simp add: twcc_inv_pre)
  qed
qed

lemma twcc_step_ok:
  assumes "twcc_inv s" "twcc_step ev s = (s', fs)"
  shows "twcc_inv s' \<and> continues s s' fs"
proof (cases ev)
  case Tick
  then show ?thesis
    using assms sendTWCC_step [of s s' fs] continues_refl [of s s]
    by (auto simp: runTWCC_def twcc_inv_pre split: if_splits)
next
  case (MediaSource src)
  then show ?thesis
    using assms continues_refl [of s' s] by (auto simp: setMediaSourceSsrc_def twcc_inv_def)
qed (use assms handleTWCC_step in auto)

lemma twcc_run_ok:
  "twcc_inv s \<Longrightarrow> twcc_run s evs = (s', fs) \<Longrightarrow> twcc_inv s' \<and> continues s s' fs"
proof (induction s evs arbitrary: s' fs rule: twcc_run.induct)
  case (1 s)
  then show ?case using continues_refl [of s s] by simp
next
  case (2 s ev evs)
  obtain s1 fs1 where 1: "twcc_step ev s = (s1, fs1)" by fastforce
  obtain s2 fs2 where 2: "twcc_run s1 evs = (s2, fs2)" by fastforce
  have r: "s' = s2" "fs = fs1 @ fs2" using "2.prems"(2) by (simp_all add: 1 2)
  have i: "twcc_inv s1" "continues s s1 fs1" using twcc_step_ok [OF "2.prems"(1) 1] by auto
  have "twcc_inv s2 \<and> continues s1 s2 fs2" by (rule "2.IH" [OF 1 [symmetric] refl i(1) 2])
  then show ?case using continues_trans [OF i(2)] r by blast
qed

lemma new_twcc_inv: "twcc_inv (new_ReceiverTWCC a b)"
  by (simp add: twcc_inv_def new_ReceiverTWCC_def strict_sorted_def u8_ok_def)

section \<open>Properties\<close>


fun event_ok :: "twcc_event \<Rightarrow> bool" where
  "event_ok (MediaSource src) \<longleftrightarrow> u32_ok src"
| "event_ok _ \<longleftrightarrow> True"

lemma sendTWCC_params:
  "twcc_pre s \<Longrightarrow> receiver_params_ok s \<Longrightarrow> sendTWCC s = (s', fs) \<Longrightarrow> receiver_params_ok s'"
proof -
  assume a: "twcc_pre s" "receiver_params_ok s" "sendTWCC s = (s', fs)"
  from sendTWCC_windows [OF a(1,3)]
  have "s' = s\<lparr>extensionInfo := [], nextReportExt := nextReportExt s', tr_fbPktCount := tr_fbPktCount s'\<rparr>"
    unfolding windows_sent_def by auto
  then have "tr_rtcpSsrc s' = tr_rtcpSsrc s" "tr_mediaSourceSsrc s' = tr_mediaSourceSsrc s"
    by (metis receiver_twcc.select_convs(1,2) receiver_twcc.surjective receiver_twcc.update_convs(3,5,6))+
  moreover have "u8_ok (tr_fbPktCount s')" using sendTWCC_step [OF a(1,3)] by (simp add: twcc_inv_def)
  ultimately show ?thesis using a(2) by (simp add: receiver_params_ok_def)
qed

lemma twcc_step_params:
  assumes "twcc_inv s" "receiver_params_ok s" "event_ok ev" "twcc_step ev s = (s', fs)"
  shows "receiver_params_ok s'"
proof (cases ev)
  case Tick
  then show ?thesis using assms sendTWCC_params [of s s' fs] by (auto simp: runTWCC_def twcc_inv_pre split: if_splits)
next
  case (MediaSource src)
  then show ?thesis using assms by (auto simp: setMediaSourceSsrc_def receiver_params_ok_def)
next
  case (Packet now tsn)
  obtain s1 where s1: "handleTWCC now tsn s = (if length (extensionInfo s1) > 10 then sendTWCC s1 else (s1, []))"
    "twcc_pre s1" "receiver_params_ok s1"
    using handleTWCC_pre [OF assms(1), of now tsn] assms(2) unfolding receiver_params_ok_def by metis
  then show ?thesis using assms(4) sendTWCC_params [OF s1(2,3)] Packet by (auto split: if_splits)
qed

lemma twcc_run_params:
  "twcc_inv s \<Longrightarrow> receiver_params_ok s \<Longrightarrow> list_all event_ok evs \<Longrightarrow> twcc_run s evs = (s', fs) \<Longrightarrow> receiver_params_ok s'"
proof (induction s evs arbitrary: s' fs rule: twcc_run.induct)
  case (2 s ev evs)
  obtain s1 fs1 where 1: "twcc_step ev s = (s1, fs1)" by fastforce
  obtain s2 fs2 where 2: "twcc_run s1 evs = (s2, fs2)" by fastforce
  have "twcc_inv s1" "receiver_params_ok s1"
    using twcc_step_ok [OF "2.prems"(1) 1] twcc_step_params [OF "2.prems"(1,2) _ 1] "2.prems"(3) by auto
  then show ?case using "2.IH" [OF 1 [symmetric] refl _ _ _ 2] "2.prems"(3,4) by (simp add: 1 2)
qed simp

text \<open>C19: the sender learns exactly what arrived.  Whatever a receiver has been through, when it
  reports, every packet it holds (unless its number was reported already) lies in one of the
  windows; the feedbacks survive serialization and the converter as one compound packet; and
  expanded by the sender they give one result per number of the window, in order, marked received
  exactly if the packet arrived, with an arrival time that is never late and early by less than
  0.25 ms per packet received in the window so far, up to a multiple of the 24-bit reference
  clock.  The arrivals of one report are assumed to be within eight seconds.\<close>

theorem twcc_feedback_accurate:
  assumes "u32_ok rtcpSsrc" "u32_ok mediaSourceSsrc" "list_all event_ok evs"
    and run: "twcc_run (new_ReceiverTWCC rtcpSsrc mediaSourceSsrc) evs = (s, fs0)"
    and near: "\<forall>x \<in> set (buffered s). \<forall>y \<in> set (buffered s). \<bar>ei_timestamp x - ei_timestamp y\<bar> \<le> 8000000"
    and send: "sendTWCC s = (s', fs)"
  shows "\<exists>ws bs. list_all2 (accurate_report (pending_map s)) fs ws \<and>
    (\<forall>x \<in> set (buffered s). \<exists>e. ei_ext x = Some e \<and>
       (behind (nextReportExt s) e \<or> pending_map s e = Some x \<and> (\<exists>(b, n) \<in> set ws. b \<le> e \<and> e < b + n))) \<and>
    rmap rtcp_serialize (map twcc_packet fs) = Inr bs \<and>
    RtcpPacketConverter_deSerialize (concat bs) =
      Inr (map (\<lambda>f. RtcpTransportLayerFeedback (Some (TransportWideCC (delivered_feedback f))) (sent_header f)) fs)"
proof -
  have pre: "twcc_pre s" using twcc_run_ok [OF new_twcc_inv run] by (simp add: twcc_inv_pre)
  have "receiver_params_ok (new_ReceiverTWCC rtcpSsrc mediaSourceSsrc)"
    using assms(1,2) by (simp add: receiver_params_ok_def new_ReceiverTWCC_def u8_ok_def)
  then have "receiver_params_ok s" using twcc_run_params [OF new_twcc_inv _ assms(3) run] by blast
  then have ok: "receiver_params_ok (s\<lparr>extensionInfo := []\<rparr>)" by (simp add: receiver_params_ok_def)
  have "\<forall>x y p q. pending_map s p = Some x \<longrightarrow> pending_map s q = Some y \<longrightarrow> \<bar>ei_timestamp x - ei_timestamp y\<bar> \<le> 8000000"
    using near pending_map_Some [OF pre] by blast
  with sendTWCC_windows [OF pre send] ok obtain ws where ws:
    "list_all2 (accurate_report (pending_map s)) fs ws" "\<forall>f \<in> set fs. valid_rtcp (twcc_packet f)"
    "\<forall>p \<in> set (sort (map fst (by_ext s (buffered s)))). \<exists>(b, n) \<in> set ws. b \<le> p \<and> p < b + n"
    unfolding windows_sent_def by blast
  have "\<forall>p \<in> set (map twcc_packet fs). valid_rtcp p" using ws(2) by simp
  from compound_wire [OF this] obtain bs where bs: "rmap rtcp_serialize (map twcc_packet fs) = Inr bs"
    "RtcpPacketConverter_deSerialize (concat bs) = Inr (map received (map twcc_packet fs))" by blast
  have "\<exists>e. ei_ext x = Some e \<and> (behind (nextReportExt s) e \<or>
      pending_map s e = Some x \<and> (\<exists>(b, n) \<in> set ws. b \<le> e \<and> e < b + n))" if x: "x \<in> set (buffered s)" for x
  proof -
    obtain e where e: "ei_ext x = Some e" using distinct_exts(1) [OF pre] x by (auto simp: list_all_iff)
    show ?thesis
    proof (cases "behind (nextReportExt s) e")
      case False
      then have p: "pending_map s e = Some x" using pending_map_Some [OF pre] x e by blast
      then have "e \<in> set (sort (map fst (by_ext s (buffered s))))"
        by (force simp: pending_map_def dest: map_of_SomeD)
      then show ?thesis using ws(3) p e by blast
    qed (use e in blast)
  qed
  then show ?thesis using ws(1) bs by (intro exI [of _ ws] exI [of _ bs]) (simp add: received_twcc comp_def)
qed

definition sample_arrivals :: "twcc_event list" where
  "sample_arrivals = [Packet 1000000 65535, Packet 1000900 1]"

lemma sample_arrivals_run:
  "twcc_run (new_ReceiverTWCC 1 2) sample_arrivals =
    (\<lparr>tr_rtcpSsrc = 1, tr_mediaSourceSsrc = 2,
      extensionInfo = [(1, \<lparr>ei_tsn = 1, ei_timestamp = 1000900, ei_ext = Some 65537\<rparr>),
        (65535, \<lparr>ei_tsn = 65535, ei_timestamp = 1000000, ei_ext = Some 65535\<rparr>)],
      twccRunning = True, tr_fbPktCount = 0, nextReportExt = None, highestRecvExt = Some 65537\<rparr>, [])"
  by (simp add: sample_arrivals_def handleTWCC_def new_ReceiverTWCC_def and_0xffff unwrap_alt Let_def)

theorem twcc_feedback_accurate_witness:
  "\<exists>s s' fs ws bs. twcc_run (new_ReceiverTWCC 1 2) sample_arrivals = (s, []) \<and> sendTWCC s = (s', fs) \<and>
    list_all2 (accurate_report (pending_map s)) fs ws \<and>
    (\<exists>(b, n) \<in> set ws. b \<le> 65537 \<and> 65537 < b + n) \<and>
    rmap rtcp_serialize (map twcc_packet fs) = Inr bs \<and>
    RtcpPacketConverter_deSerialize (concat bs) =
      Inr (map (\<lambda>f. RtcpTransportLayerFeedback (Some (TransportWideCC (delivered_feedback f))) (sent_header f)) fs)"
proof -
  obtain s where s: "twcc_run (new_ReceiverTWCC 1 2) sample_arrivals = (s, [])"
    "buffered s = [\<lparr>ei_tsn = 1, ei_timestamp = 1000900, ei_ext = Some 65537\<rparr>,
        \<lparr>ei_tsn = 65535, ei_timestamp = 1000000, ei_ext = Some 65535\<rparr>]" "nextReportExt s = None"
    using sample_arrivals_run by (auto simp: buffered_def)
  obtain s' fs where f: "sendTWCC s = (s', fs)" by fastforce
  have "\<exists>ws bs. list_all2 (accurate_report (pending_map s)) fs ws \<and>
    (\<forall>x \<in> set (buffered s). \<exists>e. ei_ext x = Some e \<and>
       (behind (nextReportExt s) e \<or> pending_map s e = Some x \<and> (\<exists>(b, n) \<in> set ws. b \<le> e \<and> e < b + n))) \<and>
    rmap rtcp_serialize (map twcc_packet fs) = Inr bs \<and>
    RtcpPacketConverter_deSerialize (concat bs) =
      Inr (map (\<lambda>f. RtcpTransportLayerFeedback (Some (TransportWideCC (delivered_feedback f))) (sent_header f)) fs)"
    by (rule twcc_feedback_accurate [OF _ _ _ s(1) _ f]) (simp_all add: u32_ok_def s(2) sample_arrivals_def)
  then show ?thesis using s f by (auto simp: behind_def)
qed

text \<open>The error does add up, as each difference is rounded down on its own: packets 249
  microseconds apart are all reported at the same time.\<close>

lemma twcc_rounding_adds_up:
  "map rd_delta (fst (status_loop (\<lambda>k. Some \<lparr>ei_tsn = k, ei_timestamp = 249 * (k + 1), ei_ext = Some k\<rparr>) 0 [0..<n])) =
     replicate n 0"
proof -
  let ?l = "\<lambda>k. Some \<lparr>ei_tsn = k, ei_timestamp = 249 * (k + 1), ei_ext = Some k\<rparr>"
  have "map rd_delta (fst (status_loop ?l (249 * int m) [m..<m + n])) = replicate n 0" for m
  proof (induction n arbitrary: m)
    case (Suc n)
    have u: "[m..<m + Suc n] = m # [Suc m..<Suc m + n]" by (simp add: upt_conv_Cons)
    have "249 * (int m + 1) = 249 * int (Suc m)" "249 * (int m + 1) - 249 * int m = 249" by simp_all
    then show ?case unfolding u using Suc [of "Suc m"] new_delta_props(3) [of 249]
      by (simp only: status_loop_Cons option.case extension_info.select_convs fst_conv list.map replicate_Suc) simp
  qed simp
  from this [of 0] show ?thesis by simp
qed

section \<open>One generator per transport\<close>

text \<open>The \<^verbatim>\<open>WeakMap\<close> from a transport to its generator with a reference count.  Objects are
  numbers: a generator is its position in the list of all that were created.\<close>

record twcc_registry =
  receiverTwccByTransport :: "nat \<Rightarrow> (nat \<times> int) option"
  twcc_instances :: "receiver_twcc list"

definition acquireTransportReceiverTWCC :: "nat \<Rightarrow> int \<Rightarrow> int \<Rightarrow> twcc_registry \<Rightarrow> nat \<times> twcc_registry" where
  "acquireTransportReceiverTWCC dtls rtcpSsrc mediaSourceSsrc r =
     (case receiverTwccByTransport r dtls of
        Some (i, refs) \<Rightarrow>
          (i, r\<lparr>receiverTwccByTransport := (receiverTwccByTransport r)(dtls \<mapsto> (i, refs + 1)),
                twcc_instances := (twcc_instances r)[i := setMediaSourceSsrc mediaSourceSsrc (twcc_instances r ! i)]\<rparr>)
      | None \<Rightarrow>
          let i = length (twcc_instances r)
          in (i, r\<lparr>receiverTwccByTransport := (receiverTwccByTransport r)(dtls \<mapsto> (i, 1)),
                twcc_instances := twcc_instances r @ [new_ReceiverTWCC rtcpSsrc mediaSourceSsrc]\<rparr>))"

definition releaseTransportReceiverTWCC :: "nat \<Rightarrow> nat \<Rightarrow> twcc_registry \<Rightarrow> twcc_registry" where
  "releaseTransportReceiverTWCC dtls i r =
     (case receiverTwccByTransport r dtls of
        None \<Rightarrow> r
      | Some (i', refs) \<Rightarrow>
          if i' \<noteq> i then r
          else if refs - 1 > 0 then r\<lparr>receiverTwccByTransport := (receiverTwccByTransport r)(dtls \<mapsto> (i, refs - 1))\<rparr>
          else r\<lparr>receiverTwccByTransport := (receiverTwccByTransport r)(dtls := None),
                 twcc_instances := (twcc_instances r)[i := (twcc_instances r ! i)\<lparr>twccRunning := False\<rparr>]\<rparr>)"

text \<open>\<open>holders\<close> are the acquired generators not yet released.\<close>

inductive twcc_holders :: "(nat \<times> nat) multiset \<Rightarrow> twcc_registry \<Rightarrow> bool" where
  start: "twcc_holders {#} \<lparr>receiverTwccByTransport = (\<lambda>_. None), twcc_instances = []\<rparr>"
| acquire: "twcc_holders H r \<Longrightarrow> acquireTransportReceiverTWCC dtls rtcpSsrc mediaSourceSsrc r = (i, r') \<Longrightarrow>
    twcc_holders (add_mset (dtls, i) H) r'"
| release: "twcc_holders H r \<Longrightarrow> (dtls, i) \<in># H \<Longrightarrow>
    twcc_holders (H - {#(dtls, i)#}) (releaseTransportReceiverTWCC dtls i r)"

definition registry_inv :: "(nat \<times> nat) multiset \<Rightarrow> twcc_registry \<Rightarrow> bool" where
  "registry_inv H r \<longleftrightarrow>
     (\<forall>d i. 0 < count H (d, i) \<longleftrightarrow> (\<exists>n. receiverTwccByTransport r d = Some (i, n))) \<and>
     (\<forall>d i n. receiverTwccByTransport r d = Some (i, n) \<longrightarrow> n = int (count H (d, i)) \<and> i < length (twcc_instances r)) \<and>
     (\<forall>d d' i n n'. receiverTwccByTransport r d = Some (i, n) \<and> receiverTwccByTransport r d' = Some (i, n') \<longrightarrow> d = d') \<and>
     (\<forall>i < length (twcc_instances r). twccRunning (twcc_instances r ! i) \<longleftrightarrow> (\<exists>d n. receiverTwccByTransport r d = Some (i, n)))"

lemma registry_inv_reachable: "twcc_holders H r \<Longrightarrow> registry_inv H r"
proof (induction rule: twcc_holders.induct)
  case start
  then show ?case by (simp add: registry_inv_def)
next
  case (acquire H r dtls rtcpSsrc mediaSourceSsrc i r')
  show ?case
  proof (cases "receiverTwccByTransport r dtls")
    case None
    have fresh: "receiverTwccByTransport r d \<noteq> Some (length (twcc_instances r), n)" for d n
      using acquire.IH unfolding registry_inv_def by (metis less_irrefl)
    have "count H (dtls, j) = 0" for j
      using acquire.IH None unfolding registry_inv_def by (metis neq0_conv option.distinct(1))
    then show ?thesis
      using acquire None fresh
      by (auto simp: registry_inv_def acquireTransportReceiverTWCC_def new_ReceiverTWCC_def Let_def nth_append less_Suc_eq split: if_splits)
        (metis option.distinct(1))+
  next
    case (Some a)
    then obtain k where "receiverTwccByTransport r dtls = Some (fst a, k)" by (cases a) simp
    then show ?thesis
      using acquire
      by (auto simp: registry_inv_def acquireTransportReceiverTWCC_def setMediaSourceSsrc_def nth_list_update
          split: if_splits) (metis option.inject prod.inject)+
  qed
next
  case (release H r dtls i)
  let ?c = "int (count H (dtls, i))" and ?H = "H - {#(dtls, i)#}"
  from release.IH have inv:
    "\<And>d i. 0 < count H (d, i) \<longleftrightarrow> (\<exists>n. receiverTwccByTransport r d = Some (i, n))"
    "\<And>d i n. receiverTwccByTransport r d = Some (i, n) \<Longrightarrow> n = int (count H (d, i)) \<and> i < length (twcc_instances r)"
    "\<And>d d' i n n'. receiverTwccByTransport r d = Some (i, n) \<Longrightarrow> receiverTwccByTransport r d' = Some (i, n') \<Longrightarrow> d = d'"
    "\<And>i. i < length (twcc_instances r) \<Longrightarrow> twccRunning (twcc_instances r ! i) \<longleftrightarrow> (\<exists>d n. receiverTwccByTransport r d = Some (i, n))"
    unfolding registry_inv_def by blast+
  have c: "0 < count H (dtls, i)" using release.hyps by simp
  then have l: "receiverTwccByTransport r dtls = Some (i, ?c)" using inv(1,2) by blast
  have other: "count H (dtls, j) = 0" if "j \<noteq> i" for j
    using inv(1) [of dtls j] l that by (auto simp: not_in_iff)
  have cnt: "count ?H (d, j) = (if d = dtls then (if j = i then count H (dtls, i) - 1 else 0) else count H (d, j))" for d j
    using other by simp
  show ?case
  proof (cases "1 < count H (dtls, i)")
    case True
    let ?r = "releaseTransportReceiverTWCC dtls i r"
    have r: "receiverTwccByTransport ?r d = (if d = dtls then Some (i, ?c - 1) else receiverTwccByTransport r d)"
      "twcc_instances ?r = twcc_instances r" for d
      using True l by (simp_all add: releaseTransportReceiverTWCC_def)
    have ex: "(\<exists>n. receiverTwccByTransport ?r d = Some (j, n)) \<longleftrightarrow> (\<exists>n. receiverTwccByTransport r d = Some (j, n))" for d j
      using l by (auto simp: r)
    have inj: "receiverTwccByTransport ?r d = Some (j, n) \<Longrightarrow> \<exists>m. receiverTwccByTransport r d = Some (j, m)" for d j n
      using ex by blast
    show ?thesis
      unfolding registry_inv_def
    proof (intro conjI allI impI)
      fix d j n
      show "0 < count ?H (d, j) \<longleftrightarrow> (\<exists>n. receiverTwccByTransport ?r d = Some (j, n))"
        unfolding ex inv(1) [symmetric] cnt using True other [of j] by (auto simp del: count_greater_zero_iff)
      assume "receiverTwccByTransport ?r d = Some (j, n)"
      then consider "d = dtls" "j = i" "n = ?c - 1" | "d \<noteq> dtls" "receiverTwccByTransport r d = Some (j, n)"
        by (auto simp: r split: if_splits)
      then have "n = int (count ?H (d, j)) \<and> j < length (twcc_instances r)"
      proof cases
        case 1
        then show ?thesis unfolding cnt using True inv(2) [OF l] by simp
      next
        case 2
        then show ?thesis unfolding cnt using inv(2) [OF 2(2)] by simp
      qed
      then show "n = int (count ?H (d, j))" "j < length (twcc_instances ?r)" by (simp_all add: r(2))
    next
      fix d d' j n n'
      assume "receiverTwccByTransport ?r d = Some (j, n) \<and> receiverTwccByTransport ?r d' = Some (j, n')"
      then show "d = d'" using inj inv(3) by blast
    next
      fix j assume "j < length (twcc_instances ?r)"
      then show "twccRunning (twcc_instances ?r ! j) \<longleftrightarrow> (\<exists>d n. receiverTwccByTransport ?r d = Some (j, n))"
        using inv(4) by (simp add: ex r(2))
    qed
  next
    case False
    then have c1: "count H (dtls, i) = 1" using c by linarith
    let ?r = "releaseTransportReceiverTWCC dtls i r"
    have r: "receiverTwccByTransport ?r = (receiverTwccByTransport r)(dtls := None)"
      "twcc_instances ?r = (twcc_instances r)[i := (twcc_instances r ! i)\<lparr>twccRunning := False\<rparr>]"
      using c1 l by (simp_all add: releaseTransportReceiverTWCC_def)
    show ?thesis
      unfolding registry_inv_def
    proof (intro conjI allI impI)
      fix d j n
      show "0 < count ?H (d, j) \<longleftrightarrow> (\<exists>n. receiverTwccByTransport ?r d = Some (j, n))"
        unfolding cnt using c1 inv(1) by (simp add: r)
      assume "receiverTwccByTransport ?r d = Some (j, n)"
      then have "d \<noteq> dtls" "receiverTwccByTransport r d = Some (j, n)" by (simp_all add: r split: if_splits)
      then show "n = int (count ?H (d, j))" "j < length (twcc_instances ?r)"
        unfolding cnt using inv(2) [of d j n] by (simp_all add: r(2))
    next
      fix d d' j n n'
      assume "receiverTwccByTransport ?r d = Some (j, n) \<and> receiverTwccByTransport ?r d' = Some (j, n')"
      then have "receiverTwccByTransport r d = Some (j, n)" "receiverTwccByTransport r d' = Some (j, n')"
        by (auto simp: r split: if_splits)
      then show "d = d'" by (rule inv(3))
    next
      fix j assume j: "j < length (twcc_instances ?r)"
      show "twccRunning (twcc_instances ?r ! j) \<longleftrightarrow> (\<exists>d n. receiverTwccByTransport ?r d = Some (j, n))"
      proof (cases "j = i")
        case True
        have "receiverTwccByTransport ?r d \<noteq> Some (i, n)" for d n using inv(3) [OF l] by (auto simp: r)
        then show ?thesis using True j by (simp add: r(2))
      next
        case False
        then have "(\<exists>d n. receiverTwccByTransport ?r d = Some (j, n)) \<longleftrightarrow> (\<exists>d n. receiverTwccByTransport r d = Some (j, n))"
          using l by (auto simp: r) (metis option.inject prod.inject)
        then show ?thesis using inv(4) j False by (simp add: r(2))
      qed
    qed
  qed
qed

text \<open>A transport has a generator exactly while somebody holds one, all its holders share it, and
  its periodic loop runs exactly that long.\<close>

lemma shared_generator:
  assumes "twcc_holders H r"
  shows "(d, i) \<in># H \<Longrightarrow> (d, j) \<in># H \<Longrightarrow> i = j"
    and "i < length (twcc_instances r) \<Longrightarrow> twccRunning (twcc_instances r ! i) \<longleftrightarrow> (\<exists>d. (d, i) \<in># H)"
proof -
  note inv = registry_inv_reachable [OF assms, unfolded registry_inv_def]
  show "(d, i) \<in># H \<Longrightarrow> (d, j) \<in># H \<Longrightarrow> i = j"
    using inv by (metis count_greater_zero_iff option.inject prod.inject)
  show "i < length (twcc_instances r) \<Longrightarrow> twccRunning (twcc_instances r ! i) \<longleftrightarrow> (\<exists>d. (d, i) \<in># H)"
    using inv by (metis count_greater_zero_iff)
qed

end
