(* ===== verification/Transport_Wide.thy ===== *)
theory Transport_Wide
  imports Rtcp_Compound Number
begin

text \<open>
  How the sender of media reads transport-wide feedback: sequence numbers of 16 bits are unwrapped
  against what was sent (\<^verbatim>\<open>packages/rtp/src/rtcp/rtpfb/transportWideSequence.ts\<close>), the 24-bit
  reference time is unwrapped from feedback to feedback (\<^verbatim>\<open>twccReferenceTime.ts\<close>), and the results
  that carry a time are told apart (\<^verbatim>\<open>twccReceiveTiming.ts\<close>).  Numbers are finite integers; the
  tests with \<^verbatim>\<open>Number.isFinite\<close> hold for all of them.
\<close>

section \<open>Sequence numbers\<close>

definition WIDE_SEQ_MOD :: int where "WIDE_SEQ_MOD = 0x10000"

text \<open>The class holds \<^verbatim>\<open>lastUnwrapped\<close>.\<close>

type_synonym seq_unwrapper = "int option"

definition seq_peek :: "int \<Rightarrow> seq_unwrapper \<Rightarrow> int" where
  "seq_peek raw u =
     (if raw > 0xffff then raw
      else let seq16 = raw AND 0xffff
           in case u of
                None \<Rightarrow> seq16
              | Some lastUnwrapped \<Rightarrow>
                  let last16 = lastUnwrapped AND 0xffff;
                      delta = seq16 - last16;
                      delta = (if delta > 0x8000 then delta - WIDE_SEQ_MOD
                               else if delta < - 0x8000 then delta + WIDE_SEQ_MOD else delta)
                  in lastUnwrapped + delta)"

definition seq_unwrap :: "int \<Rightarrow> seq_unwrapper \<Rightarrow> int \<times> seq_unwrapper" where
  "seq_unwrap sq u = (let next = seq_peek sq u in (next, Some next))"

definition advanceSent :: "int \<Rightarrow> seq_unwrapper \<Rightarrow> int \<times> seq_unwrapper" where
  "advanceSent ext u = (ext, Some (max (case u of None \<Rightarrow> ext | Some l \<Rightarrow> l) ext))"

definition compareTransportWideSeq :: "int \<Rightarrow> int \<Rightarrow> int" where
  "compareTransportWideSeq a b =
     (let a16 = a AND 0xffff; b16 = b AND 0xffff
      in if a16 = b16 then 0 else if uint16Gt a16 b16 then 1 else - 1)"

definition isOlderTransportWideSeq :: "int \<Rightarrow> int \<Rightarrow> bool" where
  "isOlderTransportWideSeq sq ref \<longleftrightarrow> compareTransportWideSeq sq ref < 0"

text \<open>The loop that looks for the largest gap, over the indices.\<close>

definition gap_step :: "int list \<Rightarrow> nat \<Rightarrow> int \<times> int \<Rightarrow> int \<times> int" where
  "gap_step unique i = (\<lambda>(maxGap, origin).
     let a = unique ! i;
         b = unique ! (Suc i mod length unique);
         gap = (if i = length unique - 1 then b + WIDE_SEQ_MOD - a else b - a)
     in if gap > maxGap then (gap, b) else (maxGap, origin))"

definition wide_origin :: "int list \<Rightarrow> int" where
  "wide_origin unique = snd (fold (gap_step unique) [0..<length unique] (- 1, unique ! 0))"

definition sortPacketResultsByWideSeq :: "packet_result list \<Rightarrow> packet_result list" where
  "sortPacketResultsByWideSeq results =
     (if length results \<le> 1 then results
      else let unique = sort (remdups (map (\<lambda>r. pr_sequenceNumber r AND 0xffff) results));
               origin = wide_origin unique
           in sort_key (\<lambda>r. js_rem ((pr_sequenceNumber r AND 0xffff) - origin + WIDE_SEQ_MOD) WIDE_SEQ_MOD) results)"

section \<open>Reference time\<close>

definition TWCC_REFERENCE_TIME_MOD :: int where "TWCC_REFERENCE_TIME_MOD = push_bit 24 1"
definition TWCC_REFERENCE_TIME_UNIT_MS :: int where "TWCC_REFERENCE_TIME_UNIT_MS = 64"

record ref_unwrapper =
  lastRefUnits :: "int option"
  cycles :: int

definition new_ref_unwrapper :: ref_unwrapper where
  "new_ref_unwrapper = \<lparr>lastRefUnits = None, cycles = 0\<rparr>"

definition ref_reset :: "ref_unwrapper \<Rightarrow> ref_unwrapper" where
  "ref_reset u = u\<lparr>lastRefUnits := None, cycles := 0\<rparr>"

definition unwrapBaseMs :: "int \<Rightarrow> ref_unwrapper \<Rightarrow> int \<times> ref_unwrapper" where
  "unwrapBaseMs referenceTimeUnits u =
     (let ref = referenceTimeUnits AND (TWCC_REFERENCE_TIME_MOD - 1)
      in case lastRefUnits u of
        None \<Rightarrow> (ref * TWCC_REFERENCE_TIME_UNIT_MS, u\<lparr>lastRefUnits := Some ref\<rparr>)
      | Some l \<Rightarrow>
          let half = drop_bit 1 TWCC_REFERENCE_TIME_MOD;
              delta = ref - l;
              u = (if delta < - half then u\<lparr>cycles := cycles u + 1\<rparr>
                   else if delta > half then u\<lparr>cycles := cycles u - 1\<rparr> else u);
              u = u\<lparr>lastRefUnits := Some ref\<rparr>
          in ((cycles u * TWCC_REFERENCE_TIME_MOD + ref) * TWCC_REFERENCE_TIME_UNIT_MS, u))"

definition rebasePacketResults :: "packet_result list \<Rightarrow> int \<Rightarrow> ref_unwrapper \<Rightarrow> packet_result list \<times> ref_unwrapper" where
  "rebasePacketResults results referenceTimeUnits u =
     (let wrappedBase = (referenceTimeUnits AND (TWCC_REFERENCE_TIME_MOD - 1)) * TWCC_REFERENCE_TIME_UNIT_MS;
          (continuousBase, u) = unwrapBaseMs referenceTimeUnits u;
          shift = continuousBase - wrappedBase
      in (if shift = 0 then results
          else map (\<lambda>r. if \<not> pr_received r then r else r\<lparr>pr_receivedAtMs := pr_receivedAtMs r + of_int shift\<rparr>) results, u))"

definition hasTwccReceiveTiming :: "packet_result \<Rightarrow> bool" where
  "hasTwccReceiveTiming r \<longleftrightarrow> pr_received r \<and> pr_status r \<noteq> TypeTCCPacketReceivedWithoutDelta"

section \<open>Sorting into the order of sending\<close>

text \<open>The distance going up, a whole turn for the number itself.\<close>

definition ahead :: "int \<Rightarrow> int \<Rightarrow> int" where
  "ahead x y = (if x < y then y - x else y + 65536 - x)"

lemma and_ffff: "(v :: int) AND 0xffff = v mod 65536"
  using take_bit_eq_mask [of 16 v] by (simp add: take_bit_eq_mod mask_eq_exp_minus_1)

lemma ahead_mod:
  "ahead (a mod 65536) (b mod 65536) = (if (b - a) mod 65536 = 0 then 65536 else (b - a) mod 65536)"
proof -
  have e: "(b - a) mod 65536 = (b mod 65536 - a mod 65536) mod 65536" by (simp add: mod_diff_eq)
  show ?thesis
    unfolding e using mod_diff_cases [of "b mod 65536" 65536 "a mod 65536"] by (auto simp: ahead_def)
qed

lemma next_is_nearest:
  assumes "sorted_wrt (<) u" "\<forall>x \<in> set u. 0 \<le> x \<and> x < (65536::int)" "i < length u" "j < length u"
  defines "nx \<equiv> u ! (Suc i mod length u)"
  shows "(if i = length u - 1 then nx + 65536 - u ! i else nx - u ! i) = ahead (u ! i) nx"
    "ahead (u ! i) nx \<le> ahead (u ! i) (u ! j)"
proof -
  have lt: "u ! a < u ! b" if "a < b" "b < length u" for a b
    using assms(1) that by (simp add: sorted_wrt_nth_less)
  have le: "u ! a \<le> u ! b" if "a \<le> b" "b < length u" for a b
    using lt [of a b] that by (cases "a = b") auto
  have r: "0 \<le> u ! a" "u ! a < 65536" if "a < length u" for a using assms(2) that by auto
  show "(if i = length u - 1 then nx + 65536 - u ! i else nx - u ! i) = ahead (u ! i) nx"
  proof (cases "i = length u - 1")
    case True
    then have "nx = u ! 0" using assms(3) by (cases u) (simp_all add: nx_def)
    then have "nx \<le> u ! i" using assms(3) le [of 0 i] by simp
    then show ?thesis using True by (simp add: ahead_def)
  next
    case False
    then have "Suc i < length u" using assms(3) by simp
    then show ?thesis using False lt [of i "Suc i"] by (simp add: ahead_def nx_def)
  qed
  show "ahead (u ! i) nx \<le> ahead (u ! i) (u ! j)"
  proof (cases "i = length u - 1")
    case True
    then have "nx = u ! 0" using assms(3) by (cases u) (simp_all add: nx_def)
    moreover have j: "j \<le> i" "i < length u" using True assms(3,4) by simp_all
    ultimately show ?thesis using assms(3,4) le [of 0 i] le [of 0 j] le [OF j] by (auto simp: ahead_def)
  next
    case False
    then have s: "Suc i < length u" using assms(3) by simp
    show ?thesis
    proof (cases "i < j")
      case True
      then show ?thesis using s assms(4) lt [of i "Suc i"] le [of "Suc i" j] by (auto simp: ahead_def nx_def)
    next
      case False
      then show ?thesis using s assms(4) lt [of i "Suc i"] le [of j i] r [of "Suc i"] r [of j] by (auto simp: ahead_def nx_def)
    qed
  qed
qed

lemma gap_step_ahead:
  assumes "sorted_wrt (<) u" "\<forall>x \<in> set u. 0 \<le> x \<and> x < (65536::int)" "i < length u"
  shows "gap_step u i (g, b) = (let nx = u ! (Suc i mod length u); gap = ahead (u ! i) nx
    in if gap > g then (gap, nx) else (g, b))"
  unfolding gap_step_def prod.case Let_def WIDE_SEQ_MOD_def
  by (simp only: next_is_nearest(1) [OF assms assms(3)])

lemma largest_gap:
  assumes u: "sorted_wrt (<) u" "\<forall>x \<in> set u. 0 \<le> x \<and> x < (65536::int)" and k: "k < length u"
    and big: "\<And>j. j < length u \<Longrightarrow> 32768 < ahead (u ! k) (u ! j)"
    and small: "\<And>i. i < length u \<Longrightarrow> i \<noteq> k \<Longrightarrow> \<exists>j < length u. ahead (u ! i) (u ! j) < 32768"
  shows "wide_origin u = u ! (Suc k mod length u)"
proof -
  let ?nx = "\<lambda>i. u ! (Suc i mod length u)"
  have "Suc k mod length u < length u" using k by (intro mod_less_divisor) linarith
  from big [OF this] have big': "32768 < ahead (u ! k) (?nx k)" .
  have small': "ahead (u ! i) (?nx i) < 32768" if "i < length u" "i \<noteq> k" for i
    using small [OF that] next_is_nearest(2) [OF u that(1)] by (meson le_less_trans)
  have "n \<le> length u \<Longrightarrow> (\<exists>g b. fold (gap_step u) [0..<n] (- 1, u ! 0) = (g, b) \<and>
      (if k < n then g = ahead (u ! k) (?nx k) \<and> b = ?nx k else g < 32768))" for n
  proof (induction n)
    case (Suc n)
    then obtain g b where gb: "fold (gap_step u) [0..<n] (- 1, u ! 0) = (g, b)"
      "if k < n then g = ahead (u ! k) (?nx k) \<and> b = ?nx k else g < 32768" by auto
    have n: "n < length u" using Suc.prems by simp
    show ?case
      using gb gap_step_ahead [OF u n, of g b] big' small' [OF n] by (auto simp: Let_def less_Suc_eq split: if_splits)
  qed simp
  from this [of "length u"] k show ?thesis by (auto simp: wide_origin_def)
qed

lemma sort_key_order:
  fixes f :: "'a \<Rightarrow> int"
  assumes "\<forall>x \<in> set xs. \<forall>y \<in> set xs. f x \<le> f y \<longleftrightarrow> g x \<le> (g y :: int)"
  shows "sort_key f xs = (sort_key g xs :: 'a list)"
  using assms
proof (induction xs)
  case (Cons x xs)
  have "insort_key f x ys = insort_key g x ys" if "set ys \<subseteq> set xs" for ys
    using that Cons.prems by (induction ys) auto
  then show ?case using Cons by simp
qed simp

text \<open>C21: feedback is put back into the order of sending across the wrap of the numbers.  If the
  16-bit numbers of the results are those of extended numbers \<open>ext\<close> that lie within half the
  number space, the results are sorted (stably) by their extended numbers.\<close>

theorem wide_sort_correct:
  assumes "\<forall>r \<in> set results. pr_sequenceNumber r mod 2 ^ 16 = ext r mod 2 ^ 16"
    and "\<forall>r \<in> set results. \<forall>r' \<in> set results. ext r - ext r' < 2 ^ 15"
  shows "sortPacketResultsByWideSeq results = sort_key ext results"
proof (cases "length results \<le> 1")
  case True
  then show ?thesis by (cases results) (auto simp: sortPacketResultsByWideSeq_def)
next
  case False
  define u where "u = sort (remdups (map (\<lambda>r. pr_sequenceNumber r AND 0xffff) results))"
  have u: "sorted_wrt (<) u" by (simp add: u_def strict_sorted_iff)
  have su: "set u = (\<lambda>r. ext r mod 65536) ` set results" using assms(1) by (force simp: u_def and_ffff)
  have elem: "\<exists>r \<in> set results. u ! j = ext r mod 65536" if "j < length u" for j
    using nth_mem [OF that] unfolding su by auto
  have index: "\<exists>j < length u. u ! j = ext r mod 65536" if "r \<in> set results" for r
    using that su by (auto simp: in_set_conv_nth [symmetric])
  have rng: "\<forall>x \<in> set u. 0 \<le> x \<and> x < (65536::int)" by (auto simp: su)
  have fin: "finite (ext ` set results)" "ext ` set results \<noteq> {}" using False by auto
  obtain lo where lo: "lo \<in> set results" "\<And>r. r \<in> set results \<Longrightarrow> ext lo \<le> ext r"
    using Min_in [OF fin] Min_le [OF fin(1)] by (metis imageE imageI)
  obtain hi where hi: "hi \<in> set results" "\<And>r. r \<in> set results \<Longrightarrow> ext r \<le> ext hi"
    using Max_in [OF fin] Max_ge [OF fin(1)] by (metis imageE imageI)
  have near: "ext r - ext r' < 32768" if "r \<in> set results" "r' \<in> set results" for r r'
    using assms(2) that by fastforce
  have ah: "ahead (ext r mod 65536) (ext r' mod 65536) = (if ext r < ext r' then ext r' - ext r else ext r' + 65536 - ext r)"
    if "r \<in> set results" "r' \<in> set results" for r r'
  proof -
    have d: "ext r' - ext r < 32768" "ext r - ext r' < 32768" using near that by simp_all
    show ?thesis
    proof (cases "ext r < ext r'")
      case True
      then show ?thesis using d by (simp add: ahead_mod)
    next
      case False
      have "d mod 65536 = (if d = 0 then 0 else d + 65536)" if "- 32768 < d" "d \<le> 0" for d :: int
        using that mod_pos_pos_trivial [of "d + 65536" 65536] by simp
      from this [of "ext r' - ext r"] have "(ext r' - ext r) mod 65536 = (if ext r' - ext r = 0 then 0 else ext r' - ext r + 65536)"
        using False d by linarith
      then show ?thesis using False d by (simp add: ahead_mod)
    qed
  qed
  obtain k where k: "k < length u" "u ! k = ext hi mod 65536" using hi(1) index by blast
  have big: "32768 < ahead (u ! k) (u ! j)" if jl: "j < length u" for j
  proof -
    obtain r where r: "r \<in> set results" "u ! j = ext r mod 65536" using elem [OF jl] by blast
    have "ext hi - ext r < 32768" by (rule near [OF hi(1) r(1)])
    then show ?thesis unfolding k(2) r(2) ah [OF hi(1) r(1)] using hi(2) [OF r(1)] by auto
  qed
  have small: "\<exists>j < length u. ahead (u ! i) (u ! j) < 32768" if i: "i < length u" "i \<noteq> k" for i
  proof -
    obtain r where r: "r \<in> set results" "u ! i = ext r mod 65536" using elem [OF i(1)] by blast
    have "ext r \<noteq> ext hi"
      using r(2) k i u by (metis nth_eq_iff_index_eq strict_sorted_iff)
    then have "ext r < ext hi" using hi(2) [OF r(1)] by simp
    then have "ahead (u ! i) (u ! k) < 32768"
      unfolding k(2) r(2) ah [OF r(1) hi(1)] using near [OF hi(1) r(1)] by simp
    then show ?thesis using k(1) by blast
  qed
  let ?nx = "u ! (Suc k mod length u)"
  have o: "wide_origin u = ?nx" by (rule largest_gap [OF u rng k(1) big small])
  have "Suc k mod length u < length u" using k(1) by (intro mod_less_divisor) linarith
  then obtain r0 where r0: "r0 \<in> set results" "?nx = ext r0 mod 65536" using elem by blast
  obtain j where j: "j < length u" "u ! j = ext lo mod 65536" using lo(1) index by blast
  have "ahead (u ! k) ?nx \<le> ahead (u ! k) (u ! j)" by (rule next_is_nearest(2) [OF u rng k(1) j(1)])
  then have "ext r0 = ext lo"
    unfolding k(2) r0(2) j(2) ah [OF hi(1) r0(1)] ah [OF hi(1) lo(1)]
    using hi(2) [OF r0(1)] hi(2) [OF lo(1)] lo(2) [OF r0(1)] by auto
  with o r0 have o: "wide_origin u = ext lo mod 65536" by simp
  have key: "js_rem ((pr_sequenceNumber r AND 0xffff) - wide_origin u + WIDE_SEQ_MOD) WIDE_SEQ_MOD = ext r - ext lo"
    if r: "r \<in> set results" for r
  proof -
    have d: "0 \<le> ext r - ext lo" "ext r - ext lo < 65536" using lo(2) [OF r] near [OF r lo(1)] by simp_all
    have e: "pr_sequenceNumber r AND 0xffff = ext r mod 65536" using assms(1) r by (simp add: and_ffff)
    have n: "0 \<le> ext r mod 65536 - ext lo mod 65536 + 65536"
      using pos_mod_bound [of 65536 "ext lo"] pos_mod_sign [of 65536 "ext r"] by linarith
    have "(ext r mod 65536 - ext lo mod 65536 + 65536) mod 65536 = (ext r - ext lo) mod 65536"
      by (simp add: mod_simps)
    then show ?thesis unfolding o e WIDE_SEQ_MOD_def js_rem_nonneg [OF n] using d by simp
  qed
  have "sort_key (\<lambda>r. js_rem ((pr_sequenceNumber r AND 0xffff) - wide_origin u + WIDE_SEQ_MOD) WIDE_SEQ_MOD) results =
      sort_key ext results"
    by (rule sort_key_order) (simp add: key)
  then show ?thesis using False by (simp add: sortPacketResultsByWideSeq_def u_def Let_def)
qed

definition sample_result :: "int \<Rightarrow> packet_result" where
  "sample_result n = \<lparr>pr_sequenceNumber = n, pr_delta = 0, pr_received = True, pr_receivedAtMs = 0, pr_status = 1\<rparr>"

theorem wide_sort_correct_witness:
  "sortPacketResultsByWideSeq (map sample_result [1, 65535, 0, 65534]) = map sample_result [65534, 65535, 0, 1]"
proof -
  let ?ext = "\<lambda>r. if pr_sequenceNumber r < 10 then pr_sequenceNumber r + 65536 else pr_sequenceNumber r"
  have "sortPacketResultsByWideSeq (map sample_result [1, 65535, 0, 65534]) = sort_key ?ext (map sample_result [1, 65535, 0, 65534])"
    by (rule wide_sort_correct) (simp_all add: sample_result_def)
  also have "\<dots> = map sample_result [65534, 65535, 0, 1]" by (simp add: sample_result_def)
  finally show ?thesis .
qed

section \<open>Unwrapping\<close>

text \<open>A number of the last 2^15 sent, or of the next ones, is recovered from its 16 bits.\<close>

lemma turn_count:
  fixes m half D E q :: int
  assumes "E = D + m * q" "m = 2 * half" "- half < D" "D < half" "- m < E" "E < m"
  shows "q = (if E > half then 1 else if E < - half then - 1 else 0)"
proof -
  have h: "0 < half" using assms(3,4) by linarith
  have "m * q < m * 2" "m * (- 2) < m * q" using assms by linarith+
  moreover have "0 < m" using h assms(2) by simp
  ultimately have "- 2 < q" "q < 2" by (simp_all only: mult_less_cancel_left_pos)
  then have "q = - 1 \<or> q = 0 \<or> q = 1" by linarith
  then show ?thesis using assms h by auto
qed

lemma seq_peek_recovers:
  assumes "\<bar>ext - l\<bar> < 2 ^ 15" shows "seq_peek (ext mod 2 ^ 16) (Some l) = ext"
proof -
  have r: "0 \<le> ext mod 65536" "ext mod 65536 < 65536" "0 \<le> l mod 65536" "l mod 65536 < 65536" by simp_all
  let ?d = "ext mod 65536 - l mod 65536" and ?q = "l div 65536 - ext div 65536"
  have q: "?d = ext - l + 65536 * ?q"
    using mult_div_mod_eq [of 65536 ext] mult_div_mod_eq [of 65536 l] by (simp add: algebra_simps)
  have a: "- 32768 < ext - l" "ext - l < 32768" using assms by (simp_all add: abs_less_iff)
  have "?q = (if ?d > 32768 then 1 else if ?d < - 32768 then - 1 else 0)"
    by (rule turn_count [where m = 65536 and half = 32768 and D = "ext - l"]) (use q r a in simp_all)
  then have "?d = ext - l + (if ?d > 32768 then 65536 else if ?d < - 32768 then - 65536 else 0)"
    using q by (auto split: if_splits)
  then show ?thesis
    by (auto simp: seq_peek_def and_ffff Let_def WIDE_SEQ_MOD_def split: if_splits)
qed

text \<open>The origin is the highest number sent, whatever the order of the reports.\<close>

lemma advanceSent_max:
  "fold (\<lambda>e u. snd (advanceSent e u)) exts None = (if exts = [] then None else Some (Max (set exts)))"
proof (induction exts rule: rev_induct)
  case (snoc e exts)
  then show ?case by (cases "exts = []") (auto simp: advanceSent_def max.commute)
qed simp

lemma ref_mod: "TWCC_REFERENCE_TIME_MOD = 16777216" "(v :: int) AND 16777215 = v mod 16777216"
  "drop_bit 1 TWCC_REFERENCE_TIME_MOD = 8388608"
proof -
  show m: "TWCC_REFERENCE_TIME_MOD = 16777216" by (simp add: TWCC_REFERENCE_TIME_MOD_def push_bit_eq_mult)
  show "v AND 16777215 = v mod 16777216"
    using take_bit_eq_mask [of 24 v] by (simp add: take_bit_eq_mod mask_eq_exp_minus_1)
  show "drop_bit 1 TWCC_REFERENCE_TIME_MOD = 8388608" by (simp add: m drop_bit_eq_div)
qed

text \<open>What the unwrapper holds after it has read a feedback whose true reference time is \<open>units\<close>:
  its time line differs from the true one by a fixed number of turns of the clock.\<close>

definition ref_tracks :: "int \<Rightarrow> int \<Rightarrow> ref_unwrapper \<Rightarrow> bool" where
  "ref_tracks turns units u \<longleftrightarrow> lastRefUnits u = Some (units mod 2 ^ 24) \<and> cycles u = units div 2 ^ 24 - turns"

lemma ref_first:
  "unwrapBaseMs (units mod 2 ^ 24) new_ref_unwrapper = (b, u) \<Longrightarrow>
     ref_tracks (units div 2 ^ 24) units u \<and> b = 64 * (units - units div 2 ^ 24 * 2 ^ 24)"
  unfolding minus_div_mult_eq_mod
  by (auto simp: unwrapBaseMs_def new_ref_unwrapper_def ref_mod ref_tracks_def TWCC_REFERENCE_TIME_UNIT_MS_def Let_def)

lemma ref_next:
  assumes "ref_tracks turns units u" "\<bar>units' - units\<bar> < 2 ^ 23" "unwrapBaseMs (units' mod 2 ^ 24) u = (b, u')"
  shows "ref_tracks turns units' u' \<and> b = 64 * (units' - turns * 2 ^ 24)"
proof -
  define M :: int where "M = 16777216"
  have e: "units = M * (units div M) + units mod M" "units' = M * (units' div M) + units' mod M" by simp_all
  have r: "0 \<le> units mod M" "units mod M < M" "0 \<le> units' mod M" "units' mod M < M" by (simp_all add: M_def)
  have d: "\<bar>units' - units\<bar> < 8388608" using assms(2) by simp
  let ?q = "units' div M - units div M"
  have k: "units' mod M - units mod M = (units' - units) + M * (- ?q)" using e by (simp add: algebra_simps)
  have "- ?q = (if units' mod M - units mod M > 8388608 then 1 else if units' mod M - units mod M < - 8388608 then - 1 else 0)"
    by (rule turn_count [OF k]) (use d r in \<open>simp_all add: M_def abs_less_iff\<close>)
  then have q: "units' div M = units div M + (if units' mod M - units mod M < - 8388608 then 1
      else if units' mod M - units mod M > 8388608 then - 1 else 0)" by (simp split: if_splits)
  have u: "lastRefUnits u = Some (units mod M)" "cycles u = units div M - turns"
    using assms(1) by (simp_all add: ref_tracks_def M_def)
  have m: "units' mod 2 ^ 24 mod 16777216 = units' mod M" by (simp add: M_def)
  have "cycles u' = units' div M - turns \<and> lastRefUnits u' = Some (units' mod M) \<and>
      b = (cycles u' * M + units' mod M) * 64"
    using assms(3) q u by (auto simp: unwrapBaseMs_def ref_mod Let_def TWCC_REFERENCE_TIME_UNIT_MS_def M_def split: if_splits)
  moreover have "(cycles u' * M + units' mod M) * 64 = 64 * (units' - turns * M)" if "cycles u' = units' div M - turns"
  proof -
    have "(cycles u' * M + units' mod M) * 64 = 64 * ((units' div M * M + units' mod M) - turns * M)"
      unfolding that by algebra
    then show ?thesis by (simp only: div_mult_mod_eq)
  qed
  ultimately show ?thesis by (simp add: ref_tracks_def M_def)
qed

fun unwrap_all :: "int list \<Rightarrow> ref_unwrapper \<Rightarrow> int list" where
  "unwrap_all [] u = []"
| "unwrap_all (v # vs) u = (let (b, u) = unwrapBaseMs v u in b # unwrap_all vs u)"

lemma unwrap_all_tracks:
  assumes "ref_tracks turns units u" "successively (\<lambda>x y. \<bar>y - x\<bar> < 2 ^ 23) (units # us)"
  shows "unwrap_all (map (\<lambda>x. x mod 2 ^ 24) us) u = map (\<lambda>x. 64 * (x - turns * 2 ^ 24)) us"
  using assms
proof (induction us arbitrary: units u)
  case (Cons x us)
  obtain b u' where b: "unwrapBaseMs (x mod 2 ^ 24) u = (b, u')" by fastforce
  have "ref_tracks turns x u' \<and> b = 64 * (x - turns * 2 ^ 24)"
    using ref_next [OF Cons.prems(1) _ b] Cons.prems(2) by simp
  then show ?case using Cons.IH [of x u'] Cons.prems(2) b by simp
qed simp

text \<open>C22: the time line of the sender is continuous across the wrap of the 24-bit reference time.
  For feedbacks whose true reference times (units of 64 ms) change by less than 2^23 from one to
  the next, in either direction, the base times are the true ones in milliseconds, all less the
  same number of turns of the 24-bit clock.\<close>

theorem reference_time_continuous:
  assumes "successively (\<lambda>x y. \<bar>y - x\<bar> < 2 ^ 23) units"
  shows "unwrap_all (map (\<lambda>x. x mod 2 ^ 24) units) new_ref_unwrapper =
    map (\<lambda>x. 64 * (x - hd units div 2 ^ 24 * 2 ^ 24)) units"
proof (cases units)
  case (Cons x us)
  obtain b u where b: "unwrapBaseMs (x mod 2 ^ 24) new_ref_unwrapper = (b, u)" by fastforce
  have t: "ref_tracks (x div 2 ^ 24) x u" "b = 64 * (x - x div 2 ^ 24 * 2 ^ 24)" using ref_first [OF b] by auto
  show ?thesis using unwrap_all_tracks [OF t(1), of us] assms b t(2) by (simp add: Cons)
qed simp

theorem reference_time_continuous_witness:
  "unwrap_all (map (\<lambda>x. x mod 2 ^ 24) [2 ^ 24 - 1, 2 ^ 24 + 2, 2 ^ 24 - 5]) new_ref_unwrapper =
     map (\<lambda>x. 64 * x) [2 ^ 24 - 1, 2 ^ 24 + 2, 2 ^ 24 - 5]"
  using reference_time_continuous [of "[2 ^ 24 - 1, 2 ^ 24 + 2, 2 ^ 24 - 5]"] by simp

text \<open>Rebasing shifts the times of a feedback by the turns of the clock.\<close>

lemma rebase_shift:
  assumes "unwrapBaseMs (units mod 2 ^ 24) u = (b, u')"
  shows "rebasePacketResults rs (units mod 2 ^ 24) u =
    (map (\<lambda>r. if pr_received r then r\<lparr>pr_receivedAtMs := pr_receivedAtMs r + of_int (b - units mod 2 ^ 24 * 64)\<rparr> else r) rs, u')"
  using assms by (auto simp: rebasePacketResults_def ref_mod TWCC_REFERENCE_TIME_UNIT_MS_def Let_def intro!: map_idI [symmetric])

text \<open>At half the number space neither number counts as the newer one, each is older than the
  other.\<close>

lemma older_both_ways: "isOlderTransportWideSeq 0 0x8000" "isOlderTransportWideSeq 0x8000 0"
  by (simp_all add: isOlderTransportWideSeq_def compareTransportWideSeq_def uint16Gt_def Let_def and_ffff)

end
