(* ===== verification/Jitter_Buffer.thy ===== *)
theory Jitter_Buffer
  imports Rtp_Header Number Js_Object
begin

text \<open>
  The jitter buffer (\<^verbatim>\<open>packages/rtp/src/extra/processor/jitterBuffer.ts\<close>).  Packets are put in
  order of their 16-bit sequence numbers, held back while a number is missing, and given up when
  they have waited too long, when the buffer is full or at the end of the stream.

  \<open>rtpBuffer\<close> is the object keyed by sequence number.  The quotient of timestamps and clock rate,
  a double in the code, is exact here.  The counters of \<^verbatim>\<open>internalStats\<close>, which nothing reads, are
  left out.  Proved, on the unbounded number line: every accepted packet is put out once and in
  order, losses are reported for exactly the numbers passed without a packet, nothing is given up
  without a reason and nothing stays behind at the end.
\<close>

section \<open>State\<close>

record jitter_buffer =
  clockRate :: int
  latency :: rat
  bufferSize :: nat
  presentSeqNum :: "int option"
  rtpBuffer :: "(int \<times> rtp_packet) list"

datatype jb_output = JbRtp rtp_packet | JbLost int int | JbEol

definition new_JitterBufferBase :: "int \<Rightarrow> rat option \<Rightarrow> nat option \<Rightarrow> jitter_buffer" where
  "new_JitterBufferBase rate lat sz =
     \<lparr>clockRate = rate, latency = (case lat of None \<Rightarrow> 200 | Some l \<Rightarrow> l),
      bufferSize = (case sz of None \<Rightarrow> 10000 | Some n \<Rightarrow> n), presentSeqNum = None, rtpBuffer = []\<rparr>"

abbreviation seq_of :: "rtp_packet \<Rightarrow> int" where "seq_of p \<equiv> sequenceNumber (header p)"
abbreviation time_of :: "rtp_packet \<Rightarrow> int" where "time_of p \<equiv> timestamp (header p)"

definition present :: "jitter_buffer \<Rightarrow> int" where
  "present s = the (presentSeqNum s)"

definition expectNextSeqNum :: "jitter_buffer \<Rightarrow> int" where
  "expectNextSeqNum s = uint16Add (present s) 1"

definition jb_stop :: "jitter_buffer \<Rightarrow> jitter_buffer" where
  "jb_stop s = s\<lparr>rtpBuffer := []\<rparr>"

section \<open>Operations\<close>

definition distance :: "jitter_buffer \<Rightarrow> int \<Rightarrow> int" where
  "distance s sq = uint16Add sq (- present s)"

definition sortedBuffer :: "jitter_buffer \<Rightarrow> rtp_packet list" where
  "sortedBuffer s = sort_key (\<lambda>p. distance s (seq_of p)) (map snd (rtpBuffer s))"

text \<open>\<open>take_out\<close> deletes a packet and moves the output position to it.\<close>

definition take_out :: "int \<Rightarrow> jitter_buffer \<Rightarrow> jitter_buffer" where
  "take_out sq s = s\<lparr>rtpBuffer := obj_delete sq (rtpBuffer s), presentSeqNum := Some sq\<rparr>"

function releaseContinuous :: "jitter_buffer \<Rightarrow> jitter_buffer \<times> jb_output list" where
  "releaseContinuous s =
     (let next = expectNextSeqNum s
      in case map_of (rtpBuffer s) next of
        None \<Rightarrow> (s, [])
      | Some rtp \<Rightarrow>
          let (s, out) = releaseContinuous (take_out next s) in (s, JbRtp rtp # out))"
  by pat_completeness auto
termination
  by (relation "measure (length \<circ> rtpBuffer)") (auto simp: take_out_def intro: obj_delete_length)

declare releaseContinuous.simps [simp del]

fun release_loop :: "int \<Rightarrow> int \<Rightarrow> rtp_packet list \<Rightarrow> jitter_buffer \<Rightarrow> jitter_buffer \<times> jb_output list" where
  "release_loop base limit [] s = (s, [])"
| "release_loop base limit (rtp # rtps) s =
     (let sq = seq_of rtp
      in if uint16Add sq (- base) > limit then (s, [])
         else let lost = (if sq \<noteq> expectNextSeqNum s then [JbLost (expectNextSeqNum s) (uint16Add sq (- 1))] else []);
                  (s, out) = release_loop base limit rtps (take_out sq s)
              in (s, lost @ JbRtp rtp # out))"

definition releaseUntil :: "int \<Rightarrow> jitter_buffer \<Rightarrow> jitter_buffer \<times> jb_output list" where
  "releaseUntil sq s =
     (let base = present s;
          limit = uint16Add sq (- base);
          (s, out) = release_loop base limit (sortedBuffer s) s;
          (s, out') = releaseContinuous s
      in (s, out @ out'))"

definition has_waited :: "jitter_buffer \<Rightarrow> int \<Rightarrow> rtp_packet \<Rightarrow> bool" where
  "has_waited s baseTimestamp p \<longleftrightarrow> \<not> uint32Gt (time_of p) baseTimestamp \<and>
     \<not> of_int (uint32Add baseTimestamp (- time_of p)) / of_int (clockRate s) * 1000 \<le> latency s"

definition findLatestTimeoutSeqNum :: "int \<Rightarrow> jitter_buffer \<Rightarrow> int option" where
  "findLatestTimeoutSeqNum baseTimestamp s =
     fold (\<lambda>p latest.
       if uint32Gt (time_of p) baseTimestamp then latest
       else if of_int (uint32Add baseTimestamp (- time_of p)) / of_int (clockRate s) * 1000 \<le> latency s then latest
       else case latest of
              None \<Rightarrow> Some (seq_of p)
            | Some l \<Rightarrow> if distance s (seq_of p) > distance s l then Some (seq_of p) else latest)
       (map snd (rtpBuffer s)) None"

definition processRtp :: "rtp_packet \<Rightarrow> jitter_buffer \<Rightarrow> jitter_buffer \<times> jb_output list" where
  "processRtp rtp s =
     (let sq = seq_of rtp; ts = time_of rtp
      in case presentSeqNum s of
        None \<Rightarrow> (s\<lparr>presentSeqNum := Some sq\<rparr>, [JbRtp rtp])
      | Some p \<Rightarrow>
          if uint16Gte p sq \<or> map_of (rtpBuffer s) sq \<noteq> None then (s, [])
          else
            let s = s\<lparr>rtpBuffer := obj_put sq rtp (rtpBuffer s)\<rparr>;
                (s, out1) = releaseContinuous s;
                (s, out2) = (case findLatestTimeoutSeqNum ts s of
                               None \<Rightarrow> (s, [])
                             | Some timeoutSeqNum \<Rightarrow> releaseUntil timeoutSeqNum s);
                buffered = sortedBuffer s;
                (s, out3) = (if length buffered > bufferSize s
                             then releaseUntil (seq_of (buffered ! (length buffered - bufferSize s - 1))) s
                             else (s, []))
            in (s, out1 @ out2 @ out3))"

definition processEol :: "jitter_buffer \<Rightarrow> jitter_buffer \<times> jb_output list" where
  "processEol s =
     (let buffered = sortedBuffer s;
          (s, out) = (if length buffered > 0 then releaseUntil (seq_of (last buffered)) s else (s, []))
      in (jb_stop s, out @ [JbEol]))"

text \<open>An input has a packet, or it may be the end of the stream.\<close>

definition processInput :: "rtp_packet option \<Rightarrow> bool \<Rightarrow> jitter_buffer \<Rightarrow> jitter_buffer \<times> jb_output list" where
  "processInput rtp eol s =
     (case rtp of
        None \<Rightarrow> if eol then processEol s else (s, [])
      | Some p \<Rightarrow> processRtp p s)"

section \<open>The invariant\<close>

text \<open>\<open>P\<close> is the output position on the unbounded number line.  What is buffered lies ahead of it,
  by at most half the number space, so each buffered packet has one number on that line.\<close>

definition pos_ok :: "jitter_buffer \<Rightarrow> int \<Rightarrow> bool" where
  "pos_ok s P \<longleftrightarrow> presentSeqNum s = Some (P mod 65536) \<and> obj_ok (rtpBuffer s) \<and>
     (\<forall>(k, p) \<in> set (rtpBuffer s). seq_of p = k \<and> 0 \<le> k \<and> k < 65536 \<and> 0 < (k - P) mod 65536 \<and> (k - P) mod 65536 \<le> 32768)"

definition held :: "jitter_buffer \<Rightarrow> int \<Rightarrow> int \<Rightarrow> rtp_packet option" where
  "held s P x = (if P < x \<and> x \<le> P + 32768 then map_of (rtpBuffer s) (x mod 65536) else None)"

text \<open>Output that starts at \<open>P\<close> and ends at \<open>P'\<close>: every number in between is a packet that was there
  or belongs to one range of numbers reported lost of which none was there, and a lost range is
  followed by a packet.\<close>

fun covers_range :: "(int \<Rightarrow> rtp_packet option) \<Rightarrow> int \<Rightarrow> jb_output list \<Rightarrow> int \<Rightarrow> bool" where
  "covers_range there P [] P' \<longleftrightarrow> P' = P"
| "covers_range there P (JbRtp p # out) P' \<longleftrightarrow> there (P + 1) = Some p \<and> covers_range there (P + 1) out P'"
| "covers_range there P (JbLost f t # out) P' \<longleftrightarrow> (\<exists>n > 0. n < 32768 \<and> f = (P + 1) mod 65536 \<and> t = (P + n) mod 65536 \<and>
      (\<forall>x. P < x \<and> x \<le> P + n \<longrightarrow> there x = None) \<and> (case out of JbRtp _ # _ \<Rightarrow> True | _ \<Rightarrow> False) \<and> covers_range there (P + n) out P')"
| "covers_range there P (JbEol # out) P' \<longleftrightarrow> covers_range there P out P'"

lemma covers_le: "covers_range there P out P' \<Longrightarrow> P \<le> P'"
  by (induction there P out P' rule: covers_range.induct) fastforce+

lemma covers_append: "covers_range there P out Q \<Longrightarrow> covers_range there Q out' P' \<Longrightarrow> covers_range there P (out @ out') P'"
proof (induction there P out Q rule: covers_range.induct)
  case (3 there P f t out Q)
  then obtain n where n: "0 < n" "n < 32768" "f = (P + 1) mod 65536" "t = (P + n) mod 65536"
    "\<forall>x. P < x \<and> x \<le> P + n \<longrightarrow> there x = None" "case out of JbRtp _ # _ \<Rightarrow> True | _ \<Rightarrow> False"
    "covers_range there (P + n) out Q" by auto
  then have "case out @ out' of JbRtp _ # _ \<Rightarrow> True | _ \<Rightarrow> False" by (auto split: list.splits jb_output.splits)
  then show ?case using n "3.IH" [OF n(7) "3.prems"(2)] by auto
qed auto

lemma covers_cong:
  "covers_range there P out P' \<Longrightarrow> (\<And>x. P < x \<Longrightarrow> x \<le> P' \<Longrightarrow> there x = there' x) \<Longrightarrow> covers_range there' P out P'"
proof (induction there P out P' rule: covers_range.induct)
  case (2 there P p out P')
  then show ?case using covers_le [of there "P + 1" out P'] by auto
next
  case (3 there P f t out P')
  then obtain n where n: "0 < n" "n < 32768" "f = (P + 1) mod 65536" "t = (P + n) mod 65536"
    "\<forall>x. P < x \<and> x \<le> P + n \<longrightarrow> there x = None" "case out of JbRtp _ # _ \<Rightarrow> True | _ \<Rightarrow> False"
    "covers_range there (P + n) out P'" by auto
  have le: "P + n \<le> P'" using covers_le [OF n(7)] .
  have "covers_range there' (P + n) out P'" by (rule "3.IH" [OF n(7)]) (use "3.prems"(2) n(1) in auto)
  moreover have "\<forall>x. P < x \<and> x \<le> P + n \<longrightarrow> there' x = None" using n(5) "3.prems"(2) le by force
  ultimately show ?case using n by auto
qed auto

section \<open>Positions\<close>

lemma mod_dist:
  fixes P x :: int
  assumes "P < x" "x \<le> P + 65535" shows "(x mod 65536 - P) mod 65536 = x - P" "(x - P mod 65536) mod 65536 = x - P"
  using assms by (simp_all add: mod_diff_left_eq mod_diff_right_eq)

lemma mod_eq_near:
  fixes x y :: int
  assumes "\<bar>x - y\<bar> < 65536"
  shows "x mod 65536 = y mod 65536 \<longleftrightarrow> x = y"
  using assms dvd_imp_le_int [of "x - y" 65536] by (auto simp: mod_eq_dvd_iff)

lemma distance_pos: "pos_ok s P \<Longrightarrow> distance s k = (k - P) mod 65536"
  by (simp add: pos_ok_def distance_def present_def uint16Add_mod mod_diff_right_eq)

lemma expect_pos: "pos_ok s P \<Longrightarrow> expectNextSeqNum s = (P + 1) mod 65536"
  by (simp add: pos_ok_def expectNextSeqNum_def present_def uint16Add_mod mod_add_left_eq)

lemma buffer_entry:
  assumes "pos_ok s P" "map_of (rtpBuffer s) k = Some p"
  shows "seq_of p = k" "0 \<le> k" "k < 65536" "0 < (k - P) mod 65536" "(k - P) mod 65536 \<le> 32768"
    "held s P (P + (k - P) mod 65536) = Some p"
proof -
  have e: "(k, p) \<in> set (rtpBuffer s)" using assms(2) by (rule map_of_SomeD)
  then show f: "seq_of p = k" "0 \<le> k" "k < 65536" "0 < (k - P) mod 65536" "(k - P) mod 65536 \<le> 32768"
    using assms(1) by (auto simp: pos_ok_def)
  have "(P + (k - P) mod 65536) mod 65536 = k mod 65536" by (simp add: mod_add_right_eq)
  also have "\<dots> = k" using f by simp
  finally show "held s P (P + (k - P) mod 65536) = Some p" using f assms(2) by (simp add: held_def)
qed

lemma held_Some:
  assumes "pos_ok s P" "held s P x = Some p"
  shows "P < x" "x \<le> P + 32768" "map_of (rtpBuffer s) (x mod 65536) = Some p" "seq_of p = x mod 65536"
  using assms buffer_entry(1) [OF assms(1)] by (auto simp: held_def split: if_splits)

text \<open>A number ahead of the position by more than half the space is not in the buffer.\<close>

lemma far_not_held:
  assumes "pos_ok s P" "P + 32768 < y" "y \<le> P + 65536"
  shows "map_of (rtpBuffer s) (y mod 65536) = None"
proof (rule ccontr)
  assume "map_of (rtpBuffer s) (y mod 65536) \<noteq> None"
  then obtain p where "map_of (rtpBuffer s) (y mod 65536) = Some p" by blast
  note b = buffer_entry(4,5) [OF assms(1) this]
  show False
  proof (cases "y = P + 65536")
    case True
    then show False using b by (simp add: mod_diff_left_eq)
  next
    case False
    then have "(y mod 65536 - P) mod 65536 = y - P" using assms(2,3) by (intro mod_dist) linarith+
    then show False using b assms(2) by linarith
  qed
qed

definition advances :: "jitter_buffer \<Rightarrow> int \<Rightarrow> jitter_buffer \<Rightarrow> int \<Rightarrow> jb_output list \<Rightarrow> bool" where
  "advances s P s' P' out \<longleftrightarrow> pos_ok s' P' \<and> covers_range (held s P) P out P' \<and>
     (\<forall>y. held s' P' y = (if P' < y then held s P y else None)) \<and>
     clockRate s' = clockRate s \<and> latency s' = latency s \<and> bufferSize s' = bufferSize s"

lemma advances_refl: "pos_ok s P \<Longrightarrow> advances s P s P []"
  by (auto simp: advances_def held_def)

lemma advances_trans:
  assumes "advances s P s1 P1 out1" "advances s1 P1 s2 P2 out2"
  shows "advances s P s2 P2 (out1 @ out2)"
proof -
  have c: "covers_range (held s P) P out1 P1" "covers_range (held s1 P1) P1 out2 P2"
    using assms by (auto simp: advances_def)
  have "covers_range (held s P) P1 out2 P2"
    by (rule covers_cong [OF c(2)]) (use assms(1) in \<open>auto simp: advances_def\<close>)
  then show ?thesis
    using assms covers_append [OF c(1)] covers_le [OF c(2)] by (auto simp: advances_def)
qed

lemma take_out_step:
  assumes "pos_ok s P" "held s P x = Some p" "\<And>y. P < y \<Longrightarrow> y < x \<Longrightarrow> held s P y = None"
  shows "pos_ok (take_out (x mod 65536) s) x" "held (take_out (x mod 65536) s) x y = (if x < y then held s P y else None)"
proof -
  note h = held_Some [OF assms(1,2)]
  let ?s = "take_out (x mod 65536) s"
  have e: "seq_of q = k \<and> 0 \<le> k \<and> k < 65536 \<and> 0 < (k - x) mod 65536 \<and> (k - x) mod 65536 \<le> 32768"
    if kq: "(k, q) \<in> set (obj_delete (x mod 65536) (rtpBuffer s))" for k q
  proof -
    have k: "(k, q) \<in> set (rtpBuffer s)" "k \<noteq> x mod 65536" using kq by (auto simp: obj_delete_def)
    have "distinct (map fst (rtpBuffer s))" using assms(1) obj_ok_distinct by (auto simp: pos_ok_def)
    then have m: "map_of (rtpBuffer s) k = Some q" using k(1) by simp
    note b = buffer_entry [OF assms(1) m]
    let ?e = "P + (k - P) mod 65536"
    have ek: "?e mod 65536 = k" using b(2,3) by (simp add: mod_add_right_eq)
    then have "?e \<noteq> x" using k(2) by auto
    then have "x < ?e" using assms(3) [of ?e] b(4,6) by force
    moreover have "(k - x) mod 65536 = (?e - x) mod 65536" by (metis ek mod_diff_left_eq)
    moreover have "?e - x < 32768" using b(5) h(1) by linarith
    ultimately show ?thesis using b(1-3) by simp
  qed
  show "pos_ok ?s x"
    using e assms(1) by (auto simp: pos_ok_def take_out_def obj_delete_ok)
  show "held ?s x y = (if x < y then held s P y else None)"
  proof (cases "x < y \<and> y \<le> x + 32768")
    case True
    have "y mod 65536 \<noteq> x mod 65536" using True mod_eq_near [of y x] by simp
    then have "held ?s x y = map_of (rtpBuffer s) (y mod 65536)"
      using True by (simp add: held_def take_out_def)
    also have "\<dots> = held s P y"
      using True h(1,2) far_not_held [OF assms(1), of y] by (auto simp: held_def)
    finally show ?thesis using True by simp
  next
    case False
    then show ?thesis using h(1) by (auto simp: held_def)
  qed
qed

lemma take_out_advances:
  assumes "pos_ok s P" "held s P x = Some p" "\<And>y. P < y \<Longrightarrow> y < x \<Longrightarrow> held s P y = None"
  shows "advances s P (take_out (x mod 65536) s) x
    ((if x \<noteq> P + 1 then [JbLost ((P + 1) mod 65536) ((x - 1) mod 65536)] else []) @ [JbRtp p])"
proof -
  note h = held_Some [OF assms(1,2)]
  have "\<exists>n > 0. n < 32768 \<and> (x - 1) mod 65536 = (P + n) mod 65536 \<and> (\<forall>y. P < y \<and> y \<le> P + n \<longrightarrow> held s P y = None) \<and>
      P + n + 1 = x" if "x \<noteq> P + 1"
    by (rule exI [of _ "x - 1 - P"]) (use that h assms(3) in auto)
  then have "covers_range (held s P) P ((if x \<noteq> P + 1 then [JbLost ((P + 1) mod 65536) ((x - 1) mod 65536)] else []) @ [JbRtp p]) x"
    using assms(2) by force
  then show ?thesis
    using take_out_step [OF assms] by (simp add: advances_def) (simp add: take_out_def)
qed

section \<open>Releasing\<close>

lemma releaseContinuous_advances:
  "pos_ok s P \<Longrightarrow> releaseContinuous s = (s', out) \<Longrightarrow>
    \<exists>P'. advances s P s' P' out \<and> held s' P' (P' + 1) = None \<and> (\<forall>o' \<in> set out. \<exists>p. o' = JbRtp p)"
proof (induction s arbitrary: P s' out rule: releaseContinuous.induct)
  case (1 s)
  let ?n = "expectNextSeqNum s"
  have n: "?n = (P + 1) mod 65536" by (rule expect_pos [OF "1.prems"(1)])
  show ?case
  proof (cases "map_of (rtpBuffer s) ?n")
    case None
    then have "s' = s" "out = []" using "1.prems"(2) by (auto simp: releaseContinuous.simps [of s])
    then show ?thesis using advances_refl [OF "1.prems"(1)] None n by (intro exI [of _ P]) (simp add: held_def)
  next
    case (Some p)
    obtain s1 out1 where r: "releaseContinuous (take_out ?n s) = (s1, out1)" by fastforce
    have e: "s' = s1" "out = JbRtp p # out1" using "1.prems"(2) Some r by (auto simp: releaseContinuous.simps [of s])
    have h: "held s P (P + 1) = Some p" using Some n by (simp add: held_def)
    note t = take_out_advances [OF "1.prems"(1) h]
    have a: "advances s P (take_out ?n s) (P + 1) [JbRtp p]" using t n by simp
    then have "pos_ok (take_out ?n s) (P + 1)" by (simp add: advances_def)
    from "1.IH" [OF refl Some this r] obtain P' where "advances (take_out ?n s) (P + 1) s1 P' out1"
      "held s1 P' (P' + 1) = None" "\<forall>o' \<in> set out1. \<exists>p. o' = JbRtp p" by blast
    then show ?thesis using advances_trans [OF a] e by (intro exI [of _ P']) auto
  qed
qed

text \<open>\<open>rtps\<close> lists what is held ahead of \<open>Q\<close>, in order.\<close>

definition lists_held :: "jitter_buffer \<Rightarrow> int \<Rightarrow> rtp_packet list \<Rightarrow> int list \<Rightarrow> bool" where
  "lists_held s Q rtps es \<longleftrightarrow> sorted_wrt (<) es \<and> rtps = map (\<lambda>x. the (held s Q x)) es \<and> (\<forall>x. held s Q x \<noteq> None \<longleftrightarrow> x \<in> set es)"

lemma release_loop_advances:
  assumes "pos_ok s Q" "lists_held s Q rtps es" "P \<le> Q" "\<forall>e \<in> set es. e \<le> P + 32768"
    and "release_loop (P mod 65536) limit rtps s = (s', out)"
  shows "\<exists>Q'. advances s Q s' Q' out \<and> (\<forall>y. held s' Q' y \<noteq> None \<longrightarrow> limit < y - P)"
  using assms
proof (induction rtps arbitrary: s Q es s' out)
  case Nil
  then have "es = []" "s' = s" "out = []" by (auto simp: lists_held_def)
  then show ?case using Nil advances_refl [OF Nil(1)] by (intro exI [of _ Q]) (auto simp: lists_held_def)
next
  case (Cons p rtps)
  obtain x es' where es: "es = x # es'" using Cons.prems(2) by (cases es) (auto simp: lists_held_def)
  have l: "sorted_wrt (<) es" "p = the (held s Q x)" "rtps = map (\<lambda>x. the (held s Q x)) es'"
    "\<And>y. held s Q y \<noteq> None \<longleftrightarrow> y \<in> set es" using Cons.prems(2) by (auto simp: lists_held_def es)
  have h: "held s Q x = Some p" using l(4) [of x] l(2) by (auto simp: es)
  note hs = held_Some [OF Cons.prems(1) h]
  have gap: "held s Q y = None" if "Q < y" "y < x" for y
    using l(1) l(4) [of y] that by (auto simp: es)
  have d: "uint16Add (seq_of p) (- (P mod 65536)) = x - P"
    using hs Cons.prems(3,4) mod_dist(1) [of P x] by (simp add: uint16Add_mod es mod_diff_right_eq)
  show ?case
  proof (cases "x - P > limit")
    case True
    then have "s' = s" "out = []" using Cons.prems(5) d by auto
    moreover have "limit < y - P" if "held s Q y \<noteq> None" for y
      using that l(1,4) True by (fastforce simp: es)
    ultimately show ?thesis using advances_refl [OF Cons.prems(1)] by blast
  next
    case False
    obtain s1 out1 where r: "release_loop (P mod 65536) limit rtps (take_out (x mod 65536) s) = (s1, out1)" by fastforce
    have q: "x mod 65536 \<noteq> (Q + 1) mod 65536 \<longleftrightarrow> x \<noteq> Q + 1"
      using mod_eq_near [of x "Q + 1"] hs(1,2) by simp
    have lo: "uint16Add (x mod 65536) (- 1) = (x - 1) mod 65536" by (simp add: uint16Add_mod mod_diff_left_eq)
    have e: "s' = s1" "out = ((if x \<noteq> Q + 1 then [JbLost ((Q + 1) mod 65536) ((x - 1) mod 65536)] else []) @ [JbRtp p]) @ out1"
      using Cons.prems(5) False r
      unfolding release_loop.simps Let_def d unfolding hs(4) lo expect_pos [OF Cons.prems(1)] q by simp_all
    note a = take_out_advances [OF Cons.prems(1) h gap]
    note t = take_out_step [OF Cons.prems(1) h gap]
    have "lists_held (take_out (x mod 65536) s) x rtps es'"
      unfolding lists_held_def
    proof (intro conjI allI)
      show "sorted_wrt (<) es'" using l(1) by (simp add: es)
      show "rtps = map (\<lambda>y. the (held (take_out (x mod 65536) s) x y)) es'" using l(1,3) by (auto simp: t(2) es)
      show "held (take_out (x mod 65536) s) x y \<noteq> None \<longleftrightarrow> y \<in> set es'" for y
        using l(1) l(4) [of y] by (auto simp: t(2) es)
    qed
    from Cons.IH [OF t(1) this _ _ r] obtain Q' where "advances (take_out (x mod 65536) s) x s1 Q' out1"
      "\<forall>y. held s1 Q' y \<noteq> None \<longrightarrow> limit < y - P"
      using Cons.prems(3,4) hs(1) by (auto simp: es)
    then show ?thesis using advances_trans [OF a] e by (intro exI [of _ Q']) blast
  qed
qed

definition exts :: "jitter_buffer \<Rightarrow> int \<Rightarrow> int list" where
  "exts s P = map (\<lambda>p. P + (seq_of p - P) mod 65536) (sortedBuffer s)"

lemma sortedBuffer_held:
  assumes "pos_ok s P"
  shows "lists_held s P (sortedBuffer s) (exts s P)"
proof -
  let ?e = "\<lambda>p. P + (seq_of p - P) mod 65536"
  have dk: "distinct (map fst (rtpBuffer s))" using assms obj_ok_distinct by (auto simp: pos_ok_def)
  have m: "p \<in> set (map snd (rtpBuffer s)) \<longleftrightarrow> map_of (rtpBuffer s) (seq_of p) = Some p" for p
  proof
    assume "p \<in> set (map snd (rtpBuffer s))"
    then obtain k where k: "(k, p) \<in> set (rtpBuffer s)" by auto
    then have "map_of (rtpBuffer s) k = Some p" using dk by simp
    then show "map_of (rtpBuffer s) (seq_of p) = Some p" using buffer_entry(1) [OF assms] by auto
  qed (auto dest!: map_of_SomeD intro: rev_image_eqI)
  have hp: "held s P (?e p) = Some p" if "p \<in> set (sortedBuffer s)" for p
    using that m buffer_entry(6) [OF assms, of "seq_of p" p] by (simp add: sortedBuffer_def)
  have "map (\<lambda>e. seq_of (snd e)) (rtpBuffer s) = map fst (rtpBuffer s)"
    using assms by (intro map_cong) (auto simp: pos_ok_def)
  then have "distinct (map seq_of (map snd (rtpBuffer s)))" using dk unfolding map_map comp_def by (simp only:)
  then have ds: "distinct (map seq_of (sortedBuffer s))"
    unfolding sortedBuffer_def distinct_map [of seq_of] by (simp only: distinct_sort set_sort)
  have inj: "seq_of p = seq_of q" if "p \<in> set (sortedBuffer s)" "q \<in> set (sortedBuffer s)" "?e p = ?e q" for p q
  proof -
    have "held s P (?e q) = Some p" using hp [OF that(1)] unfolding that(3) .
    then show ?thesis using hp [OF that(2)] by simp
  qed
  have de: "distinct (exts s P)"
    using ds inj unfolding exts_def distinct_map by (auto simp: inj_on_def)
  have "sorted (map (\<lambda>p. distance s (seq_of p)) (sortedBuffer s))" by (simp add: sortedBuffer_def)
  then have "sorted (exts s P)"
    by (simp add: exts_def distance_pos [OF assms] sorted_map)
  then have st: "sorted_wrt (<) (exts s P)" using de by (simp add: strict_sorted_iff)
  have "held s P x \<noteq> None \<longleftrightarrow> x \<in> set (exts s P)" for x
  proof
    assume "held s P x \<noteq> None"
    then obtain p where p: "held s P x = Some p" by blast
    note h = held_Some [OF assms p]
    have "x = ?e p" using h mod_dist(1) [of P x] by simp
    moreover have "p \<in> set (sortedBuffer s)" using m [of p] h(3,4) unfolding sortedBuffer_def set_sort by simp
    ultimately show "x \<in> set (exts s P)" unfolding exts_def set_map by (rule image_eqI)
  qed (use hp in \<open>auto simp: exts_def\<close>)
  moreover have "sortedBuffer s = map (\<lambda>x. the (held s P x)) (exts s P)"
    using hp by (simp add: exts_def map_idI)
  ultimately show ?thesis using st by (simp add: lists_held_def)
qed

lemma releaseUntil_advances:
  assumes "pos_ok s P" "releaseUntil sq s = (s', out)"
  shows "\<exists>P'. advances s P s' P' out \<and> (\<forall>y. held s' P' y \<noteq> None \<longrightarrow> (sq - P) mod 65536 < y - P) \<and> held s' P' (P' + 1) = None"
proof -
  obtain s1 out1 where 1: "release_loop (present s) (uint16Add sq (- present s)) (sortedBuffer s) s = (s1, out1)" by fastforce
  obtain s2 out2 where 2: "releaseContinuous s1 = (s2, out2)" by fastforce
  have e: "s' = s2" "out = out1 @ out2" using assms(2) 1 2 by (auto simp: releaseUntil_def)
  have p: "present s = P mod 65536" "uint16Add sq (- (P mod 65536)) = (sq - P) mod 65536"
    using assms(1) by (simp_all add: pos_ok_def present_def uint16Add_mod mod_diff_right_eq)
  have "\<forall>x \<in> set (exts s P). x \<le> P + 32768"
    using sortedBuffer_held [OF assms(1)] unfolding lists_held_def by (metis held_def)
  from release_loop_advances [OF assms(1) sortedBuffer_held [OF assms(1)] _ this 1 [unfolded p]]
  obtain Q where q: "advances s P s1 Q out1" "\<forall>y. held s1 Q y \<noteq> None \<longrightarrow> (sq - P) mod 65536 < y - P" by auto
  then have "pos_ok s1 Q" by (simp add: advances_def)
  from releaseContinuous_advances [OF this 2] obtain P' where c: "advances s1 Q s2 P' out2" "held s2 P' (P' + 1) = None" by blast
  have "held s1 Q y \<noteq> None" if "held s2 P' y \<noteq> None" for y
    using c(1) that by (auto simp: advances_def split: if_splits)
  then show ?thesis using advances_trans [OF q(1) c(1)] q(2) c(2) e by blast
qed

section \<open>Waiting too long, and a full buffer\<close>

lemma fold_latest:
  assumes "\<And>p. w p \<longleftrightarrow> \<not> a p \<and> \<not> b p"
  shows "case fold (\<lambda>p latest. if a p then latest else if b p then latest
      else case latest of None \<Rightarrow> Some (g p) | Some l \<Rightarrow> if d' (g p) > (d' l :: int) then Some (g p) else latest) ps start of
     None \<Rightarrow> start = None \<and> (\<forall>p \<in> set ps. \<not> w p)
   | Some q \<Rightarrow> (start = Some q \<or> (\<exists>p \<in> set ps. w p \<and> q = g p)) \<and> (\<forall>p \<in> set ps. w p \<longrightarrow> d' (g p) \<le> d' q) \<and>
       (\<forall>l. start = Some l \<longrightarrow> d' l \<le> d' q)"
proof (induction ps arbitrary: start)
  case (Cons p ps)
  define l where "l = (if a p then start else if b p then start
      else case start of None \<Rightarrow> Some (g p) | Some l \<Rightarrow> if d' (g p) > d' l then Some (g p) else start)"
  have l: "l = (if w p then (case start of None \<Rightarrow> Some (g p) | Some l \<Rightarrow> if d' (g p) > d' l then Some (g p) else start) else start)"
    using assms by (auto simp: l_def)
  show ?case
    using Cons.IH [of l] unfolding fold_simps(2) l_def [symmetric]
    by (auto simp: l split: option.splits if_splits)
qed (auto split: option.splits)

lemma timeout_props:
  "case findLatestTimeoutSeqNum ts s of
     None \<Rightarrow> \<forall>p \<in> set (map snd (rtpBuffer s)). \<not> has_waited s ts p
   | Some q \<Rightarrow> (\<exists>p \<in> set (map snd (rtpBuffer s)). has_waited s ts p \<and> q = seq_of p) \<and>
       (\<forall>p \<in> set (map snd (rtpBuffer s)). has_waited s ts p \<longrightarrow> distance s (seq_of p) \<le> distance s q)"
  using fold_latest [where w = "has_waited s ts" and a = "\<lambda>p. uint32Gt (time_of p) ts"
      and b = "\<lambda>p. of_int (uint32Add ts (- time_of p)) / of_int (clockRate s) * 1000 \<le> latency s"
      and g = seq_of and d' = "distance s" and ps = "map snd (rtpBuffer s)" and start = None]
  unfolding findLatestTimeoutSeqNum_def [symmetric]
  by (auto simp: has_waited_def split: option.splits)

lemma in_buffer_held:
  assumes "pos_ok s P"
  shows "p \<in> set (map snd (rtpBuffer s)) \<longleftrightarrow> (\<exists>x. held s P x = Some p)"
proof
  assume "p \<in> set (map snd (rtpBuffer s))"
  then obtain k where k: "(k, p) \<in> set (rtpBuffer s)" by auto
  have "distinct (map fst (rtpBuffer s))" using assms obj_ok_distinct by (auto simp: pos_ok_def)
  then have "map_of (rtpBuffer s) k = Some p" using k by simp
  from buffer_entry(6) [OF assms this] show "\<exists>x. held s P x = Some p" by blast
next
  assume "\<exists>x. held s P x = Some p"
  then obtain x where "map_of (rtpBuffer s) (x mod 65536) = Some p" using held_Some [OF assms] by blast
  from map_of_SomeD [OF this] show "p \<in> set (map snd (rtpBuffer s))" by (auto intro: rev_image_eqI)
qed

lemma length_buffer:
  assumes "pos_ok s P" "finite X" "\<And>x. held s P x \<noteq> None \<Longrightarrow> x \<in> X"
  shows "length (rtpBuffer s) \<le> card X"
proof -
  have l: "lists_held s P (sortedBuffer s) (exts s P)" by (rule sortedBuffer_held [OF assms(1)])
  then have "set (exts s P) \<subseteq> X" using assms(3) by (auto simp: lists_held_def)
  then have "card (set (exts s P)) \<le> card X" by (rule card_mono [OF assms(2)])
  moreover have "card (set (exts s P)) = length (exts s P)"
    using l by (simp add: lists_held_def strict_sorted_iff distinct_card)
  ultimately show ?thesis by (simp add: exts_def sortedBuffer_def)
qed

section \<open>One packet\<close>

text \<open>What a packet with the extended number \<open>x\<close> does to a buffer at position \<open>P\<close>.\<close>

definition accept :: "(int \<Rightarrow> rtp_packet option) \<Rightarrow> int \<Rightarrow> int \<Rightarrow> rtp_packet \<Rightarrow> int \<Rightarrow> rtp_packet option" where
  "accept have_pkts P x rtp = (if x \<le> P \<or> have_pkts x \<noteq> None then have_pkts else have_pkts(x \<mapsto> rtp))"

lemma old_packet:
  assumes "\<bar>x - P\<bar> < 32768"
  shows "uint16Gte (P mod 65536) (x mod 65536) \<longleftrightarrow> x \<le> P"
proof -
  have "uint16Gt (P mod 65536) (x mod 65536) \<longleftrightarrow> x < P"
    using u16.gt_offset [of 0 "x - P" P] assms by (simp add: abs_less_iff)
  moreover have "P mod 65536 = x mod 65536 \<longleftrightarrow> P = x" using assms by (intro mod_eq_near) linarith
  ultimately show ?thesis by (auto simp: uint16Gte_def)
qed

lemma put_held:
  assumes "pos_ok s P" "P < x" "x < P + 32768" "seq_of rtp = x mod 65536"
  shows "pos_ok (s\<lparr>rtpBuffer := obj_put (seq_of rtp) rtp (rtpBuffer s)\<rparr>) P"
    "held (s\<lparr>rtpBuffer := obj_put (seq_of rtp) rtp (rtpBuffer s)\<rparr>) P = (held s P)(x \<mapsto> rtp)"
proof -
  let ?s = "s\<lparr>rtpBuffer := obj_put (seq_of rtp) rtp (rtpBuffer s)\<rparr>"
  have d: "(x mod 65536 - P) mod 65536 = x - P" using assms by (intro mod_dist) linarith+
  show "pos_ok ?s P"
    using assms d obj_put_set(1) [of "x mod 65536" rtp "rtpBuffer s"]
    by (auto simp: pos_ok_def obj_put_ok dest!: subsetD)
  show "held ?s P = (held s P)(x \<mapsto> rtp)"
  proof
    fix y
    have "y mod 65536 = x mod 65536 \<longleftrightarrow> y = x" if "P < y" "y \<le> P + 32768"
      using that assms(2,3) by (intro mod_eq_near) linarith
    then show "held ?s P y = ((held s P)(x \<mapsto> rtp)) y"
      using assms by (auto simp: held_def)
  qed
qed

lemma overflow_release:
  assumes pos: "pos_ok s P" and n: "bufferSize s < length (sortedBuffer s)"
    and run: "releaseUntil (seq_of (sortedBuffer s ! (length (sortedBuffer s) - bufferSize s - 1))) s = (s', out)"
  shows "\<exists>P'. advances s P s' P' out \<and> length (rtpBuffer s') \<le> bufferSize s \<and> held s' P' (P' + 1) = None"
proof -
  let ?es = "exts s P" and ?i = "length (sortedBuffer s) - bufferSize s - 1"
  have l: "sorted_wrt (<) ?es" "\<And>x. held s P x \<noteq> None \<longleftrightarrow> x \<in> set ?es" "sortedBuffer s = map (\<lambda>x. the (held s P x)) ?es"
    using sortedBuffer_held [OF pos] by (auto simp: lists_held_def)
  have le: "length ?es = length (sortedBuffer s)" by (simp add: exts_def)
  have i: "?i < length ?es" using n le by simp
  obtain p where p: "held s P (?es ! ?i) = Some p" using l(2) nth_mem [OF i] by blast
  note h = held_Some [OF pos p]
  have "sortedBuffer s ! ?i = p" using l(3) i p by (metis (no_types) nth_map option.sel)
  then have q: "(seq_of (sortedBuffer s ! ?i) - P) mod 65536 = ?es ! ?i - P"
    using h mod_dist(1) [of P "?es ! ?i"] by simp
  obtain P' where r: "advances s P s' P' out" "\<forall>y. held s' P' y \<noteq> None \<longrightarrow> ?es ! ?i - P < y - P" "held s' P' (P' + 1) = None"
    using releaseUntil_advances [OF pos run] unfolding q by blast
  have "y \<in> set (drop (Suc ?i) ?es)" if y: "held s' P' y \<noteq> None" for y
  proof -
    have "held s P y \<noteq> None" using y r(1) by (auto simp: advances_def split: if_splits)
    then obtain j where j: "j < length ?es" "?es ! j = y" using l(2) by (auto simp: in_set_conv_nth)
    have "?es ! ?i < ?es ! j" using r(2) y j by force
    then have "?i < j" using l(1) i j by (metis linorder_neqE_nat order_less_asym sorted_wrt_nth_less)
    then have "drop (Suc ?i) ?es ! (j - Suc ?i) = y" "j - Suc ?i < length (drop (Suc ?i) ?es)" using j by auto
    then show ?thesis by (metis nth_mem)
  qed
  then have "length (rtpBuffer s') \<le> card (set (drop (Suc ?i) ?es))"
    using r(1) by (intro length_buffer) (auto simp: advances_def)
  also have "\<dots> \<le> length (drop (Suc ?i) ?es)" by (rule card_length)
  also have "\<dots> = bufferSize s" using n le by simp
  finally show ?thesis using r by blast
qed

lemma timeout_release:
  assumes pos: "pos_ok s P" and nx: "held s P (P + 1) = None"
    and run: "(case findLatestTimeoutSeqNum ts s of None \<Rightarrow> (s, []) | Some q \<Rightarrow> releaseUntil q s) = (s', out)"
  shows "\<exists>P'. advances s P s' P' out \<and> held s' P' (P' + 1) = None \<and>
    (\<forall>y p. held s' P' y = Some p \<longrightarrow> \<not> has_waited s ts p) \<and>
    ((\<forall>y p. held s P y = Some p \<longrightarrow> \<not> has_waited s ts p) \<longrightarrow> s' = s \<and> out = [])"
proof (cases "findLatestTimeoutSeqNum ts s")
  case None
  then have e: "s' = s" "out = []" using run by auto
  have "\<not> has_waited s ts p" if "held s P y = Some p" for y p
  proof -
    have "p \<in> set (map snd (rtpBuffer s))" using in_buffer_held [OF pos] that by blast
    then show ?thesis using timeout_props [where ts = ts and s = s] unfolding None option.case by blast
  qed
  then show ?thesis using advances_refl [OF pos] nx e by blast
next
  case (Some q)
  then have r: "releaseUntil q s = (s', out)" using run by simp
  obtain P' where a: "advances s P s' P' out" "\<forall>y. held s' P' y \<noteq> None \<longrightarrow> (q - P) mod 65536 < y - P" "held s' P' (P' + 1) = None"
    using releaseUntil_advances [OF pos r] by blast
  have w: "\<exists>p x. held s P x = Some p \<and> has_waited s ts p"
    "\<And>p x. held s P x = Some p \<Longrightarrow> has_waited s ts p \<Longrightarrow> distance s (seq_of p) \<le> distance s q"
    using timeout_props [where ts = ts and s = s] unfolding Some option.case using in_buffer_held [OF pos] by blast+
  have "\<not> has_waited s ts p" if y: "held s' P' y = Some p" for y p
  proof
    assume hw: "has_waited s ts p"
    have hp: "held s P y = Some p" using y a(1) by (auto simp: advances_def split: if_splits)
    note h = held_Some [OF pos hp]
    have "(seq_of p - P) mod 65536 = y - P" using h mod_dist(1) [of P y] by simp
    then have "y - P \<le> (q - P) mod 65536" using w(2) [OF hp hw] by (simp add: distance_pos [OF pos])
    then show False using a(2) y by force
  qed
  then show ?thesis using a w(1) by blast
qed

lemma has_waited_cong: "clockRate s' = clockRate s \<Longrightarrow> latency s' = latency s \<Longrightarrow> has_waited s' ts p = has_waited s ts p"
  by (simp add: has_waited_def)

lemma processRtp_step:
  assumes pos: "pos_ok s P" and x: "seq_of rtp = x mod 65536" "\<bar>x - P\<bar> < 32768"
    and nx: "held s P (P + 1) = None" and sz: "length (rtpBuffer s) \<le> bufferSize s"
    and run: "processRtp rtp s = (s', out)"
  shows "\<exists>P'. pos_ok s' P' \<and> covers_range (accept (held s P) P x rtp) P out P' \<and>
    (\<forall>y. held s' P' y = (if P' < y then accept (held s P) P x rtp y else None)) \<and>
    clockRate s' = clockRate s \<and> latency s' = latency s \<and> bufferSize s' = bufferSize s \<and>
    held s' P' (P' + 1) = None \<and> length (rtpBuffer s') \<le> bufferSize s \<and>
    (P < x \<and> held s P x = None \<longrightarrow> (\<forall>y p. held s' P' y = Some p \<longrightarrow> \<not> has_waited s (time_of rtp) p)) \<and>
    ((\<forall>y p. accept (held s P) P x rtp y = Some p \<longrightarrow> \<not> has_waited s (time_of rtp) p) \<and>
       length (rtpBuffer s) < bufferSize s \<longrightarrow> (\<forall>o' \<in> set out. \<exists>p. o' = JbRtp p))"
proof -
  have pr: "presentSeqNum s = Some (P mod 65536)" using pos by (simp add: pos_ok_def)
  have in_buf: "map_of (rtpBuffer s) (x mod 65536) \<noteq> None \<longleftrightarrow> held s P x \<noteq> None" if "P < x"
    using that x(2) by (simp add: held_def)
  note old = old_packet [OF x(2)]
  show ?thesis
  proof (cases "x \<le> P \<or> held s P x \<noteq> None")
    case True
    then have "uint16Gte (P mod 65536) (x mod 65536) \<or> map_of (rtpBuffer s) (x mod 65536) \<noteq> None"
      using old in_buf by fastforce
    then have "s' = s" "out = []" using run by (simp_all add: processRtp_def pr x(1) Let_def split: if_splits)
    then show ?thesis using True pos nx sz by (intro exI [of _ P]) (auto simp: accept_def held_def)
  next
    case False
    then have px: "P < x" and hx: "held s P x = None" by auto
    let ?s = "s\<lparr>rtpBuffer := obj_put (seq_of rtp) rtp (rtpBuffer s)\<rparr>"
    note put = put_held [OF pos px _ x(1)]
    have p0: "pos_ok ?s P" and h0: "held ?s P = accept (held s P) P x rtp"
      using put x(2) px hx by (simp_all add: accept_def)
    obtain s1 out1 where 1: "releaseContinuous ?s = (s1, out1)" by fastforce
    obtain s2 out2 where 2: "(case findLatestTimeoutSeqNum (time_of rtp) s1 of None \<Rightarrow> (s1, []) | Some q \<Rightarrow> releaseUntil q s1) = (s2, out2)"
      by fastforce
    define b where "b = sortedBuffer s2"
    obtain s3 out3 where 3: "(if length b > bufferSize s2 then releaseUntil (seq_of (b ! (length b - bufferSize s2 - 1))) s2 else (s2, [])) = (s3, out3)"
      by fastforce
    have c: "\<not> (uint16Gte (P mod 65536) (seq_of rtp) \<or> map_of (rtpBuffer s) (seq_of rtp) \<noteq> None)"
      using old in_buf [OF px] px hx by (simp add: x(1))
    have "processRtp rtp s = (s3, out1 @ out2 @ out3)"
      unfolding processRtp_def Let_def pr option.case if_not_P [OF c] 1 prod.case 2 3 [unfolded b_def] ..
    then have e: "s' = s3" "out = out1 @ out2 @ out3" using run by simp_all
    obtain P1 where a1: "advances ?s P s1 P1 out1" "held s1 P1 (P1 + 1) = None" "\<forall>o' \<in> set out1. \<exists>p. o' = JbRtp p"
      using releaseContinuous_advances [OF p0 1] by blast
    then have p1: "pos_ok s1 P1" by (simp add: advances_def)
    obtain P2 where a2: "advances s1 P1 s2 P2 out2" "held s2 P2 (P2 + 1) = None"
      "\<forall>y p. held s2 P2 y = Some p \<longrightarrow> \<not> has_waited s1 (time_of rtp) p"
      "(\<forall>y p. held s1 P1 y = Some p \<longrightarrow> \<not> has_waited s1 (time_of rtp) p) \<longrightarrow> s2 = s1 \<and> out2 = []"
      using timeout_release [OF p1 a1(2) 2] by blast
    then have p2: "pos_ok s2 P2" by (simp add: advances_def)
    have lb: "length b = length (rtpBuffer s2)" by (simp add: b_def sortedBuffer_def)
    have "\<exists>P3. advances s2 P2 s3 P3 out3 \<and> held s3 P3 (P3 + 1) = None \<and> length (rtpBuffer s3) \<le> bufferSize s2 \<and>
        (length (rtpBuffer s2) \<le> bufferSize s2 \<longrightarrow> out3 = [])"
    proof (cases "length b > bufferSize s2")
      case True
      then have r: "releaseUntil (seq_of (sortedBuffer s2 ! (length (sortedBuffer s2) - bufferSize s2 - 1))) s2 = (s3, out3)"
        using 3 by (simp add: b_def)
      show ?thesis using overflow_release [OF p2 _ r] True lb by (auto simp: b_def)
    next
      case False
      then show ?thesis using 3 lb advances_refl [OF p2] a2(2) by auto
    qed
    then obtain P3 where a3: "advances s2 P2 s3 P3 out3" "held s3 P3 (P3 + 1) = None" "length (rtpBuffer s3) \<le> bufferSize s2"
      "length (rtpBuffer s2) \<le> bufferSize s2 \<longrightarrow> out3 = []" by blast
    have a: "advances ?s P s3 P3 (out1 @ out2 @ out3)"
      using advances_trans [OF a1(1) advances_trans [OF a2(1) a3(1)]] .
    have cfg: "clockRate s1 = clockRate s" "latency s1 = latency s" "bufferSize s1 = bufferSize s" "bufferSize s2 = bufferSize s"
      using a1(1) a2(1) by (auto simp: advances_def)
    have hw: "has_waited s1 ts p = has_waited s ts p" for ts p using has_waited_cong cfg by blast
    have w3: "\<not> has_waited s (time_of rtp) p" if "held s3 P3 y = Some p" for y p
    proof -
      have "held s2 P2 y = Some p" using that a3(1) by (auto simp: advances_def split: if_splits)
      then show ?thesis using a2(3) hw by blast
    qed
    have only: "\<forall>o' \<in> set out. \<exists>p. o' = JbRtp p"
      if q: "\<forall>y p. accept (held s P) P x rtp y = Some p \<longrightarrow> \<not> has_waited s (time_of rtp) p" "length (rtpBuffer s) < bufferSize s"
    proof -
      have "\<not> has_waited s1 (time_of rtp) p" if "held s1 P1 y = Some p" for y p
      proof -
        have "held ?s P y = Some p" using that a1(1) by (auto simp: advances_def split: if_splits)
        then show ?thesis using q(1) hw h0 by metis
      qed
      then have o2: "s2 = s1" "out2 = []" using a2(4) by blast+
      have "length (rtpBuffer s1) \<le> card (dom (held ?s P))"
      proof (rule length_buffer [OF p1])
        have "dom (held ?s P) \<subseteq> {P<..P + 32768}" by (auto simp: held_def split: if_splits)
        then show "finite (dom (held ?s P))" by (rule finite_subset) simp
        fix y assume "held s1 P1 y \<noteq> None"
        then show "y \<in> dom (held ?s P)" using a1(1) by (auto simp: advances_def split: if_splits)
      qed
      also have "\<dots> \<le> Suc (length (rtpBuffer s))"
      proof -
        have "dom (held ?s P) = set (exts ?s P)" using sortedBuffer_held [OF p0] by (auto simp: lists_held_def)
        then have "card (dom (held ?s P)) \<le> length (exts ?s P)" by (simp add: card_length)
        also have "\<dots> = length (rtpBuffer ?s)" by (simp add: exts_def sortedBuffer_def)
        also have "\<dots> \<le> Suc (length (rtpBuffer s))" using obj_put_length by simp
        finally show ?thesis .
      qed
      finally have "out3 = []" using a3(4) o2(1) cfg q(2) by simp
      then show ?thesis using e(2) o2(2) a1(3) by simp
    qed
    show ?thesis
      using a a3(2,3) w3 only cfg(4) unfolding e(1) e(2) [symmetric] advances_def h0 by auto
  qed
qed

section \<open>A whole stream\<close>

fun packets_of :: "jb_output list \<Rightarrow> rtp_packet list" where
  "packets_of [] = []"
| "packets_of (JbRtp p # out) = p # packets_of out"
| "packets_of (_ # out) = packets_of out"

lemma covers_end: "covers_range there P out P' \<Longrightarrow> P < P' \<Longrightarrow> there P' \<noteq> None"
proof (induction there P out P' rule: covers_range.induct)
  case (2 there P p out P')
  then show ?case by (cases "P + 1 = P'") (use covers_le [of there "P + 1" out P'] in auto)
next
  case (3 there P f t out P')
  then obtain n where n: "0 < n" "case out of JbRtp _ # _ \<Rightarrow> True | _ \<Rightarrow> False" "covers_range there (P + n) out P'" by auto
  then have "P + n < P'" by (auto split: list.splits jb_output.splits dest: covers_le)
  then show ?case using "3.IH" [OF n(3)] by blast
qed auto

lemma covers_packets:
  "covers_range there P out P' \<Longrightarrow> packets_of out = map (\<lambda>x. the (there x)) (filter (\<lambda>x. there x \<noteq> None) [P + 1..P'])"
proof (induction there P out P' rule: covers_range.induct)
  case (2 there P p out P')
  then have "P + 1 \<le> P'" using covers_le by auto
  then have "[P + 1..P'] = (P + 1) # [P + 1 + 1..P']" by (rule upto_rec1)
  then show ?case using 2 by simp
next
  case (3 there P f t out P')
  then obtain n where n: "0 < n" "\<forall>x. P < x \<and> x \<le> P + n \<longrightarrow> there x = None" "covers_range there (P + n) out P'" by auto
  have "[P + 1..P'] = [P + 1..P + n] @ [P + n + 1..P']"
    using covers_le [OF n(3)] n(1) by (intro upto_split2) auto
  moreover have "filter (\<lambda>x. there x \<noteq> None) [P + 1..P + n] = []" using n(2) by (auto simp: filter_empty_conv)
  ultimately show ?case using "3.IH" [OF n(3)] by simp
qed auto

text \<open>The life of a buffer.  \<open>R\<close> holds the packets accepted so far by their extended numbers, \<open>P\<close>
  is the position on that line (computed from the 16-bit one), \<open>x0\<close> the number of the first packet
  and \<open>outs\<close> the whole output.  A packet arrives with a number within half the number space of the
  position; it is not accepted when that number was passed or is there already.\<close>

inductive jb_exec :: "int \<Rightarrow> jitter_buffer \<Rightarrow> int \<Rightarrow> (int \<Rightarrow> rtp_packet option) \<Rightarrow> jb_output list \<Rightarrow> bool" where
  first: "presentSeqNum s0 = None \<Longrightarrow> rtpBuffer s0 = [] \<Longrightarrow> seq_of rtp = x mod 65536 \<Longrightarrow> processInput (Some rtp) eol s0 = (s, out) \<Longrightarrow>
    jb_exec x s x [x \<mapsto> rtp] out"
| arrival: "jb_exec x0 s P R outs \<Longrightarrow> seq_of rtp = x mod 65536 \<Longrightarrow> \<bar>x - P\<bar> < 32768 \<Longrightarrow>
    processInput (Some rtp) eol s = (s', out) \<Longrightarrow> P' = P + (present s' - present s) mod 65536 \<Longrightarrow>
    jb_exec x0 s' P' (accept R P x rtp) (outs @ out)"

definition jb_state :: "jitter_buffer \<Rightarrow> int \<Rightarrow> (int \<Rightarrow> rtp_packet option) \<Rightarrow> bool" where
  "jb_state s P R \<longleftrightarrow> pos_ok s P \<and> (\<forall>y. held s P y = (if P < y then R y else None)) \<and> R (P + 1) = None \<and>
     length (rtpBuffer s) \<le> bufferSize s"

lemma jb_state_step:
  assumes st: "jb_state s P R" and x: "seq_of rtp = x mod 65536" "\<bar>x - P\<bar> < 32768" and run: "processRtp rtp s = (s', out)"
  shows "\<exists>P'. jb_state s' P' (accept R P x rtp) \<and> covers_range (accept R P x rtp) P out P' \<and>
    P' = P + (present s' - present s) mod 65536 \<and> bufferSize s' = bufferSize s \<and>
    (P < x \<and> R x = None \<longrightarrow> (\<forall>y p. P' < y \<and> accept R P x rtp y = Some p \<longrightarrow> \<not> has_waited s (time_of rtp) p)) \<and>
    ((\<forall>y p. P < y \<and> accept R P x rtp y = Some p \<longrightarrow> \<not> has_waited s (time_of rtp) p) \<and> length (rtpBuffer s) < bufferSize s \<longrightarrow>
       (\<forall>o' \<in> set out. \<exists>p. o' = JbRtp p))"
proof -
  have pos: "pos_ok s P" and h: "\<And>y. held s P y = (if P < y then R y else None)" and nx: "held s P (P + 1) = None"
    and sz: "length (rtpBuffer s) \<le> bufferSize s" using st by (auto simp: jb_state_def)
  have acc: "accept (held s P) P x rtp y = (if P < y then accept R P x rtp y else None)" for y
    by (auto simp: accept_def h)
  obtain P' where p': "pos_ok s' P'" "covers_range (accept (held s P) P x rtp) P out P'"
    "\<And>y. held s' P' y = (if P' < y then accept (held s P) P x rtp y else None)"
    "bufferSize s' = bufferSize s" "held s' P' (P' + 1) = None" "length (rtpBuffer s') \<le> bufferSize s"
    "P < x \<and> held s P x = None \<longrightarrow> (\<forall>y p. held s' P' y = Some p \<longrightarrow> \<not> has_waited s (time_of rtp) p)"
    "(\<forall>y p. accept (held s P) P x rtp y = Some p \<longrightarrow> \<not> has_waited s (time_of rtp) p) \<and>
       length (rtpBuffer s) < bufferSize s \<longrightarrow> (\<forall>o' \<in> set out. \<exists>p. o' = JbRtp p)"
    using processRtp_step [OF pos x nx sz run] by blast
  have le: "P \<le> P'" using covers_le [OF p'(2)] .
  have "P' \<le> P + 32768"
  proof (cases "P = P'")
    case False
    then have "accept (held s P) P x rtp P' \<noteq> None" using covers_end [OF p'(2)] le by simp
    then show ?thesis using x(2) by (auto simp: accept_def held_def split: if_splits)
  qed auto
  then have "P' = P + (present s' - present s) mod 65536"
    using pos p'(1) le by (simp add: pos_ok_def present_def mod_diff_eq)
  moreover have "covers_range (accept R P x rtp) P out P'" by (rule covers_cong [OF p'(2)]) (simp add: acc)
  moreover have h': "held s' P' y = (if P' < y then accept R P x rtp y else None)" for y
    using p'(3) [of y] le by (simp add: acc)
  moreover have "accept R P x rtp (P' + 1) = None" using h' [of "P' + 1"] p'(5) by simp
  ultimately show ?thesis
    using p'(1,4,6,7,8) h acc unfolding jb_state_def by (intro exI [of _ P']) (auto split: if_splits)
qed

lemma jb_exec_inv: "jb_exec x0 s P R outs \<Longrightarrow> jb_state s P R \<and> covers_range R (x0 - 1) outs P"
proof (induction rule: jb_exec.induct)
  case (first s0 rtp x eol s out)
  then have s: "s = s0\<lparr>presentSeqNum := Some (x mod 65536)\<rparr>" "out = [JbRtp rtp]"
    by (auto simp: processInput_def processRtp_def Let_def)
  then show ?case using first(2) by (auto simp: jb_state_def pos_ok_def held_def)
next
  case (arrival x0 s P R outs rtp x eol s' out P')
  have run: "processRtp rtp s = (s', out)" using arrival.hyps by (simp add: processInput_def)
  from jb_state_step [OF _ arrival.hyps(2,3) run] arrival
  have st: "jb_state s' P' (accept R P x rtp)" "covers_range (accept R P x rtp) P out P'" by auto
  have "covers_range (accept R P x rtp) (x0 - 1) outs P"
    by (rule covers_cong [of R]) (use arrival in \<open>auto simp: accept_def\<close>)
  then show ?case using st covers_append by blast
qed

text \<open>C23: the jitter buffer puts out exactly what it accepted, once and in order.  However packets
  arrive (each within half the number space of the output position), the packets put out are
  precisely the accepted ones up to the position, in the order of their unbounded sequence
  numbers, across any wrap; every number passed is either put out or in exactly one range
  reported lost, which holds no accepted packet and is directly followed by a packet; the accepted
  packets beyond the position are the ones in the buffer, never more than its size, and the one
  right behind the position is not among them.\<close>

theorem jitter_exactly_once:
  assumes "jb_exec x0 s P R outs"
  shows "packets_of outs = map (\<lambda>x. the (R x)) (filter (\<lambda>x. R x \<noteq> None) [x0..P]) \<and>
    covers_range R (x0 - 1) outs P \<and>
    (\<forall>x > P. held s P x = R x) \<and> R (P + 1) = None \<and> length (rtpBuffer s) \<le> bufferSize s"
  using jb_exec_inv [OF assms] covers_packets [of R "x0 - 1" outs P] by (simp add: jb_state_def)

text \<open>Nothing stays behind.  At the end of the stream everything still held is put out in order,
  so that the whole output consists of all packets ever accepted.\<close>

theorem jitter_flush:
  assumes "jb_exec x0 s P R outs" "processInput None True s = (s', out)"
  shows "\<exists>P'. covers_range R (x0 - 1) (outs @ out) P' \<and> (\<forall>x > P'. R x = None) \<and> rtpBuffer s' = [] \<and> last out = JbEol \<and>
    packets_of (outs @ out) = map (\<lambda>x. the (R x)) (filter (\<lambda>x. R x \<noteq> None) [x0..P'])"
proof -
  have st: "jb_state s P R" "covers_range R (x0 - 1) outs P" using jb_exec_inv [OF assms(1)] by auto
  have pos: "pos_ok s P" and h: "\<And>y. held s P y = (if P < y then R y else None)" using st(1) by (auto simp: jb_state_def)
  have l: "sorted_wrt (<) (exts s P)" "\<And>x. held s P x \<noteq> None \<longleftrightarrow> x \<in> set (exts s P)"
    "sortedBuffer s = map (\<lambda>x. the (held s P x)) (exts s P)" using sortedBuffer_held [OF pos] by (auto simp: lists_held_def)
  have "\<exists>P' out'. covers_range (held s P) P out' P' \<and> (\<forall>x > P'. held s P x = None) \<and> out = out' @ [JbEol]"
  proof (cases "sortedBuffer s = []")
    case True
    then have "\<forall>x. held s P x = None" using l(2,3) by simp
    moreover have "out = [JbEol]" using assms(2) True by (auto simp: processInput_def processEol_def)
    ultimately show ?thesis by (intro exI [of _ P] exI [of _ "[]"]) simp
  next
    case False
    obtain s1 out1 where r1: "releaseUntil (seq_of (last (sortedBuffer s))) s = (s1, out1)" by fastforce
    have "out = out1 @ [JbEol]" using assms(2) False r1 by (auto simp: processInput_def processEol_def Let_def)
    with r1 have r: "releaseUntil (seq_of (last (sortedBuffer s))) s = (s1, out1)" "out = out1 @ [JbEol]" .
    let ?x = "last (exts s P)"
    have ne: "exts s P \<noteq> []" using False by (simp add: exts_def)
    then have lx: "held s P ?x \<noteq> None" using l(2) by simp
    then obtain p where p: "held s P ?x = Some p" by blast
    note hp = held_Some [OF pos p]
    have "last (sortedBuffer s) = p" using l(3) ne p by (simp add: last_map)
    then have q: "(seq_of (last (sortedBuffer s)) - P) mod 65536 = ?x - P" using hp mod_dist(1) [of P ?x] by simp
    obtain P' where a: "advances s P s1 P' out1" "\<forall>y. held s1 P' y \<noteq> None \<longrightarrow> ?x - P < y - P"
      using releaseUntil_advances [OF pos r(1)] unfolding q by blast
    have "held s P x = None" if "P' < x" for x
    proof (rule ccontr)
      assume n: "held s P x \<noteq> None"
      then have "held s1 P' x \<noteq> None" using a(1) that by (auto simp: advances_def)
      then have "?x < x" using a(2) by force
      moreover have "sorted_wrt (<) (butlast (exts s P) @ [?x])" "x \<in> set (butlast (exts s P) @ [?x])"
        using n l(1,2) ne by simp_all
      then have "x \<le> ?x" by (auto simp: sorted_wrt_append)
      ultimately show False by simp
    qed
    then show ?thesis using a(1) r(2) by (auto simp: advances_def)
  qed
  then obtain P' out' where o: "covers_range (held s P) P out' P'" "\<forall>x > P'. held s P x = None" "out = out' @ [JbEol]" by blast
  have "covers_range R P out' P'" by (rule covers_cong [OF o(1)]) (simp add: h)
  from covers_append [OF st(2) this] have c: "covers_range R (x0 - 1) (outs @ out') P'" .
  then have c': "covers_range R (x0 - 1) (outs @ out) P'" using covers_append [of R "x0 - 1" "outs @ out'" P' "[JbEol]" P'] o(3) by simp
  have "R x = None" if "P' < x" for x
    using o(2) that h [of x] covers_le [OF o(1)] by auto
  moreover have "rtpBuffer s' = []" using assms(2) by (auto simp: processInput_def processEol_def jb_stop_def Let_def case_prod_beta)
  ultimately show ?thesis using c' o(3) covers_packets [OF c'] by (intro exI [of _ P']) simp
qed

text \<open>C24: a missing packet is given up for a reason.  When a new packet arrives and no packet held
  (itself included) has waited longer than the latency by its timestamp, and the buffer has room,
  no loss is reported; and afterwards no packet in the buffer has waited longer than that.\<close>

theorem jitter_gives_up_only_late:
  assumes "jb_exec x0 s P R outs" "seq_of rtp = x mod 65536" "P < x" "x < P + 32768" "R x = None"
    and "processInput (Some rtp) eol s = (s', out)"
  defines "R' \<equiv> R(x \<mapsto> rtp)" and "P' \<equiv> P + (present s' - present s) mod 65536"
  shows "((\<forall>y p. P < y \<and> R' y = Some p \<longrightarrow> \<not> has_waited s (time_of rtp) p) \<and> length (rtpBuffer s) < bufferSize s \<longrightarrow>
      (\<forall>o' \<in> set out. \<exists>p. o' = JbRtp p)) \<and>
    (\<forall>y p. P' < y \<and> R' y = Some p \<longrightarrow> \<not> has_waited s (time_of rtp) p)"
proof -
  have run: "processRtp rtp s = (s', out)" using assms(6) by (simp add: processInput_def)
  have a: "\<bar>x - P\<bar> < 32768" using assms(3,4) by simp
  have acc: "accept R P x rtp = R'" using assms(3,5) by (simp add: accept_def R'_def)
  show ?thesis
    using jb_state_step [OF conjunct1 [OF jb_exec_inv [OF assms(1)]] assms(2) a run, unfolded acc] assms(3,5)
    unfolding P'_def by blast
qed

definition jb_sample :: "int \<Rightarrow> int \<Rightarrow> rtp_packet" where
  "jb_sample sq ts = \<lparr>header = new_RtpHeader\<lparr>sequenceNumber := sq, timestamp := ts\<rparr>, payload = []\<rparr>"

lemma jb_sample_simps [simp]: "seq_of (jb_sample sq ts) = sq" "time_of (jb_sample sq ts) = ts"
  by (simp_all add: jb_sample_def)

lemmas jb_eval = processInput_def processRtp_def new_JitterBufferBase_def releaseContinuous.simps expectNextSeqNum_def
  present_def uint16Add_mod uint16Gte_def uint16Gt_def findLatestTimeoutSeqNum_def take_out_def obj_delete_def
  sortedBuffer_def distance_def uint32Gt_def uint32Add_mod Let_def accept_def


text \<open>Three packets across the wrap, the second of which overtakes the third.\<close>

definition sample_buffer :: "jitter_buffer" where
  "sample_buffer = (new_JitterBufferBase 90000 None None)\<lparr>presentSeqNum := Some 65534\<rparr>"

lemma sample_exec:
  "jb_exec 65534 (sample_buffer\<lparr>rtpBuffer := [(0, jb_sample 0 2)]\<rparr>) 65534 [65534 \<mapsto> jb_sample 65534 0, 65536 \<mapsto> jb_sample 0 2]
     [JbRtp (jb_sample 65534 0)]"
proof -
  have 1: "jb_exec 65534 sample_buffer 65534 [65534 \<mapsto> jb_sample 65534 0] [JbRtp (jb_sample 65534 0)]"
    using jb_exec.first [of "new_JitterBufferBase 90000 None None" "jb_sample 65534 0" 65534 False sample_buffer "[JbRtp (jb_sample 65534 0)]"]
    by (simp add: jb_eval sample_buffer_def)
  have "jb_exec 65534 (sample_buffer\<lparr>rtpBuffer := [(0, jb_sample 0 2)]\<rparr>) 65534
      (accept [65534 \<mapsto> jb_sample 65534 0] 65534 65536 (jb_sample 0 2)) ([JbRtp (jb_sample 65534 0)] @ [])"
    by (rule jb_exec.arrival [OF 1, where eol = False]) (simp_all add: jb_eval sample_buffer_def)
  then show ?thesis by (simp add: accept_def)
qed

theorem jitter_exactly_once_witness:
  "packets_of [JbRtp (jb_sample 65534 0)] = [jb_sample 65534 0] \<and>
   held (sample_buffer\<lparr>rtpBuffer := [(0, jb_sample 0 2)]\<rparr>) 65534 65536 = Some (jb_sample 0 2)"
  using jitter_exactly_once [OF sample_exec] by simp

theorem jitter_flush_witness:
  "\<exists>s' out P'. processInput None True (sample_buffer\<lparr>rtpBuffer := [(0, jb_sample 0 2)]\<rparr>) = (s', out) \<and>
     (\<forall>x > P'. [65534 :: int \<mapsto> jb_sample 65534 0, 65536 \<mapsto> jb_sample 0 2] x = None) \<and> rtpBuffer s' = [] \<and> last out = JbEol"
proof -
  obtain s' out where r: "processInput None True (sample_buffer\<lparr>rtpBuffer := [(0, jb_sample 0 2)]\<rparr>) = (s', out)" by fastforce
  from jitter_flush [OF sample_exec r] show ?thesis using r by blast
qed

theorem jitter_gives_up_only_late_witness:
  "\<exists>s' out. processInput (Some (jb_sample 3 5)) False (sample_buffer\<lparr>rtpBuffer := [(0, jb_sample 0 2)]\<rparr>) = (s', out) \<and>
     (\<forall>o' \<in> set out. \<exists>p. o' = JbRtp p)"
proof -
  let ?s = "sample_buffer\<lparr>rtpBuffer := [(0, jb_sample 0 2)]\<rparr>"
  obtain s' out where r: "processInput (Some (jb_sample 3 5)) False ?s = (s', out)" by fastforce
  have "\<forall>o' \<in> set out. \<exists>p. o' = JbRtp p"
    using jitter_gives_up_only_late [OF sample_exec, of "jb_sample 3 5" 65539, OF _ _ _ _ r]
    by (auto simp: has_waited_def sample_buffer_def new_JitterBufferBase_def uint32Add_mod split: if_splits)
  then show ?thesis using r by blast
qed

end
