(* ===== verification/Bit_Stream.thy ===== *)
theory Bit_Stream
  imports Binary
begin

unbundle bit_operations_syntax

text \<open>
  The class \<^verbatim>\<open>BitStream\<close> of \<^verbatim>\<open>packages/common/src/binary.ts\<close>: bit fields written to and read from
  a byte array at a moving position.  A write outside the array is ignored and a read there gives
  0, as for a \<^verbatim>\<open>Buffer\<close>.  Fields are at most 31 bits wide (the code shifts 32-bit integers).
  Proved: the fields written are the digits of one number, and reading gives them back.
\<close>

record bit_stream =
  uint8Array :: buffer
  position :: nat
  bitsPending :: nat

definition BitStream :: "buffer \<Rightarrow> bit_stream" where
  "BitStream b = \<lparr>uint8Array = b, position = 0, bitsPending = 0\<rparr>"

definition byte_at :: "bit_stream \<Rightarrow> nat \<Rightarrow> int" where
  "byte_at s i = (if i < length (uint8Array s) then uint (uint8Array s ! i) else 0)"

definition byte_put :: "nat \<Rightarrow> int \<Rightarrow> bit_stream \<Rightarrow> bit_stream" where
  "byte_put i v s = s\<lparr>uint8Array := (uint8Array s)[i := word_of_int v]\<rparr>"

text \<open>One round of \<^verbatim>\<open>writeBits\<close>: the new stream and the number of bits consumed.\<close>

definition write_round :: "nat \<Rightarrow> int \<Rightarrow> bit_stream \<Rightarrow> bit_stream \<times> nat" where
  "write_round bits value s =
     (if bitsPending s > 0
      then let i = position s - 1
           in if bitsPending s > bits
              then (byte_put i (byte_at s i OR push_bit (bitsPending s - bits) value) s\<lparr>bitsPending := bitsPending s - bits\<rparr>, bits)
              else if bitsPending s = bits
              then (byte_put i (byte_at s i OR value) s\<lparr>bitsPending := 0\<rparr>, bits)
              else (byte_put i (byte_at s i OR drop_bit (bits - bitsPending s) value) s\<lparr>bitsPending := 0\<rparr>, bitsPending s)
      else let bitsConsumed = min 8 bits; pending = 8 - bitsConsumed
           in ((byte_put (position s) (push_bit pending (drop_bit (bits - bitsConsumed) value)) s)
                 \<lparr>position := position s + 1, bitsPending := pending\<rparr>, bitsConsumed))"

function writeBits :: "nat \<Rightarrow> int \<Rightarrow> bit_stream \<Rightarrow> bit_stream" where
  "writeBits bits value s =
     (if bits = 0 then s
      else let value = value AND (2 ^ bits - 1);
               (s, bitsConsumed) = write_round bits value s
           in if bits - bitsConsumed > 0 then writeBits (bits - bitsConsumed) value s else s)"
  by pat_completeness auto
termination
  by (relation "measure fst") (auto simp: write_round_def Let_def split: if_splits)

declare writeBits.simps [simp del]

text \<open>One round of \<^verbatim>\<open>_readBits\<close>: the new stream, the bits read and their number.\<close>

definition read_round :: "nat \<Rightarrow> bit_stream \<Rightarrow> bit_stream \<times> int \<times> nat" where
  "read_round bits s =
     (if bitsPending s > 0
      then let byte = byte_at s (position s - 1) AND drop_bit (8 - bitsPending s) 0xff;
               bitsConsumed = min (bitsPending s) bits;
               s = s\<lparr>bitsPending := bitsPending s - bitsConsumed\<rparr>
           in (s, drop_bit (bitsPending s) byte, bitsConsumed)
      else let bitsConsumed = min 8 bits;
               pending = 8 - bitsConsumed
           in (s\<lparr>bitsPending := pending, position := position s + 1\<rparr>,
               drop_bit pending (byte_at s (position s)), bitsConsumed))"

function readBits_from :: "nat \<Rightarrow> int \<Rightarrow> bit_stream \<Rightarrow> int \<times> bit_stream" where
  "readBits_from bits bitBuffer s =
     (if bits = 0 then (bitBuffer, s)
      else let (s, partial, bitsConsumed) = read_round bits s;
               bitBuffer = push_bit bitsConsumed bitBuffer OR partial
           in if bits - bitsConsumed > 0 then readBits_from (bits - bitsConsumed) bitBuffer s else (bitBuffer, s))"
  by pat_completeness auto
termination
  by (relation "measure fst") (auto simp: read_round_def Let_def split: if_splits)

declare readBits_from.simps [simp del]

definition readBits :: "nat \<Rightarrow> bit_stream \<Rightarrow> int \<times> bit_stream" where
  "readBits bits s = readBits_from bits 0 s"

definition seekTo :: "nat \<Rightarrow> bit_stream \<Rightarrow> bit_stream" where
  "seekTo bitPos s =
     (let s = s\<lparr>position := bitPos div 8, bitsPending := bitPos mod 8\<rparr>
      in if bitsPending s > 0 then s\<lparr>bitsPending := 8 - bitsPending s, position := position s + 1\<rparr> else s)"

section \<open>Writing\<close>

text \<open>The \<open>n\<close> bits written so far are the number \<open>v\<close>; the rest of the current byte is zero.\<close>

definition wrote :: "bit_stream \<Rightarrow> int \<Rightarrow> nat \<Rightarrow> nat \<Rightarrow> bool" where
  "wrote s v n len \<longleftrightarrow> length (uint8Array s) = len \<and> position s \<le> len \<and> 8 * position s = n + bitsPending s \<and> bitsPending s < 8 \<and>
     be_int (take (position s) (uint8Array s)) = v * 2 ^ bitsPending s"

lemma wrote_start: "wrote (BitStream b) 0 0 (length b)"
  by (simp add: wrote_def BitStream_def)

lemma and_mask: "(v :: int) AND (2 ^ n - 1) = v mod 2 ^ n"
  using take_bit_eq_mask [of n v] by (simp add: take_bit_eq_mod mask_eq_exp_minus_1)

lemma be_int_snoc: "be_int (b @ [x]) = be_int b * 256 + uint x"
  by (induction b) (simp_all add: algebra_simps)

lemma or_low:
  fixes a b :: int
  assumes "a mod 2 ^ n = 0" "0 \<le> b" "b < 2 ^ n"
  shows "a OR b = a + b"
proof -
  have "b AND a = 0"
  proof (rule bit_eqI)
    fix i
    have a: "\<not> bit a i" if "i < n"
      using assms(1) that bit_take_bit_iff [of n a i] by (simp add: take_bit_eq_mod)
    have b: "\<not> bit b i" if "n \<le> i"
      using assms(2,3) that bit_take_bit_iff [of n b i] by (simp add: take_bit_eq_mod)
    show "bit (b AND a) i = bit (0 :: int) i" using a b by (cases "i < n") (auto simp: bit_and_iff)
  qed
  then show ?thesis by (simp add: disjunctive_add_eq_or [symmetric] or.commute and.commute add.commute)
qed

lemma div_pow_less: "x < 2 ^ (a + b) \<Longrightarrow> x div 2 ^ a < (2 ^ b :: int)"
proof (rule ccontr)
  assume x: "x < 2 ^ (a + b)" "\<not> x div 2 ^ a < 2 ^ b"
  then have "2 ^ b * 2 ^ a \<le> x div 2 ^ a * 2 ^ a" by (intro mult_right_mono) auto
  also have "\<dots> \<le> x" proof -
    have "0 \<le> x mod 2 ^ a" by simp
    then show ?thesis using div_mult_mod_eq [of x "2 ^ a"] by linarith
  qed
  finally show False using x(1) by (simp add: power_add mult.commute)
qed

lemma write_round_wrote:
  assumes w: "wrote s v n len" and bits: "0 < bits" and room: "n + bits \<le> 8 * len" and x: "0 \<le> x" "x < 2 ^ bits"
    and r: "write_round bits x s = (s', c)"
  shows "0 < c" "c \<le> bits" "wrote s' (v * 2 ^ c + x div 2 ^ (bits - c)) (n + c) len"
proof -
  have L: "length (uint8Array s) = len" "position s \<le> len" "8 * position s = n + bitsPending s" "bitsPending s < 8"
    and be: "be_int (take (position s) (uint8Array s)) = v * 2 ^ bitsPending s" using w by (auto simp: wrote_def)
  show "0 < c" "c \<le> bits" using r bits by (auto simp: write_round_def Let_def split: if_splits)
  show "wrote s' (v * 2 ^ c + x div 2 ^ (bits - c)) (n + c) len"
  proof (cases "bitsPending s > 0")
    case False
    then have p0: "bitsPending s = 0" by simp
    let ?c = "min 8 bits"
    have s': "s' = (byte_put (position s) (push_bit (8 - ?c) (drop_bit (bits - ?c) x)) s)\<lparr>position := position s + 1, bitsPending := 8 - ?c\<rparr>"
      "c = ?c" using r p0 unfolding write_round_def Let_def by auto
    have pos: "position s < len" using L(3) p0 room bits by linarith
    define z where z: "z = x div 2 ^ (bits - ?c) * 2 ^ (8 - ?c)"
    have y: "0 \<le> z" "z < 256"
      unfolding z
    proof -
      have "x < 2 ^ ((bits - ?c) + ?c)" using x(2) by simp
      then have "x div 2 ^ (bits - ?c) < 2 ^ ?c" by (rule div_pow_less)
      then have "x div 2 ^ (bits - ?c) * 2 ^ (8 - ?c) < 2 ^ ?c * 2 ^ (8 - ?c)" by simp
      also have "\<dots> = 256" by (simp flip: power_add)
      finally show "x div 2 ^ (bits - ?c) * 2 ^ (8 - ?c) < 256" .
    qed (use x in \<open>simp add: pos_imp_zdiv_nonneg_iff\<close>)
    have b: "push_bit (8 - ?c) (drop_bit (bits - ?c) x) = z" by (simp add: push_bit_eq_mult drop_bit_eq_div z)
    have "take (Suc (position s)) ((uint8Array s)[position s := word_of_int z]) = take (position s) (uint8Array s) @ [word_of_int z]"
      using pos L(1) by (simp add: take_Suc_conv_app_nth)
    then have "be_int (take (position s') (uint8Array s')) = v * 256 + z"
      using y be p0 by (simp add: s'(1) byte_put_def b be_int_snoc uint_word_of_int)
    also have "\<dots> = (v * 2 ^ ?c + x div 2 ^ (bits - ?c)) * 2 ^ (8 - ?c)"
    proof -
      have "(256 :: int) = 2 ^ ?c * 2 ^ (8 - ?c)" by (simp flip: power_add)
      then show ?thesis unfolding z by (simp only: distrib_right mult.assoc)
    qed
    finally show ?thesis using pos L p0 bits by (simp add: wrote_def s' byte_put_def)
  next
    case True
    let ?p = "bitsPending s"
    let ?c = "min ?p bits" and ?i = "position s - 1"
    define z where z: "z = x div 2 ^ (bits - ?c) * 2 ^ (?p - ?c)"
    have pos: "position s = Suc ?i" "?i < len" using L True by (cases "position s"; simp)+
    have s': "s' = byte_put ?i (byte_at s ?i OR z) s\<lparr>bitsPending := ?p - ?c\<rparr>" "c = ?c"
      using r True x unfolding z by (auto simp: write_round_def Let_def push_bit_eq_mult drop_bit_eq_div min_def split: if_splits)
    have y: "0 \<le> z" "z < 2 ^ ?p"
      unfolding z
    proof -
      have "x < 2 ^ ((bits - ?c) + ?c)" using x(2) by simp
      then have "x div 2 ^ (bits - ?c) < 2 ^ ?c" by (rule div_pow_less)
      then have "x div 2 ^ (bits - ?c) * 2 ^ (?p - ?c) < 2 ^ ?c * 2 ^ (?p - ?c)" by simp
      also have "\<dots> = 2 ^ ?p" by (simp flip: power_add)
      finally show "x div 2 ^ (bits - ?c) * 2 ^ (?p - ?c) < 2 ^ ?p" .
    qed (use x in \<open>simp add: pos_imp_zdiv_nonneg_iff\<close>)
    let ?b = "uint8Array s ! ?i" and ?front = "take ?i (uint8Array s)"
    have tk: "take (position s) (uint8Array s) = ?front @ [?b]"
      using pos L(1) by (metis take_Suc_conv_app_nth)
    have f: "be_int ?front * 256 + uint ?b = v * 2 ^ ?p" using be by (simp add: tk be_int_snoc)
    have "(256 :: int) = 2 ^ ?p * 2 ^ (8 - ?p)" using L(4) by (simp flip: power_add)
    then have "(2 ^ ?p :: int) dvd 256" by (rule dvdI)
    then have "(2 ^ ?p :: int) dvd uint ?b" using f by (metis dvd_add_right_iff dvd_mult dvd_triv_right)
    then have low: "uint ?b mod 2 ^ ?p = 0" by simp
    have o: "byte_at s ?i OR z = uint ?b + z"
      using or_low [OF low y] pos L(1) by (simp add: byte_at_def)
    have ub: "0 \<le> uint ?b + z" "uint ?b + z < 256"
    proof -
      have "uint ?b \<le> 256 - 2 ^ ?p"
      proof -
        obtain k where k: "uint ?b = 2 ^ ?p * k" using \<open>2 ^ ?p dvd uint ?b\<close> by (elim dvdE)
        obtain m where m: "(256 :: int) = 2 ^ ?p * m" using \<open>(2 ^ ?p :: int) dvd 256\<close> by (elim dvdE)
        have "uint ?b < 256" using uint_lt2p [of ?b] by simp
        then have "k < m" unfolding k m by simp
        then have "2 ^ ?p * (k + 1) \<le> (2 ^ ?p :: int) * m" by (intro mult_left_mono) auto
        then show ?thesis unfolding k m by (simp add: algebra_simps)
      qed
      then show "uint ?b + z < 256" using y by linarith
    qed (use y in simp)
    define w where wd: "w = uint ?b + z"
    have "take (position s) ((uint8Array s)[?i := word_of_int w]) = ?front @ [word_of_int w]"
      using pos L(1) by (metis length_list_update nth_list_update_eq take_Suc_conv_app_nth take_update_cancel order_refl)
    moreover have "uint (word_of_int w :: byte) = w" using ub [folded wd] by (simp add: uint_word_of_int)
    moreover have "be_int ?front * 256 + w = v * 2 ^ ?p + z" using f by (simp add: wd)
    ultimately have "be_int (take (position s') (uint8Array s')) = v * 2 ^ ?p + z"
      unfolding s'(1) o [folded wd] by (simp add: byte_put_def be_int_snoc)
    also have "\<dots> = (v * 2 ^ ?c + x div 2 ^ (bits - ?c)) * 2 ^ (?p - ?c)"
    proof -
      have "(2 :: int) ^ ?p = 2 ^ ?c * 2 ^ (?p - ?c)" by (simp flip: power_add)
      then show ?thesis unfolding z by (simp only: distrib_right mult.assoc)
    qed
    finally show ?thesis using L True by (auto simp: wrote_def s' byte_put_def)
  qed
qed

lemma writeBits_wrote:
  "wrote s v n len \<Longrightarrow> n + bits \<le> 8 * len \<Longrightarrow> wrote (writeBits bits x s) (v * 2 ^ bits + x mod 2 ^ bits) (n + bits) len"
proof (induction bits x s arbitrary: v n rule: writeBits.induct)
  case (1 bits x s)
  show ?case
  proof (cases "bits = 0")
    case True
    then show ?thesis using "1.prems" by (simp add: writeBits.simps)
  next
    case False
    let ?x = "x AND (2 ^ bits - 1)"
    have xm: "?x = x mod 2 ^ bits" by (rule and_mask)
    obtain s1 c where r: "write_round bits ?x s = (s1, c)" by fastforce
    have x: "0 \<le> ?x" "?x < 2 ^ bits" by (simp_all add: xm)
    note w = write_round_wrote [OF "1.prems"(1) _ "1.prems"(2) x r]
    have w: "0 < c" "c \<le> bits" "wrote s1 (v * 2 ^ c + ?x div 2 ^ (bits - c)) (n + c) len" using w False by auto
    show ?thesis
    proof (cases "bits - c > 0")
      case True
      have "wrote (writeBits (bits - c) ?x s1) ((v * 2 ^ c + ?x div 2 ^ (bits - c)) * 2 ^ (bits - c) + ?x mod 2 ^ (bits - c))
          (n + c + (bits - c)) len"
        by (rule "1.IH" [OF False refl r [symmetric] refl True w(3)]) (use w "1.prems" in linarith)
      moreover have "(v * 2 ^ c + ?x div 2 ^ (bits - c)) * 2 ^ (bits - c) + ?x mod 2 ^ (bits - c) = v * 2 ^ bits + ?x"
      proof -
        have p: "(2 :: int) ^ c * 2 ^ (bits - c) = 2 ^ bits" using w(2) by (simp flip: power_add)
        have "(v * 2 ^ c + ?x div 2 ^ (bits - c)) * 2 ^ (bits - c) + ?x mod 2 ^ (bits - c) =
            v * (2 ^ c * 2 ^ (bits - c)) + (?x div 2 ^ (bits - c) * 2 ^ (bits - c) + ?x mod 2 ^ (bits - c))"
          by (simp only: distrib_right mult.assoc add.assoc)
        then show ?thesis unfolding p div_mult_mod_eq .
      qed
      moreover have "n + c + (bits - c) = n + bits" using w(2) by simp
      ultimately show ?thesis
        using False r True by (simp add: writeBits.simps [of bits x s] Let_def xm)
    next
      case le: False
      then have "c = bits" using w(2) by simp
      then show ?thesis using False r w(3) by (simp add: writeBits.simps [of bits x s] Let_def xm)
    qed
  qed
qed

lemma wrote_all: "wrote s v (8 * len) len \<Longrightarrow> uint8Array s = be_bytes len v"
proof -
  assume a: "wrote s v (8 * len) len"
  then have "position s = len" "bitsPending s = 0" by (auto simp: wrote_def)
  then have l: "length (uint8Array s) = len" "be_int (uint8Array s) = v" using a by (auto simp: wrote_def)
  then have "v mod 256 ^ len = v" using be_int_bound [of "uint8Array s"] be_int_nonneg [of "uint8Array s"] by simp
  then show ?thesis using l by (intro be_int_inj) (simp_all add: be_bytes_int)
qed

section \<open>Reading\<close>

definition reads_at :: "bit_stream \<Rightarrow> buffer \<Rightarrow> nat \<Rightarrow> bool" where
  "reads_at s b p \<longleftrightarrow> uint8Array s = b \<and> 8 * position s = p + bitsPending s \<and> bitsPending s < 8"

definition field_at :: "buffer \<Rightarrow> nat \<Rightarrow> nat \<Rightarrow> int" where
  "field_at b p n = take_bit n (drop_bit (8 * length b - p - n) (be_int b))"

lemma reads_start: "reads_at (BitStream b) b 0"
  by (simp add: reads_at_def BitStream_def)

lemma uint_nth_be_int: "i < length b \<Longrightarrow> uint (b ! i) = take_bit 8 (drop_bit (8 * (length b - Suc i)) (be_int b))"
proof (induction b arbitrary: i rule: rev_induct)
  case (snoc x b)
  show ?case
  proof (cases "i = length b")
    case True
    then show ?thesis using uint_lt2p [of x] by (simp add: be_int_snoc take_bit_eq_mod nth_append)
  next
    case False
    then have i: "i < length b" using snoc.prems by simp
    have e: "8 * (length (b @ [x]) - Suc i) = 8 * (length b - Suc i) + 8" using i by simp
    have "drop_bit 8 (be_int (b @ [x])) = be_int b"
      using uint_lt2p [of x] by (simp add: be_int_snoc drop_bit_eq_div)
    then show ?thesis using snoc.IH [OF i] i
      unfolding e by (simp add: nth_append flip: drop_bit_drop_bit)
  qed
qed simp

text \<open>Some of the bits of one byte.\<close>

lemma byte_field:
  assumes "i < length b" "p = 8 * i + k" "k + n \<le> 8"
  shows "take_bit n (drop_bit (8 - k - n) (uint (b ! i))) = field_at b p n"
proof -
  have "8 * length b - p - n = 8 * (length b - Suc i) + (8 - k - n)" using assms by simp
  then show ?thesis
    using assms(3) by (simp add: uint_nth_be_int [OF assms(1)] field_at_def drop_bit_take_bit min_def add.commute)
qed

lemma field_split:
  assumes "p + c + r \<le> 8 * length b"
  shows "field_at b p (c + r) = field_at b p c * 2 ^ r + field_at b (p + c) r"
proof -
  let ?x = "drop_bit (8 * length b - p - c - r) (be_int b)"
  have "8 * length b - p - c = (8 * length b - p - c - r) + r" using assms by simp
  then have "drop_bit (8 * length b - p - c) (be_int b) = drop_bit r ?x" by (simp add: add.commute)
  then have e: "field_at b p (c + r) = take_bit (c + r) ?x" "field_at b p c = take_bit c (drop_bit r ?x)"
    "field_at b (p + c) r = take_bit r ?x"
    by (simp_all add: field_at_def diff_diff_eq add.assoc)
  have "?x mod (2 ^ r * 2 ^ c) = 2 ^ r * (?x div 2 ^ r mod 2 ^ c) + ?x mod 2 ^ r" by (rule zmod_zmult2_eq) simp
  then show ?thesis unfolding e by (simp add: take_bit_eq_mod drop_bit_eq_div power_add mult.commute)
qed

lemma field_bound: "0 \<le> field_at b p n" "field_at b p n < 2 ^ n"
  by (simp_all add: field_at_def)

lemma push_or: "0 \<le> y \<Longrightarrow> y < 2 ^ n \<Longrightarrow> push_bit n x OR y = x * 2 ^ n + (y :: int)"
  using or_low [of "push_bit n x" n y] by (simp add: push_bit_eq_mult)

lemma readBits_from_field:
  "reads_at s b p \<Longrightarrow> p + bits \<le> 8 * length b \<Longrightarrow>
     \<exists>s'. readBits_from bits acc s = (acc * 2 ^ bits + field_at b p bits, s') \<and> reads_at s' b (p + bits)"
proof (induction bits acc s arbitrary: p rule: readBits_from.induct)
  case (1 bits acc s)
  have R: "uint8Array s = b" "8 * position s = p + bitsPending s" "bitsPending s < 8" using "1.prems"(1) by (auto simp: reads_at_def)
  show ?case
  proof (cases "bits = 0")
    case True
    then show ?thesis using "1.prems" by (simp add: readBits_from.simps field_at_def)
  next
    case False
    obtain s1 x c where r: "read_round bits s = (s1, x, c)" by (cases "read_round bits s") auto
    have main: "0 < c \<and> c \<le> bits \<and> x = field_at b p c \<and> reads_at s1 b (p + c)"
    proof (cases "bitsPending s > 0")
      case True
      let ?p = "bitsPending s" and ?i = "position s - 1" and ?c = "min (bitsPending s) bits"
      have e: "s1 = s\<lparr>bitsPending := ?p - ?c\<rparr>" "x = drop_bit (?p - ?c) (byte_at s ?i AND drop_bit (8 - ?p) 0xff)" "c = ?c"
        using r True unfolding read_round_def Let_def by auto
      have i: "?i < length b" "p = 8 * ?i + (8 - ?p)" using R True "1.prems"(2) False by linarith+
      have "(0xff :: int) = 2 ^ 8 - 1" by simp
      then have m: "drop_bit (8 - ?p) (0xff :: int) = 2 ^ ?p - 1"
        using R(3) drop_bit_mask_eq [of "8 - ?p" 8, where ?'a = int] by (simp add: mask_eq_exp_minus_1)
      have "x = take_bit ?c (drop_bit (8 - (8 - ?p) - ?c) (uint (b ! ?i)))"
        using R i(1) unfolding e m by (simp add: byte_at_def and_mask flip: take_bit_eq_mod add: drop_bit_take_bit)
      then have "x = field_at b p ?c" using byte_field [OF i, of ?c] R(3) by simp
      then show ?thesis using e R True False by (auto simp: reads_at_def min_def)
    next
      case np: False
      let ?c = "min 8 bits" and ?i = "position s"
      have e: "s1 = s\<lparr>bitsPending := 8 - ?c, position := position s + 1\<rparr>" "x = drop_bit (8 - ?c) (byte_at s ?i)" "c = ?c"
        using r np unfolding read_round_def Let_def by auto
      have i: "?i < length b" "p = 8 * ?i + 0" using R np "1.prems"(2) False by linarith+
      have "take_bit ?c (drop_bit (8 - ?c) (uint (b ! ?i))) = drop_bit (8 - ?c) (uint (b ! ?i))"
      proof -
        have "take_bit 8 (uint (b ! ?i)) = uint (b ! ?i)" using uint_lt2p [of "b ! ?i"] by (simp add: take_bit_eq_mod)
        then show ?thesis using drop_bit_take_bit [of "8 - ?c" 8 "uint (b ! ?i)"] by simp
      qed
      then have "x = field_at b p ?c" using byte_field [OF i, of ?c] R i(1) by (simp add: e byte_at_def)
      then show ?thesis using e R np False by (simp add: reads_at_def)
    qed
    let ?acc = "push_bit c acc OR x"
    have acc: "?acc = acc * 2 ^ c + field_at b p c" using main field_bound push_or by simp
    have step: "readBits_from bits acc s = (if bits - c > 0 then readBits_from (bits - c) ?acc s1 else (?acc, s1))"
      unfolding readBits_from.simps [of bits acc s] if_not_P [OF False] r Let_def prod.case ..
    show ?thesis
    proof (cases "bits - c > 0")
      case True
      have "\<exists>s'. readBits_from (bits - c) ?acc s1 = (?acc * 2 ^ (bits - c) + field_at b (p + c) (bits - c), s') \<and>
          reads_at s' b (p + c + (bits - c))"
        by (rule "1.IH" [OF False r [symmetric] refl refl refl True]) (use main "1.prems"(2) in auto)
      moreover have "?acc * 2 ^ (bits - c) + field_at b (p + c) (bits - c) = acc * 2 ^ bits + field_at b p bits"
      proof -
        have f: "field_at b p bits = field_at b p c * 2 ^ (bits - c) + field_at b (p + c) (bits - c)"
          using field_split [of p c "bits - c" b] main "1.prems"(2) by simp
        have e: "(2 :: int) ^ c * 2 ^ (bits - c) = 2 ^ bits" using main by (simp flip: power_add)
        show ?thesis unfolding acc f distrib_right mult.assoc e by simp
      qed
      ultimately show ?thesis using step True main by auto
    next
      case le: False
      then have "c = bits" using main by simp
      then show ?thesis using step main acc by simp
    qed
  qed
qed

lemma readBits_field:
  assumes "reads_at s b p" "p + bits \<le> 8 * length b"
  obtains s' where "readBits bits s = (field_at b p bits, s')" "reads_at s' b (p + bits)"
  using readBits_from_field [OF assms, of 0] by (auto simp: readBits_def)

end
