(* ===== verification/Red.thy ===== *)
theory Red
  imports Bit_Stream Rtp_Header Number
begin

unbundle bit_operations_syntax

text \<open>
  Redundant audio data, RFC 2198 (\<^verbatim>\<open>packages/rtp/src/rtp/red/\<close>): the payload of several blocks and
  its header, the encoder that repeats recent payloads and the handler that takes a payload apart
  into RTP packets and drops repetitions.
\<close>

section \<open>Payloads\<close>

record red_field =
  rf_fBit :: int
  rf_blockPT :: int
  rf_timestampOffset :: "int option"
  rf_blockLength :: "int option"

record red_block =
  rb_block :: buffer
  rb_blockPT :: int
  rb_timestampOffset :: "int option"

record red =
  red_header :: "red_field list"
  red_blocks :: "red_block list"

function RedHeader_deSerialize_from :: "buffer \<Rightarrow> nat \<Rightarrow> (red_field list \<times> nat) result" where
  "RedHeader_deSerialize_from buf offset =
     (if offset \<ge> length buf then Inl (Error ''RED header truncated'')
      else let bitStream = BitStream (drop offset buf);
               (fBit, bitStream) = readBits 1 bitStream;
               (blockPT, bitStream) = readBits 7 bitStream;
               offset = offset + 1
           in if fBit = 0
              then Inr ([\<lparr>rf_fBit = fBit, rf_blockPT = blockPT, rf_timestampOffset = None, rf_blockLength = None\<rparr>], offset)
              else if offset + 3 > length buf then Inl (Error ''RED header truncated'')
              else let (timestampOffset, bitStream) = readBits 14 bitStream;
                       (blockLength, bitStream) = readBits 10 bitStream
                   in rbind (RedHeader_deSerialize_from buf (offset + 3)) (\<lambda>(flds, offset).
                      Inr (\<lparr>rf_fBit = fBit, rf_blockPT = blockPT, rf_timestampOffset = Some timestampOffset,
                             rf_blockLength = Some blockLength\<rparr> # flds, offset)))"
  by pat_completeness auto
termination
  by (relation "measure (\<lambda>(b, n). length b - n)") auto

declare RedHeader_deSerialize_from.simps [simp del]

definition RedHeader_deSerialize :: "buffer \<Rightarrow> (red_field list \<times> nat) result" where
  "RedHeader_deSerialize buf =
     (if length buf < 1 then Inl (Error ''RED payload truncated: need 1 byte, got 0'')
      else RedHeader_deSerialize_from buf 0)"

text \<open>\<^verbatim>\<open>writeBits\<close> masks its value and never raises, so the \<^verbatim>\<open>catch\<close> of the code is not reached.\<close>

definition field_bytes :: "red_field \<Rightarrow> buffer" where
  "field_bytes f =
     (if rf_fBit f = 1 \<or> rf_blockLength f \<noteq> None
      then uint8Array (writeBits 10 (case rf_blockLength f of Some l \<Rightarrow> l | None \<Rightarrow> 0)
             (writeBits 14 (case rf_timestampOffset f of Some t \<Rightarrow> t | None \<Rightarrow> 0)
             (writeBits 7 (rf_blockPT f) (writeBits 1 (rf_fBit f) (BitStream (buf_alloc 4))))))
      else uint8Array (writeBits 7 (rf_blockPT f) (writeBits 1 0 (BitStream (buf_alloc 1)))))"

definition RedHeader_serialize :: "red_field list \<Rightarrow> buffer" where
  "RedHeader_serialize flds = concat (map field_bytes flds)"

fun red_read_blocks :: "buffer \<Rightarrow> nat \<Rightarrow> red_field list \<Rightarrow> red_block list result" where
  "red_read_blocks buf offset [] = Inr []"
| "red_read_blocks buf offset (f # fs) =
     (if rf_fBit f = 1
      then let len = nat (case rf_blockLength f of Some l \<Rightarrow> l | None \<Rightarrow> 0)
           in if offset + len > length buf then Inl (Error ''RED block truncated'')
              else rbind (red_read_blocks buf (offset + len) fs) (\<lambda>bs.
                   Inr (\<lparr>rb_block = buf_slice buf offset (offset + len), rb_blockPT = rf_blockPT f,
                          rb_timestampOffset = rf_timestampOffset f\<rparr> # bs))
      else rbind (red_read_blocks buf offset fs) (\<lambda>bs.
           Inr (\<lparr>rb_block = drop offset buf, rb_blockPT = rf_blockPT f, rb_timestampOffset = None\<rparr> # bs)))"

definition Red_deSerialize :: "buffer \<Rightarrow> red result" where
  "Red_deSerialize buf =
     rbind (RedHeader_deSerialize buf) (\<lambda>(flds, offset).
     rbind (red_read_blocks buf offset flds) (\<lambda>bs. Inr \<lparr>red_header = flds, red_blocks = bs\<rparr>))"

definition block_field :: "red_block \<Rightarrow> red_field" where
  "block_field b =
     (case rb_timestampOffset b of
        Some t \<Rightarrow> \<lparr>rf_fBit = 1, rf_blockPT = rb_blockPT b, rf_timestampOffset = Some t, rf_blockLength = Some (int (length (rb_block b)))\<rparr>
      | None \<Rightarrow> \<lparr>rf_fBit = 0, rf_blockPT = rb_blockPT b, rf_timestampOffset = None, rf_blockLength = None\<rparr>)"

text \<open>The header is rebuilt in the object; it is returned with the bytes.\<close>

definition Red_serialize :: "red \<Rightarrow> buffer \<times> red" where
  "Red_serialize r =
     (let flds = map block_field (red_blocks r)
      in (RedHeader_serialize flds @ concat (map rb_block (red_blocks r)), r\<lparr>red_header := flds\<rparr>))"

section \<open>The encoder\<close>

record red_payload =
  rp_block :: buffer
  rp_timestamp :: int
  rp_blockPT :: int

record red_encoder =
  re_distance :: nat
  re_cache :: "red_payload list"
  re_cacheSize :: nat

definition new_RedEncoder :: "nat \<Rightarrow> red_encoder" where
  "new_RedEncoder d = \<lparr>re_distance = d, re_cache = [], re_cacheSize = 10\<rparr>"

definition Max14Uint :: int where "Max14Uint = push_bit 14 0x01 - 1"

definition red_enc_push :: "red_payload \<Rightarrow> red_encoder \<Rightarrow> red_encoder" where
  "red_enc_push p e =
     (let cache = re_cache e @ [p]
      in e\<lparr>re_cache := (if length cache > re_cacheSize e then tl cache else cache)\<rparr>)"

definition red_enc_build :: "red_encoder \<Rightarrow> red" where
  "red_enc_build e =
     (let redundantPayloads = drop (length (re_cache e) - (re_distance e + 1)) (re_cache e)
      in if redundantPayloads = [] then \<lparr>red_header = [], red_blocks = []\<rparr>
         else let present_payload = last redundantPayloads;
                  blocks = List.map_filter (\<lambda>r.
                    let timestampOffset = uint32Add (rp_timestamp present_payload) (- rp_timestamp r)
                    in if timestampOffset > Max14Uint then None
                       else Some \<lparr>rb_block = rp_block r, rb_blockPT = rp_blockPT r, rb_timestampOffset = Some timestampOffset\<rparr>)
                    (butlast redundantPayloads)
              in \<lparr>red_header = [], red_blocks = blocks @
                   [\<lparr>rb_block = rp_block present_payload, rb_blockPT = rp_blockPT present_payload, rb_timestampOffset = None\<rparr>]\<rparr>)"

definition serializedLengthWith :: "red_payload \<Rightarrow> red_encoder \<Rightarrow> nat" where
  "serializedLengthWith p e = length (fst (Red_serialize (red_enc_build (red_enc_push p e))))"

section \<open>The handler\<close>

definition red_handler_size :: nat where "red_handler_size = 150"

definition red_packets :: "red \<Rightarrow> rtp_packet \<Rightarrow> rtp_packet list" where
  "red_packets r base =
     map (\<lambda>i.
       let b = red_blocks r ! i;
           sq = uint16Add (sequenceNumber (header base)) (- (int (length (red_blocks r)) - (int i + 1)));
           ts = (case rb_timestampOffset b of
                   None \<Rightarrow> timestamp (header base)
                 | Some t \<Rightarrow> if t = 0 then timestamp (header base) else uint32Add (timestamp (header base)) (- t))
       in \<lparr>header = new_RtpHeader\<lparr>timestamp := ts, payloadType := rb_blockPT b, ssrc := ssrc (header base),
              sequenceNumber := sq, marker := True\<rparr>,
           payload = rb_block b\<rparr>)
       [0..<length (red_blocks r)]"

text \<open>The filter, with the remembered sequence numbers as its state.\<close>

fun red_filter :: "int list \<Rightarrow> rtp_packet list \<Rightarrow> int list \<times> rtp_packet list" where
  "red_filter seen [] = (seen, [])"
| "red_filter seen (p # ps) =
     (let sq = sequenceNumber (header p)
      in if sq \<in> set seen then red_filter seen ps
         else let seen = (if length seen > red_handler_size then tl seen else seen) @ [sq];
                  (seen, qs) = red_filter seen ps
              in (seen, p # qs))"

definition RedHandler_push :: "red \<Rightarrow> rtp_packet \<Rightarrow> int list \<Rightarrow> int list \<times> rtp_packet list" where
  "RedHandler_push r base seen = red_filter seen (red_packets r base)"

section \<open>Round trip\<close>

definition long_field :: "int \<Rightarrow> int \<Rightarrow> int \<Rightarrow> int" where
  "long_field pt t l = ((1 * 2 ^ 7 + pt) * 2 ^ 14 + t) * 2 ^ 10 + l"

lemma field_bytes_long:
  assumes "0 \<le> pt" "pt < 2 ^ 7" "0 \<le> t" "t < 2 ^ 14" "0 \<le> l" "l < 2 ^ 10"
  shows "field_bytes \<lparr>rf_fBit = 1, rf_blockPT = pt, rf_timestampOffset = Some t, rf_blockLength = Some l\<rparr> = be_bytes 4 (long_field pt t l)"
proof -
  have "wrote (writeBits 1 1 (BitStream (buf_alloc 4))) 1 1 4"
    using writeBits_wrote [OF wrote_start [of "buf_alloc 4"], of 1 1] by simp
  from writeBits_wrote [OF this, of 7 pt] have "wrote (writeBits 7 pt (writeBits 1 1 (BitStream (buf_alloc 4)))) (1 * 2 ^ 7 + pt) 8 4"
    using assms by simp
  from writeBits_wrote [OF this, of 14 t]
  have "wrote (writeBits 14 t (writeBits 7 pt (writeBits 1 1 (BitStream (buf_alloc 4))))) ((1 * 2 ^ 7 + pt) * 2 ^ 14 + t) 22 4"
    using assms by simp
  from writeBits_wrote [OF this, of 10 l]
  have "wrote (writeBits 10 l (writeBits 14 t (writeBits 7 pt (writeBits 1 1 (BitStream (buf_alloc 4)))))) (long_field pt t l) (8 * 4) 4"
    using assms by (simp add: long_field_def)
  from wrote_all [OF this] show ?thesis by (simp add: field_bytes_def)
qed

lemma field_bytes_short:
  assumes "0 \<le> pt" "pt < 2 ^ 7"
  shows "field_bytes \<lparr>rf_fBit = 0, rf_blockPT = pt, rf_timestampOffset = None, rf_blockLength = None\<rparr> = be_bytes 1 pt"
proof -
  have "wrote (writeBits 1 0 (BitStream (buf_alloc 1))) 0 1 1"
    using writeBits_wrote [OF wrote_start [of "buf_alloc 1"], of 1 0] by simp
  from writeBits_wrote [OF this, of 7 pt] have "wrote (writeBits 7 pt (writeBits 1 0 (BitStream (buf_alloc 1)))) pt (8 * 1) 1"
    using assms by simp
  from wrote_all [OF this] show ?thesis by (simp add: field_bytes_def)
qed

lemma be_int_append: "be_int (a @ b) = be_int a * 256 ^ length b + be_int b"
  by (induction a) (simp_all add: algebra_simps power_add)

lemma field_at_front:
  assumes "p + n \<le> 8 * length a"
  shows "field_at (a @ b) p n = field_at a p n"
proof -
  have e: "8 * length (a @ b) - p - n = (8 * length a - p - n) + 8 * length b" using assms by simp
  have "(256 :: int) ^ length b = 2 ^ (8 * length b)" by (simp add: power_mult)
  then have "drop_bit (8 * length b) (be_int (a @ b)) = be_int a"
    using be_int_bound [of b] by (simp add: be_int_append drop_bit_eq_div)
  then show ?thesis unfolding field_at_def e by (simp flip: drop_bit_drop_bit)
qed

lemma field_of_bytes:
  assumes "0 \<le> v" "v < 256 ^ k"
  shows "field_at (be_bytes k v) p n = v div 2 ^ (8 * k - p - n) mod 2 ^ n"
  using assms by (simp add: field_at_def be_bytes_int take_bit_eq_mod drop_bit_eq_div)

lemma shift_digits:
  fixes a b n :: int
  assumes "0 \<le> b" "b < n"
  shows "(a * n + b) div n = a" "(a * n + b) mod n = b"
  using assms by simp_all

lemma long_field_digits:
  assumes "0 \<le> pt" "pt < 2 ^ 7" "0 \<le> t" "t < 2 ^ 14" "0 \<le> l" "l < 2 ^ 10"
  shows "0 \<le> long_field pt t l" "long_field pt t l < 256 ^ 4"
    "long_field pt t l div 2 ^ 31 mod 2 ^ 1 = 1" "long_field pt t l div 2 ^ 24 mod 2 ^ 7 = pt"
    "long_field pt t l div 2 ^ 10 mod 2 ^ 14 = t" "long_field pt t l div 2 ^ 0 mod 2 ^ 10 = l"
proof -
  let ?v = "long_field pt t l"
  have b: "pt \<le> 127" "t \<le> 16383" "l \<le> 1023" using assms by simp_all
  have 0: "?v = 2147483648 + 16777216 * pt + 1024 * t + l" by (simp add: long_field_def)
  show "0 \<le> ?v" "?v < 256 ^ 4" using assms b unfolding 0 by simp_all
  have "?v = 1 * 2 ^ 31 + (pt * 2 ^ 24 + t * 2 ^ 10 + l)" unfolding 0 by simp
  from arg_cong [OF this, of "\<lambda>x. x div 2 ^ 31"] have "?v div 2 ^ 31 = 1"
    using shift_digits(1) [of "pt * 2 ^ 24 + t * 2 ^ 10 + l" "2 ^ 31" 1] b assms by simp
  then show "?v div 2 ^ 31 mod 2 ^ 1 = 1" by simp
  have "?v = (128 + pt) * 2 ^ 24 + (t * 2 ^ 10 + l)" unfolding 0 by simp
  from arg_cong [OF this, of "\<lambda>x. x div 2 ^ 24"] have "?v div 2 ^ 24 = 128 + pt"
    using shift_digits(1) [of "t * 2 ^ 10 + l" "2 ^ 24" "128 + pt"] b assms by simp
  then show "?v div 2 ^ 24 mod 2 ^ 7 = pt" using assms(1) b by simp
  have "?v = ((128 + pt) * 2 ^ 14 + t) * 2 ^ 10 + l" unfolding 0 by simp
  from arg_cong [OF this, of "\<lambda>x. x div 2 ^ 10"] have "?v div 2 ^ 10 = (128 + pt) * 2 ^ 14 + t"
    using shift_digits(1) [of l "2 ^ 10" "(128 + pt) * 2 ^ 14 + t"] assms(5,6) by simp
  then show "?v div 2 ^ 10 mod 2 ^ 14 = t" using shift_digits(2) [of t "2 ^ 14" "128 + pt"] assms(3,4) by simp
  show "?v div 2 ^ 0 mod 2 ^ 10 = l"
    using shift_digits(2) [of l "2 ^ 10" "(128 + pt) * 2 ^ 14 + t"] assms(5,6) unfolding long_field_def by simp
qed

text \<open>Reading the fields of one header entry.\<close>

lemma read_entry:
  assumes "1 \<le> length b"
  shows "RedHeader_deSerialize_from (pre @ b) (length pre) =
    (if field_at b 0 1 = 0
     then Inr ([\<lparr>rf_fBit = 0, rf_blockPT = field_at b 1 7, rf_timestampOffset = None, rf_blockLength = None\<rparr>], length pre + 1)
     else if length b < 4 then Inl (Error ''RED header truncated'')
     else rbind (RedHeader_deSerialize_from (pre @ b) (length pre + 4)) (\<lambda>(flds, n).
       Inr (\<lparr>rf_fBit = field_at b 0 1, rf_blockPT = field_at b 1 7, rf_timestampOffset = Some (field_at b 8 14),
              rf_blockLength = Some (field_at b 22 10)\<rparr> # flds, n)))"
proof -
  obtain s1 where s1: "readBits 1 (BitStream b) = (field_at b 0 1, s1)" "reads_at s1 b 1"
    using readBits_field [OF reads_start, of 1 b] assms by auto
  obtain s2 where s2: "readBits 7 s1 = (field_at b 1 7, s2)" "reads_at s2 b 8"
    using readBits_field [OF s1(2), of 7] assms by auto
  have h: "\<not> length pre \<ge> length (pre @ b)" "drop (length pre) (pre @ b) = b" using assms by auto
  note step = RedHeader_deSerialize_from.simps [of "pre @ b" "length pre", unfolded if_not_P [OF h(1)] h(2) s1(1) Let_def prod.case s2(1)]
  show ?thesis
  proof (cases "length b < 4")
    case True
    then show ?thesis unfolding step by simp
  next
    case False
    then obtain s3 where s3: "readBits 14 s2 = (field_at b 8 14, s3)" "reads_at s3 b 22"
      using readBits_field [OF s2(2), of 14] by auto
    then obtain s4 where s4: "readBits 10 s3 = (field_at b 22 10, s4)"
      using readBits_field [OF s3(2), of 10] False by auto
    show ?thesis unfolding step s3(1) s4 prod.case using False by (simp add: add.commute)
  qed
qed

lemma read_short:
  assumes "0 \<le> pt" "pt < 2 ^ 7"
  shows "RedHeader_deSerialize_from (pre @ be_bytes 1 pt @ rest) (length pre) =
    Inr ([\<lparr>rf_fBit = 0, rf_blockPT = pt, rf_timestampOffset = None, rf_blockLength = None\<rparr>], length pre + 1)"
proof -
  have f: "field_at (be_bytes 1 pt @ rest) 0 1 = 0" "field_at (be_bytes 1 pt @ rest) 1 7 = pt"
    using assms by (simp_all add: field_at_front field_of_bytes del: be_bytes.simps)
  show ?thesis by (subst read_entry) (simp_all only: f simp_thms if_True length_append length_be_bytes le_add1)
qed

lemma read_long:
  assumes "0 \<le> pt" "pt < 2 ^ 7" "0 \<le> t" "t < 2 ^ 14" "0 \<le> l" "l < 2 ^ 10"
  shows "RedHeader_deSerialize_from (pre @ be_bytes 4 (long_field pt t l) @ rest) (length pre) =
    rbind (RedHeader_deSerialize_from (pre @ be_bytes 4 (long_field pt t l) @ rest) (length pre + 4)) (\<lambda>(flds, n).
      Inr (\<lparr>rf_fBit = 1, rf_blockPT = pt, rf_timestampOffset = Some t, rf_blockLength = Some l\<rparr> # flds, n))"
proof -
  define v where "v = be_bytes 4 (long_field pt t l)"
  have len: "length v = 4" by (simp add: v_def length_be_bytes)
  note d = long_field_digits [OF assms]
  have e: "field_at (v @ rest) p n = long_field pt t l div 2 ^ (8 * 4 - p - n) mod 2 ^ n" if "p + n \<le> 8 * length v" for p n
    unfolding field_at_front [OF that] unfolding v_def field_of_bytes [OF d(1,2)] ..
  have n: "(8 * 4 - 0 - 1 :: nat) = 31" "(8 * 4 - 1 - 7 :: nat) = 24" "(8 * 4 - 8 - 14 :: nat) = 10" "(8 * 4 - 22 - 10 :: nat) = 0" by simp_all
  have f: "field_at (v @ rest) 0 1 = 1" "field_at (v @ rest) 1 7 = pt" "field_at (v @ rest) 8 14 = t" "field_at (v @ rest) 22 10 = l"
    by (rule trans [OF e], simp add: len, unfold n, rule d)+
  have n: "1 \<le> length (v @ rest)" "\<not> length (v @ rest) < 4" "(1::int) \<noteq> 0" by (simp_all add: len)
  show ?thesis unfolding v_def [symmetric] read_entry [OF n(1)] f if_not_P [OF n(2)] if_not_P [OF n(3)] ..
qed

definition redundant_ok :: "red_block \<Rightarrow> bool" where
  "redundant_ok b \<longleftrightarrow> 0 \<le> rb_blockPT b \<and> rb_blockPT b < 2 ^ 7 \<and> length (rb_block b) < 2 ^ 10 \<and>
     (\<exists>t. rb_timestampOffset b = Some t \<and> 0 \<le> t \<and> t < 2 ^ 14)"

definition primary_ok :: "red_block \<Rightarrow> bool" where
  "primary_ok b \<longleftrightarrow> 0 \<le> rb_blockPT b \<and> rb_blockPT b < 2 ^ 7 \<and> rb_timestampOffset b = None"

lemma header_round:
  assumes p: "primary_ok p"
  shows "list_all redundant_ok bs \<Longrightarrow>
    RedHeader_deSerialize_from (pre @ RedHeader_serialize (map block_field (bs @ [p])) @ rest) (length pre) =
      Inr (map block_field (bs @ [p]), length pre + length (RedHeader_serialize (map block_field (bs @ [p]))))"
proof (induction bs arbitrary: pre)
  case Nil
  have f: "block_field p = \<lparr>rf_fBit = 0, rf_blockPT = rb_blockPT p, rf_timestampOffset = None, rf_blockLength = None\<rparr>"
    using p by (simp add: primary_ok_def block_field_def)
  show ?case using p read_short [of "rb_blockPT p" pre rest]
    by (simp add: RedHeader_serialize_def f field_bytes_short primary_ok_def)
next
  case (Cons b bs)
  have r: "redundant_ok b" and bs: "list_all redundant_ok bs" using Cons.prems by simp_all
  obtain t where b: "0 \<le> rb_blockPT b" "rb_blockPT b < 2 ^ 7" "int (length (rb_block b)) < 2 ^ 10"
    "rb_timestampOffset b = Some t" "0 \<le> t" "t < 2 ^ 14"
    using r by (auto simp: redundant_ok_def)
  let ?l = "int (length (rb_block b))"
  let ?w = "be_bytes 4 (long_field (rb_blockPT b) t ?l)"
  let ?rest = "RedHeader_serialize (map block_field (bs @ [p]))"
  have f: "block_field b = \<lparr>rf_fBit = 1, rf_blockPT = rb_blockPT b, rf_timestampOffset = Some t, rf_blockLength = Some ?l\<rparr>"
    using b by (simp add: block_field_def)
  have s: "RedHeader_serialize (map block_field ((b # bs) @ [p])) = ?w @ ?rest"
    using field_bytes_long [OF b(1,2,5,6) _ b(3)] by (simp add: RedHeader_serialize_def f)
  have IH: "RedHeader_deSerialize_from (pre @ ?w @ ?rest @ rest) (length pre + 4) =
      Inr (map block_field (bs @ [p]), length pre + 4 + length ?rest)"
    using Cons.IH [OF bs, of "pre @ ?w"] by simp
  show ?case unfolding s using read_long [OF b(1,2,5,6) _ b(3), of pre "?rest @ rest"] IH by (simp add: f)
qed

lemma blocks_round:
  assumes p: "primary_ok p"
  shows "list_all redundant_ok bs \<Longrightarrow>
    red_read_blocks (pre @ concat (map rb_block (bs @ [p]))) (length pre) (map block_field (bs @ [p])) = Inr (bs @ [p])"
proof (induction bs arbitrary: pre)
  case Nil
  show ?case using p by (simp add: primary_ok_def block_field_def)
next
  case (Cons b bs)
  have r: "redundant_ok b" and bs: "list_all redundant_ok bs" using Cons.prems by simp_all
  obtain t where b: "rb_timestampOffset b = Some t" using r by (auto simp: redundant_ok_def)
  show ?case using Cons.IH [OF bs, of "pre @ rb_block b"] b by (simp add: block_field_def buf_slice_def)
qed

lemma red_roundtrip:
  assumes "list_all redundant_ok bs" "primary_ok p" "red_blocks r = bs @ [p]"
  shows "Red_deSerialize (fst (Red_serialize r)) = Inr (snd (Red_serialize r)) \<and> red_blocks (snd (Red_serialize r)) = red_blocks r"
proof -
  let ?h = "RedHeader_serialize (map block_field (bs @ [p]))" and ?d = "concat (map rb_block (bs @ [p]))"
  have h: "RedHeader_deSerialize_from (?h @ ?d) 0 = Inr (map block_field (bs @ [p]), length ?h)"
    using header_round [OF assms(2,1), of "[]" ?d] by simp
  then have ne: "\<not> length (?h @ ?d) < 1" by (auto simp: RedHeader_deSerialize_from.simps [of _ 0] split: if_splits)
  have "red_read_blocks (?h @ ?d) (length ?h) (map block_field (bs @ [p])) = Inr (bs @ [p])"
    by (rule blocks_round [OF assms(2,1)])
  with h ne assms(3) show ?thesis
    by (cases r) (simp add: Red_deSerialize_def Red_serialize_def RedHeader_deSerialize_def Let_def)
qed

text \<open>The length of a redundant block is kept modulo 1024 and nothing checks it: a block of 1024 bytes is
  announced as empty.\<close>

lemma red_length_masked:
  "writeBits 10 1024 s = writeBits 10 0 s"
  by (simp add: writeBits.simps [of 10])

end
