(* ===== verification/Red_Stream.thy ===== *)
theory Red_Stream
  imports Red
begin

text \<open>
  A stream of payloads sent with redundancy and received over a network that loses, repeats and
  reorders packets: the encoder and the handler of \<^verbatim>\<open>packages/rtp/src/rtp/red/\<close> together.
\<close>

section \<open>The sender\<close>

text \<open>The packet of payload \<open>j\<close>: the RED payload built after \<open>j + 1\<close> pushes, in an RTP packet whose
  sequence number and timestamp are those of payload \<open>j\<close>.\<close>

definition red_built :: "nat \<Rightarrow> red_payload list \<Rightarrow> nat \<Rightarrow> red" where
  "red_built d ps j = red_enc_build (fold red_enc_push (take (Suc j) ps) (new_RedEncoder d))"

definition red_sent :: "nat \<Rightarrow> red_payload list \<Rightarrow> rtp_header \<Rightarrow> nat \<Rightarrow> rtp_packet" where
  "red_sent d ps h j =
     \<lparr>header = h\<lparr>sequenceNumber := (sequenceNumber h + int j) mod 2 ^ 16, timestamp := rp_timestamp (ps ! j)\<rparr>,
      payload = fst (Red_serialize (red_built d ps j))\<rparr>"

section \<open>The receiver\<close>

fun red_receive :: "rtp_packet list \<Rightarrow> int list \<Rightarrow> rtp_packet list result" where
  "red_receive [] seen = Inr []"
| "red_receive (p # ps) seen =
     rbind (Red_deSerialize (payload p)) (\<lambda>r.
     let (seen, qs) = RedHandler_push r p seen
     in rbind (red_receive ps seen) (\<lambda>rest. Inr (qs @ rest)))"

text \<open>The packet that carries payload \<open>j\<close> by itself.\<close>

definition recovered :: "red_payload list \<Rightarrow> rtp_header \<Rightarrow> nat \<Rightarrow> rtp_packet" where
  "recovered ps h j =
     \<lparr>header = new_RtpHeader\<lparr>timestamp := rp_timestamp (ps ! j), payloadType := rp_blockPT (ps ! j), ssrc := ssrc h,
        sequenceNumber := (sequenceNumber h + int j) mod 2 ^ 16, marker := True\<rparr>,
      payload = rp_block (ps ! j)\<rparr>"

section \<open>What the encoder builds\<close>

lemma fold_push_gen:
  "re_cacheSize e = 10 \<Longrightarrow> length (re_cache e) \<le> 10 \<Longrightarrow>
   fold red_enc_push ps e = e\<lparr>re_cache := drop (length (re_cache e @ ps) - 10) (re_cache e @ ps)\<rparr>"
proof (induction ps arbitrary: e)
  case (Cons p ps)
  let ?e = "red_enc_push p e"
  have c: "re_cache ?e = drop (length (re_cache e) + 1 - 10) (re_cache e @ [p])" "re_cacheSize ?e = 10" "re_distance ?e = re_distance e"
  proof -
    show "re_cacheSize ?e = 10" "re_distance ?e = re_distance e" using Cons.prems by (simp_all add: red_enc_push_def Let_def)
    show "re_cache ?e = drop (length (re_cache e) + 1 - 10) (re_cache e @ [p])"
    proof (cases "length (re_cache e) < 10")
      case False
      then have "length (re_cache e) = 10" using Cons.prems by simp
      then show ?thesis using Cons.prems by (cases "re_cache e") (simp_all add: red_enc_push_def Let_def)
    qed (use Cons.prems in \<open>simp add: red_enc_push_def Let_def\<close>)
  qed
  have l: "length (re_cache ?e) \<le> 10" using Cons.prems by (simp add: c)
  have "fold red_enc_push (p # ps) e = ?e\<lparr>re_cache := drop (length (re_cache ?e @ ps) - 10) (re_cache ?e @ ps)\<rparr>"
    using Cons.IH [OF c(2) l] by simp
  moreover have "drop (length (re_cache ?e @ ps) - 10) (re_cache ?e @ ps) =
      drop (length (re_cache e @ p # ps) - 10) (re_cache e @ p # ps)"
  proof (cases "length (re_cache e) < 10")
    case False
    then have "length (re_cache e) = 10" using Cons.prems by simp
    then show ?thesis by (simp add: c drop_Suc flip: drop_drop)
  qed (simp add: c)
  moreover have "?e\<lparr>re_cache := x\<rparr> = e\<lparr>re_cache := x\<rparr>" for x by (simp add: red_enc_push_def Let_def)
  ultimately show ?case by simp
next
  case Nil
  then show ?case by (cases e) simp
qed

lemma fold_push:
  "fold red_enc_push ps (new_RedEncoder d) = \<lparr>re_distance = d, re_cache = drop (length ps - 10) ps, re_cacheSize = 10\<rparr>"
  by (simp add: fold_push_gen new_RedEncoder_def)

definition red_block_of :: "red_payload list \<Rightarrow> nat \<Rightarrow> nat \<Rightarrow> red_block" where
  "red_block_of ps j i = \<lparr>rb_block = rp_block (ps ! i), rb_blockPT = rp_blockPT (ps ! i),
     rb_timestampOffset = (if i = j then None else Some (uint32Add (rp_timestamp (ps ! j)) (- rp_timestamp (ps ! i))))\<rparr>"

definition close_stamps :: "nat \<Rightarrow> red_payload list \<Rightarrow> bool" where
  "close_stamps d ps \<longleftrightarrow> (\<forall>j < length ps. \<forall>i. j - d \<le> i \<and> i < j \<longrightarrow>
     uint32Add (rp_timestamp (ps ! j)) (- rp_timestamp (ps ! i)) < 2 ^ 14)"

lemma drop_as_nth: "drop a (take (Suc j) ps) = map ((!) ps) [a..<Suc j]" if "j < length ps"
  using that by (simp add: list_eq_iff_nth_eq del: upt_Suc)

lemma red_enc_build_blocks:
  assumes "drop (length (re_cache e) - (re_distance e + 1)) (re_cache e) = xs @ [p]"
  shows "red_blocks (red_enc_build e) = List.map_filter (\<lambda>r.
      let timestampOffset = uint32Add (rp_timestamp p) (- rp_timestamp r)
      in if timestampOffset > Max14Uint then None
         else Some \<lparr>rb_block = rp_block r, rb_blockPT = rp_blockPT r, rb_timestampOffset = Some timestampOffset\<rparr>) xs @
    [\<lparr>rb_block = rp_block p, rb_blockPT = rp_blockPT p, rb_timestampOffset = None\<rparr>]"
  unfolding red_enc_build_def assms Let_def last_snoc butlast_snoc by simp

lemma red_built_blocks:
  assumes d: "d \<le> 9" and j: "j < length ps" and c: "close_stamps d ps"
  shows "red_blocks (red_built d ps j) = map (red_block_of ps j) [j - d..<Suc j]"
proof -
  let ?off = "\<lambda>i. uint32Add (rp_timestamp (ps ! j)) (- rp_timestamp (ps ! i))"
  have sel: "drop (length (drop (Suc j - 10) (take (Suc j) ps)) - (d + 1)) (drop (Suc j - 10) (take (Suc j) ps)) =
      map ((!) ps) [j - d..<Suc j]"
    using j d unfolding drop_drop drop_as_nth [OF j, symmetric] by (auto intro!: arg_cong2 [of _ _ _ _ drop])
  have near: "\<not> ?off i > Max14Uint" if "j - d \<le> i" "i < j" for i
  proof -
    have "?off i < 2 ^ 14" using c j that by (simp add: close_stamps_def)
    then show ?thesis by (simp add: Max14Uint_def push_bit_eq_mult)
  qed
  have "List.map_filter (\<lambda>r.
      let timestampOffset = uint32Add (rp_timestamp (ps ! j)) (- rp_timestamp r)
      in if timestampOffset > Max14Uint then None
         else Some \<lparr>rb_block = rp_block r, rb_blockPT = rp_blockPT r, rb_timestampOffset = Some timestampOffset\<rparr>)
    (map ((!) ps) [j - d..<j]) = map (red_block_of ps j) [j - d..<j]"
    using near by (auto simp: map_filter_def red_block_of_def Let_def intro!: filter_cong)
  moreover have "map ((!) ps) [j - d..<Suc j] = map ((!) ps) [j - d..<j] @ [ps ! j]" using j by simp
  ultimately show ?thesis using j sel
    unfolding red_built_def fold_push
    by (subst red_enc_build_blocks [where xs = "map ((!) ps) [j - d..<j]" and p = "ps ! j"]) (simp_all add: red_block_of_def)
qed

section \<open>The handler on the stream\<close>

lemma red_packets_built:
  assumes d: "d \<le> 9" and j: "j < length ps" and c: "close_stamps d ps"
    and r: "red_blocks r = map (red_block_of ps j) [j - d..<Suc j]"
    and ts: "list_all (\<lambda>p. 0 \<le> rp_timestamp p \<and> rp_timestamp p < 2 ^ 32) ps"
  shows "red_packets r (red_sent d ps h j) = map (recovered ps h) [j - d..<Suc j]"
proof (rule nth_equalityI)
  show "length (red_packets r (red_sent d ps h j)) = length (map (recovered ps h) [j - d..<Suc j])"
    by (simp add: red_packets_def r del: upt_Suc)
  fix i assume i: "i < length (red_packets r (red_sent d ps h j))"
  let ?n = "Suc j - (j - d)" and ?k = "j - d + i"
  have n: "i < ?n" "?k \<le> j" using i by (auto simp: red_packets_def r)
  have kt: "0 \<le> rp_timestamp (ps ! ?k)" "rp_timestamp (ps ! ?k) < 2 ^ 32" "0 \<le> rp_timestamp (ps ! j)" "rp_timestamp (ps ! j) < 2 ^ 32"
    using ts j n(2) by (auto simp: list_all_length)
  define tk where tk: "tk = rp_timestamp (ps ! ?k)"
  define tj where tj: "tj = rp_timestamp (ps ! j)"
  note t = tk tj
  have bk: "(tj - (tj - tk) mod 2 ^ 32) mod 2 ^ 32 = tk"
    using kt by (simp add: mod_diff_right_eq flip: t)
  have zero: "(tj - tk) mod 2 ^ 32 = 0 \<Longrightarrow> tj = tk" using bk kt by (simp flip: t)
  have b: "red_blocks r ! i = red_block_of ps j ?k" "length (red_blocks r) = ?n" using n by (simp_all add: r del: upt_Suc)
  have sq: "uint16Add ((sequenceNumber h + int j) mod 2 ^ 16) (- (int ?n - (int i + 1))) = (sequenceNumber h + int ?k) mod 2 ^ 16"
  proof -
    have "(sequenceNumber h + int j) + (- (int ?n - (int i + 1))) = sequenceNumber h + int ?k" using n by linarith
    then show ?thesis unfolding uint16Add_mod mod_add_left_eq by (simp add: ac_simps)
  qed
  have ts': "(case rb_timestampOffset (red_block_of ps j ?k) of None \<Rightarrow> tj
      | Some t \<Rightarrow> if t = 0 then tj else uint32Add tj (- t)) = tk"
    using bk zero by (auto simp: red_block_of_def uint32Add_mod simp flip: t) (simp add: t)
  have stamp: "rb_timestampOffset (red_block_of ps j ?k) = (if ?k = j then None else Some (uint32Add tj (- tk)))"
    "rb_block (red_block_of ps j ?k) = rp_block (ps ! ?k)" "rb_blockPT (red_block_of ps j ?k) = rp_blockPT (ps ! ?k)"
    by (simp_all add: red_block_of_def t)
  define hh where "hh = header (red_sent d ps h j)"
  have hh: "timestamp hh = tj" "ssrc hh = ssrc h" "sequenceNumber hh = (sequenceNumber h + int j) mod 2 ^ 16"
    by (simp_all add: hh_def red_sent_def tj)
  have "red_packets r (red_sent d ps h j) ! i =
      \<lparr>header = new_RtpHeader\<lparr>timestamp := tk, payloadType := rp_blockPT (ps ! ?k), ssrc := ssrc h,
         sequenceNumber := (sequenceNumber h + int ?k) mod 2 ^ 16, marker := True\<rparr>,
       payload = rp_block (ps ! ?k)\<rparr>"
    using n(1) unfolding red_packets_def hh_def [symmetric]
    by (simp only: b nth_map_upt add_0 Let_def stamp(2,3) sq ts' hh diff_zero)
  then show "red_packets r (red_sent d ps h j) ! i = map (recovered ps h) [j - d..<Suc j] ! i"
    using n(1) by (simp add: recovered_def t del: upt_Suc)
qed

section \<open>The remembered numbers\<close>

text \<open>The filter on the numbers of the payloads, all remembered.\<close>

fun hand_over :: "nat list \<Rightarrow> nat list \<Rightarrow> nat list" where
  "hand_over D [] = []"
| "hand_over D (i # is) = (if i \<in> set D then hand_over D is else i # hand_over (D @ [i]) is)"

definition recent :: "nat list \<Rightarrow> nat list" where
  "recent D = drop (length D - 151) D"

definition sq_of :: "rtp_header \<Rightarrow> nat \<Rightarrow> int" where
  "sq_of h j = (sequenceNumber h + int j) mod 2 ^ 16"

lemma recent_snoc: "recent (D @ [i]) = (if length (recent D) > 150 then tl (recent D) else recent D) @ [i]"
proof (cases "length D \<ge> 151")
  case True
  then have e: "length D - 150 = Suc (length D - 151)" by simp
  have "tl (drop (length D - 151) D) = drop (length D - 150) D" unfolding e by (simp add: drop_Suc tl_drop)
  then show ?thesis using True by (simp add: recent_def)
qed (simp add: recent_def)

lemma sq_of_inj:
  assumes "sq_of h i = sq_of h j" "i < j + 65536" "j < i + 65536"
  shows "i = j"
proof -
  have "(sequenceNumber h + int i) mod 65536 = (sequenceNumber h + int j) mod 65536" using assms(1) by (simp add: sq_of_def)
  then have "(65536 :: int) dvd int i - int j" by (metis add_diff_cancel_left mod_eq_dvd_iff)
  then obtain q where "int i - int j = 65536 * q" by (elim dvdE)
  then have "q = 0" using assms(2,3) by linarith
  then show ?thesis using \<open>int i - int j = 65536 * q\<close> by simp
qed

text \<open>What is delivered (\<open>D\<close>) when payload \<open>m\<close> is the newest one received and at most \<open>g\<close> newer than expected: nothing
  twice, nothing much older after newer ones, and no large step between deliveries.\<close>

definition paced_deliveries :: "nat list \<Rightarrow> nat \<Rightarrow> nat \<Rightarrow> bool" where
  "paced_deliveries D m g \<longleftrightarrow> distinct D \<and> (\<forall>p < length D. D ! p \<le> m \<and> m \<le> D ! p + 73 + 400 * (length D - p) + g \<and>
     (\<forall>q < length D. p < q \<longrightarrow> D ! p \<le> D ! q + 73))"

lemma still_remembered:
  assumes D: "paced_deliveries D m g" and i: "i \<in> set D" "m \<le> i + 73"
  shows "i \<in> set (recent D)"
proof -
  obtain p where p: "p < length D" "D ! p = i" using i(1) by (auto simp: in_set_conv_nth)
  have "set (drop (Suc p) D) \<subseteq> {i - 73..i + 73} - {i}"
  proof
    fix x assume "x \<in> set (drop (Suc p) D)"
    then obtain q where q: "q < length D - Suc p" "x = D ! (Suc p + q)" by (auto simp: in_set_conv_nth)
    then have "D ! p \<le> x + 73" "x \<le> m" using D p by (auto simp: paced_deliveries_def)
    moreover have "x \<noteq> i" using D p q by (auto simp: paced_deliveries_def nth_eq_iff_index_eq)
    ultimately show "x \<in> {i - 73..i + 73} - {i}" using p i by auto
  qed
  then have "card (set (drop (Suc p) D)) \<le> card ({i - 73..i + 73} - {i})" by (intro card_mono) auto
  also have "\<dots> \<le> 146" by (auto simp: card_Diff_singleton)
  finally have "length D - Suc p \<le> 146"
    using D distinct_card [of "drop (Suc p) D"] by (simp add: paced_deliveries_def)
  then have "p = (length D - 151) + (p - (length D - 151))" "p - (length D - 151) < length (recent D)"
    using p by (auto simp: recent_def)
  then show ?thesis using p(2) by (metis in_set_conv_nth nth_drop recent_def add.commute diff_le_self le_add_diff_inverse nth_mem)
qed

lemma not_mistaken:
  assumes D: "paced_deliveries D m 400" and i: "i \<notin> set D" "i \<le> m" "m \<le> i + 73"
  shows "sq_of h i \<notin> sq_of h ` set (recent D)"
proof
  assume "sq_of h i \<in> sq_of h ` set (recent D)"
  then obtain e where e: "e \<in> set (recent D)" "sq_of h i = sq_of h e" by auto
  then obtain p where p: "p < length (recent D)" "recent D ! p = e" by (auto simp: in_set_conv_nth)
  let ?p = "length D - 151 + p"
  have q: "?p < length D" "D ! ?p = e" "length D - ?p \<le> 151" using p by (auto simp: recent_def)
  then have "e \<le> m" "m \<le> e + 73 + 400 * (length D - ?p) + 400" using D by (auto simp: paced_deliveries_def)
  then have "e < i + 65536" "i < e + 65536" using i q(3) by linarith+
  then have "i = e" using sq_of_inj [OF e(2)] by simp
  moreover have "e \<in> set D" using q(1,2) by auto
  ultimately show False using i(1) by simp
qed

lemma paced_snoc:
  assumes D: "paced_deliveries D m g" and i: "i \<notin> set D" "i \<le> m" "m \<le> i + 73"
  shows "paced_deliveries (D @ [i]) m (g - 400)"
  using D i unfolding paced_deliveries_def by (fastforce simp: nth_append less_Suc_eq)

lemma paced_weaken: "paced_deliveries D m g \<Longrightarrow> g \<le> g' \<Longrightarrow> paced_deliveries D m g'"
  by (fastforce simp: paced_deliveries_def)

lemma set_hand_over: "set (hand_over D is) = set is - set D"
  by (induction D "is" rule: hand_over.induct) auto

lemma hand_over_steps:
  "paced_deliveries D m g \<Longrightarrow> g \<le> 400 \<Longrightarrow> \<forall>i \<in> set is. i \<le> m \<and> m \<le> i + 73 \<Longrightarrow>
   red_filter (map (sq_of h) (recent D)) (map (recovered ps h) is) =
     (map (sq_of h) (recent (D @ hand_over D is)), map (recovered ps h) (hand_over D is)) \<and>
   paced_deliveries (D @ hand_over D is) m (if hand_over D is = [] then g else 0)"
proof (induction "is" arbitrary: D g)
  case (Cons i js)
  have i: "i \<le> m" "m \<le> i + 73" using Cons.prems(3) by auto
  have sq: "sequenceNumber (header (recovered ps h i)) = sq_of h i" by (simp add: recovered_def sq_of_def)
  show ?case
  proof (cases "i \<in> set D")
    case True
    then have "sq_of h i \<in> set (map (sq_of h) (recent D))" using still_remembered [OF Cons.prems(1)] i by simp
    then show ?thesis using Cons.IH [OF Cons.prems(1,2)] Cons.prems(3) True by (simp add: sq Let_def)
  next
    case False
    have "sq_of h i \<notin> set (map (sq_of h) (recent D))"
      using not_mistaken [OF paced_weaken [OF Cons.prems(1,2)] False i] by simp
    moreover have p: "paced_deliveries (D @ [i]) m 0" using paced_snoc [OF Cons.prems(1) False i] Cons.prems(2) by simp
    moreover have "(if length (map (sq_of h) (recent D)) > red_handler_size then tl (map (sq_of h) (recent D)) else map (sq_of h) (recent D)) @ [sq_of h i] =
        map (sq_of h) (recent (D @ [i]))"
      by (simp add: recent_snoc red_handler_size_def map_tl)
    moreover note Cons.IH [OF p]
    ultimately show ?thesis using Cons.prems(3) False by (simp add: sq Let_def split: if_splits)
  qed
qed simp

section \<open>Exactly once\<close>

text \<open>Each packet that arrives is at most 400 newer and at most 64 older than the newest one (\<open>m\<close>) so far.\<close>

fun paced :: "nat \<Rightarrow> nat list \<Rightarrow> bool" where
  "paced m [] = True"
| "paced m (k # ks) \<longleftrightarrow> k \<le> m + 400 \<and> m \<le> k + 64 \<and> paced (max m k) ks"

definition red_payload_ok :: "red_payload \<Rightarrow> bool" where
  "red_payload_ok p \<longleftrightarrow> 0 \<le> rp_blockPT p \<and> rp_blockPT p < 2 ^ 7 \<and> length (rp_block p) < 2 ^ 10 \<and>
     0 \<le> rp_timestamp p \<and> rp_timestamp p < 2 ^ 32"

lemma red_sent_read:
  assumes d: "d \<le> 9" and j: "j < length ps" and c: "close_stamps d ps" and ok: "list_all red_payload_ok ps"
  obtains r where "Red_deSerialize (payload (red_sent d ps h j)) = Inr r" "red_blocks r = map (red_block_of ps j) [j - d..<Suc j]"
proof -
  have blocks: "red_blocks (red_built d ps j) = map (red_block_of ps j) [j - d..<j] @ [red_block_of ps j j]"
    using red_built_blocks [OF d j c] j by simp
  have each: "redundant_ok (red_block_of ps j i)" if "j - d \<le> i" "i < j" for i
  proof -
    have "red_payload_ok (ps ! i)" using ok that j by (simp add: list_all_length)
    then show ?thesis using that j c
      by (simp add: redundant_ok_def red_block_of_def red_payload_ok_def close_stamps_def uint32Add_mod)
  qed
  have "red_payload_ok (ps ! j)" using ok j by (simp add: list_all_length)
  then have p: "primary_ok (red_block_of ps j j)" by (simp add: primary_ok_def red_block_of_def red_payload_ok_def)
  have "list_all redundant_ok (map (red_block_of ps j) [j - d..<j])" using each by (auto simp: list_all_iff)
  from red_roundtrip [OF this p blocks] show ?thesis
    using that red_built_blocks [OF d j c] unfolding red_sent_def by simp
qed

lemma red_receive_steps:
  assumes d: "d \<le> 9" and c: "close_stamps d ps" and ok: "list_all red_payload_ok ps"
  shows "\<forall>k \<in> set ks. k < length ps \<Longrightarrow> paced m ks \<Longrightarrow> paced_deliveries D m 0 \<Longrightarrow>
    \<exists>js. red_receive (map (red_sent d ps h) ks) (map (sq_of h) (recent D)) = Inr (map (recovered ps h) js) \<and>
      distinct (D @ js) \<and> set js = {j. \<exists>k \<in> set ks. k - d \<le> j \<and> j \<le> k} - set D"
proof (induction ks arbitrary: m D)
  case Nil
  then show ?case by (auto simp: paced_deliveries_def)
next
  case (Cons k ks)
  let ?m = "max m k" and ?is = "[k - d..<Suc k]"
  have k: "k < length ps" "k \<le> m + 400" "m \<le> k + 64" "paced ?m ks" using Cons.prems(1,2) by auto
  obtain r where r: "Red_deSerialize (payload (red_sent d ps h k)) = Inr r" "red_blocks r = map (red_block_of ps k) ?is"
    using red_sent_read [OF d k(1) c ok] .
  have ts: "list_all (\<lambda>p. 0 \<le> rp_timestamp p \<and> rp_timestamp p < 2 ^ 32) ps"
    using ok by (auto simp: list_all_iff red_payload_ok_def)
  note pk = red_packets_built [OF d k(1) c r(2) ts, of h]
  have near: "\<forall>i \<in> set ?is. i \<le> ?m \<and> ?m \<le> i + 73" using d k by auto
  let ?g = "if k \<le> m then 0 else 400"
  have P: "paced_deliveries D ?m ?g" using Cons.prems(3) k(2) by (fastforce simp: paced_deliveries_def max_def)
  let ?new = "hand_over D ?is"
  have step: "RedHandler_push r (red_sent d ps h k) (map (sq_of h) (recent D)) =
      (map (sq_of h) (recent (D @ ?new)), map (recovered ps h) ?new)"
    "paced_deliveries (D @ ?new) ?m (if ?new = [] then ?g else 0)"
    using hand_over_steps [OF P _ near, of h ps] by (simp_all only: RedHandler_push_def pk) auto
  have "?new \<noteq> []" if "\<not> k \<le> m"
  proof -
    have "k \<notin> set D" using Cons.prems(3) that by (auto simp: paced_deliveries_def in_set_conv_nth)
    then have "k \<in> set ?new" by (simp add: set_hand_over)
    then show ?thesis by auto
  qed
  then have P': "paced_deliveries (D @ ?new) ?m 0" using step(2) by (auto split: if_splits)
  obtain js where js: "red_receive (map (red_sent d ps h) ks) (map (sq_of h) (recent (D @ ?new))) = Inr (map (recovered ps h) js)"
    "distinct ((D @ ?new) @ js)" "set js = {j. \<exists>k \<in> set ks. k - d \<le> j \<and> j \<le> k} - set (D @ ?new)"
    using Cons.IH [OF _ k(4) P'] Cons.prems(1) by auto
  have "red_receive (map (red_sent d ps h) (k # ks)) (map (sq_of h) (recent D)) = Inr (map (recovered ps h) (?new @ js))"
    using r(1) step(1) js(1) by simp
  moreover have "set (?new @ js) = {j. \<exists>k \<in> set (k # ks). k - d \<le> j \<and> j \<le> k} - set D"
    unfolding set_append js(3) set_hand_over by auto
  ultimately show ?case using js(2) by (metis append.assoc)
qed

text \<open>C25: payloads of less than 1024 bytes are sent with up to nine repetitions each and the packets are lost,
  repeated and reordered on the way (a packet at most 64 older and at most 400 newer than the newest
  one that has arrived).  The handler hands over each payload that any of the packets carries, as an RTP packet with
  its own sequence number and timestamp, exactly once: a payload is lost only if its packet and the
  \<open>d\<close> following ones are.\<close>

theorem red_exactly_once:
  assumes "d \<le> 9" "close_stamps d ps" "list_all red_payload_ok ps" "\<forall>k \<in> set ks. k < length ps" "paced (hd ks) ks"
  shows "\<exists>js. red_receive (map (red_sent d ps h) ks) [] = Inr (map (recovered ps h) js) \<and> distinct js \<and>
    set js = {j. \<exists>k \<in> set ks. k - d \<le> j \<and> j \<le> k}"
  using red_receive_steps [OF assms(1-5), of "[]" h] by (simp add: paced_deliveries_def recent_def)

lemma red_exactly_once_witness:
  "let ps = map (\<lambda>i. \<lparr>rp_block = [word_of_int (int i)], rp_timestamp = 960 * int i, rp_blockPT = 111\<rparr>) [0, 1, 2, 3, 4]; ks = [1, 4, 3, 4]
   in \<exists>js. red_receive (map (red_sent 1 ps new_RtpHeader) ks) [] = Inr (map (recovered ps new_RtpHeader) js) \<and> distinct js \<and>
    set js = {0, 1, 2, 3, 4}"
proof -
  let ?ps = "map (\<lambda>i. \<lparr>rp_block = [word_of_int (int i)], rp_timestamp = 960 * int i, rp_blockPT = 111\<rparr>) [0 :: nat, 1, 2, 3, 4]"
  have a: "close_stamps 1 ?ps" by (simp add: close_stamps_def less_Suc_eq uint32Add_mod all_conj_distrib imp_conjL)
  have b: "list_all red_payload_ok ?ps" by (simp add: red_payload_ok_def)
  have e: "{j. \<exists>k \<in> set [1 :: nat, 4, 3, 4]. k - 1 \<le> j \<and> j \<le> k} = {0, 1, 2, 3, 4}" by auto
  show ?thesis using red_exactly_once [OF _ a b, of "[1, 4, 3, 4]" new_RtpHeader] unfolding e Let_def by simp
qed

end
