(* ===== verification/Stun_Ip.thy ===== *)
theory Stun_Ip
  imports Utf8
begin

text \<open>
  Textual IP addresses and their bytes (\<^verbatim>\<open>packages/ice-server/src/stun/ip.ts\<close>), with what it uses of
  the standard library: number printing and parsing, \<^verbatim>\<open>split\<close>, \<^verbatim>\<open>join\<close> and the checks \<^verbatim>\<open>isIPv4\<close> and
  \<^verbatim>\<open>isIPv6\<close> of \<^verbatim>\<open>node:net\<close>.  A text is the list of its code points.  Proved: the bytes of an address
  survive being printed and read again, for both families.
\<close>

section \<open>Text\<close>

abbreviation colon :: nat where "colon \<equiv> 58"
abbreviation dot :: nat where "dot \<equiv> 46"
abbreviation percent :: nat where "percent \<equiv> 37"

fun split_on :: "nat \<Rightarrow> js_text \<Rightarrow> js_text list" where
  "split_on c [] = [[]]"
| "split_on c (x # xs) = (if x = c then [] # split_on c xs
     else (case split_on c xs of s # ss \<Rightarrow> (x # s) # ss | [] \<Rightarrow> [[x]]))"

fun join_with :: "nat \<Rightarrow> js_text list \<Rightarrow> js_text" where
  "join_with c [] = []"
| "join_with c [s] = s"
| "join_with c (s # ss) = s @ c # join_with c ss"

text \<open>\<^verbatim>\<open>n.toString(b)\<close>, the values of digits and what \<^verbatim>\<open>parseInt(s, 16)\<close> and \<^verbatim>\<open>Number(s)\<close> read.\<close>

definition digit_char :: "nat \<Rightarrow> nat" where
  "digit_char d = (if d < 10 then 48 + d else 87 + d)"

fun radix_text :: "nat \<Rightarrow> nat \<Rightarrow> js_text" where
  "radix_text b n = (if b < 2 \<or> n < b then [digit_char n] else radix_text b (n div b) @ [digit_char (n mod b)])"

declare radix_text.simps [simp del]

definition is_digit :: "nat \<Rightarrow> bool" where "is_digit c \<longleftrightarrow> 48 \<le> c \<and> c \<le> 57"

definition is_hex :: "nat \<Rightarrow> bool" where
  "is_hex c \<longleftrightarrow> is_digit c \<or> (97 \<le> c \<and> c \<le> 102) \<or> (65 \<le> c \<and> c \<le> 70)"

definition hex_value :: "nat \<Rightarrow> nat" where
  "hex_value c = (if is_digit c then c - 48 else if 97 \<le> c then c - 87 else c - 55)"

definition digits_value :: "nat \<Rightarrow> js_text \<Rightarrow> nat" where
  "digits_value b s = fold (\<lambda>c v. v * b + hex_value c) s 0"

text \<open>\<^verbatim>\<open>parseInt(s, 16) || 0\<close>: the longest prefix of digits, 0 when there is none.\<close>

definition parse_hex :: "js_text \<Rightarrow> nat" where
  "parse_hex s = digits_value 16 (takeWhile is_hex s)"

section \<open>The checks of \<^verbatim>\<open>node:net\<close>\<close>

definition v4_seg :: "js_text \<Rightarrow> bool" where
  "v4_seg s \<longleftrightarrow> s \<noteq> [] \<and> length s \<le> 3 \<and> list_all is_digit s \<and> (length s > 1 \<longrightarrow> hd s \<noteq> 48) \<and> digits_value 10 s \<le> 255"

definition isIPv4 :: "js_text \<Rightarrow> bool" where
  "isIPv4 s \<longleftrightarrow> length (split_on dot s) = 4 \<and> list_all v4_seg (split_on dot s)"

definition v6_seg :: "js_text \<Rightarrow> bool" where
  "v6_seg s \<longleftrightarrow> s \<noteq> [] \<and> length s \<le> 4 \<and> list_all is_hex s"

text \<open>The number of 16-bit groups of a sequence of segments of which the last may be an IPv4 address.\<close>

definition v6_groups :: "js_text list \<Rightarrow> nat option" where
  "v6_groups ss =
     (if list_all v6_seg ss then Some (length ss)
      else if list_all v6_seg (butlast ss) \<and> isIPv4 (last ss) then Some (length ss + 1) else None)"

definition v6_shape :: "js_text list \<Rightarrow> bool" where
  "v6_shape ss =
     (if [] \<notin> set ss then v6_groups ss = Some 8
      else let l = takeWhile (\<lambda>s. s \<noteq> []) ss;
               r = tl (dropWhile (\<lambda>s. s \<noteq> []) ss);
               r = (if l = [] then (if r = [] \<or> hd r \<noteq> [] then [] else tl r) else r)
           in r \<noteq> [] \<and> list_all v6_seg l \<and>
              (case v6_groups (if r = [[]] then [] else r) of None \<Rightarrow> False | Some n \<Rightarrow> length l + n \<le> 7))"

definition zone_char :: "nat \<Rightarrow> bool" where
  "zone_char c \<longleftrightarrow> is_digit c \<or> (97 \<le> c \<and> c \<le> 122) \<or> (65 \<le> c \<and> c \<le> 90) \<or> c = 45 \<or> c = dot \<or> c = colon"

definition isIPv6 :: "js_text \<Rightarrow> bool" where
  "isIPv6 s \<longleftrightarrow>
     (let addr = takeWhile (\<lambda>c. c \<noteq> percent) s; zone = drop (length addr) s
      in v6_shape (split_on colon addr) \<and> (zone = [] \<or> (length zone > 1 \<and> list_all zone_char (tl zone))))"

section \<open>Conversions\<close>

definition hex_byte :: "byte \<Rightarrow> js_text" where
  "hex_byte b = [digit_char (unat b div 16), digit_char (unat b mod 16)]"

definition ipv4_bytes :: "js_text \<Rightarrow> buffer" where
  "ipv4_bytes s = map (\<lambda>p. of_nat (digits_value 10 p)) (take 4 (split_on dot s))"

text \<open>The loop over the sections; a section at index \<open>i\<close> that is an IPv4 address becomes two.\<close>

fun v4_sections :: "nat \<Rightarrow> js_text list \<Rightarrow> js_text list" where
  "v4_sections i [] = []"
| "v4_sections i (s # ss) =
     (if isIPv4 s
      then let b = ipv4_bytes s; second = concat (map hex_byte (buf_slice b 2 4))
           in concat (map hex_byte (buf_slice b 0 2)) #
              (if Suc i < 8 then second # v4_sections (i + 2) ss else v4_sections (i + 2) ss)
      else s # v4_sections (Suc i) ss)"

definition zero_text :: js_text where "zero_text = [48]"

definition fill_sections :: "js_text list \<Rightarrow> js_text list" where
  "fill_sections ss =
     (if hd ss = [] then replicate (8 - length ss) zero_text @ ss
      else if last ss = [] then ss @ replicate (8 - length ss) zero_text
      else if length ss < 8
      then let emptyIndex = length (takeWhile (\<lambda>s. s \<noteq> []) ss)
           in take emptyIndex ss @ replicate (9 - length ss) zero_text @ drop (Suc emptyIndex) ss
      else ss)"

definition section_bytes :: "js_text \<Rightarrow> buffer" where
  "section_bytes s = (let word = int (parse_hex s) in [word_of_int (drop_bit 8 word AND 0xff), word_of_int (word AND 0xff)])"

definition ipAddressToBuffer :: "js_text \<Rightarrow> buffer result" where
  "ipAddressToBuffer address =
     (if isIPv4 address then Inr (ipv4_bytes address)
      else if \<not> isIPv6 address then Inl (Error ''Invalid ip address'')
      else Inr (take 16 (concat (map section_bytes (fill_sections (v4_sections 0 (take 8 (split_on colon address))))))))"

text \<open>\<^verbatim>\<open>/(^|:)0(:0)*:0(:|$)/\<close> matches the first two or more whole groups \<^verbatim>\<open>0\<close> in a row; the value is
  the groups before and after them.\<close>

fun zero_run :: "js_text list \<Rightarrow> (js_text list \<times> js_text list) option" where
  "zero_run (a # b # hs) =
     (if a = zero_text \<and> b = zero_text then Some ([], dropWhile (\<lambda>s. s = zero_text) hs)
      else map_option (\<lambda>(l, r). (a # l, r)) (zero_run (b # hs)))"
| "zero_run hs = None"

definition replace_zero_run :: "js_text list \<Rightarrow> js_text" where
  "replace_zero_run hs =
     (case zero_run hs of None \<Rightarrow> join_with colon hs
      | Some (l, r) \<Rightarrow> (if l = [] then [] else join_with colon l @ [colon]) @ [colon, colon] @
          (if r = [] then [] else colon # join_with colon r))"

text \<open>\<^verbatim>\<open>replace(/:{3,4}/, "::")\<close>.\<close>

fun collapse_colons :: "js_text \<Rightarrow> js_text" where
  "collapse_colons [] = []"
| "collapse_colons (x # xs) =
     (if take 4 (x # xs) = replicate 4 colon then [colon, colon] @ drop 4 (x # xs)
      else if take 3 (x # xs) = replicate 3 colon then [colon, colon] @ drop 3 (x # xs)
      else x # collapse_colons xs)"

definition bufferToIpAddress :: "buffer \<Rightarrow> js_text result" where
  "bufferToIpAddress buf =
     (if length buf = 4 then Inr (join_with dot (map (\<lambda>b. radix_text 10 (unat b)) buf))
      else if length buf \<noteq> 16 then Inl (Error ''Invalid ip address buffer length'')
      else rbind (rmap (\<lambda>i. rbind (readUInt16BE buf (2 * i)) (\<lambda>v. Inr (radix_text 16 (nat v)))) [0..<8]) (\<lambda>hextets.
           Inr (collapse_colons (replace_zero_run hextets))))"

section \<open>Printing and reading again\<close>

lemma split_on_nonempty [simp]: "split_on c s \<noteq> []"
  by (induction s) (auto split: list.splits)

lemma split_on_none: "c \<notin> set s \<Longrightarrow> split_on c s = [s]"
  by (induction s) auto

lemma split_on_append: "c \<notin> set s \<Longrightarrow> split_on c (s @ c # t) = s # split_on c t"
  by (induction s) auto

lemma split_join: "ss \<noteq> [] \<Longrightarrow> \<forall>s \<in> set ss. c \<notin> set s \<Longrightarrow> split_on c (join_with c ss) = ss"
  by (induction c ss rule: join_with.induct) (auto simp: split_on_none split_on_append)

lemma set_join: "set (join_with c ss) \<subseteq> insert c (\<Union>(set ` set ss))"
  by (induction c ss rule: join_with.induct) auto

lemma join_append: "a \<noteq> [] \<Longrightarrow> b \<noteq> [] \<Longrightarrow> join_with c (a @ b) = join_with c a @ c # join_with c b"
proof (induction c a rule: join_with.induct)
  case (2 c s)
  then show ?case by (cases b) auto
qed auto

lemma digit_char_hex: "d < 16 \<Longrightarrow> is_hex (digit_char d) \<and> hex_value (digit_char d) = d"
  by (auto simp: digit_char_def is_hex_def is_digit_def hex_value_def)

lemma digit_char_digit: "d < 10 \<Longrightarrow> is_digit (digit_char d)"
  by (auto simp: digit_char_def is_digit_def)

lemma radix_text_digits:
  assumes "2 \<le> b" "b \<le> 16"
  shows "list_all is_hex (radix_text b n) \<and> radix_text b n \<noteq> [] \<and> digits_value b (radix_text b n) = n \<and>
    (b \<le> 10 \<longrightarrow> list_all is_digit (radix_text b n))"
  using assms
proof (induction b n rule: radix_text.induct)
  case (1 b n)
  show ?case
  proof (cases "n < b")
    case True
    then show ?thesis using "1.prems" digit_char_hex [of n] digit_char_digit [of n]
      by (simp add: radix_text.simps [of b n] digits_value_def)
  next
    case False
    have "n mod b < b" using "1.prems" by simp
    then have m: "n mod b < 16" "b \<le> 10 \<Longrightarrow> n mod b < 10" using "1.prems" by linarith+
    then show ?thesis using False "1.prems" "1.IH" digit_char_hex [OF m(1)] digit_char_digit [of "n mod b"]
      by (simp add: radix_text.simps [of b n] digits_value_def)
  qed
qed

lemma radix_text_length: "n < b ^ k \<Longrightarrow> 2 \<le> b \<Longrightarrow> 0 < k \<Longrightarrow> length (radix_text b n) \<le> k"
proof (induction b n arbitrary: k rule: radix_text.induct)
  case (1 b n)
  show ?case
  proof (cases "n < b")
    case True
    then show ?thesis using "1.prems" by (simp add: radix_text.simps [of b n])
  next
    case False
    then have "k \<noteq> 1" using "1.prems"(1) by auto
    then obtain j where j: "k = Suc j" "0 < j" using "1.prems"(3) by (cases k) auto
    have "n div b < b ^ j" using "1.prems"(1) j by (simp add: less_mult_imp_div_less mult.commute)
    then show ?thesis using False "1.prems" "1.IH" [of j] j by (simp add: radix_text.simps [of b n])
  qed
qed

lemma radix_text_hd: "0 < n \<Longrightarrow> 2 \<le> b \<Longrightarrow> b \<le> 16 \<Longrightarrow> hd (radix_text b n) \<noteq> 48"
proof (induction b n rule: radix_text.induct)
  case (1 b n)
  show ?case
  proof (cases "n < b")
    case True
    then show ?thesis using "1.prems" by (auto simp: radix_text.simps [of b n] digit_char_def)
  next
    case False
    then have "0 < n div b" using "1.prems" by (simp add: div_greater_zero_iff)
    then show ?thesis using False "1.prems" "1.IH" radix_text_digits [of b "n div b"] by (simp add: radix_text.simps [of b n])
  qed
qed

lemma parse_hex_text: "parse_hex (radix_text 16 n) = n"
proof -
  have "takeWhile is_hex (radix_text 16 n) = radix_text 16 n"
    using radix_text_digits [of 16 n] by (simp add: takeWhile_eq_all_conv list_all_iff)
  then show ?thesis using radix_text_digits [of 16 n] by (simp only: parse_hex_def)
qed

lemma hex_not_separator: "is_hex c \<Longrightarrow> c \<noteq> colon \<and> c \<noteq> dot \<and> c \<noteq> percent"
  by (auto simp: is_hex_def is_digit_def)

lemma radix_text_plain: "2 \<le> b \<Longrightarrow> b \<le> 16 \<Longrightarrow> colon \<notin> set (radix_text b n) \<and> dot \<notin> set (radix_text b n) \<and> percent \<notin> set (radix_text b n)"
  using radix_text_digits [of b n] hex_not_separator by (fastforce simp: list_all_iff)

section \<open>IPv4\<close>

lemma v4_seg_text: "n < 256 \<Longrightarrow> v4_seg (radix_text 10 n)"
proof -
  assume n: "n < 256"
  have "length (radix_text 10 n) \<le> 3" using n by (intro radix_text_length) auto
  moreover have "length (radix_text 10 n) > 1 \<Longrightarrow> 0 < n" by (cases "n = 0") (auto simp: radix_text.simps)
  ultimately show ?thesis using radix_text_digits [of 10 n] radix_text_hd [of n 10] n by (auto simp: v4_seg_def)
qed

lemma ipv4_round:
  assumes "length b = 4"
  shows "isIPv4 (join_with dot (map (\<lambda>b. radix_text 10 (unat b)) b)) \<and>
    ipv4_bytes (join_with dot (map (\<lambda>b. radix_text 10 (unat b)) b)) = b"
proof -
  let ?ps = "map (\<lambda>b. radix_text 10 (unat b)) b"
  have s: "split_on dot (join_with dot ?ps) = ?ps"
    using assms radix_text_plain [of 10] by (intro split_join) auto
  have "unat x < 256" for x :: byte using unsigned_less [of x] by simp
  then have "list_all v4_seg ?ps" by (auto simp: list_all_iff intro: v4_seg_text)
  moreover have "map (\<lambda>p. of_nat (digits_value 10 p)) ?ps = b"
    using radix_text_digits [of 10] by (simp add: comp_def)
  ultimately show ?thesis using assms by (simp add: isIPv4_def ipv4_bytes_def s)
qed

section \<open>IPv6\<close>

definition hextet_texts :: "nat list \<Rightarrow> js_text list" where
  "hextet_texts vs = map (radix_text 16) vs"

lemma zero_text_iff: "radix_text 16 n = zero_text \<longleftrightarrow> n = 0"
  using parse_hex_text [of n] parse_hex_text [of 0] by (auto simp: zero_text_def radix_text.simps [of 16 0] digit_char_def)

lemma zero_run_hextets:
  "zero_run (hextet_texts vs) = Some (l, r) \<Longrightarrow>
     \<exists>a k c. vs = a @ replicate (Suc (Suc k)) 0 @ c \<and> l = hextet_texts a \<and> r = hextet_texts c"
proof (induction vs arbitrary: l)
  case (Cons x vs)
  show ?case
  proof (cases vs)
    case (Cons y ys)
    show ?thesis
    proof (cases "x = 0 \<and> y = 0")
      case True
      then have l: "l = []" "r = dropWhile (\<lambda>s. s = zero_text) (hextet_texts ys)"
        using Cons.prems \<open>vs = y # ys\<close> by (simp_all add: hextet_texts_def zero_text_iff)
      have "ys = replicate (length (takeWhile ((=) 0) ys)) 0 @ dropWhile ((=) 0) ys"
      proof -
        have "takeWhile ((=) 0) ys = replicate (length (takeWhile ((=) 0) ys)) 0"
          by (rule replicate_eqI) (auto dest: set_takeWhileD)
        then show ?thesis by (metis takeWhile_dropWhile_id)
      qed
      moreover have "(\<lambda>x. x = (0 :: nat)) = (=) 0" by auto
      then have "r = hextet_texts (dropWhile ((=) 0) ys)"
        unfolding l(2) hextet_texts_def dropWhile_map comp_def zero_text_iff by simp
      ultimately show ?thesis using True \<open>vs = y # ys\<close> l(1)
        by (intro exI [of _ "[]"] exI [of _ "length (takeWhile ((=) 0) ys)"] exI [of _ "dropWhile ((=) 0) ys"])
          (simp add: hextet_texts_def)
    next
      case False
      then obtain l' where "zero_run (hextet_texts vs) = Some (l', r)" "l = radix_text 16 x # l'"
        using Cons.prems \<open>vs = y # ys\<close> by (auto simp: hextet_texts_def zero_text_iff)
      then show ?thesis using Cons.IH [of l'] by (metis append_Cons hextet_texts_def list.simps(9))
    qed
  qed (use Cons.prems in \<open>simp add: hextet_texts_def\<close>)
qed (simp add: hextet_texts_def)

text \<open>The sections of the printed address: an empty one for the run of zeros, and one more at an end
  of the address where it touches.\<close>

definition compressed :: "js_text list \<Rightarrow> js_text list \<Rightarrow> js_text list" where
  "compressed l r = (if l = [] then [[]] else l) @ [[]] @ (if r = [] then [[]] else r)"

lemma collapse_skip: "colon \<notin> set s \<Longrightarrow> collapse_colons (s @ t) = s @ collapse_colons t"
  by (induction s) (auto simp: eval_nat_numeral)

lemma collapse_step: "x \<noteq> colon \<Longrightarrow> collapse_colons (colon # x # xs) = colon # x # collapse_colons xs"
  using collapse_skip [of "[x]" xs] by (simp add: eval_nat_numeral)

declare collapse_colons.simps(2) [simp del]

lemma collapse_join_skip:
  "\<forall>s \<in> set ss. s \<noteq> [] \<and> colon \<notin> set s \<Longrightarrow> ss \<noteq> [] \<Longrightarrow> t = [] \<or> hd t = colon \<Longrightarrow>
   collapse_colons (join_with colon ss @ t) = join_with colon ss @ collapse_colons t"
proof (induction "colon :: nat" ss rule: join_with.induct)
  case (3 s s' ss)
  obtain x xs where x: "join_with colon (s' # ss) = x # xs" "x \<noteq> colon"
    using "3.prems"(1) by (cases s'; cases ss) auto
  have "collapse_colons (x # xs @ t) = x # xs @ collapse_colons t"
    using "3.hyps" "3.prems" unfolding x(1) by simp
  then have "collapse_colons (colon # x # xs @ t) = colon # x # xs @ collapse_colons t"
    using x(2) collapse_skip [of "[x]" "xs @ t"] by (simp add: collapse_step)
  then show ?case using "3.prems" x by (simp add: collapse_skip)
qed (simp_all add: collapse_skip)

lemma collapse_none: "\<forall>s \<in> set ss. s \<noteq> [] \<and> colon \<notin> set s \<Longrightarrow> ss \<noteq> [] \<Longrightarrow> collapse_colons (join_with colon ss) = join_with colon ss"
  using collapse_join_skip [of ss "[]"] by simp

lemma collapse_compressed:
  assumes "\<forall>s \<in> set l \<union> set r. s \<noteq> [] \<and> colon \<notin> set s"
  shows "collapse_colons ((if l = [] then [] else join_with colon l @ [colon]) @ [colon, colon] @
      (if r = [] then [] else colon # join_with colon r)) = join_with colon (compressed l r)"
proof -
  have r0: "collapse_colons (colon # colon # colon # join_with colon r) = colon # colon # join_with colon r"
    "collapse_colons (colon # colon # colon # colon # join_with colon r) = colon # colon # join_with colon r" if r: "r \<noteq> []"
  proof -
    obtain q qs where q: "r = q # qs" "q \<noteq> []" "colon \<notin> set q" using r assms by (cases r) auto
    then obtain x xs where "join_with colon r = x # xs" "x \<noteq> colon" by (cases q; cases qs) auto
    then show "collapse_colons (colon # colon # colon # join_with colon r) = colon # colon # join_with colon r"
      "collapse_colons (colon # colon # colon # colon # join_with colon r) = colon # colon # join_with colon r"
      by (simp_all add: collapse_colons.simps eval_nat_numeral)
  qed
  have two: "collapse_colons [colon, colon] = [colon, colon]" "collapse_colons [colon, colon, colon] = [colon, colon]"
    by (simp_all add: collapse_colons.simps eval_nat_numeral)
  show ?thesis
  proof (cases "l = []")
    case True
    then show ?thesis using r0 by (cases "r = []") (auto simp: compressed_def neq_Nil_conv two)
  next
    case False
    have j: "collapse_colons (join_with colon l @ t) = join_with colon l @ collapse_colons t" if "hd t = colon" for t
      using collapse_join_skip [of l t] False assms that by auto
    have e: "join_with colon (compressed l r) = join_with colon l @ colon # (if r = [] then [colon] else colon # join_with colon r)"
      using False by (cases "r = []") (auto simp: compressed_def join_append neq_Nil_conv)
    show ?thesis using False r0 unfolding e by (cases "r = []") (simp_all add: j two)
  qed
qed

lemma v4_sections_plain: "list_all (\<lambda>s. \<not> isIPv4 s) ss \<Longrightarrow> v4_sections i ss = ss"
  by (induction i ss rule: v4_sections.induct) auto

lemma isIPv4_chars: "isIPv4 s \<Longrightarrow> dot \<in> set s \<and> colon \<notin> set s"
proof -
  assume a: "isIPv4 s"
  have "set s \<subseteq> insert c (\<Union>(set ` set (split_on c s)))" for c
    by (induction s) (auto split: list.splits if_splits, blast)
  then have "set s \<subseteq> insert dot (\<Union>(set ` set (split_on dot s)))" .
  moreover have "\<forall>p \<in> set (split_on dot s). \<forall>c \<in> set p. is_digit c" using a by (auto simp: isIPv4_def list_all_iff v4_seg_def)
  ultimately have "colon \<notin> set s" by (fastforce simp: is_digit_def)
  moreover have "dot \<in> set s" using a split_on_none [of dot s] by (cases "dot \<in> set s") (simp_all add: isIPv4_def)
  ultimately show ?thesis by simp
qed

definition hextets_ok :: "js_text list \<Rightarrow> bool" where
  "hextets_ok ss \<longleftrightarrow> list_all v6_seg ss"

lemma hextet_ok: "list_all (\<lambda>v. v < 65536) vs \<Longrightarrow> hextets_ok (hextet_texts vs)"
  using radix_text_digits [of 16] radix_text_length [of _ 16 4]
  by (auto simp: hextets_ok_def hextet_texts_def list_all_iff v6_seg_def)

lemma hextets_plain: "hextets_ok ss \<Longrightarrow> s \<in> set ss \<Longrightarrow> s \<noteq> [] \<and> colon \<notin> set s \<and> dot \<notin> set s \<and> percent \<notin> set s"
  using hex_not_separator by (fastforce simp: hextets_ok_def list_all_iff v6_seg_def)

text \<open>An address whose sections are groups of at most four digits, or groups and a place for zeros.\<close>

lemma isIPv6_sections:
  assumes "split_on colon a = ss" "percent \<notin> set a"
  shows "isIPv6 a \<longleftrightarrow> v6_shape ss"
proof -
  have "takeWhile (\<lambda>c. c \<noteq> percent) a = a" using assms(2) by (auto simp: takeWhile_eq_all_conv)
  then show ?thesis unfolding isIPv6_def Let_def by (simp only: assms(1)) simp
qed

lemma full_shape: "hextets_ok ss \<Longrightarrow> length ss = 8 \<Longrightarrow> v6_shape ss"
  using hextets_plain [of ss] by (auto simp: v6_shape_def v6_groups_def hextets_ok_def)

lemma compressed_shape:
  assumes "hextets_ok l" "hextets_ok r" "length l + length r \<le> 7"
  shows "v6_shape (compressed l r)"
proof -
  have l: "takeWhile (\<lambda>s. s \<noteq> []) (l @ [] # x) = l" "dropWhile (\<lambda>s. s \<noteq> []) (l @ [] # x) = [] # x" for x
    using hextets_plain [OF assms(1)] by (simp_all add: takeWhile_tail dropWhile_append3)
  have r: "r \<noteq> [[]]" using hextets_plain [OF assms(2)] by auto
  show ?thesis
    using assms l r by (cases "l = []"; cases "r = []") (auto simp: compressed_def v6_shape_def v6_groups_def hextets_ok_def Let_def)
qed

lemma section_bytes_text: "v < 65536 \<Longrightarrow> section_bytes (radix_text 16 v) = be_bytes 2 (int v)"
proof -
  assume "v < 65536"
  have "int v AND 0xff = int v mod 256" "drop_bit 8 (int v) AND 0xff = int v div 256 mod 256"
    using take_bit_eq_mask [of 8 "int v"] take_bit_eq_mask [of 8 "drop_bit 8 (int v)"]
    by (simp_all add: take_bit_eq_mod mask_eq_exp_minus_1 drop_bit_eq_div)
  moreover have "int v div 256 mod 256 = int v div 256" using \<open>v < 65536\<close> by simp
  moreover have "word_of_int (int v mod 256) = (word_of_nat v :: byte)"
    by transfer (simp add: take_bit_eq_mod)
  ultimately show ?thesis by (simp add: section_bytes_def parse_hex_text Let_def numeral_2_eq_2)
qed

lemma section_bytes_zero: "section_bytes zero_text = [0, 0]" "section_bytes [] = [0, 0]"
  by (simp_all add: section_bytes_def zero_text_def parse_hex_def digits_value_def is_hex_def is_digit_def hex_value_def)

lemma sections_bytes:
  "list_all (\<lambda>v. v < 65536) vs \<Longrightarrow> concat (map section_bytes (hextet_texts vs)) = concat (map (\<lambda>v. be_bytes 2 (int v)) vs)"
  by (induction vs) (auto simp: hextet_texts_def section_bytes_text)

lemma filled_compressed:
  assumes l: "hextets_ok l" and r: "hextets_ok r" and n: "length l + length r \<le> 6"
  shows "concat (map section_bytes (fill_sections (compressed l r))) =
    concat (map section_bytes l) @ concat (replicate (8 - length l - length r) [0, 0]) @ concat (map section_bytes r)"
proof -
  have Z: "concat (map section_bytes (replicate k zero_text)) = concat (replicate k [0, 0])" for k
    by (simp add: section_bytes_zero map_replicate)
  have ne: "\<forall>s \<in> set l \<union> set r. s \<noteq> []" using hextets_plain [OF l] hextets_plain [OF r] by auto
  show ?thesis
  proof (cases "l = []")
    case True
    show ?thesis
    proof (cases "r = []")
      case True
      have "concat (replicate 5 [0, 0 :: byte]) @ [0, 0, 0, 0, 0, 0] = concat (replicate 8 [0, 0])" by (simp add: eval_nat_numeral)
      with True \<open>l = []\<close> show ?thesis by (simp add: compressed_def fill_sections_def Z section_bytes_zero)
    next
      case False
      obtain k where k: "8 - length (compressed l r) = k" "8 - length l - length r = Suc (Suc k)"
        using False True n by (auto simp: compressed_def)
      have "concat (replicate k [0, 0 :: byte]) @ [0, 0, 0, 0] = concat (replicate (Suc (Suc k)) [0, 0])" by (induction k) auto
      moreover have "compressed l r = [] # [] # r" using True False by (simp add: compressed_def)
      ultimately show ?thesis using True k by (simp add: fill_sections_def Z section_bytes_zero)
    qed
  next
    case False
    have hd: "hd (compressed l r) \<noteq> []" using False ne by (auto simp: compressed_def)
    show ?thesis
    proof (cases "r = []")
      case True
      have "compressed l r = l @ [[], []]" using False True by (simp add: compressed_def)
      moreover obtain k where "8 - length (compressed l r) = k" "8 - length l - length r = Suc (Suc k)"
        using n True False by (auto simp: compressed_def)
      ultimately show ?thesis using hd True by (simp add: fill_sections_def Z section_bytes_zero)
    next
      case rn: False
      have c: "compressed l r = l @ [] # r" using False rn by (simp add: compressed_def)
      have t: "takeWhile (\<lambda>s. s \<noteq> []) (compressed l r) = l" using ne unfolding c by (simp add: takeWhile_tail)
      have "last (compressed l r) \<noteq> []" using rn ne by (auto simp: c)
      moreover have "length (compressed l r) < 8" "9 - length (compressed l r) = 8 - length l - length r" using n by (simp_all add: c)
      ultimately show ?thesis using hd t by (simp add: fill_sections_def c Z section_bytes_zero)
    qed
  qed
qed

lemma hextets_of_bytes:
  assumes "length b = 16"
  obtains vs where "length vs = 8" "list_all (\<lambda>v. v < 65536) vs" "concat (map (\<lambda>v. be_bytes 2 (int v)) vs) = b"
    "rmap (\<lambda>i. rbind (readUInt16BE b (2 * i)) (\<lambda>v. Inr (radix_text 16 (nat v)))) [0..<8] = Inr (hextet_texts vs)"
proof -
  let ?w = "\<lambda>i. buf_slice b (2 * i) (2 * i + 2)"
  let ?vs = "map (\<lambda>i. nat (be_int (?w i))) [0..<8]"
  have len: "length (?w i) = 2" if "i < 8" for i using assms that by simp
  have lt: "be_int (?w i) < 65536" if "i < 8" for i using be_int_bound [of "?w i"] len [OF that] by simp
  have bk: "be_bytes 2 (be_int (?w i)) = ?w i" if "i < 8" for i
    using be_int_bound [of "?w i"] len [OF that] by (intro be_int_inj) (simp_all add: be_bytes_int)
  have "rmap (\<lambda>i. rbind (readUInt16BE b (2 * i)) (\<lambda>v. Inr (radix_text 16 (nat v)))) [0..<8] =
      Inr (map (\<lambda>i. radix_text 16 (nat (be_int (?w i)))) [0..<8])"
    using assms by (intro rmap_total) (auto simp: readUIntBE_def)
  moreover have "concat (map (\<lambda>v. be_bytes 2 (int v)) ?vs) = concat (map ?w [0..<8])"
    by (intro arg_cong [of _ _ concat]) (auto simp: bk)
  moreover have "concat (map ?w [0..<8]) = b"
    using assms by (auto simp: eval_nat_numeral length_Suc_conv buf_slice_def)
  ultimately show ?thesis using that [of ?vs] lt by (auto simp: hextet_texts_def list_all_iff comp_def nat_less_iff)
qed

lemma be_bytes_zero: "be_bytes 2 0 = [0, 0]" by (simp add: numeral_2_eq_2)

lemma ipv6_round:
  assumes "length b = 16"
  shows "\<exists>t. bufferToIpAddress b = Inr t \<and> ipAddressToBuffer t = Inr b \<and> \<not> isIPv4 t"
proof -
  obtain vs where vs: "length vs = 8" "list_all (\<lambda>v. v < 65536) vs" "concat (map (\<lambda>v. be_bytes 2 (int v)) vs) = b"
    "rmap (\<lambda>i. rbind (readUInt16BE b (2 * i)) (\<lambda>v. Inr (radix_text 16 (nat v)))) [0..<8] = Inr (hextet_texts vs)"
    using hextets_of_bytes [OF assms] .
  have ok: "hextets_ok (hextet_texts vs)" by (rule hextet_ok [OF vs(2)])
  have main: "ipAddressToBuffer (join_with colon ss) = Inr b \<and> \<not> isIPv4 (join_with colon ss)"
    if ss: "\<forall>s \<in> set ss. colon \<notin> set s \<and> dot \<notin> set s \<and> percent \<notin> set s" "v6_shape ss" "length ss \<le> 8" "2 \<le> length ss"
      "concat (map section_bytes (fill_sections ss)) = b" for ss
  proof -
    have ne: "ss \<noteq> []" using ss(4) by auto
    have sp: "split_on colon (join_with colon ss) = ss" using ss(1) by (intro split_join ne) auto
    have "colon \<in> set (join_with colon ss)" using ss(4) by (cases ss rule: remdups_adj.cases) auto
    then have n4: "\<not> isIPv4 (join_with colon ss)" using isIPv4_chars by blast
    have "percent \<notin> set (join_with colon ss)" using ss(1) set_join [of colon ss] by auto
    then have "isIPv6 (join_with colon ss)" using isIPv6_sections [OF sp] ss(2) by simp
    moreover have "v4_sections 0 ss = ss" using ss(1) isIPv4_chars by (intro v4_sections_plain) (auto simp: list_all_iff)
    ultimately show ?thesis using n4 sp ss assms by (simp add: ipAddressToBuffer_def)
  qed
  show ?thesis
  proof (cases "zero_run (hextet_texts vs)")
    case None
    let ?ss = "hextet_texts vs"
    have len: "length ?ss = 8" using vs by (simp add: hextet_texts_def)
    have "collapse_colons (join_with colon ?ss) = join_with colon ?ss"
      using hextets_plain [OF ok] len by (intro collapse_none) auto
    then have t: "bufferToIpAddress b = Inr (join_with colon ?ss)"
      using assms vs(4) None by (simp add: bufferToIpAddress_def replace_zero_run_def)
    have "fill_sections ?ss = ?ss"
      using hextets_plain [OF ok] len by (cases ?ss) (auto simp: fill_sections_def)
    then show ?thesis using main [of ?ss] t hextets_plain [OF ok] full_shape [OF ok len] len sections_bytes [OF vs(2)] vs(3) by auto
  next
    case (Some lr)
    obtain l r where lr: "lr = (l, r)" by (cases lr)
    obtain a k c where s: "vs = a @ replicate (Suc (Suc k)) 0 @ c" "l = hextet_texts a" "r = hextet_texts c"
      using zero_run_hextets Some lr by blast
    have okl: "hextets_ok l" "hextets_ok r" using ok unfolding s hextets_ok_def hextet_texts_def by auto
    have n: "length l + length r \<le> 6" "8 - length l - length r = Suc (Suc k)" using vs(1) by (auto simp: s hextet_texts_def)
    have plain: "\<forall>s \<in> set l \<union> set r. s \<noteq> [] \<and> colon \<notin> set s" using hextets_plain okl by auto
    have t: "bufferToIpAddress b = Inr (join_with colon (compressed l r))"
      using assms vs(4) Some collapse_compressed [OF plain] by (simp add: bufferToIpAddress_def replace_zero_run_def lr)
    have small: "list_all (\<lambda>v. v < 65536) a" "list_all (\<lambda>v. v < 65536) c" using vs(2) by (auto simp: s)
    have "b = concat (map section_bytes l) @ concat (replicate (Suc (Suc k)) [0, 0]) @ concat (map section_bytes r)"
      unfolding vs(3) [symmetric] s sections_bytes [OF small(1)] sections_bytes [OF small(2)]
      by (simp add: be_bytes_zero map_replicate)
    then have "concat (map section_bytes (fill_sections (compressed l r))) = b"
      unfolding filled_compressed [OF okl n(1)] n(2) by simp
    moreover have "length (compressed l r) \<le> 8" "2 \<le> length (compressed l r)" using n(1) by (auto simp: compressed_def Suc_le_eq)
    moreover have "\<forall>s \<in> set (compressed l r). colon \<notin> set s \<and> dot \<notin> set s \<and> percent \<notin> set s"
      using hextets_plain okl by (auto simp: compressed_def)
    ultimately show ?thesis using main [of "compressed l r"] t compressed_shape [OF okl] n(1) by auto
  qed
qed

text \<open>C33: the bytes of an IPv4 or IPv6 address, printed (with a run of zeros as \<open>::\<close>) and read again, are the same, and the
  text is taken for an address of the family it came from.\<close>

theorem ip_roundtrip:
  assumes "length b = 4 \<or> length b = 16"
  shows "\<exists>t. bufferToIpAddress b = Inr t \<and> ipAddressToBuffer t = Inr b \<and> isIPv4 t = (length b = 4)"
  using assms ipv4_round [of b] ipv6_round [of b] by (auto simp: bufferToIpAddress_def ipAddressToBuffer_def)

lemma ip_roundtrip_witness:
  "\<exists>t. bufferToIpAddress [192, 0, 2, 7] = Inr t \<and> ipAddressToBuffer t = Inr [192, 0, 2, 7] \<and> isIPv4 t"
  using ip_roundtrip [of "[192, 0, 2, 7]"] by simp

text \<open>The limit of eight sections cuts off the last group of an address that starts with one zero
  group written as \<open>::\<close>, such as \<open>::2:3:4:5:6:7:8\<close>.\<close>

lemma leading_zero_group_loses_last:
  "ipAddressToBuffer [colon, colon, 50, colon, 51, colon, 52, colon, 53, colon, 54, colon, 55, colon, 56] =
    Inr [0, 0, 0, 0, 0, 2, 0, 3, 0, 4, 0, 5, 0, 6, 0, 7]"
  by (simp add: ipAddressToBuffer_def isIPv4_def isIPv6_def v6_shape_def v6_groups_def v6_seg_def is_hex_def is_digit_def
    v4_sections_plain fill_sections_def section_bytes_def parse_hex_def digits_value_def hex_value_def)

end
