(* ===== verification/Stun_Message.thy ===== *)
theory Stun_Message
  imports Stun_Ip Binary Crc
begin

unbundle bit_operations_syntax

text \<open>
  STUN messages (\<^verbatim>\<open>packages/ice-server/src/stun/\<close>): attribute codecs, the attribute table, the message
  with its integrity and fingerprint attributes, and the parser.  HMAC-SHA1 (\<^verbatim>\<open>node:crypto\<close>) is a
  parameter.
\<close>

section \<open>Constants\<close>

definition COOKIE :: int where "COOKIE = 0x2112a442"
definition FINGERPRINT_LENGTH :: nat where "FINGERPRINT_LENGTH = 8"
definition FINGERPRINT_XOR :: "32 word" where "FINGERPRINT_XOR = 0x5354554e"
definition HEADER_LENGTH :: nat where "HEADER_LENGTH = 20"
definition INTEGRITY_LENGTH :: nat where "INTEGRITY_LENGTH = 24"
definition IPV4_PROTOCOL :: int where "IPV4_PROTOCOL = 1"
definition IPV6_PROTOCOL :: int where "IPV6_PROTOCOL = 2"

definition stun_classes :: "int list" where "stun_classes = [0x000, 0x010, 0x100, 0x110]"

definition isComprehensionRequiredAttribute :: "int \<Rightarrow> bool" where
  "isComprehensionRequiredAttribute type \<longleftrightarrow> type \<ge> 0x0000 \<and> type \<le> 0x7fff"

definition isStunMessage :: "buffer \<Rightarrow> bool" where
  "isStunMessage data \<longleftrightarrow>
     \<not> length data < HEADER_LENGTH \<and> (data ! 0 AND 0xc0) = 0 \<and> readUInt32BE data 4 = Inr COOKIE \<and>
     (case readUInt16BE data 2 of Inl _ \<Rightarrow> False
      | Inr len \<Rightarrow> len mod 4 = 0 \<and> length data = HEADER_LENGTH + nat len)"

definition paddingLength :: "nat \<Rightarrow> nat" where
  "paddingLength n = (let rest = n mod 4 in if rest = 0 then 0 else 4 - rest)"

section \<open>Attribute values\<close>

text \<open>A value of the wrong kind for its attribute raises; which error it is does not matter here.\<close>

datatype stun_value =
    VNum int
  | VText js_text
  | VBytes buffer
  | VAddr js_text int
  | VError int js_text
  | VTypes "int list"
  | VNull

definition packAddress :: "js_text \<Rightarrow> int \<Rightarrow> buffer result" where
  "packAddress address port =
     (let protocol = (if isIPv4 address then IPV4_PROTOCOL else IPV6_PROTOCOL)
      in rbind (writeUInt8 0) (\<lambda>b0. rbind (writeUInt8 protocol) (\<lambda>b1. rbind (writeUInt16BE port) (\<lambda>b2.
         rbind (ipAddressToBuffer address) (\<lambda>a. Inr (b0 @ b1 @ b2 @ a))))))"

definition unpackErrorCode :: "buffer \<Rightarrow> stun_value result" where
  "unpackErrorCode data =
     (if length data < 4 then Inl (Error ''STUN error code is less than 4 bytes'')
      else rbind (readUInt8 data 2) (\<lambda>codeHigh. rbind (readUInt8 data 3) (\<lambda>codeLow.
           Inr (VError (codeHigh * 100 + codeLow) (buf_to_text (drop 4 data))))))"

definition unpackAddress :: "buffer \<Rightarrow> stun_value result" where
  "unpackAddress data =
     (if length data < 4 then Inl (Error ''STUN address length is less than 4 bytes'')
      else rbind (readUInt8 data 1) (\<lambda>protocol. rbind (readUInt16BE data 2) (\<lambda>port.
           let address = drop 4 data
           in if protocol = IPV4_PROTOCOL
              then if length address \<noteq> 4 then Inl (Error ''STUN address has invalid length for IPv4'')
                   else rbind (bufferToIpAddress address) (\<lambda>t. Inr (VAddr t port))
              else if protocol = IPV6_PROTOCOL
              then if length address \<noteq> 16 then Inl (Error ''STUN address has invalid length for IPv6'')
                   else rbind (bufferToIpAddress address) (\<lambda>t. Inr (VAddr t port))
              else Inl (Error ''STUN address has unknown protocol''))))"

definition cookieBuffer :: buffer where
  "cookieBuffer = be_bytes 2 (drop_bit 16 COOKIE) @ be_bytes 4 COOKIE"

text \<open>A byte past the end of the pad is \<^verbatim>\<open>undefined\<close>, which the exclusive or takes for 0.\<close>

definition xorAddress :: "buffer \<Rightarrow> buffer \<Rightarrow> buffer" where
  "xorAddress data transactionId =
     (let xPad = cookieBuffer @ transactionId
      in take 2 data @ map (\<lambda>i. data ! i XOR (if i - 2 < length xPad then xPad ! (i - 2) else 0)) [2..<length data])"

definition unpackXorAddress :: "buffer \<Rightarrow> buffer \<Rightarrow> stun_value result" where
  "unpackXorAddress data transactionId = unpackAddress (xorAddress data transactionId)"

definition packErrorCode :: "int \<Rightarrow> js_text \<Rightarrow> buffer result" where
  "packErrorCode code reason =
     rbind (writeUInt16BE 0) (\<lambda>b0. rbind (writeUInt8 (code div 100)) (\<lambda>b1. rbind (writeUInt8 (js_rem code 100)) (\<lambda>b2.
       Inr (b0 @ b1 @ b2 @ buf_from_text reason))))"

definition packUnknownAttributes :: "int list \<Rightarrow> buffer result" where
  "packUnknownAttributes ts = rbind (rmap writeUInt16BE ts) (\<lambda>bs. Inr (concat bs))"

definition unpackUnknownAttributes :: "buffer \<Rightarrow> stun_value result" where
  "unpackUnknownAttributes data =
     (if length data mod 2 \<noteq> 0 then Inl (Error ''UNKNOWN-ATTRIBUTES must have an even length'')
      else rbind (rmap (\<lambda>i. readUInt16BE data (2 * i)) [0..<length data div 2]) (\<lambda>ts. Inr (VTypes ts)))"

definition packXorAddress :: "js_text \<Rightarrow> int \<Rightarrow> buffer \<Rightarrow> buffer result" where
  "packXorAddress address port transactionId = rbind (packAddress address port) (\<lambda>b. Inr (xorAddress b transactionId))"

definition packUnsigned :: "int \<Rightarrow> buffer result" where
  "packUnsigned v = writeUInt32BE v"

definition unpackUnsigned :: "buffer \<Rightarrow> stun_value result" where
  "unpackUnsigned data = rbind (readUInt32BE data 0) (\<lambda>v. Inr (VNum v))"

definition packUnsignedShort :: "int \<Rightarrow> buffer result" where
  "packUnsignedShort v = rbind (writeUInt16BE v) (\<lambda>b. Inr (b @ [0, 0]))"

definition unpackUnsignedShort :: "buffer \<Rightarrow> stun_value result" where
  "unpackUnsignedShort data = rbind (readUInt16BE data 0) (\<lambda>v. Inr (VNum v))"

definition packUnsigned64 :: "int \<Rightarrow> buffer result" where
  "packUnsigned64 v = writeUIntBE 8 v"

definition unpackUnsigned64 :: "buffer \<Rightarrow> stun_value result" where
  "unpackUnsigned64 data = rbind (readUIntBE 8 data 0) (\<lambda>v. Inr (VNum v))"

definition packSoftware :: "js_text \<Rightarrow> buffer result" where
  "packSoftware s = (if length s \<ge> 128 then Inl (Error ''SOFTWARE must be shorter than 128 characters'') else Inr (buf_from_text s))"

section \<open>The attribute table\<close>

text \<open>The pair of functions of a row of \<^verbatim>\<open>ATTRIBUTES\<close>.\<close>

datatype stun_codec = CAddress | CXorAddress | CUnsigned | CUnsignedShort | CUnsigned64 | CString | CSoftware | CBytes | CNone
  | CErrorCode | CUnknown

fun attr_pack :: "stun_codec \<Rightarrow> stun_value \<Rightarrow> buffer \<Rightarrow> buffer result" where
  "attr_pack CAddress (VAddr a p) tid = packAddress a p"
| "attr_pack CXorAddress (VAddr a p) tid = packXorAddress a p tid"
| "attr_pack CUnsigned (VNum n) tid = packUnsigned n"
| "attr_pack CUnsignedShort (VNum n) tid = packUnsignedShort n"
| "attr_pack CUnsigned64 (VNum n) tid = packUnsigned64 n"
| "attr_pack CString (VText s) tid = Inr (buf_from_text s)"
| "attr_pack CSoftware (VText s) tid = packSoftware s"
| "attr_pack CBytes (VBytes b) tid = Inr b"
| "attr_pack CNone v tid = Inr []"
| "attr_pack CErrorCode (VError c r) tid = packErrorCode c r"
| "attr_pack CUnknown (VTypes ts) tid = packUnknownAttributes ts"
| "attr_pack _ _ tid = Inl (TypeError ''value'')"

fun attr_unpack :: "stun_codec \<Rightarrow> buffer \<Rightarrow> buffer \<Rightarrow> stun_value result" where
  "attr_unpack CAddress b tid = unpackAddress b"
| "attr_unpack CXorAddress b tid = unpackXorAddress b tid"
| "attr_unpack CUnsigned b tid = unpackUnsigned b"
| "attr_unpack CUnsignedShort b tid = unpackUnsignedShort b"
| "attr_unpack CUnsigned64 b tid = unpackUnsigned64 b"
| "attr_unpack CString b tid = Inr (VText (buf_to_text b))"
| "attr_unpack CSoftware b tid = Inr (VText (buf_to_text b))"
| "attr_unpack CBytes b tid = Inr (VBytes b)"
| "attr_unpack CNone b tid = Inr VNull"
| "attr_unpack CErrorCode b tid = unpackErrorCode b"
| "attr_unpack CUnknown b tid = unpackUnknownAttributes b"

definition ATTRIBUTES :: "(int \<times> string \<times> stun_codec) list" where
  "ATTRIBUTES =
    [(0x0001, ''MAPPED-ADDRESS'', CAddress), (0x0003, ''CHANGE-REQUEST'', CUnsigned), (0x0004, ''SOURCE-ADDRESS'', CAddress),
     (0x0005, ''CHANGED-ADDRESS'', CAddress), (0x0006, ''USERNAME'', CString), (0x0008, ''MESSAGE-INTEGRITY'', CBytes),
     (0x0009, ''ERROR-CODE'', CErrorCode), (0x000a, ''UNKNOWN-ATTRIBUTES'', CUnknown), (0x000c, ''CHANNEL-NUMBER'', CUnsignedShort),
     (0x000d, ''LIFETIME'', CUnsigned), (0x0012, ''XOR-PEER-ADDRESS'', CXorAddress), (0x0013, ''DATA'', CBytes),
     (0x0014, ''REALM'', CString), (0x0015, ''NONCE'', CBytes), (0x0016, ''XOR-RELAYED-ADDRESS'', CXorAddress),
     (0x0017, ''REQUESTED-ADDRESS-FAMILY'', CUnsigned), (0x0018, ''EVEN-PORT'', CBytes), (0x0019, ''REQUESTED-TRANSPORT'', CUnsigned),
     (0x001c, ''MESSAGE-INTEGRITY-SHA256'', CBytes), (0x001d, ''PASSWORD-ALGORITHM'', CBytes), (0x001e, ''USERHASH'', CBytes),
     (0x0020, ''XOR-MAPPED-ADDRESS'', CXorAddress), (0x0022, ''RESERVATION-TOKEN'', CBytes), (0x0024, ''PRIORITY'', CUnsigned),
     (0x0025, ''USE-CANDIDATE'', CNone), (0x8002, ''PASSWORD-ALGORITHMS'', CBytes), (0x8003, ''ALTERNATE-DOMAIN'', CString),
     (0x8022, ''SOFTWARE'', CSoftware), (0x8023, ''ALTERNATE-SERVER'', CAddress), (0x8028, ''FINGERPRINT'', CUnsigned),
     (0x8029, ''ICE-CONTROLLED'', CUnsigned64), (0x802a, ''ICE-CONTROLLING'', CUnsigned64), (0x802b, ''RESPONSE-ORIGIN'', CAddress),
     (0x802c, ''OTHER-ADDRESS'', CAddress)]"

definition ATTRIBUTES_BY_TYPE :: "int \<Rightarrow> (string \<times> stun_codec) option" where
  "ATTRIBUTES_BY_TYPE = map_of ATTRIBUTES"

definition ATTRIBUTES_BY_NAME :: "string \<Rightarrow> (int \<times> stun_codec) option" where
  "ATTRIBUTES_BY_NAME = map_of (map (\<lambda>(t, n, c). (n, t, c)) ATTRIBUTES)"

section \<open>The attribute repository\<close>

type_synonym attribute_pairs = "(string \<times> stun_value) list"

fun setAttribute :: "string \<Rightarrow> stun_value \<Rightarrow> attribute_pairs \<Rightarrow> attribute_pairs" where
  "setAttribute key value [] = [(key, value)]"
| "setAttribute key value ((k, v) # as) = (if k = key then (k, value) # as else (k, v) # setAttribute key value as)"

definition getAttributeValue :: "string \<Rightarrow> attribute_pairs \<Rightarrow> stun_value option" where
  "getAttributeValue key as = map_of as key"

definition attributesKeys :: "attribute_pairs \<Rightarrow> string list" where
  "attributesKeys as = map fst as"

section \<open>Messages\<close>

record raw_attribute =
  ra_type :: int
  ra_length :: "nat option"
  ra_value :: buffer

record stun_message =
  messageMethod :: int
  messageClass :: int
  transactionId :: buffer
  msg_attributes :: attribute_pairs
  rawAttributes :: "raw_attribute list"
  alternateServers :: "stun_value list"

definition appendRawAttribute :: "int \<Rightarrow> buffer \<Rightarrow> stun_message \<Rightarrow> stun_message" where
  "appendRawAttribute t value m =
     m\<lparr>rawAttributes := rawAttributes m @ [\<lparr>ra_type = t, ra_length = None, ra_value = value\<rparr>]\<rparr>"

definition clearAttributes :: "stun_message \<Rightarrow> stun_message" where
  "clearAttributes m = m\<lparr>msg_attributes := []\<rparr>"

definition unknownAttributeTypes :: "stun_message \<Rightarrow> int list" where
  "unknownAttributeTypes m = map ra_type (rawAttributes m)"

definition serializeAttribute :: "int \<Rightarrow> buffer \<Rightarrow> buffer result" where
  "serializeAttribute type value =
     (let attrLen = length value; padLen = paddingLength attrLen
      in rbind (writeUInt16BE type) (\<lambda>b0. rbind (writeUInt16BE (int attrLen)) (\<lambda>b1. Inr (b0 @ b1 @ value @ buf_alloc padLen))))"

definition serialize_pair :: "stun_message \<Rightarrow> string \<Rightarrow> (int \<times> buffer) result" where
  "serialize_pair m attrName =
     (case ATTRIBUTES_BY_NAME attrName of None \<Rightarrow> Inl (TypeError ''undefined is not iterable'')
      | Some (attrType, codec) \<Rightarrow>
          rbind (attr_pack codec (case getAttributeValue attrName (msg_attributes m) of Some v \<Rightarrow> v | None \<Rightarrow> VNull) (transactionId m))
            (\<lambda>value. Inr (attrType, value)))"

definition serializedAttributes :: "stun_message \<Rightarrow> (int \<times> buffer) list result" where
  "serializedAttributes m =
     rbind (rmap (serialize_pair m) (attributesKeys (msg_attributes m))) (\<lambda>as.
       Inr (as @ map (\<lambda>r. (ra_type r, ra_value r)) (rawAttributes m)))"

definition stun_bytes :: "stun_message \<Rightarrow> buffer result" where
  "stun_bytes m =
     rbind (serializedAttributes m) (\<lambda>as. rbind (rmap (\<lambda>(t, v). serializeAttribute t v) as) (\<lambda>bs.
     let body = concat bs
     in rbind (writeUInt16BE (messageMethod m OR messageClass m)) (\<lambda>h0. rbind (writeUInt16BE (int (length body))) (\<lambda>h1.
        rbind (writeUInt32BE COOKIE) (\<lambda>h2. Inr (h0 @ h1 @ h2 @ transactionId m @ body))))))"

definition setBodyLength :: "buffer \<Rightarrow> nat \<Rightarrow> buffer result" where
  "setBodyLength data len = rbind (writeUInt16BE (int len)) (\<lambda>b. Inr (take 2 data @ b @ drop 4 data))"

definition messageFingerprint :: "buffer \<Rightarrow> int result" where
  "messageFingerprint data =
     rbind (setBodyLength data (length data - HEADER_LENGTH + FINGERPRINT_LENGTH)) (\<lambda>checkData.
       Inr (uint (crc32 checkData 0 XOR FINGERPRINT_XOR)))"

type_synonym hmac = "buffer \<Rightarrow> buffer \<Rightarrow> buffer"

definition messageIntegrity :: "hmac \<Rightarrow> buffer \<Rightarrow> buffer \<Rightarrow> buffer result" where
  "messageIntegrity hmac data key =
     rbind (setBodyLength data (length data - HEADER_LENGTH + INTEGRITY_LENGTH)) (\<lambda>checkData. Inr (hmac key checkData))"

definition addMessageIntegrity :: "hmac \<Rightarrow> buffer \<Rightarrow> stun_message \<Rightarrow> stun_message result" where
  "addMessageIntegrity hmac key m =
     rbind (stun_bytes m) (\<lambda>b. rbind (messageIntegrity hmac b key) (\<lambda>i.
       Inr (m\<lparr>msg_attributes := setAttribute ''MESSAGE-INTEGRITY'' (VBytes i) (msg_attributes m)\<rparr>)))"

definition addFingerprint :: "stun_message \<Rightarrow> stun_message result" where
  "addFingerprint m =
     rbind (stun_bytes m) (\<lambda>b. rbind (messageFingerprint b) (\<lambda>f.
       Inr (m\<lparr>msg_attributes := setAttribute ''FINGERPRINT'' (VNum f) (msg_attributes m)\<rparr>)))"

section \<open>The parser\<close>

record stun_parse =
  sp_attrs :: attribute_pairs
  sp_raws :: "raw_attribute list"
  sp_alts :: "stun_value list"
  sp_verified :: bool
  sp_integrity :: bool
  sp_sha256 :: bool

definition stun_parse_start :: stun_parse where
  "stun_parse_start = \<lparr>sp_attrs = [], sp_raws = [], sp_alts = [], sp_verified = False, sp_integrity = False, sp_sha256 = False\<rparr>"

text \<open>After \<^verbatim>\<open>MESSAGE-INTEGRITY\<close> nothing is covered: only the SHA256 variant and the fingerprint count.\<close>

definition attr_ignored :: "stun_parse \<Rightarrow> string option \<Rightarrow> bool" where
  "attr_ignored st attrNameOnWire \<longleftrightarrow>
     (sp_sha256 st \<and> attrNameOnWire \<noteq> Some ''FINGERPRINT'') \<or>
     (sp_integrity st \<and> attrNameOnWire \<noteq> Some ''FINGERPRINT'' \<and> attrNameOnWire \<noteq> Some ''MESSAGE-INTEGRITY-SHA256'')"

definition attr_flags :: "string option \<Rightarrow> stun_parse \<Rightarrow> stun_parse" where
  "attr_flags attrNameOnWire st =
     (let st = (if attrNameOnWire = Some ''MESSAGE-INTEGRITY'' then st\<lparr>sp_integrity := True\<rparr> else st)
      in if attrNameOnWire = Some ''MESSAGE-INTEGRITY-SHA256'' then st\<lparr>sp_sha256 := True\<rparr> else st)"

text \<open>The checks of the two attributes that depend on what is before them; \<open>None\<close> refuses the message.\<close>

definition attr_check :: "hmac \<Rightarrow> buffer option \<Rightarrow> buffer \<Rightarrow> string \<Rightarrow> stun_value \<Rightarrow> stun_parse \<Rightarrow> stun_parse option result" where
  "attr_check hmac integrityKey before attrName value st =
     (if attrName = ''FINGERPRINT''
      then rbind (messageFingerprint before) (\<lambda>fingerprint. Inr (if value \<noteq> VNum fingerprint then None else Some st))
      else if attrName = ''MESSAGE-INTEGRITY''
      then (case integrityKey of None \<Rightarrow> Inr (Some st)
            | Some key \<Rightarrow> rbind (messageIntegrity hmac before key) (\<lambda>integrity.
                Inr (if value \<noteq> VBytes integrity then None else Some (st\<lparr>sp_verified := True\<rparr>))))
      else Inr (Some st))"

definition attr_known :: "hmac \<Rightarrow> buffer option \<Rightarrow> buffer \<Rightarrow> string \<Rightarrow> stun_codec \<Rightarrow> buffer \<Rightarrow> buffer \<Rightarrow> stun_parse \<Rightarrow> stun_parse option result" where
  "attr_known hmac integrityKey before attrName codec payload tid st =
     (case attr_unpack codec payload tid of Inl _ \<Rightarrow> Inr None
      | Inr value \<Rightarrow>
          let st = st\<lparr>sp_attrs := setAttribute attrName value (sp_attrs st)\<rparr>;
              st = (if attrName = ''ALTERNATE-SERVER'' then st\<lparr>sp_alts := sp_alts st @ [value]\<rparr> else st)
          in attr_check hmac integrityKey before attrName value st)"

text \<open>One attribute: \<open>None\<close> refuses the message, otherwise the position after it and the new state.\<close>

definition parse_attribute :: "hmac \<Rightarrow> buffer option \<Rightarrow> buffer \<Rightarrow> buffer \<Rightarrow> nat \<Rightarrow> stun_parse \<Rightarrow> (nat \<times> stun_parse) option result" where
  "parse_attribute hmac integrityKey data tid pos st =
     (if pos + 4 > length data then Inr None
      else rbind (readUInt16BE data pos) (\<lambda>attrType. rbind (readUInt16BE data (pos + 2)) (\<lambda>attrLen.
        let valueStart = pos + 4;
            valueEnd = valueStart + nat attrLen
        in if valueEnd > length data then Inr None
           else let payload = buf_slice data valueStart valueEnd;
                    padLen = paddingLength (nat attrLen);
                    next = valueEnd + padLen;
                    attrNameOnWire = map_option fst (ATTRIBUTES_BY_TYPE attrType)
                in if next > length data then Inr None
                   else if attr_ignored st attrNameOnWire then Inr (Some (next, st))
                   else let st = attr_flags attrNameOnWire st
                        in case ATTRIBUTES_BY_TYPE attrType of
                             Some (attrName, codec) \<Rightarrow>
                               rbind (attr_known hmac integrityKey (take pos data) attrName codec payload tid st)
                                 (\<lambda>r. Inr (map_option (Pair next) r))
                           | None \<Rightarrow> Inr (Some (next, st\<lparr>sp_raws := sp_raws st @
                               [\<lparr>ra_type = attrType, ra_length = Some (nat attrLen), ra_value = payload\<rparr>]\<rparr>)))))"

lemma parse_attribute_advances:
  "parse_attribute hmac k data tid pos st = Inr (Some (next, st')) \<Longrightarrow> pos + 4 \<le> next \<and> next \<le> length data"
  by (auto simp: parse_attribute_def Let_def split: if_splits option.splits prod.splits)

function parse_attributes :: "hmac \<Rightarrow> buffer option \<Rightarrow> buffer \<Rightarrow> buffer \<Rightarrow> nat \<Rightarrow> stun_parse \<Rightarrow> stun_parse option result" where
  "parse_attributes hmac k data tid pos st =
     (if pos < length data
      then (case parse_attribute hmac k data tid pos st of
              Inl e \<Rightarrow> Inl e
            | Inr None \<Rightarrow> Inr None
            | Inr (Some (next, st)) \<Rightarrow> parse_attributes hmac k data tid next st)
      else Inr (Some st))"
  by pat_completeness auto
termination
  by (relation "measure (\<lambda>(h, k, data, t, pos, s). length data - pos)") (auto dest: parse_attribute_advances)

declare parse_attributes.simps [simp del]

definition parseMessage :: "hmac \<Rightarrow> buffer \<Rightarrow> buffer option \<Rightarrow> stun_message option result" where
  "parseMessage hmac data integrityKey =
     (if \<not> isStunMessage data then Inr None
      else rbind (readUInt16BE data 0) (\<lambda>messageType.
        let tid = buf_slice data (HEADER_LENGTH - 12) HEADER_LENGTH
        in rbind (parse_attributes hmac integrityKey data tid HEADER_LENGTH stun_parse_start) (\<lambda>r.
           Inr (case r of None \<Rightarrow> None
                | Some st \<Rightarrow>
                    if integrityKey \<noteq> None \<and> \<not> sp_verified st then None
                    else Some \<lparr>messageMethod = messageType AND 0x3eef, messageClass = messageType AND 0x0110, transactionId = tid,
                               msg_attributes = sp_attrs st, rawAttributes = sp_raws st, alternateServers = sp_alts st\<rparr>))))"

end
