(* ===== verification/Stun_Secure.thy ===== *)
theory Stun_Secure
  imports Stun_Message
begin

unbundle bit_operations_syntax

text \<open>
  STUN messages on the wire: the codecs of the attribute values, the round trip of a protected
  message and what its integrity attribute covers.
\<close>

section \<open>Attribute values\<close>

fun value_ok :: "stun_codec \<Rightarrow> stun_value \<Rightarrow> bool" where
  "value_ok CAddress (VAddr t p) \<longleftrightarrow> u16_ok p \<and> (\<exists>b. (length b = 4 \<or> length b = 16) \<and> bufferToIpAddress b = Inr t)"
| "value_ok CXorAddress (VAddr t p) \<longleftrightarrow> u16_ok p \<and> (\<exists>b. (length b = 4 \<or> length b = 16) \<and> bufferToIpAddress b = Inr t)"
| "value_ok CUnsigned (VNum n) \<longleftrightarrow> u32_ok n"
| "value_ok CUnsignedShort (VNum n) \<longleftrightarrow> u16_ok n"
| "value_ok CUnsigned64 (VNum n) \<longleftrightarrow> 0 \<le> n \<and> n < 2 ^ 64"
| "value_ok CString (VText s) \<longleftrightarrow> list_all scalar s"
| "value_ok CSoftware (VText s) \<longleftrightarrow> list_all scalar s \<and> length s < 128"
| "value_ok CBytes (VBytes b) \<longleftrightarrow> True"
| "value_ok CNone v \<longleftrightarrow> v = VNull"
| "value_ok CErrorCode (VError c r) \<longleftrightarrow> 0 \<le> c \<and> c < 25600 \<and> list_all scalar r"
| "value_ok CUnknown (VTypes ts) \<longleftrightarrow> list_all u16_ok ts"
| "value_ok _ _ \<longleftrightarrow> False"

lemma length_xorAddress [simp]: "length (xorAddress d tid) = length d"
  by (simp add: xorAddress_def Let_def)

lemma xorAddress_nth: "i < length d \<Longrightarrow> xorAddress d tid ! i =
    (if i < 2 then d ! i else d ! i XOR (if i - 2 < length (cookieBuffer @ tid) then (cookieBuffer @ tid) ! (i - 2) else 0))"
  by (cases "i < 2") (auto simp: xorAddress_def Let_def nth_append)

lemma xorAddress_twice: "xorAddress (xorAddress d tid) tid = d"
  by (rule nth_equalityI) (auto simp: xorAddress_nth xor.assoc)

lemma address_roundtrip:
  assumes "u16_ok p" "length b = 4 \<or> length b = 16" "bufferToIpAddress b = Inr t"
  shows "\<exists>w. packAddress t p = Inr w \<and> unpackAddress w = Inr (VAddr t p)"
proof -
  have t: "ipAddressToBuffer t = Inr b" "isIPv4 t = (length b = 4)" using ip_roundtrip [OF assms(2)] assms(3) by auto
  let ?pr = "if length b = 4 then IPV4_PROTOCOL else IPV6_PROTOCOL"
  have pr: "u8_ok ?pr" "u8_ok 0" by (auto simp: u8_ok_def IPV4_PROTOCOL_def IPV6_PROTOCOL_def)
  let ?w = "be_bytes 1 0 @ be_bytes 1 ?pr @ be_bytes 2 p @ b"
  have "packAddress t p = Inr ?w" using assms(1) t pr by (simp add: packAddress_def wire_simps Let_def del: One_nat_def)
  moreover have "readUInt8 ?w 1 = Inr ?pr" "readUInt16BE ?w 2 = Inr p" "drop 4 ?w = b" "\<not> length ?w < 4"
    using pr assms(1) by (simp_all add: wire_simps del: One_nat_def be_bytes.simps)
  ultimately show ?thesis using assms(2,3)
    by (intro exI [of _ ?w]) (auto simp: unpackAddress_def Let_def IPV4_PROTOCOL_def IPV6_PROTOCOL_def)
qed

lemma read_u16s:
  "list_all u16_ok ts \<Longrightarrow> rmap (\<lambda>i. readUInt16BE (pre @ concat (map (be_bytes 2) ts)) (length pre + 2 * i)) [0..<length ts] = Inr ts"
proof (induction ts arbitrary: pre)
  case (Cons t ts)
  have "[0..<length (t # ts)] = 0 # map Suc [0..<length ts]" by (simp add: map_Suc_upt upt_conv_Cons del: upt_Suc)
  moreover have "rmap (\<lambda>i. readUInt16BE (pre @ concat (map (be_bytes 2) (t # ts))) (length pre + 2 * i)) (map Suc [0..<length ts]) = Inr ts"
  proof -
    have r: "rmap f (map Suc xs) = rmap (\<lambda>i. f (Suc i)) xs" for f :: "nat \<Rightarrow> int result" and xs by (induction xs) auto
    show ?thesis unfolding r using Cons.IH [of "pre @ be_bytes 2 t"] Cons.prems by (simp add: add.assoc)
  qed
  moreover have "readUInt16BE (pre @ be_bytes 2 t @ x) (length pre) = Inr t" for x
    using Cons.prems by (simp add: readUIntBE_append_later wire_simps)
  ultimately show ?case using Cons.prems by simp
qed simp

lemma stun_value_roundtrip:
  "value_ok c v \<Longrightarrow> \<exists>b. attr_pack c v tid = Inr b \<and> attr_unpack c b tid = Inr v"
proof (induction c v rule: value_ok.induct)
  case (1 t p)
  then obtain b where "u16_ok p" "length b = 4 \<or> length b = 16" "bufferToIpAddress b = Inr t" by auto
  from address_roundtrip [OF this] show ?case by simp
next
  case (2 t p)
  then obtain b where "u16_ok p" "length b = 4 \<or> length b = 16" "bufferToIpAddress b = Inr t" by auto
  from address_roundtrip [OF this] obtain w where "packAddress t p = Inr w" "unpackAddress w = Inr (VAddr t p)" by auto
  then show ?case by (simp add: packXorAddress_def unpackXorAddress_def xorAddress_twice)
next
  case (4 n)
  then show ?case by (simp add: packUnsignedShort_def unpackUnsignedShort_def wire_simps)
next
  case (5 n)
  then have "0 \<le> n" "n < 256 ^ 8" by simp_all
  then show ?case by (simp add: packUnsigned64_def unpackUnsigned64_def wire_simps)
next
  case (10 c r)
  then have c: "u8_ok (c div 100)" "u8_ok (c mod 100)" "u16_ok 0" "0 \<le> c" by (auto simp: u8_ok_def u16_ok_def)
  let ?w = "be_bytes 2 0 @ be_bytes 1 (c div 100) @ be_bytes 1 (c mod 100) @ buf_from_text r"
  have "readUInt8 ?w 2 = Inr (c div 100)" "readUInt8 ?w 3 = Inr (c mod 100)" "drop 4 ?w = buf_from_text r" "\<not> length ?w < 4"
    using c by (simp_all add: wire_simps del: One_nat_def be_bytes.simps)
  moreover have "packErrorCode c r = Inr ?w" using c by (simp add: packErrorCode_def wire_simps del: One_nat_def be_bytes.simps)
  ultimately show ?case using 10 by (simp add: unpackErrorCode_def)
next
  case (11 ts)
  have "rmap writeUInt16BE ts = Inr (map (be_bytes 2) ts)" using 11 by (intro rmap_total) (auto simp: list_all_iff wire_simps)
  moreover have "length (concat (map (be_bytes 2) ts)) = 2 * length ts" by (induction ts) auto
  ultimately show ?case using read_u16s [of ts "[]"] 11 by (simp add: packUnknownAttributes_def unpackUnknownAttributes_def)
qed (auto simp: packUnsigned_def unpackUnsigned_def packSoftware_def wire_simps)

interpretation stun_value: wire_codec "\<lambda>v. attr_pack c v tid" "\<lambda>b. attr_unpack c b tid" "value_ok c" for c tid
proof unfold_locales
  fix v b
  assume v: "value_ok c v"
  show "\<exists>b. attr_pack c v tid = Inr b" using stun_value_roundtrip [OF v, of tid] by auto
  show "attr_pack c v tid = Inr b \<Longrightarrow> attr_unpack c b tid = Inr v" using stun_value_roundtrip [OF v, of tid] by auto
qed

section \<open>One attribute on the wire\<close>

lemma padding_aligned: "4 dvd n + paddingLength n" "paddingLength n < 4"
proof -
  have "r < 4 \<Longrightarrow> (4 * q + r) + (4 - r) = 4 * (q + 1)" for q r :: nat by simp
  from this [of "n mod 4" "n div 4"] have "n + (4 - n mod 4) = 4 * (n div 4 + 1)" by simp
  then show "4 dvd n + paddingLength n" by (auto simp: paddingLength_def Let_def dvd_eq_mod_eq_0)
  show "paddingLength n < 4" by (simp add: paddingLength_def Let_def)
qed

definition attr_wire :: "int \<times> buffer \<Rightarrow> buffer" where
  "attr_wire tv = be_bytes 2 (fst tv) @ be_bytes 2 (int (length (snd tv))) @ snd tv @ buf_alloc (paddingLength (length (snd tv)))"

definition wire_ok :: "int \<times> buffer \<Rightarrow> bool" where
  "wire_ok tv \<longleftrightarrow> u16_ok (fst tv) \<and> length (snd tv) < 65536"

lemma length_attr_wire: "length (attr_wire tv) = 4 + length (snd tv) + paddingLength (length (snd tv))"
  by (simp add: attr_wire_def)

lemma serializeAttribute_wire: "wire_ok (t, v) \<Longrightarrow> serializeAttribute t v = Inr (attr_wire (t, v))"
  by (simp add: serializeAttribute_def attr_wire_def wire_ok_def u16_ok_def wire_simps Let_def)

lemma parse_attribute_wire:
  assumes "wire_ok (t, v)"
  shows "parse_attribute hmac k (pre @ attr_wire (t, v) @ post) tid (length pre) st =
    (if attr_ignored st (map_option fst (ATTRIBUTES_BY_TYPE t)) then Inr (Some (length pre + length (attr_wire (t, v)), st))
     else (case ATTRIBUTES_BY_TYPE t of
        Some (attrName, codec) \<Rightarrow>
          rbind (attr_known hmac k pre attrName codec v tid (attr_flags (Some attrName) st)) (\<lambda>r. Inr (map_option (Pair (length pre + length (attr_wire (t, v)))) r))
      | None \<Rightarrow> Inr (Some (length pre + length (attr_wire (t, v)),
          st\<lparr>sp_raws := sp_raws st @ [\<lparr>ra_type = t, ra_length = Some (length v), ra_value = v\<rparr>]\<rparr>))))"
proof -
  have n: "u16_ok t" "u16_ok (int (length v))" using assms by (simp_all add: wire_ok_def u16_ok_def)
  let ?d = "pre @ attr_wire (t, v) @ post"
  have d: "?d = pre @ be_bytes 2 t @ be_bytes 2 (int (length v)) @ v @ buf_alloc (paddingLength (length v)) @ post" by (simp add: attr_wire_def)
  have r: "readUInt16BE ?d (length pre) = Inr t" "readUInt16BE ?d (length pre + 2) = Inr (int (length v))"
    unfolding d using n by (simp_all add: readUIntBE_append_later wire_simps)
  have s: "buf_slice ?d (length pre + 4) (length pre + 4 + length v) = v" unfolding d by (simp add: buf_slice_def)
  have tk: "take (length pre) ?d = pre" by simp
  have l: "\<not> length pre + 4 > length ?d" "\<not> length pre + 4 + length v > length ?d"
    "\<not> length pre + 4 + length v + paddingLength (length v) > length ?d"
    "length pre + 4 + length v + paddingLength (length v) = length pre + length (attr_wire (t, v))"
    unfolding d by (simp_all add: length_attr_wire)
  have f: "attr_flags None st = st" by (simp add: attr_flags_def)
  show ?thesis unfolding parse_attribute_def if_not_P [OF l(1)] r rbind_simps nat_int Let_def if_not_P [OF l(2)] if_not_P [OF l(3)] s tk l(4)
    by (cases "ATTRIBUTES_BY_TYPE t") (auto simp: f)
qed

lemma parse_attributes_step:
  "parse_attribute h k data tid pos st = Inr (Some (next, st')) \<Longrightarrow>
   parse_attributes h k data tid pos st = parse_attributes h k data tid next st'"
proof -
  assume a: "parse_attribute h k data tid pos st = Inr (Some (next, st'))"
  then have "pos < length data" using parse_attribute_advances [OF a] by simp
  then show ?thesis using a by (simp add: parse_attributes.simps [of h k data tid pos st])
qed

lemma parse_attributes_end: "length data \<le> pos \<Longrightarrow> parse_attributes h k data tid pos st = Inr (Some st)"
  by (simp add: parse_attributes.simps)

section \<open>The table\<close>

lemma by_name_by_type:
  assumes "ATTRIBUTES_BY_NAME n = Some (t, c)"
  shows "ATTRIBUTES_BY_TYPE t = Some (n, c) \<and> u16_ok t"
proof -
  have "(n, t, c) \<in> set (map (\<lambda>(t, n, c). (n, t, c)) ATTRIBUTES)"
    using map_of_SomeD [OF assms [unfolded ATTRIBUTES_BY_NAME_def]] .
  then have i: "(t, n, c) \<in> set ATTRIBUTES" by auto
  have d: "distinct (map fst ATTRIBUTES)" by (simp add: ATTRIBUTES_def)
  have "list_all (\<lambda>x. u16_ok (fst x)) ATTRIBUTES" by (simp add: ATTRIBUTES_def u16_ok_def)
  then have "u16_ok t" using i by (auto simp: list_all_iff)
  moreover have "map_of ATTRIBUTES t = Some (n, c)" using d i by (rule map_of_is_SomeI)
  ultimately show ?thesis by (simp add: ATTRIBUTES_BY_TYPE_def)
qed

text \<open>An attribute that the format carries: its name is in the table and its value fits.\<close>

definition attr_ok :: "string \<times> stun_value \<Rightarrow> bool" where
  "attr_ok kv \<longleftrightarrow> (case ATTRIBUTES_BY_NAME (fst kv) of None \<Rightarrow> False | Some (t, c) \<Rightarrow> value_ok c (snd kv))"

definition packed :: "buffer \<Rightarrow> string \<times> stun_value \<Rightarrow> int \<times> buffer" where
  "packed tid kv = (case ATTRIBUTES_BY_NAME (fst kv) of None \<Rightarrow> (0, [])
     | Some (t, c) \<Rightarrow> (t, case attr_pack c (snd kv) tid of Inr b \<Rightarrow> b | Inl e \<Rightarrow> []))"

definition raw_wire :: "raw_attribute \<Rightarrow> int \<times> buffer" where
  "raw_wire r = (ra_type r, ra_value r)"

definition raw_ok :: "raw_attribute \<Rightarrow> bool" where
  "raw_ok r \<longleftrightarrow> u16_ok (ra_type r) \<and> ATTRIBUTES_BY_TYPE (ra_type r) = None \<and> ra_length r = Some (length (ra_value r))"

text \<open>The names whose place in a message matters.\<close>

definition protecting :: "string set" where
  "protecting = {''MESSAGE-INTEGRITY'', ''MESSAGE-INTEGRITY-SHA256'', ''FINGERPRINT''}"

lemma attr_okD:
  assumes "attr_ok (n, v)"
  obtains t c b where "ATTRIBUTES_BY_NAME n = Some (t, c)" "ATTRIBUTES_BY_TYPE t = Some (n, c)" "u16_ok t"
    "packed tid (n, v) = (t, b)" "attr_pack c v tid = Inr b" "attr_unpack c b tid = Inr v"
proof -
  obtain t c where tc: "ATTRIBUTES_BY_NAME n = Some (t, c)" "value_ok c v" using assms by (auto simp: attr_ok_def split: option.splits)
  obtain b where b: "attr_pack c v tid = Inr b" "attr_unpack c b tid = Inr v" using stun_value_roundtrip [OF tc(2)] by blast
  show ?thesis using that [OF tc(1) _ _ _ b] by_name_by_type [OF tc(1)] b tc(1) by (simp add: packed_def)
qed

lemma setAttribute_new: "k \<notin> fst ` set as \<Longrightarrow> setAttribute k v as = as @ [(k, v)]"
  by (induction as) auto

lemma parse_plain_step:
  assumes "attr_ok (n, v)" "n \<notin> protecting" "n \<notin> fst ` set (sp_attrs st)" "\<not> sp_integrity st" "\<not> sp_sha256 st" "length (snd (packed tid (n, v))) < 65536"
  shows "parse_attribute h k (pre @ attr_wire (packed tid (n, v)) @ post) tid (length pre) st =
    Inr (Some (length pre + length (attr_wire (packed tid (n, v))),
      st\<lparr>sp_attrs := sp_attrs st @ [(n, v)], sp_alts := sp_alts st @ (if n = ''ALTERNATE-SERVER'' then [v] else [])\<rparr>))"
proof -
  obtain t c b where b: "ATTRIBUTES_BY_TYPE t = Some (n, c)" "u16_ok t" "packed tid (n, v) = (t, b)" "attr_unpack c b tid = Inr v"
    using attr_okD [OF assms(1)] by metis
  have w: "wire_ok (t, b)" using assms(6) b(2,3) by (simp add: wire_ok_def)
  have g: "\<not> attr_ignored st (Some n)" using assms(4,5) by (simp add: attr_ignored_def)
  have fl: "attr_flags (Some n) st = st" using assms(2) by (simp add: attr_flags_def protecting_def)
  have "attr_known h k pre n c b tid st =
      Inr (Some (st\<lparr>sp_attrs := sp_attrs st @ [(n, v)], sp_alts := sp_alts st @ (if n = ''ALTERNATE-SERVER'' then [v] else [])\<rparr>))"
    using assms(2) b(4) unfolding attr_known_def setAttribute_new [OF assms(3)]
    by (auto simp: attr_check_def protecting_def Let_def)
  then show ?thesis using b(1) g fl unfolding b(3) parse_attribute_wire [OF w] by simp
qed

lemma parse_plain_run:
  "list_all attr_ok as \<Longrightarrow> fst ` set as \<inter> protecting = {} \<Longrightarrow> distinct (map fst (sp_attrs st @ as)) \<Longrightarrow> \<not> sp_integrity st \<Longrightarrow> \<not> sp_sha256 st \<Longrightarrow>
   list_all (\<lambda>a. length (snd (packed tid a)) < 65536) as \<Longrightarrow>
   parse_attributes h k (pre @ concat (map (attr_wire \<circ> packed tid) as) @ post) tid (length pre) st =
   parse_attributes h k (pre @ concat (map (attr_wire \<circ> packed tid) as) @ post) tid (length pre + length (concat (map (attr_wire \<circ> packed tid) as)))
     (st\<lparr>sp_attrs := sp_attrs st @ as, sp_alts := sp_alts st @ map snd (filter (\<lambda>a. fst a = ''ALTERNATE-SERVER'') as)\<rparr>)"
proof (induction as arbitrary: pre st)
  case (Cons a as)
  obtain n v where a: "a = (n, v)" by (cases a)
  let ?w = "attr_wire (packed tid a)" and ?ws = "concat (map (attr_wire \<circ> packed tid) as)"
  let ?st = "st\<lparr>sp_attrs := sp_attrs st @ [(n, v)], sp_alts := sp_alts st @ (if n = ''ALTERNATE-SERVER'' then [v] else [])\<rparr>"
  have "parse_attribute h k (pre @ ?w @ (?ws @ post)) tid (length pre) st = Inr (Some (length pre + length ?w, ?st))"
    unfolding a by (rule parse_plain_step) (use Cons.prems in \<open>auto simp: a image_iff\<close>)
  from parse_attributes_step [OF this]
  have "parse_attributes h k (pre @ ?w @ ?ws @ post) tid (length pre) st =
      parse_attributes h k ((pre @ ?w) @ ?ws @ post) tid (length (pre @ ?w)) ?st" by simp
  also have "\<dots> = parse_attributes h k ((pre @ ?w) @ ?ws @ post) tid (length (pre @ ?w) + length ?ws)
      (?st\<lparr>sp_attrs := sp_attrs ?st @ as, sp_alts := sp_alts ?st @ map snd (filter (\<lambda>a. fst a = ''ALTERNATE-SERVER'') as)\<rparr>)"
    by (rule Cons.IH) (use Cons.prems in \<open>auto simp: a\<close>)
  finally show ?case by (cases "n = ''ALTERNATE-SERVER''") (simp_all add: a add.assoc comp_def)
qed simp

lemma parse_raw_run:
  "list_all raw_ok rs \<Longrightarrow> \<not> sp_integrity st \<Longrightarrow> \<not> sp_sha256 st \<Longrightarrow> list_all (\<lambda>r. length (ra_value r) < 65536) rs \<Longrightarrow>
   parse_attributes h k (pre @ concat (map (attr_wire \<circ> raw_wire) rs)) tid (length pre) st = Inr (Some (st\<lparr>sp_raws := sp_raws st @ rs\<rparr>))"
proof (induction rs arbitrary: pre st)
  case Nil
  then show ?case by (simp add: parse_attributes_end)
next
  case (Cons r rs)
  let ?w = "attr_wire (raw_wire r)" and ?ws = "concat (map (attr_wire \<circ> raw_wire) rs)"
  have w: "wire_ok (ra_type r, ra_value r)" using Cons.prems by (simp add: wire_ok_def raw_ok_def)
  have r: "ATTRIBUTES_BY_TYPE (ra_type r) = None" "\<lparr>ra_type = ra_type r, ra_length = Some (length (ra_value r)), ra_value = ra_value r\<rparr> = r"
    using Cons.prems by (cases r; simp add: raw_ok_def)+
  have "parse_attribute h k (pre @ ?w @ ?ws) tid (length pre) st = Inr (Some (length pre + length ?w, st\<lparr>sp_raws := sp_raws st @ [r]\<rparr>))"
    using Cons.prems unfolding raw_wire_def parse_attribute_wire [OF w] by (simp add: r attr_ignored_def)
  from parse_attributes_step [OF this]
  show ?case using Cons.IH [of "st\<lparr>sp_raws := sp_raws st @ [r]\<rparr>" "pre @ ?w"] Cons.prems by (simp add: comp_def)
qed

section \<open>Whole messages\<close>

definition stun_body :: "stun_message \<Rightarrow> buffer" where
  "stun_body m = concat (map (attr_wire \<circ> packed (transactionId m)) (msg_attributes m)) @ concat (map (attr_wire \<circ> raw_wire) (rawAttributes m))"

definition stun_header :: "stun_message \<Rightarrow> nat \<Rightarrow> buffer" where
  "stun_header m len = be_bytes 2 (messageMethod m OR messageClass m) @ be_bytes 2 (int len) @ be_bytes 4 COOKIE @ transactionId m"

text \<open>A message that the format carries.\<close>

definition stun_ok :: "stun_message \<Rightarrow> bool" where
  "stun_ok m \<longleftrightarrow> list_all attr_ok (msg_attributes m) \<and> distinct (map fst (msg_attributes m)) \<and> list_all raw_ok (rawAttributes m) \<and>
     length (transactionId m) = 12 \<and> 0 \<le> messageMethod m \<and> messageMethod m < 2 ^ 14 \<and> messageMethod m AND 0x0110 = 0 \<and> messageMethod m AND 0x3eef = messageMethod m \<and>
     messageClass m \<in> set stun_classes \<and> alternateServers m = map snd (filter (\<lambda>a. fst a = ''ALTERNATE-SERVER'') (msg_attributes m))"

definition covered_only :: "attribute_pairs \<Rightarrow> bool" where
  "covered_only as \<longleftrightarrow> fst ` set as \<inter> protecting = {}"

lemma dvd_attrs: "4 dvd length (concat (map (attr_wire \<circ> f) xs))"
proof (induction xs)
  case (Cons x xs)
  have "4 dvd length (attr_wire (f x))" using padding_aligned(1) [of "length (snd (f x))"] by (simp add: length_attr_wire add.assoc)
  then show ?case using Cons by simp
qed simp

lemma dvd_body: "4 dvd length (stun_body m)"
  unfolding stun_body_def length_append by (intro dvd_add dvd_attrs)

lemma length_in_concat: "x \<in> set xs \<Longrightarrow> length (f x) \<le> length (concat (map f xs))"
  by (induction xs) auto

lemma parts_small:
  assumes "length (stun_body m) < 65536"
  shows "list_all (\<lambda>a. length (snd (packed (transactionId m) a)) < 65536) (msg_attributes m)" "list_all (\<lambda>r. length (ra_value r) < 65536) (rawAttributes m)"
proof -
  have "length (snd (packed (transactionId m) a)) < 65536" if "a \<in> set (msg_attributes m)" for a
    using length_in_concat [OF that, of "attr_wire \<circ> packed (transactionId m)"] assms by (simp add: stun_body_def length_attr_wire)
  moreover have "length (ra_value r) < 65536" if "r \<in> set (rawAttributes m)" for r
    using length_in_concat [OF that, of "attr_wire \<circ> raw_wire"] assms by (simp add: stun_body_def length_attr_wire raw_wire_def)
  ultimately show "list_all (\<lambda>a. length (snd (packed (transactionId m) a)) < 65536) (msg_attributes m)" "list_all (\<lambda>r. length (ra_value r) < 65536) (rawAttributes m)"
    by (auto simp: list_all_iff)
qed

lemma rmap_append: "rmap f (xs @ ys) = rbind (rmap f xs) (\<lambda>a. rbind (rmap f ys) (\<lambda>b. Inr (a @ b)))"
  by (induction xs) (auto simp: rbind_def split: sum.splits)

lemma serialized_ok:
  assumes "list_all attr_ok (msg_attributes m)" "distinct (map fst (msg_attributes m))"
  shows "serializedAttributes m = Inr (map (packed (transactionId m)) (msg_attributes m) @ map raw_wire (rawAttributes m))"
proof -
  let ?g = "\<lambda>n. packed (transactionId m) (n, the (map_of (msg_attributes m) n))"
  have each: "serialize_pair m n = Inr (?g n)" if n: "n \<in> set (map fst (msg_attributes m))" for n
  proof -
    obtain v where v: "(n, v) \<in> set (msg_attributes m)" "map_of (msg_attributes m) n = Some v"
      using n assms(2) by (auto simp: map_of_is_SomeI)
    then have "attr_ok (n, v)" using assms(1) by (auto simp: list_all_iff)
    from attr_okD [OF this] obtain t c b where "ATTRIBUTES_BY_NAME n = Some (t, c)" "packed (transactionId m) (n, v) = (t, b)" "attr_pack c v (transactionId m) = Inr b"
      by metis
    then show ?thesis using v by (simp add: serialize_pair_def getAttributeValue_def)
  qed
  have "rmap (serialize_pair m) (map fst (msg_attributes m)) = Inr (map ?g (map fst (msg_attributes m)))"
    using each by (intro rmap_total) auto
  moreover have "map ?g (map fst (msg_attributes m)) = map (packed (transactionId m)) (msg_attributes m)"
    using assms(2) by (auto simp: map_of_is_SomeI)
  ultimately show ?thesis by (simp add: serializedAttributes_def attributesKeys_def raw_wire_def)
qed

lemma COOKIE_ok: "u32_ok COOKIE" by (simp add: COOKIE_def u32_ok_def)

lemma type_field:
  assumes "stun_ok m"
  shows "u16_ok (messageMethod m OR messageClass m)" "(messageMethod m OR messageClass m) AND 0x3eef = messageMethod m"
    "(messageMethod m OR messageClass m) AND 0x0110 = messageClass m" "messageMethod m OR messageClass m < 2 ^ 14"
proof -
  have c: "messageClass m AND 0x3eef = 0" "messageClass m AND 0x0110 = messageClass m" "0 \<le> messageClass m" "messageClass m < 2 ^ 14"
    using assms by (auto simp: stun_ok_def stun_classes_def)
  have r: "0 \<le> messageMethod m" "messageMethod m < 2 ^ 14" "messageMethod m AND 0x0110 = 0" "messageMethod m AND 0x3eef = messageMethod m"
    using assms by (auto simp: stun_ok_def)
  show "messageMethod m OR messageClass m < 2 ^ 14" by (rule OR_upper) (use c r in auto)
  moreover have "0 \<le> messageMethod m OR messageClass m" using c r by simp
  ultimately show "u16_ok (messageMethod m OR messageClass m)" by (simp add: u16_ok_def)
  show "(messageMethod m OR messageClass m) AND 0x3eef = messageMethod m" "(messageMethod m OR messageClass m) AND 0x0110 = messageClass m"
    by (simp_all only: bit.conj_disj_distrib2 c r) simp_all
qed

lemma stun_bytes_ok:
  assumes "stun_ok m" "length (stun_body m) < 65536"
  shows "stun_bytes m = Inr (stun_header m (length (stun_body m)) @ stun_body m)"
proof -
  let ?as = "map (packed (transactionId m)) (msg_attributes m) @ map raw_wire (rawAttributes m)"
  have "\<forall>tv \<in> set ?as. wire_ok tv"
  proof
    fix tv assume "tv \<in> set ?as"
    then consider (attr) a where "a \<in> set (msg_attributes m)" "tv = packed (transactionId m) a" | (raw) r where "r \<in> set (rawAttributes m)" "tv = raw_wire r" by auto
    then show "wire_ok tv"
    proof cases
      case (attr a)
      then have "attr_ok (fst a, snd a)" using assms(1) by (auto simp: stun_ok_def list_all_iff)
      from attr_okD [OF this] obtain t b where "packed (transactionId m) a = (t, b)" "u16_ok t" by (metis prod.collapse)
      then show ?thesis using parts_small(1) [OF assms(2)] attr by (auto simp: wire_ok_def list_all_iff)
    next
      case (raw r)
      then show ?thesis using parts_small(2) [OF assms(2)] assms(1) by (auto simp: wire_ok_def list_all_iff raw_wire_def stun_ok_def raw_ok_def)
    qed
  qed
  then have "rmap (\<lambda>(t, v). serializeAttribute t v) ?as = Inr (map attr_wire ?as)"
    by (intro rmap_total) (auto simp: serializeAttribute_wire)
  moreover have "serializedAttributes m = Inr ?as" using assms(1) by (intro serialized_ok) (auto simp: stun_ok_def)
  moreover have "concat (map attr_wire ?as) = stun_body m" by (simp add: stun_body_def)
  moreover have "u16_ok (int (length (stun_body m)))" using assms(2) by (simp add: u16_ok_def)
  ultimately show ?thesis using type_field(1) [OF assms(1)] COOKIE_ok
    unfolding stun_bytes_def stun_header_def by (simp add: wire_simps Let_def)
qed

lemma header_reads:
  assumes "stun_ok m" "length body < 65536" "4 dvd length body"
  shows "isStunMessage (stun_header m (length body) @ body)"
    "readUInt16BE (stun_header m (length body) @ body) 0 = Inr (messageMethod m OR messageClass m)"
    "buf_slice (stun_header m (length body) @ body) (HEADER_LENGTH - 12) HEADER_LENGTH = transactionId m"
    "length (stun_header m n) = HEADER_LENGTH"
proof -
  have t: "length (transactionId m) = 12" using assms(1) by (simp add: stun_ok_def)
  then show l: "length (stun_header m n) = HEADER_LENGTH" for n by (simp add: stun_header_def HEADER_LENGTH_def)
  let ?d = "stun_header m (length body) @ body"
  have n: "u16_ok (int (length body))" using assms(2) by (simp add: u16_ok_def)
  show h: "readUInt16BE ?d 0 = Inr (messageMethod m OR messageClass m)"
    using type_field(1) [OF assms(1)] by (simp add: stun_header_def wire_simps)
  show "buf_slice ?d (HEADER_LENGTH - 12) HEADER_LENGTH = transactionId m"
    using t by (simp add: stun_header_def HEADER_LENGTH_def buf_slice_def)
  define mt where "mt = messageMethod m OR messageClass m"
  have "mt div 256 < 64" "0 \<le> mt div 256" using type_field(1,4) [OF assms(1)] by (simp_all add: mt_def [symmetric] u16_ok_def)
  then have "(word_of_int (mt div 256) :: byte) AND 0xc0 = 0"
  proof -
    assume a: "mt div 256 < 64" "0 \<le> mt div 256"
    have "mt div 256 AND 63 = mt div 256" using a take_bit_eq_mask [of 6 "mt div 256"] by (simp add: take_bit_eq_mod mask_eq_exp_minus_1)
    then have "(word_of_int (mt div 256) :: byte) = word_of_int (mt div 256) AND 63"
      using of_int_and_eq [of "mt div 256" 63, where ?'a = byte] by simp
    then have "(word_of_int (mt div 256) :: byte) AND 0xc0 = word_of_int (mt div 256) AND (63 AND 0xc0)" by (metis and.assoc)
    then show ?thesis by simp
  qed
  moreover have "?d ! 0 = word_of_int (mt div 256)" by (simp add: stun_header_def numeral_2_eq_2 mt_def)
  ultimately have "?d ! 0 AND 0xc0 = 0" by simp
  moreover have "readUInt32BE ?d 4 = Inr COOKIE" "readUInt16BE ?d 2 = Inr (int (length body))"
    using n COOKIE_ok by (simp_all add: stun_header_def wire_simps)
  ultimately show "isStunMessage ?d" using assms(3) l [of "length body"]
    by (auto simp: isStunMessage_def HEADER_LENGTH_def mod_eq_0_iff_dvd)
qed

lemma setBodyLength_header: "n' < 65536 \<Longrightarrow> length (transactionId m) = 12 \<Longrightarrow> setBodyLength (stun_header m n @ x) n' = Inr (stun_header m n' @ x)"
  by (simp add: setBodyLength_def stun_header_def wire_simps u16_ok_def)

lemma stun_header_cong:
  "messageMethod m = messageMethod m' \<Longrightarrow> messageClass m = messageClass m' \<Longrightarrow> transactionId m = transactionId m' \<Longrightarrow> stun_header m n = stun_header m' n"
  by (simp add: stun_header_def)

text \<open>An unprotected message.\<close>

lemma stun_plain_roundtrip:
  assumes ok: "stun_ok m" and c: "covered_only (msg_attributes m)" and n: "length (stun_body m) < 65536"
  shows "stun_bytes m = Inr (stun_header m (length (stun_body m)) @ stun_body m)"
    "parseMessage hmac (stun_header m (length (stun_body m)) @ stun_body m) None = Inr (Some m)"
proof -
  show "stun_bytes m = Inr (stun_header m (length (stun_body m)) @ stun_body m)" by (rule stun_bytes_ok [OF ok n])
  let ?h = "stun_header m (length (stun_body m))" and ?tid = "transactionId m"
  let ?as = "concat (map (attr_wire \<circ> packed ?tid) (msg_attributes m))" and ?rs = "concat (map (attr_wire \<circ> raw_wire) (rawAttributes m))"
  note rd = header_reads [OF ok n dvd_body]
  let ?st = "stun_parse_start\<lparr>sp_attrs := msg_attributes m, sp_alts := alternateServers m\<rparr>"
  have "parse_attributes hmac None (?h @ ?as @ ?rs) ?tid (length ?h) stun_parse_start =
      parse_attributes hmac None (?h @ ?as @ ?rs) ?tid (length ?h + length ?as)
        (stun_parse_start\<lparr>sp_attrs := sp_attrs stun_parse_start @ msg_attributes m,
           sp_alts := sp_alts stun_parse_start @ map snd (filter (\<lambda>a. fst a = ''ALTERNATE-SERVER'') (msg_attributes m))\<rparr>)"
    by (rule parse_plain_run) (use ok c parts_small [OF n] in \<open>auto simp: stun_ok_def covered_only_def stun_parse_start_def\<close>)
  also have "\<dots> = parse_attributes hmac None ((?h @ ?as) @ ?rs) ?tid (length (?h @ ?as)) ?st"
    using ok by (simp add: stun_ok_def stun_parse_start_def)
  also have "\<dots> = Inr (Some (?st\<lparr>sp_raws := sp_raws ?st @ rawAttributes m\<rparr>))"
    by (rule parse_raw_run) (use ok parts_small [OF n] in \<open>auto simp: stun_ok_def stun_parse_start_def\<close>)
  finally have p: "parse_attributes hmac None (?h @ stun_body m) ?tid HEADER_LENGTH stun_parse_start =
      Inr (Some (?st\<lparr>sp_raws := rawAttributes m\<rparr>))"
    unfolding stun_body_def rd(4) by (simp add: stun_parse_start_def)
  show "parseMessage hmac (?h @ stun_body m) None = Inr (Some m)"
    using rd(1) rd(2) type_field [OF ok] unfolding parseMessage_def rd(3) Let_def p
    by (cases m) (simp add: stun_parse_start_def)
qed

lemma table_integrity: "ATTRIBUTES_BY_NAME ''MESSAGE-INTEGRITY'' = Some (8, CBytes)" "ATTRIBUTES_BY_TYPE 8 = Some (''MESSAGE-INTEGRITY'', CBytes)"
  by (simp_all add: ATTRIBUTES_BY_NAME_def ATTRIBUTES_BY_TYPE_def ATTRIBUTES_def)

lemma table_fingerprint: "ATTRIBUTES_BY_NAME ''FINGERPRINT'' = Some (0x8028, CUnsigned)" "ATTRIBUTES_BY_TYPE 0x8028 = Some (''FINGERPRINT'', CUnsigned)"
  by (simp_all add: ATTRIBUTES_BY_NAME_def ATTRIBUTES_BY_TYPE_def ATTRIBUTES_def)

lemma packed_integrity: "attr_ok (''MESSAGE-INTEGRITY'', VBytes i)" "packed tid (''MESSAGE-INTEGRITY'', VBytes i) = (8, i)"
  by (simp_all add: attr_ok_def packed_def table_integrity)

lemma packed_fingerprint:
  assumes "u32_ok f"
  shows "attr_ok (''FINGERPRINT'', VNum f)" "packed tid (''FINGERPRINT'', VNum f) = (0x8028, be_bytes 4 f)"
  using assms by (simp_all add: attr_ok_def packed_def table_fingerprint packUnsigned_def wire_simps)

lemma length_protection: "length i = 20 \<Longrightarrow> length (attr_wire (8, i)) = 24" "length (attr_wire (t, be_bytes 4 f)) = 8"
  by (simp_all add: length_attr_wire paddingLength_def)

text \<open>The two protecting attributes at the end of a message.\<close>

lemma parse_integrity:
  assumes "length i = 20" "messageIntegrity hmac pre key = Inr i" "''MESSAGE-INTEGRITY'' \<notin> fst ` set (sp_attrs st)" "\<not> sp_integrity st" "\<not> sp_sha256 st"
  shows "parse_attribute hmac (Some key) (pre @ attr_wire (8, i) @ post) tid (length pre) st =
    Inr (Some (length pre + length (attr_wire (8, i)), st\<lparr>sp_integrity := True, sp_attrs := sp_attrs st @ [(''MESSAGE-INTEGRITY'', VBytes i)], sp_verified := True\<rparr>))"
proof -
  have w: "wire_ok (8, i)" using assms(1) by (simp add: wire_ok_def u16_ok_def)
  have "\<not> attr_ignored st (Some ''MESSAGE-INTEGRITY'')" using assms(4,5) by (simp add: attr_ignored_def)
  then show ?thesis unfolding parse_attribute_wire [OF w] table_integrity using assms(2) setAttribute_new [OF assms(3)]
    by (simp add: attr_flags_def attr_known_def attr_check_def Let_def)
qed

lemma parse_fingerprint:
  assumes "u32_ok f" "messageFingerprint pre = Inr f" "''FINGERPRINT'' \<notin> fst ` set (sp_attrs st)"
  shows "parse_attribute hmac k (pre @ attr_wire (0x8028, be_bytes 4 f) @ post) tid (length pre) st =
    Inr (Some (length pre + 8, st\<lparr>sp_attrs := sp_attrs st @ [(''FINGERPRINT'', VNum f)]\<rparr>))"
proof -
  have w: "wire_ok (0x8028, be_bytes 4 f)" by (simp add: wire_ok_def u16_ok_def)
  have "\<not> attr_ignored st (Some ''FINGERPRINT'')" by (simp add: attr_ignored_def)
  then show ?thesis unfolding parse_attribute_wire [OF w] table_fingerprint using assms setAttribute_new [OF assms(3)]
    by (simp add: attr_flags_def attr_known_def attr_check_def unpackUnsigned_def length_protection wire_simps Let_def)
qed

lemma add_attribute_ok:
  assumes "stun_ok m" "attr_ok (n, v)" "n \<notin> fst ` set (msg_attributes m)" "n \<noteq> ''ALTERNATE-SERVER''" "rawAttributes m = []"
  shows "stun_ok (m\<lparr>msg_attributes := msg_attributes m @ [(n, v)]\<rparr>)"
    "stun_body (m\<lparr>msg_attributes := msg_attributes m @ [(n, v)]\<rparr>) = stun_body m @ attr_wire (packed (transactionId m) (n, v))"
  using assms by (auto simp: stun_ok_def stun_body_def)

lemma messageFingerprint_u32: "messageFingerprint d = Inr f \<Longrightarrow> u32_ok f"
  using uint_lt2p [where ?'a = 32] by (auto simp: messageFingerprint_def u32_ok_def)

lemma stun_message_with:
  "rawAttributes m = [] \<Longrightarrow> \<lparr>messageMethod = messageMethod m, messageClass = messageClass m, transactionId = transactionId m,
     msg_attributes = as, rawAttributes = [], alternateServers = alternateServers m\<rparr> = m\<lparr>msg_attributes := as\<rparr>"
  by (cases m) simp

lemma stun_signed_round:
  assumes "stun_ok m" "covered_only (msg_attributes m)" "rawAttributes m = []" "length (stun_body m) + 32 < 65536" "\<forall>d. length (hmac key d) = 20"
  shows "\<exists>i f m' b. rbind (addMessageIntegrity hmac key m) addFingerprint = Inr m' \<and>
    m' = m\<lparr>msg_attributes := msg_attributes m @ [(''MESSAGE-INTEGRITY'', VBytes i), (''FINGERPRINT'', VNum f)]\<rparr> \<and>
    stun_bytes m' = Inr b \<and> parseMessage hmac b (Some key) = Inr (Some m')"
proof -
  let ?tid = "transactionId m" and ?B = "stun_body m"
  let ?L = "length ?B"
  have tid: "length ?tid = 12" using assms(1) by (simp add: stun_ok_def)
  have h20: "length (stun_header m n) = HEADER_LENGTH" for n using tid by (simp add: stun_header_def HEADER_LENGTH_def)
  have fresh: "''MESSAGE-INTEGRITY'' \<notin> fst ` set (msg_attributes m)" "''FINGERPRINT'' \<notin> fst ` set (msg_attributes m)"
    using assms(2) by (auto simp: covered_only_def protecting_def)
  define i where "i = hmac key (stun_header m (?L + 24) @ ?B)"
  have i20: "length i = 20" using assms(5) by (simp add: i_def)
  let ?m1 = "m\<lparr>msg_attributes := msg_attributes m @ [(''MESSAGE-INTEGRITY'', VBytes i)]\<rparr>"
  have mi: "messageIntegrity hmac (stun_header m n @ ?B) key = Inr i" for n
    using assms(4) tid by (simp add: messageIntegrity_def h20 INTEGRITY_LENGTH_def setBodyLength_header i_def)
  have m1: "stun_ok ?m1" "stun_body ?m1 = ?B @ attr_wire (8, i)"
    using add_attribute_ok [OF assms(1) packed_integrity(1) fresh(1) _ assms(3)] by (simp_all add: packed_integrity)
  have add1: "addMessageIntegrity hmac key m = Inr ?m1"
    using stun_bytes_ok [OF assms(1)] assms(4) mi fresh(1) by (simp add: addMessageIntegrity_def setAttribute_new)
  let ?B1 = "?B @ attr_wire (8, i)"
  define f where "f = uint (crc32 (stun_header m (?L + 32) @ ?B1) 0 XOR FINGERPRINT_XOR)"
  have fp: "messageFingerprint (stun_header m n @ ?B1) = Inr f" for n
    using assms(4) tid i20 by (simp add: messageFingerprint_def h20 FINGERPRINT_LENGTH_def setBodyLength_header length_protection f_def add.commute [of 32])
  have f32: "u32_ok f" using messageFingerprint_u32 [OF fp] .
  let ?m2 = "m\<lparr>msg_attributes := msg_attributes m @ [(''MESSAGE-INTEGRITY'', VBytes i), (''FINGERPRINT'', VNum f)]\<rparr>"
  have h1: "stun_header ?m1 n = stun_header m n" "stun_header ?m2 n = stun_header m n" for n by (simp_all add: stun_header_def)
  have m2: "stun_ok ?m2" "stun_body ?m2 = ?B1 @ attr_wire (0x8028, be_bytes 4 f)"
    using add_attribute_ok [OF m1(1) packed_fingerprint(1) [OF f32]] fresh(2) assms(3) m1(2) by (simp_all add: packed_fingerprint [OF f32])
  have add2: "addFingerprint ?m1 = Inr ?m2"
    using stun_bytes_ok [OF m1(1)] fresh(2) assms(4) i20 fp by (simp add: addFingerprint_def setAttribute_new m1(2) h1 length_protection)
  let ?n = "length (stun_body ?m2)"
  have n: "?n < 65536" using assms(4) i20 by (simp add: m2(2) length_protection)
  have b: "stun_bytes ?m2 = Inr (stun_header m ?n @ stun_body ?m2)" using stun_bytes_ok [OF m2(1) n] unfolding h1 .
  let ?h = "stun_header m ?n" and ?w1 = "attr_wire (8, i)" and ?w2 = "attr_wire (0x8028, be_bytes 4 f)"
  note rd = header_reads [OF m2(1) n dvd_body, unfolded h1]
  let ?st = "stun_parse_start\<lparr>sp_attrs := msg_attributes m, sp_alts := alternateServers m\<rparr>"
  let ?st1 = "?st\<lparr>sp_integrity := True, sp_attrs := sp_attrs ?st @ [(''MESSAGE-INTEGRITY'', VBytes i)], sp_verified := True\<rparr>"
  let ?st2 = "?st1\<lparr>sp_attrs := sp_attrs ?st1 @ [(''FINGERPRINT'', VNum f)]\<rparr>"
  have Bc: "?B = concat (map (attr_wire \<circ> packed ?tid) (msg_attributes m))" using assms(3) by (simp add: stun_body_def)
  have run: "parse_attributes hmac (Some key) (?h @ ?B @ ?w1 @ ?w2) ?tid (length ?h) stun_parse_start =
      parse_attributes hmac (Some key) (?h @ ?B @ ?w1 @ ?w2) ?tid (length ?h + ?L) ?st"
  proof -
    have "parse_attributes hmac (Some key) (?h @ ?B @ ?w1 @ ?w2) ?tid (length ?h) stun_parse_start =
      parse_attributes hmac (Some key) (?h @ ?B @ ?w1 @ ?w2) ?tid (length ?h + ?L)
        (stun_parse_start\<lparr>sp_attrs := sp_attrs stun_parse_start @ msg_attributes m,
           sp_alts := sp_alts stun_parse_start @ map snd (filter (\<lambda>a. fst a = ''ALTERNATE-SERVER'') (msg_attributes m))\<rparr>)"
      unfolding Bc by (rule parse_plain_run)
        (use assms(1,2) parts_small [of m] assms(4) in \<open>auto simp: stun_ok_def covered_only_def stun_parse_start_def\<close>)
    then show ?thesis using assms(1) by (simp add: stun_ok_def stun_parse_start_def)
  qed
  have s1: "parse_attribute hmac (Some key) ((?h @ ?B) @ ?w1 @ ?w2) ?tid (length (?h @ ?B)) ?st = Inr (Some (length (?h @ ?B) + length ?w1, ?st1))"
    by (rule parse_integrity) (use i20 mi fresh in \<open>auto simp: stun_parse_start_def\<close>)
  have s2: "parse_attribute hmac (Some key) ((?h @ ?B1) @ ?w2 @ []) ?tid (length (?h @ ?B1)) ?st1 = Inr (Some (length (?h @ ?B1) + 8, ?st2))"
    by (rule parse_fingerprint) (use f32 fp fresh in \<open>auto simp: stun_parse_start_def\<close>)
  have "parse_attributes hmac (Some key) (?h @ stun_body ?m2) ?tid HEADER_LENGTH stun_parse_start = Inr (Some ?st2)"
    using run parse_attributes_step [OF s1] parse_attributes_step [OF s2] i20
    by (simp add: m2(2) h20 length_protection parse_attributes_end add.assoc)
  then have "parseMessage hmac (?h @ stun_body ?m2) (Some key) = Inr (Some ?m2)"
    using rd(1) rd(2) type_field [OF assms(1)] stun_message_with [OF assms(3)] unfolding parseMessage_def Let_def rd(3)
    by (simp add: stun_parse_start_def)
  then show ?thesis using add1 add2 b by auto
qed

text \<open>C31: a message whose attributes are all covered, with integrity and fingerprint added (an HMAC of 20
  bytes), is read back by the holder of the same key exactly as it was, method, class, transaction and
  every attribute value in order, with the two protecting attributes after them.\<close>

theorem stun_signed_roundtrip:
  assumes "stun_ok m" "covered_only (msg_attributes m)" "rawAttributes m = []" "length (stun_body m) + 32 < 65536" "\<forall>d. length (hmac key d) = 20"
  shows "\<exists>i f m' b. rbind (addMessageIntegrity hmac key m) addFingerprint = Inr m' \<and>
    m' = m\<lparr>msg_attributes := msg_attributes m @ [(''MESSAGE-INTEGRITY'', VBytes i), (''FINGERPRINT'', VNum f)]\<rparr> \<and>
    stun_bytes m' = Inr b \<and> parseMessage hmac b (Some key) = Inr (Some m')"
  using assms by (rule stun_signed_round)

lemma stun_signed_roundtrip_witness:
  "let m = \<lparr>messageMethod = 1, messageClass = 0, transactionId = replicate 12 7, msg_attributes = [(''PRIORITY'', VNum 5), (''USERNAME'', VText [97, 58, 98])],
       rawAttributes = [], alternateServers = []\<rparr>
   in \<exists>i f m' b. rbind (addMessageIntegrity (\<lambda>k d. replicate 20 3) [1] m) addFingerprint = Inr m' \<and>
      m' = m\<lparr>msg_attributes := msg_attributes m @ [(''MESSAGE-INTEGRITY'', VBytes i), (''FINGERPRINT'', VNum f)]\<rparr> \<and>
      stun_bytes m' = Inr b \<and> parseMessage (\<lambda>k d. replicate 20 3) b (Some [1]) = Inr (Some m')"
proof -
  let ?m = "\<lparr>messageMethod = 1, messageClass = 0, transactionId = replicate 12 7, msg_attributes = [(''PRIORITY'', VNum 5), (''USERNAME'', VText [97, 58, 98])],
       rawAttributes = [], alternateServers = []\<rparr>"
  have t: "ATTRIBUTES_BY_NAME ''PRIORITY'' = Some (0x24, CUnsigned)" "ATTRIBUTES_BY_NAME ''USERNAME'' = Some (6, CString)"
    by (simp_all add: ATTRIBUTES_BY_NAME_def ATTRIBUTES_def)
  have "stun_ok ?m" by (simp add: stun_ok_def attr_ok_def t u32_ok_def scalar_def stun_classes_def)
  moreover have "covered_only (msg_attributes ?m)" by (simp add: covered_only_def protecting_def)
  moreover have "length (stun_body ?m) + 32 < 65536"
    by (simp add: stun_body_def packed_def t length_attr_wire packUnsigned_def wire_simps u32_ok_def paddingLength_def buf_from_text_def utf8_char_def scalar_def)
  ultimately show ?thesis unfolding Let_def by (intro stun_signed_roundtrip) simp_all
qed

section \<open>What the integrity attribute covers\<close>

text \<open>The string that is authenticated when the attribute stands at \<open>p\<close>, and what it determines.\<close>

definition signed_part :: "buffer \<Rightarrow> nat \<Rightarrow> buffer" where
  "signed_part data p = take 2 data @ be_bytes 2 (int (p - HEADER_LENGTH + INTEGRITY_LENGTH)) @ drop 4 (take p data)"

definition covered_part :: "attribute_pairs \<Rightarrow> attribute_pairs" where
  "covered_part as = filter (\<lambda>a. fst a \<notin> protecting) as"

type_synonym stun_content = "int \<times> int \<times> buffer \<times> attribute_pairs \<times> raw_attribute list \<times> stun_value list"

definition stun_content :: "stun_message \<Rightarrow> stun_content" where
  "stun_content m = (messageMethod m, messageClass m, transactionId m, covered_part (msg_attributes m), rawAttributes m, alternateServers m)"

definition signed_content :: "hmac \<Rightarrow> buffer \<Rightarrow> stun_content option" where
  "signed_content hmac c =
     (case readUInt16BE c 0 of Inl _ \<Rightarrow> None
      | Inr t \<Rightarrow> let tid = buf_slice c (HEADER_LENGTH - 12) HEADER_LENGTH
          in case parse_attributes hmac None c tid HEADER_LENGTH stun_parse_start of
               Inr (Some st) \<Rightarrow> Some (t AND 0x3eef, t AND 0x0110, tid, covered_part (sp_attrs st), sp_raws st, sp_alts st)
             | _ \<Rightarrow> None)"

lemma drop_signed:
  assumes "4 \<le> pos" "p \<le> length data"
  shows "drop pos (signed_part data p) = drop pos (take p data)"
proof (cases "4 \<le> length data")
  case True
  have "drop pos (signed_part data p) = drop (pos - 4) (drop 4 (take p data))"
    using True assms(1) by (simp add: signed_part_def)
  then show ?thesis using assms(1) by (simp add: drop_drop)
next
  case False
  then show ?thesis using assms by (simp add: signed_part_def)
qed

lemma slice_signed: "4 \<le> s \<Longrightarrow> e \<le> p \<Longrightarrow> p \<le> length data \<Longrightarrow> buf_slice (signed_part data p) s e = buf_slice data s e"
  by (simp add: buf_slice_def drop_signed drop_take min_def)

lemma length_signed: "4 \<le> p \<Longrightarrow> p \<le> length data \<Longrightarrow> length (signed_part data p) = p"
  by (simp add: signed_part_def)

lemma read_signed:
  assumes "4 \<le> s" "s + n \<le> p" "p \<le> length data"
  shows "readUIntBE n (signed_part data p) s = readUIntBE n data s"
  using assms by (simp add: readUIntBE_def length_signed slice_signed)

lemma fingerprint_signed:
  assumes "4 \<le> pos" "pos \<le> p" "p \<le> length data"
  shows "messageFingerprint (take pos (signed_part data p)) = messageFingerprint (take pos data)"
proof -
  have "drop 4 (take pos (signed_part data p)) = drop 4 (take pos data)"
    using assms by (simp add: drop_take drop_signed)
  moreover have "take 2 (take pos (signed_part data p)) = take 2 (take pos data)"
    using assms by (simp add: signed_part_def)
  ultimately show ?thesis using assms by (simp add: messageFingerprint_def setBodyLength_def length_signed)
qed

text \<open>Up to the integrity attribute the signed string is read as the message is.\<close>

lemma attr_known_signed:
  assumes "attr_known hmac k before n c payload tid st = Inr (Some st')" "n \<noteq> ''MESSAGE-INTEGRITY''"
    "messageFingerprint before' = messageFingerprint before"
  shows "attr_known hmac None before' n c payload tid st = Inr (Some st') \<and> sp_integrity st' = sp_integrity st \<and> sp_verified st' = sp_verified st"
  using assms by (auto simp: attr_known_def attr_check_def Let_def split: sum.splits if_splits)

lemma parse_attribute_read:
  assumes "readUInt16BE d pos = Inr t" "readUInt16BE d (pos + 2) = Inr l" "pos + 4 + nat l + paddingLength (nat l) = nx" "nx \<le> length d"
  shows "parse_attribute hmac k d tid pos st =
     (if attr_ignored st (map_option fst (ATTRIBUTES_BY_TYPE t)) then Inr (Some (nx, st))
      else let st = attr_flags (map_option fst (ATTRIBUTES_BY_TYPE t)) st
           in case ATTRIBUTES_BY_TYPE t of
                Some (attrName, codec) \<Rightarrow>
                  rbind (attr_known hmac k (take pos d) attrName codec (buf_slice d (pos + 4) (pos + 4 + nat l)) tid st) (\<lambda>r. Inr (map_option (Pair nx) r))
              | None \<Rightarrow> Inr (Some (nx, st\<lparr>sp_raws := sp_raws st @
                  [\<lparr>ra_type = t, ra_length = Some (nat l), ra_value = buf_slice d (pos + 4) (pos + 4 + nat l)\<rparr>]\<rparr>)))"
proof -
  have c: "\<not> pos + 4 > length d" "\<not> pos + 4 + nat l > length d" "\<not> nx > length d" using assms(3,4) by auto
  show ?thesis unfolding parse_attribute_def if_not_P [OF c(1)] assms(1,2) rbind_simps Let_def if_not_P [OF c(2)] assms(3) if_not_P [OF c(3)] ..
qed

lemma parse_attribute_signed:
  assumes a: "parse_attribute hmac (Some key) data tid pos st = Inr (Some (next, st'))"
    and r: "4 \<le> pos" "next \<le> p" "p \<le> length data" and i: "\<not> sp_integrity st'"
  shows "parse_attribute hmac None (signed_part data p) tid pos st = Inr (Some (next, st')) \<and> sp_verified st' = sp_verified st"
proof -
  let ?c = "signed_part data p"
  have n: "pos + 4 \<le> next" using parse_attribute_advances [OF a] by simp
  have len: "length ?c = p" using r n by (simp add: length_signed)
  obtain t l where t: "readUInt16BE data pos = Inr t" "readUInt16BE data (pos + 2) = Inr l"
    using r n by (auto simp: readUIntBE_def)
  have t': "readUInt16BE ?c pos = Inr t" "readUInt16BE ?c (pos + 2) = Inr l"
    using t r n by (simp_all add: read_signed)
  let ?e = "pos + 4 + nat l"
  have nx: "next = ?e + paddingLength (nat l)"
    using a t by (auto simp: parse_attribute_def Let_def split: if_splits option.splits prod.splits)
  have nd: "next \<le> length data" "next \<le> length ?c" using r len by auto
  have sl: "buf_slice ?c (pos + 4) ?e = buf_slice data (pos + 4) ?e" using r nx by (intro slice_signed) auto
  have fp: "messageFingerprint (take pos ?c) = messageFingerprint (take pos data)" using r n by (intro fingerprint_signed) auto
  let ?w = "map_option fst (ATTRIBUTES_BY_TYPE t)"
  note body = parse_attribute_read [OF t nx [symmetric] nd(1), of hmac "Some key" tid st]
    parse_attribute_read [OF t' nx [symmetric] nd(2), of hmac None tid st, unfolded sl]
  show ?thesis
  proof (cases "attr_ignored st ?w")
    case True
    then show ?thesis using a body by simp
  next
    case False
    show ?thesis
    proof (cases "ATTRIBUTES_BY_TYPE t")
      case None
      then show ?thesis using a False body by (auto simp: Let_def attr_flags_def)
    next
      case (Some nc)
      obtain nm c where nc: "nc = (nm, c)" by (cases nc)
      let ?st = "attr_flags (Some nm) st"
      have k: "attr_known hmac (Some key) (take pos data) nm c (buf_slice data (pos + 4) ?e) tid ?st = Inr (Some st')"
        using a False Some nc body(1) by (auto simp: Let_def)
      have "nm \<noteq> ''MESSAGE-INTEGRITY''"
      proof
        assume "nm = ''MESSAGE-INTEGRITY''"
        then have "sp_integrity ?st" by (simp add: attr_flags_def)
        then have "sp_integrity st'" using k
          by (auto simp: attr_known_def attr_check_def Let_def split: sum.splits if_splits)
        then show False using i by simp
      qed
      from attr_known_signed [OF k this fp] show ?thesis
        using False Some nc body(2) by (auto simp: Let_def attr_flags_def)
    qed
  qed
qed

text \<open>After it only protecting attributes are added, and never a second one of it.\<close>

definition keeps_covered :: "stun_parse \<Rightarrow> stun_parse \<Rightarrow> bool" where
  "keeps_covered st st' \<longleftrightarrow> covered_part (sp_attrs st') = covered_part (sp_attrs st) \<and> sp_raws st' = sp_raws st \<and> sp_alts st' = sp_alts st \<and>
     getAttributeValue ''MESSAGE-INTEGRITY'' (sp_attrs st') = getAttributeValue ''MESSAGE-INTEGRITY'' (sp_attrs st) \<and>
     (sp_integrity st \<longrightarrow> sp_integrity st')"

lemma covered_set: "n \<in> protecting \<Longrightarrow> covered_part (setAttribute n v as) = covered_part as"
  by (induction n v as rule: setAttribute.induct) (auto simp: covered_part_def)

lemma get_set: "getAttributeValue k (setAttribute n v as) = (if k = n then Some v else getAttributeValue k as)"
  by (induction n v as rule: setAttribute.induct) (auto simp: getAttributeValue_def)

lemma parse_attribute_after:
  assumes "parse_attribute hmac k data tid pos st = Inr (Some (nx, st'))" "sp_integrity st"
  shows "keeps_covered st st'"
proof -
  have a: "\<not> attr_ignored st w \<Longrightarrow> w = Some ''FINGERPRINT'' \<or> w = Some ''MESSAGE-INTEGRITY-SHA256''" for w
    using assms(2) by (auto simp: attr_ignored_def)
  show ?thesis
    using assms by (auto simp: parse_attribute_def Let_def attr_known_def attr_check_def attr_flags_def keeps_covered_def get_set
      covered_set protecting_def split: if_splits option.splits prod.splits sum.splits dest!: a)
qed

lemma parse_attributes_after:
  "parse_attributes hmac k data tid pos st = Inr (Some st') \<Longrightarrow> sp_integrity st \<Longrightarrow> keeps_covered st st'"
proof (induction hmac k data tid pos st rule: parse_attributes.induct)
  case (1 hmac k data tid pos st)
  show ?case
  proof (cases "pos < length data")
    case True
    then obtain nx s where s: "parse_attribute hmac k data tid pos st = Inr (Some (nx, s))" "parse_attributes hmac k data tid nx s = Inr (Some st')"
      using "1.prems"(1) by (auto simp: parse_attributes.simps [of hmac k data tid pos st] split: sum.splits option.splits)
    have k: "keeps_covered st s" by (rule parse_attribute_after [OF s(1) "1.prems"(2)])
    then have "keeps_covered s st'" using "1.IH" [OF True s(1) refl refl s(2)] "1.prems"(2) by (simp add: keeps_covered_def)
    with k show ?thesis by (simp add: keeps_covered_def)
  next
    case False
    then show ?thesis using "1.prems" by (simp add: parse_attributes_end keeps_covered_def)
  qed
qed

lemma parse_attribute_here:
  assumes "parse_attribute hmac (Some key) data tid pos st = Inr (Some (nx, st'))" "\<not> sp_integrity st" "sp_integrity st'"
  shows "messageIntegrity hmac (take pos data) key = Inr i \<Longrightarrow>
    st' = st\<lparr>sp_integrity := True, sp_attrs := setAttribute ''MESSAGE-INTEGRITY'' (VBytes i) (sp_attrs st), sp_verified := True\<rparr>"
    "\<exists>i. messageIntegrity hmac (take pos data) key = Inr i"
  using assms
  by (auto simp: parse_attribute_def Let_def attr_known_def attr_check_def attr_flags_def
      split: if_splits option.splits prod.splits sum.splits)

lemma parse_attributes_signed:
  "parse_attributes hmac (Some key) data tid pos st = Inr (Some st') \<Longrightarrow> \<not> sp_integrity st \<Longrightarrow> \<not> sp_verified st \<Longrightarrow> sp_verified st' \<Longrightarrow> HEADER_LENGTH \<le> pos \<Longrightarrow>
   \<exists>p st1. pos \<le> p \<and> p \<le> length data \<and> parse_attributes hmac None (signed_part data p) tid pos st = Inr (Some st1) \<and>
     getAttributeValue ''MESSAGE-INTEGRITY'' (sp_attrs st') = Some (VBytes (hmac key (signed_part data p))) \<and>
     covered_part (sp_attrs st') = covered_part (sp_attrs st1) \<and> sp_raws st' = sp_raws st1 \<and> sp_alts st' = sp_alts st1"
proof (induction hmac "Some key" data tid pos st rule: parse_attributes.induct)
  case (1 hmac data tid pos st)
  have pos: "pos < length data"
  proof (rule ccontr)
    assume "\<not> pos < length data"
    then show False using "1.prems" by (simp add: parse_attributes_end)
  qed
  then obtain nx s where s: "parse_attribute hmac (Some key) data tid pos st = Inr (Some (nx, s))" "parse_attributes hmac (Some key) data tid nx s = Inr (Some st')"
    using "1.prems"(1) by (auto simp: parse_attributes.simps [of hmac _ data tid pos st] split: sum.splits option.splits)
  note adv = parse_attribute_advances [OF s(1)]
  have p4: "4 \<le> pos" using "1.prems"(5) by (simp add: HEADER_LENGTH_def)
  show ?case
  proof (cases "sp_integrity s")
    case True
    obtain i where i: "messageIntegrity hmac (take pos data) key = Inr i"
      using parse_attribute_here(2) [OF s(1) "1.prems"(2) True] by blast
    have s': "s = st\<lparr>sp_integrity := True, sp_attrs := setAttribute ''MESSAGE-INTEGRITY'' (VBytes i) (sp_attrs st), sp_verified := True\<rparr>"
      by (rule parse_attribute_here(1) [OF s(1) "1.prems"(2) True i])
    have c: "i = hmac key (signed_part data pos)"
      using i pos p4 by (auto simp: messageIntegrity_def setBodyLength_def signed_part_def writeUIntBE_Inr min_def)
    have len: "length (signed_part data pos) = pos" using pos p4 by (simp add: length_signed)
    have k: "keeps_covered s st'" by (rule parse_attributes_after [OF s(2) True])
    show ?thesis
      using pos k c by (intro exI [of _ pos] exI [of _ st]) (simp add: parse_attributes_end len keeps_covered_def s' get_set covered_set protecting_def)
  next
    case False
    have v: "sp_verified s = sp_verified st"
      using parse_attribute_signed [OF s(1) p4 order_refl _ False] adv by simp
    obtain p st1 where p: "nx \<le> p" "p \<le> length data" "parse_attributes hmac None (signed_part data p) tid nx s = Inr (Some st1)"
      "getAttributeValue ''MESSAGE-INTEGRITY'' (sp_attrs st') = Some (VBytes (hmac key (signed_part data p)))"
      "covered_part (sp_attrs st') = covered_part (sp_attrs st1)" "sp_raws st' = sp_raws st1" "sp_alts st' = sp_alts st1"
      using "1.hyps" [OF pos s(1) refl refl s(2) False] v "1.prems" adv by auto
    have "parse_attribute hmac None (signed_part data p) tid pos st = Inr (Some (nx, s))"
      using parse_attribute_signed [OF s(1) p4 p(1,2) False] by simp
    from parse_attributes_step [OF this] p adv show ?thesis
      by (intro exI [of _ p] exI [of _ st1]) auto
  qed
qed

text \<open>C30: when a message is accepted under a key, its integrity attribute is the HMAC of the message up to that
  attribute (with the length field as if it ended there), and that string alone determines the method, the
  class, the transaction, the raw attributes and every attribute value that is handed out, except the
  protecting attributes themselves: nothing that follows the integrity attribute is believed.\<close>

theorem stun_authenticated:
  assumes "parseMessage hmac data (Some key) = Inr (Some m)"
  shows "\<exists>p \<le> length data. getAttributeValue ''MESSAGE-INTEGRITY'' (msg_attributes m) = Some (VBytes (hmac key (signed_part data p))) \<and>
    signed_content hmac (signed_part data p) = Some (stun_content m)"
proof -
  let ?tid = "buf_slice data (HEADER_LENGTH - 12) HEADER_LENGTH"
  have l: "HEADER_LENGTH \<le> length data" using assms by (auto simp: parseMessage_def isStunMessage_def split: if_splits)
  obtain t st where t: "readUInt16BE data 0 = Inr t"
    and st: "parse_attributes hmac (Some key) data ?tid HEADER_LENGTH stun_parse_start = Inr (Some st)" "sp_verified st"
    and m: "m = \<lparr>messageMethod = t AND 0x3eef, messageClass = t AND 0x0110, transactionId = ?tid, msg_attributes = sp_attrs st,
       rawAttributes = sp_raws st, alternateServers = sp_alts st\<rparr>"
    using assms by (auto simp: parseMessage_def Let_def split: if_splits option.splits)
  obtain p st1 where p: "HEADER_LENGTH \<le> p" "p \<le> length data"
    "parse_attributes hmac None (signed_part data p) ?tid HEADER_LENGTH stun_parse_start = Inr (Some st1)"
    "getAttributeValue ''MESSAGE-INTEGRITY'' (sp_attrs st) = Some (VBytes (hmac key (signed_part data p)))"
    "covered_part (sp_attrs st) = covered_part (sp_attrs st1)" "sp_raws st = sp_raws st1" "sp_alts st = sp_alts st1"
    using parse_attributes_signed [OF st(1) _ _ st(2)] by (auto simp: stun_parse_start_def)
  have "readUInt16BE (signed_part data p) 0 = Inr t"
    using t p(1,2) by (simp add: readUIntBE_def signed_part_def buf_slice_def HEADER_LENGTH_def)
  moreover have "buf_slice (signed_part data p) (HEADER_LENGTH - 12) HEADER_LENGTH = ?tid"
    using p(1,2) by (intro slice_signed) (auto simp: HEADER_LENGTH_def)
  ultimately have "signed_content hmac (signed_part data p) = Some (stun_content m)"
    using p by (simp add: signed_content_def stun_content_def m)
  then show ?thesis using p(2,4) m by auto
qed

definition sample_signed :: buffer where
  "sample_signed = [0, 1, 0, 24, 0x21, 0x12, 0xa4, 0x42] @ replicate 12 7 @ [0, 8, 0, 20] @ replicate 20 3"

lemma sample_signed_accepted:
  "parseMessage (\<lambda>k d. replicate 20 3) sample_signed (Some [1]) =
    Inr (Some \<lparr>messageMethod = 1, messageClass = 0, transactionId = replicate 12 7, msg_attributes = [(''MESSAGE-INTEGRITY'', VBytes (replicate 20 3))],
       rawAttributes = [], alternateServers = []\<rparr>)"
proof -
  let ?pre = "[0, 1, 0, 24, 0x21, 0x12, 0xa4, 0x42] @ replicate 12 7 :: buffer"
  have d: "sample_signed = ?pre @ attr_wire (8, replicate 20 3) @ []"
    by (simp add: sample_signed_def attr_wire_def paddingLength_def buf_alloc_def numeral_2_eq_2)
  have i: "messageIntegrity (\<lambda>k d. replicate 20 3) ?pre [1] = Inr (replicate 20 3)"
    by (simp add: messageIntegrity_def setBodyLength_def HEADER_LENGTH_def INTEGRITY_LENGTH_def writeUIntBE_def)
  have l: "length ?pre = HEADER_LENGTH" by (simp add: HEADER_LENGTH_def)
  have a: "parse_attribute (\<lambda>k d. replicate 20 3) (Some [1]) sample_signed (replicate 12 7) HEADER_LENGTH stun_parse_start =
      Inr (Some (44, stun_parse_start\<lparr>sp_integrity := True, sp_attrs := [(''MESSAGE-INTEGRITY'', VBytes (replicate 20 3))], sp_verified := True\<rparr>))"
    using parse_integrity [OF _ i, of stun_parse_start "[]" "replicate 12 7"] unfolding d [symmetric] l
    by (simp add: stun_parse_start_def length_protection HEADER_LENGTH_def)
  have e: "length sample_signed = 44" by (simp add: sample_signed_def)
  have h: "isStunMessage sample_signed" "readUInt16BE sample_signed 0 = Inr 1" "buf_slice sample_signed (HEADER_LENGTH - 12) HEADER_LENGTH = replicate 12 7"
    by (simp_all add: sample_signed_def isStunMessage_def HEADER_LENGTH_def COOKIE_def readUIntBE_def buf_slice_def)
  show ?thesis using h parse_attributes_step [OF a]
    unfolding parseMessage_def Let_def h(3) by (simp add: parse_attributes_end e stun_parse_start_def)
qed

lemma stun_authenticated_witness:
  "\<exists>p \<le> length sample_signed. signed_content (\<lambda>k d. replicate 20 3) (signed_part sample_signed p) = Some (1, 0, replicate 12 7, [], [], [])"
  using stun_authenticated [OF sample_signed_accepted] by (auto simp: stun_content_def covered_part_def protecting_def)

section \<open>Types of what is parsed\<close>

text \<open>The type of the values of an attribute, with the ranges that a parsed value has.\<close>

fun value_typed :: "stun_codec \<Rightarrow> stun_value \<Rightarrow> bool" where
  "value_typed CAddress (VAddr t p) \<longleftrightarrow> u16_ok p \<and> (\<exists>b. ipAddressToBuffer t = Inr b)"
| "value_typed CXorAddress (VAddr t p) \<longleftrightarrow> u16_ok p \<and> (\<exists>b. ipAddressToBuffer t = Inr b)"
| "value_typed CUnsigned (VNum n) \<longleftrightarrow> u32_ok n"
| "value_typed CUnsignedShort (VNum n) \<longleftrightarrow> u16_ok n"
| "value_typed CUnsigned64 (VNum n) \<longleftrightarrow> 0 \<le> n \<and> n < 2 ^ 64"
| "value_typed CString (VText s) \<longleftrightarrow> True"
| "value_typed CSoftware (VText s) \<longleftrightarrow> True"
| "value_typed CBytes (VBytes b) \<longleftrightarrow> True"
| "value_typed CNone v \<longleftrightarrow> v = VNull"
| "value_typed CErrorCode (VError c r) \<longleftrightarrow> 0 \<le> c \<and> c \<le> 25755"
| "value_typed CUnknown (VTypes ts) \<longleftrightarrow> list_all u16_ok ts"
| "value_typed _ _ \<longleftrightarrow> False"

definition attr_typed :: "string \<times> stun_value \<Rightarrow> bool" where
  "attr_typed kv \<longleftrightarrow> (case ATTRIBUTES_BY_NAME (fst kv) of None \<Rightarrow> False | Some (t, c) \<Rightarrow> value_typed c (snd kv))"

definition raw_typed :: "raw_attribute \<Rightarrow> bool" where
  "raw_typed r \<longleftrightarrow> u16_ok (ra_type r) \<and> ATTRIBUTES_BY_TYPE (ra_type r) = None \<and> ra_length r = Some (length (ra_value r))"

definition message_typed :: "stun_message \<Rightarrow> bool" where
  "message_typed m \<longleftrightarrow> list_all attr_typed (msg_attributes m) \<and> distinct (map fst (msg_attributes m)) \<and> list_all raw_typed (rawAttributes m) \<and>
     list_all (value_typed CAddress) (alternateServers m) \<and> messageClass m \<in> set stun_classes \<and> length (transactionId m) = 12"

lemma unpackAddress_typed: "unpackAddress b = Inr v \<Longrightarrow> value_typed CAddress v"
  using ip_roundtrip [of "drop 4 b"] readUIntBE_Inr_bounds [of 2 b 2]
  by (auto simp: unpackAddress_def Let_def u16_ok_def split: if_splits)

lemma rmap_all: "rmap f xs = Inr ys \<Longrightarrow> (\<And>x y. f x = Inr y \<Longrightarrow> P y) \<Longrightarrow> list_all P ys"
  by (induction xs arbitrary: ys) auto

lemma attr_unpack_typed: "attr_unpack c b tid = Inr v \<Longrightarrow> value_typed c v"
proof (cases c)
  case CXorAddress
  assume "attr_unpack c b tid = Inr v"
  then have "value_typed CAddress v" using unpackAddress_typed CXorAddress by (simp add: unpackXorAddress_def)
  then show ?thesis using CXorAddress by (cases v) simp_all
next
  case CErrorCode
  assume "attr_unpack c b tid = Inr v"
  then obtain h l where "readUInt8 b 2 = Inr h" "readUInt8 b 3 = Inr l" "v = VError (h * 100 + l) (buf_to_text (drop 4 b))"
    using CErrorCode by (auto simp: unpackErrorCode_def split: if_splits)
  then show ?thesis using CErrorCode readUIntBE_Inr_bounds [of 1 b 2 h] readUIntBE_Inr_bounds [of 1 b 3 l] by simp
next
  case CUnknown
  assume a: "attr_unpack c b tid = Inr v"
  then obtain ts where ts: "rmap (\<lambda>i. readUInt16BE b (2 * i)) [0..<length b div 2] = Inr ts" "v = VTypes ts"
    using CUnknown by (auto simp: unpackUnknownAttributes_def split: if_splits)
  have "list_all u16_ok ts" by (rule rmap_all [OF ts(1)]) (auto simp: u16_ok_def dest: readUIntBE_Inr_bounds)
  then show ?thesis using CUnknown ts by simp
qed (auto simp: unpackAddress_typed unpackUnsigned_def unpackUnsignedShort_def unpackUnsigned64_def u32_ok_def u16_ok_def
  dest: readUIntBE_Inr_bounds)

text \<open>The rows of the table by name: each type has one name and each name one type.\<close>

lemma by_type_by_name:
  assumes "ATTRIBUTES_BY_TYPE t = Some (n, c)"
  shows "ATTRIBUTES_BY_NAME n = Some (t, c)"
proof -
  have "(t, n, c) \<in> set ATTRIBUTES" using map_of_SomeD [OF assms [unfolded ATTRIBUTES_BY_TYPE_def]] .
  then have i: "(n, t, c) \<in> set (map (\<lambda>(t, n, c). (n, t, c)) ATTRIBUTES)" by force
  have "distinct (map fst (map (\<lambda>(t, n, c). (n, t, c)) ATTRIBUTES))" by (simp add: ATTRIBUTES_def)
  then show ?thesis unfolding ATTRIBUTES_BY_NAME_def using i by (rule map_of_is_SomeI)
qed

definition parse_typed :: "stun_parse \<Rightarrow> bool" where
  "parse_typed st \<longleftrightarrow> list_all attr_typed (sp_attrs st) \<and> distinct (map fst (sp_attrs st)) \<and> list_all raw_typed (sp_raws st) \<and>
     list_all (value_typed CAddress) (sp_alts st)"

lemma set_typed: "list_all attr_typed as \<Longrightarrow> attr_typed (n, v) \<Longrightarrow> list_all attr_typed (setAttribute n v as)"
  by (induction n v as rule: setAttribute.induct) auto

lemma fst_setAttribute: "fst ` set (setAttribute n v as) = insert n (fst ` set as)"
  by (induction n v as rule: setAttribute.induct) auto

lemma distinct_setAttribute: "distinct (map fst as) \<Longrightarrow> distinct (map fst (setAttribute n v as))"
  by (induction n v as rule: setAttribute.induct) (auto simp: fst_setAttribute)

lemma alternate_codec: "ATTRIBUTES_BY_NAME ''ALTERNATE-SERVER'' = Some (0x8023, CAddress)"
  by (simp add: ATTRIBUTES_BY_NAME_def ATTRIBUTES_def)

lemma parse_attribute_typed:
  assumes p: "parse_attribute hmac k data tid pos st = Inr (Some (nx, st'))" and ty: "parse_typed st"
  shows "parse_typed st'"
proof -
  obtain t l where t: "readUInt16BE data pos = Inr t" "readUInt16BE data (pos + 2) = Inr l" "pos + 4 + nat l + paddingLength (nat l) = nx" "nx \<le> length data"
    using p by (auto simp: parse_attribute_def Let_def split: if_splits option.splits prod.splits)
  note e = parse_attribute_read [OF t, of hmac k tid st]
  have fl: "parse_typed (attr_flags w st)" "sp_attrs (attr_flags w st) = sp_attrs st" "sp_raws (attr_flags w st) = sp_raws st" "sp_alts (attr_flags w st) = sp_alts st" for w
    using ty by (simp_all add: parse_typed_def attr_flags_def Let_def)
  show ?thesis
  proof (cases "attr_ignored st (map_option fst (ATTRIBUTES_BY_TYPE t))")
    case True
    then show ?thesis using p ty e by simp
  next
    case False
    show ?thesis
    proof (cases "ATTRIBUTES_BY_TYPE t")
      case None
      have "raw_typed \<lparr>ra_type = t, ra_length = Some (nat l), ra_value = buf_slice data (pos + 4) (pos + 4 + nat l)\<rparr>"
        using None t readUIntBE_Inr_bounds [OF t(1)] by (simp add: raw_typed_def u16_ok_def)
      then show ?thesis using p e False None ty fl by (auto simp: Let_def parse_typed_def)
    next
      case (Some nc)
      obtain n c where nc: "nc = (n, c)" by (cases nc)
      have name: "ATTRIBUTES_BY_NAME n = Some (t, c)" using by_type_by_name Some nc by simp
      let ?s = "attr_flags (Some n) st"
      have "attr_known hmac k (take pos data) n c (buf_slice data (pos + 4) (pos + 4 + nat l)) tid ?s = Inr (Some st')"
        using p e False Some nc by (auto simp: Let_def)
      then obtain v where v: "attr_unpack c (buf_slice data (pos + 4) (pos + 4 + nat l)) tid = Inr v"
        "sp_attrs st' = setAttribute n v (sp_attrs ?s)" "sp_raws st' = sp_raws ?s"
        "sp_alts st' = sp_alts ?s @ (if n = ''ALTERNATE-SERVER'' then [v] else [])"
        by (auto simp: attr_known_def attr_check_def Let_def split: sum.splits if_splits option.splits)
      have vt: "value_typed c v" by (rule attr_unpack_typed [OF v(1)])
      then have "attr_typed (n, v)" using name by (simp add: attr_typed_def)
      moreover have "n = ''ALTERNATE-SERVER'' \<Longrightarrow> c = CAddress" using name alternate_codec by simp
      ultimately show ?thesis using ty v(2-4) vt
        by (auto simp: parse_typed_def fl set_typed distinct_setAttribute)
    qed
  qed
qed

lemma parse_attributes_typed:
  "parse_attributes hmac k data tid pos st = Inr (Some st') \<Longrightarrow> parse_typed st \<Longrightarrow> parse_typed st'"
proof (induction hmac k data tid pos st rule: parse_attributes.induct)
  case (1 hmac k data tid pos st)
  show ?case
  proof (cases "pos < length data")
    case True
    then obtain nx s where s: "parse_attribute hmac k data tid pos st = Inr (Some (nx, s))" "parse_attributes hmac k data tid nx s = Inr (Some st')"
      using "1.prems"(1) by (auto simp: parse_attributes.simps [of hmac k data tid pos st] split: sum.splits option.splits)
    show ?thesis by (rule "1.IH" [OF True s(1) refl refl s(2) parse_attribute_typed [OF s(1) "1.prems"(2)]])
  next
    case False
    then show ?thesis using "1.prems" by (simp add: parse_attributes_end)
  qed
qed

text \<open>The two class bits leave four values.\<close>

lemma class_values: "(t AND 0x0110) \<in> set stun_classes"
proof -
  have bits: "bit (0x0110 :: int) i \<longleftrightarrow> i = 4 \<or> i = 8" for i
  proof -
    have h: "(0x0110 :: int) = 2 ^ 4 OR 2 ^ 8" by simp
    show ?thesis unfolding h by (simp only: bit_or_iff bit_exp_iff) auto
  qed
  have e: "t AND 0x0110 = (if bit t 4 then 0x010 else 0) OR (if bit t 8 then 0x100 else 0)"
  proof (rule bit_eqI)
    fix i
    have "(0x010 :: int) = 2 ^ 4" "(0x100 :: int) = 2 ^ 8" by simp_all
    then have "bit (0x010 :: int) i = (i = 4)" "bit (0x100 :: int) i = (i = 8)" by (simp_all only: bit_exp_iff) auto
    then show "bit (t AND 0x0110) i = bit ((if bit t 4 then 0x010 else 0) OR (if bit t 8 then 0x100 else (0 :: int))) i"
      by (auto simp: bit_and_iff bit_or_iff bits)
  qed
  show ?thesis unfolding e by (simp add: stun_classes_def)
qed

text \<open>C32: a message that is accepted is well typed: each attribute is of the table, has one value and that of
  the type and range of its row, the unknown ones are kept as they came, and class and transaction have their forms.\<close>

theorem stun_parse_typed:
  assumes "parseMessage hmac data k = Inr (Some m)"
  shows "message_typed m"
proof -
  obtain t st where st: "parse_attributes hmac k data (transactionId m) HEADER_LENGTH stun_parse_start = Inr (Some st)"
    and m: "msg_attributes m = sp_attrs st" "rawAttributes m = sp_raws st" "alternateServers m = sp_alts st" "messageClass m = t AND 0x0110"
      "transactionId m = buf_slice data (HEADER_LENGTH - 12) HEADER_LENGTH"
    and l: "HEADER_LENGTH \<le> length data"
    using assms by (auto simp: parseMessage_def isStunMessage_def Let_def split: if_splits option.splits)
  have "parse_typed st" by (rule parse_attributes_typed [OF st]) (simp add: parse_typed_def stun_parse_start_def)
  then show ?thesis using l class_values [of t] by (simp add: message_typed_def parse_typed_def m) (simp add: HEADER_LENGTH_def)
qed

lemma stun_parse_typed_witness:
  "message_typed \<lparr>messageMethod = 1, messageClass = 0, transactionId = replicate 12 7, msg_attributes = [(''MESSAGE-INTEGRITY'', VBytes (replicate 20 3))],
     rawAttributes = [], alternateServers = []\<rparr>"
  by (rule stun_parse_typed [OF sample_signed_accepted])

end
