(* ===== verification/Tcp_Frame.thy ===== *)
theory Tcp_Frame
  imports Stun_Message
begin

unbundle bit_operations_syntax

text \<open>
  Framing of messages on a TCP connection: the two-byte length prefix of ICE-TCP
  (\<^verbatim>\<open>packages/ice/src/stun/tcpFrame.ts\<close>) and the STUN and ChannelData frames of TURN
  (\<^verbatim>\<open>packages/ice-server/src/turn/frame.ts\<close>).
\<close>

section \<open>ICE-TCP\<close>

definition encodeTcpFrame :: "buffer \<Rightarrow> buffer result" where
  "encodeTcpFrame data = rbind (writeUInt16BE (int (length data))) (\<lambda>header. Inr (header @ data))"

text \<open>The loop of \<^verbatim>\<open>splitTcpFrames\<close> from an offset: the frames and the rest.\<close>

function tcp_frames_from :: "buffer \<Rightarrow> nat \<Rightarrow> buffer list \<times> buffer" where
  "tcp_frames_from buffer offset =
     (if length buffer - offset \<ge> 2
      then case readUInt16BE buffer offset of
             Inl _ \<Rightarrow> ([], drop offset buffer)
           | Inr len \<Rightarrow>
               if length buffer - offset < nat len + 2 then ([], drop offset buffer)
               else let (frames, rest) = tcp_frames_from buffer (offset + 2 + nat len)
                    in (buf_slice buffer (offset + 2) (offset + 2 + nat len) # frames, rest)
      else ([], drop offset buffer))"
  by pat_completeness auto
termination
  by (relation "measure (\<lambda>(b, n). length b - n)") auto

declare tcp_frames_from.simps [simp del]

definition splitTcpFrames :: "buffer \<Rightarrow> buffer list \<times> buffer" where
  "splitTcpFrames buffer = tcp_frames_from buffer 0"

section \<open>TURN\<close>

record channel_data =
  channelNumber :: int
  cd_data :: buffer

definition isChannelData :: "buffer \<Rightarrow> bool" where
  "isChannelData data \<longleftrightarrow> length data \<ge> 4 \<and> (data ! 0 AND 0xc0) = 0x40"

definition encodeChannelData :: "int \<Rightarrow> buffer \<Rightarrow> buffer result" where
  "encodeChannelData channel data =
     rbind (writeUInt16BE channel) (\<lambda>h0. rbind (writeUInt16BE (int (length data))) (\<lambda>h1. Inr (h0 @ h1 @ data)))"

definition decodeChannelData :: "buffer \<Rightarrow> channel_data option result" where
  "decodeChannelData data =
     (if \<not> isChannelData data \<or> length data < 4 then Inr None
      else rbind (readUInt16BE data 0) (\<lambda>channel. rbind (readUInt16BE data 2) (\<lambda>len.
           Inr (if length data < 4 + nat len then None
                else Some \<lparr>channelNumber = channel, cd_data = buf_slice data 4 (4 + nat len)\<rparr>))))"

definition padTurnFrame :: "buffer \<Rightarrow> buffer" where
  "padTurnFrame data =
     (let padding = paddingLength (length data) in if padding > 0 then data @ buf_alloc padding else data)"

text \<open>The length of the frame at the start of the bytes: none yet, a malformed one, or its length.\<close>

datatype turn_frame = TurnWait | TurnMalformed | TurnFrame nat

definition turn_frame_at :: "buffer \<Rightarrow> turn_frame" where
  "turn_frame_at b =
     (if isChannelData b
      then (case readUInt16BE b 2 of Inl _ \<Rightarrow> TurnWait
            | Inr payloadLength \<Rightarrow> TurnFrame (4 + nat payloadLength + paddingLength (nat payloadLength)))
      else if (b ! 0 AND 0xc0) = 0
      then if length b < 20 then TurnWait
           else (case readUInt16BE b 2 of Inl _ \<Rightarrow> TurnWait
                 | Inr stunBodyLength \<Rightarrow> TurnFrame (20 + nat stunBodyLength + paddingLength (nat stunBodyLength)))
      else TurnMalformed)"

function turn_frames_from :: "buffer \<Rightarrow> nat \<Rightarrow> buffer list \<times> bool \<times> buffer" where
  "turn_frames_from buffer offset =
     (if length buffer - offset \<ge> 4
      then case turn_frame_at (drop offset buffer) of
             TurnWait \<Rightarrow> ([], False, drop offset buffer)
           | TurnMalformed \<Rightarrow> ([], True, drop offset buffer)
           | TurnFrame frameLength \<Rightarrow>
               if length buffer - offset < frameLength then ([], False, drop offset buffer)
               else let (frames, malformed, rest) = turn_frames_from buffer (offset + frameLength)
                    in (buf_slice buffer offset (offset + frameLength) # frames, malformed, rest)
      else ([], False, drop offset buffer))"
  by pat_completeness auto
termination
  by (relation "measure (\<lambda>(b, n). length b - n)")
    (auto simp: turn_frame_at_def split: if_splits sum.splits)

declare turn_frames_from.simps [simp del]

definition splitTurnTcpFrames :: "buffer \<Rightarrow> buffer list \<times> bool \<times> buffer" where
  "splitTurnTcpFrames buffer = turn_frames_from buffer 0"

section \<open>A connection\<close>

text \<open>One event of data on the socket of ICE-TCP: the new buffer of the connection and the frames that
  are handled (empty ones are skipped).\<close>

definition tcp_socket_data :: "buffer \<Rightarrow> buffer \<Rightarrow> buffer \<times> buffer list" where
  "tcp_socket_data entry_buffer data =
     (let (frames, rest) = splitTcpFrames (entry_buffer @ data) in (rest, filter (\<lambda>f. f \<noteq> []) frames))"

text \<open>The TURN client on a stream transport hands over the frames and ignores \<^verbatim>\<open>malformed\<close>.\<close>

definition turn_data_received :: "buffer \<Rightarrow> buffer \<Rightarrow> buffer \<times> buffer list" where
  "turn_data_received tcpBuffer data =
     (let (frames, malformed, rest) = splitTurnTcpFrames (tcpBuffer @ data) in (rest, frames))"

text \<open>The TURN server closes the client instead and drops what it has of it.\<close>

datatype turn_chunk_action = CloseClient | HandleFrames "buffer list"

definition turn_server_chunk :: "buffer \<Rightarrow> buffer \<Rightarrow> buffer option \<times> turn_chunk_action" where
  "turn_server_chunk tcpBuffer data =
     (let (frames, malformed, rest) = splitTurnTcpFrames (tcpBuffer @ data)
      in if malformed then (None, CloseClient) else (Some rest, HandleFrames frames))"

fun feed :: "('b \<Rightarrow> 'c \<Rightarrow> 'b \<times> 'f list) \<Rightarrow> 'b \<Rightarrow> 'c list \<Rightarrow> 'b \<times> 'f list" where
  "feed step b [] = (b, [])"
| "feed step b (c # cs) = (let (b, fs) = step b c; (b, gs) = feed step b cs in (b, fs @ gs))"

section \<open>Cutting a stream into frames\<close>

text \<open>The specification of a splitter: \<open>size_at\<close> is the size of the frame at the start of the bytes, if
  it is there as a whole, and \<open>out\<close> what is handed over of it.\<close>

function cut :: "(buffer \<Rightarrow> nat option) \<Rightarrow> (buffer \<Rightarrow> buffer) \<Rightarrow> buffer \<Rightarrow> buffer list \<times> buffer" where
  "cut size_at out b =
     (case size_at b of None \<Rightarrow> ([], b)
      | Some n \<Rightarrow> if 0 < n \<and> n \<le> length b
          then let (fs, r) = cut size_at out (drop n b) in (out (take n b) # fs, r) else ([], b))"
  by pat_completeness auto
termination
  by (relation "measure (\<lambda>(s, q, b). length b)") auto

declare cut.simps [simp del]

text \<open>What a splitter promises: splitting in two goes is splitting at once.  The frames that a
  connection hands over then depend on the bytes only, not on how they arrive.\<close>

locale stream_splitter =
  fixes split :: "buffer \<Rightarrow> buffer list \<times> buffer"
    and keep :: "buffer \<Rightarrow> bool"
    and step :: "buffer \<Rightarrow> buffer \<Rightarrow> buffer \<times> buffer list"
  assumes split_append: "split (a @ b) = (let (fs, r) = split a; (gs, r') = split (r @ b) in (fs @ gs, r'))"
    and step_split: "step b c = (let (fs, r) = split (b @ c) in (r, filter keep fs))"
begin

lemma split_rest: "split b = (fs, r) \<Longrightarrow> split r = ([], r)"
  using split_append [of b "[]"] by (auto split: prod.splits)

lemma feed_split: "split b = ([], b) \<Longrightarrow> feed step b cs = (let (fs, r) = split (b @ concat cs) in (r, filter keep fs))"
proof (induction cs arbitrary: b)
  case (Cons c cs)
  obtain fs r where s: "split (b @ c) = (fs, r)" by fastforce
  show ?case using Cons.IH [OF split_rest [OF s]] split_append [of "b @ c" "concat cs"] s
    by (auto simp: step_split split: prod.splits)
qed auto

end

text \<open>A size that is known stays when more bytes arrive.\<close>

locale frame_cutter =
  fixes size_at :: "buffer \<Rightarrow> nat option"
    and out :: "buffer \<Rightarrow> buffer"
    and keep :: "buffer \<Rightarrow> bool"
    and step :: "buffer \<Rightarrow> buffer \<Rightarrow> buffer \<times> buffer list"
  assumes size_pos: "size_at b = Some n \<Longrightarrow> 0 < n \<and> n \<le> length b"
    and size_stable: "size_at b = Some n \<Longrightarrow> size_at (b @ c) = Some n"
    and step_cut: "step b c = (let (fs, r) = cut size_at out (b @ c) in (r, filter keep fs))"
begin

lemma cut_append: "cut size_at out (a @ b) = (let (fs, r) = cut size_at out a; (gs, r') = cut size_at out (r @ b) in (fs @ gs, r'))"
proof (induction a rule: length_induct)
  case (1 a)
  show ?case
  proof (cases "size_at a")
    case None
    then show ?thesis by (simp add: cut.simps [of _ _ a] split: prod.splits)
  next
    case (Some n)
    note n = size_pos [OF Some]
    have ab: "size_at (a @ b) = Some n" by (rule size_stable [OF Some])
    have "cut size_at out (drop n a @ b) = (let (fs, r) = cut size_at out (drop n a); (gs, r') = cut size_at out (r @ b) in (fs @ gs, r'))"
      by (rule 1 [rule_format]) (use n in auto)
    moreover have "take n (a @ b) = take n a" "drop n (a @ b) = drop n a @ b" using n by simp_all
    ultimately show ?thesis using Some ab n by (simp add: cut.simps [of _ _ a] cut.simps [of _ _ "a @ b"] split: prod.splits)
  qed
qed

lemma cut_one: "size_at w = Some (length w) \<Longrightarrow> cut size_at out (w @ b) = (let (fs, r) = cut size_at out b in (out w # fs, r))"
  using size_pos [of w "length w"] size_stable [of w "length w" b] by (simp add: cut.simps [of _ _ "w @ b"])

lemma cut_Nil: "cut size_at out [] = ([], [])"
  using size_pos [of "[]"] by (cases "size_at []") (auto simp: cut.simps [of _ _ "[]"])

lemma cut_frames: "list_all (\<lambda>w. size_at w = Some (length w)) ws \<Longrightarrow> cut size_at out (concat ws) = (map out ws, [])"
  by (induction ws) (auto simp: cut_one cut_Nil)

end

sublocale frame_cutter \<subseteq> stream_splitter "cut size_at out" keep step
  using cut_append step_cut by unfold_locales

context frame_cutter
begin

lemma feed_frames:
  "list_all (\<lambda>w. size_at w = Some (length w)) ws \<Longrightarrow> concat cs = concat ws \<Longrightarrow> feed step [] cs = ([], filter keep (map out ws))"
  using feed_split [OF cut_Nil, of cs] cut_frames [of ws] by simp

end

section \<open>ICE-TCP\<close>

definition tcp_size :: "buffer \<Rightarrow> nat option" where
  "tcp_size b = (case readUInt16BE b 0 of Inl _ \<Rightarrow> None | Inr n \<Rightarrow> if length b < nat n + 2 then None else Some (nat n + 2))"

lemma read_length_total:
  assumes "2 \<le> length b - off"
  obtains l where "readUInt16BE b off = Inr l"
proof -
  have "off + 2 \<le> length b" using assms by simp
  then show ?thesis using that by (simp add: readUIntBE_def)
qed

lemma read_at_drop: "readUIntBE n b off = readUIntBE n (drop off b) 0" if "off \<le> length b"
  using that by (auto simp: readUIntBE_def buf_slice_def)

lemma tcp_frames_cut: "off \<le> length b \<Longrightarrow> tcp_frames_from b off = cut tcp_size (drop 2) (drop off b)"
proof (induction b off rule: tcp_frames_from.induct)
  case (1 b off)
  note rd = read_at_drop [OF "1.prems", of 2]
  note e = tcp_frames_from.simps [of b off] and c = cut.simps [of tcp_size "drop 2" "drop off b"]
  show ?case
  proof (cases "length b - off \<ge> 2")
    case True
    then obtain l where l: "readUInt16BE b off = Inr l" by (rule read_length_total)
    have sz: "tcp_size (drop off b) = (if length b - off < nat l + 2 then None else Some (nat l + 2))"
      using l unfolding rd by (simp add: tcp_size_def)
    show ?thesis
    proof (cases "length b - off < nat l + 2")
      case False
      have "tcp_frames_from b (off + 2 + nat l) = cut tcp_size (drop 2) (drop (off + 2 + nat l) b)"
        by (rule "1.IH" [OF True l False]) (use False "1.prems" in linarith)
      moreover have "drop 2 (take (nat l + 2) (drop off b)) = buf_slice b (off + 2) (off + 2 + nat l)"
        by (simp add: buf_slice_def drop_take add.commute)
      moreover have "drop (nat l + 2) (drop off b) = drop (off + 2 + nat l) b" by (simp add: ac_simps)
      ultimately show ?thesis using True False l sz unfolding e c by (simp add: Let_def)
    qed (use True l sz in \<open>simp add: e c\<close>)
  next
    case False
    then have "tcp_size (drop off b) = None" by (auto simp: tcp_size_def readUIntBE_def)
    then show ?thesis using False by (simp add: e c)
  qed
qed

lemma splitTcpFrames_cut: "splitTcpFrames b = cut tcp_size (drop 2) b"
  using tcp_frames_cut [of 0 b] by (simp add: splitTcpFrames_def)

lemma read_append: "readUIntBE n b p = Inr v \<Longrightarrow> readUIntBE n (b @ c) p = Inr v"
  by (auto simp: readUIntBE_def buf_slice_def split: if_splits)

interpretation tcp: frame_cutter tcp_size "drop 2" "\<lambda>f. f \<noteq> []" tcp_socket_data
proof unfold_locales
  show "tcp_size b = Some n \<Longrightarrow> 0 < n \<and> n \<le> length b" for b n
    by (auto simp: tcp_size_def split: sum.splits if_splits)
  show "tcp_size b = Some n \<Longrightarrow> tcp_size (b @ c) = Some n" for b c n
    by (auto simp: tcp_size_def dest: read_append [of 2 b 0 _ c] split: sum.splits if_splits)
  show "tcp_socket_data b c = (let (fs, r) = cut tcp_size (drop 2) (b @ c) in (r, filter (\<lambda>f. f \<noteq> []) fs))" for b c
    by (simp add: tcp_socket_data_def splitTcpFrames_cut)
qed

lemma encodeTcpFrame_size:
  assumes "encodeTcpFrame f = Inr w"
  shows "tcp_size w = Some (length w) \<and> drop 2 w = f"
proof -
  have w: "w = be_bytes 2 (int (length f)) @ f" "u16_ok (int (length f))"
    using assms by (auto simp: encodeTcpFrame_def writeUIntBE_Inr u16_ok_def)
  then have "readUInt16BE w 0 = Inr (int (length f))" by (simp add: wire_simps)
  then show ?thesis by (simp add: tcp_size_def w(1))
qed

lemma encodeTcpFrame_sizes:
  "rmap encodeTcpFrame fs = Inr ws \<Longrightarrow> list_all (\<lambda>w. tcp_size w = Some (length w)) ws \<and> map (drop 2) ws = fs"
  by (induction fs arbitrary: ws) (auto dest: encodeTcpFrame_size)

section \<open>TURN\<close>

definition turn_size :: "buffer \<Rightarrow> nat option" where
  "turn_size b = (if length b < 4 then None
     else case turn_frame_at b of TurnFrame n \<Rightarrow> if length b < n then None else Some n | _ \<Rightarrow> None)"

lemma turn_frames_cut:
  "off \<le> length b \<Longrightarrow> (case turn_frames_from b off of (fs, m, r) \<Rightarrow> (fs, r)) = cut turn_size id (drop off b)"
proof (induction b off rule: turn_frames_from.induct)
  case (1 b off)
  note e = turn_frames_from.simps [of b off] and c = cut.simps [of turn_size id "drop off b"]
  have pos: "turn_frame_at x = TurnFrame n \<Longrightarrow> 0 < n" for x n by (auto simp: turn_frame_at_def split: if_splits sum.splits)
  show ?case
  proof (cases "length b - off \<ge> 4 \<and> (\<exists>n. turn_frame_at (drop off b) = TurnFrame n \<and> n \<le> length b - off)")
    case True
    then obtain n where n: "length b - off \<ge> 4" "turn_frame_at (drop off b) = TurnFrame n" "\<not> length b - off < n" by auto
    have "(case turn_frames_from b (off + n) of (fs, m, r) \<Rightarrow> (fs, r)) = cut turn_size id (drop (off + n) b)"
      by (rule "1.IH" [OF n]) (use n "1.prems" in linarith)
    moreover have "turn_size (drop off b) = Some n" using n by (simp add: turn_size_def)
    moreover have "drop n (drop off b) = drop (off + n) b" by (simp add: add.commute)
    ultimately show ?thesis using n pos [OF n(2)] unfolding e c by (auto simp: buf_slice_def Let_def split: prod.splits)
  next
    case False
    then have "turn_size (drop off b) = None" by (auto simp: turn_size_def split: turn_frame.splits)
    then show ?thesis using False unfolding e c by (auto split: turn_frame.splits)
  qed
qed

lemma turn_frame_at_append: "4 \<le> length b \<Longrightarrow> turn_frame_at b = TurnFrame n \<Longrightarrow> turn_frame_at (b @ c) = TurnFrame n"
  by (auto simp: turn_frame_at_def isChannelData_def nth_append dest: read_append [of 2 b 2 _ c] split: if_splits sum.splits)

interpretation turn: frame_cutter turn_size id "\<lambda>f. True" turn_data_received
proof unfold_locales
  show "turn_size b = Some n \<Longrightarrow> 0 < n \<and> n \<le> length b" for b n
    by (auto simp: turn_size_def turn_frame_at_def split: turn_frame.splits if_splits sum.splits)
  show "turn_size b = Some n \<Longrightarrow> turn_size (b @ c) = Some n" for b c n
    by (auto simp: turn_size_def turn_frame_at_append split: turn_frame.splits if_splits)
  show "turn_data_received b c = (let (fs, r) = cut turn_size id (b @ c) in (r, filter (\<lambda>f. True) fs))" for b c
    using turn_frames_cut [of 0 "b @ c"] by (auto simp: turn_data_received_def splitTurnTcpFrames_def split: prod.splits)
qed

lemma top_bits_table:
  "list_all (\<lambda>v. ((of_nat v :: byte) AND 0xc0 = 0x40) = (64 \<le> v \<and> v < 128) \<and> ((of_nat v :: byte) AND 0xc0 = 0) = (v < 64)) [0..<256]"
  by code_simp

lemma byte_top_bits:
  assumes "0 \<le> v" "v < 256"
  shows "((word_of_int v :: byte) AND 0xc0 = 0x40) = (64 \<le> v \<and> v < 128)" "((word_of_int v :: byte) AND 0xc0 = 0) = (v < 64)"
proof -
  obtain n where n: "v = int n" "n < 256" using assms by (metis nat_less_iff nat_0_le of_nat_numeral)
  then have "n \<in> set [0..<256]" by simp
  then show "((word_of_int v :: byte) AND 0xc0 = 0x40) = (64 \<le> v \<and> v < 128)" "((word_of_int v :: byte) AND 0xc0 = 0) = (v < 64)"
    using top_bits_table n(1) unfolding list_all_iff by auto
qed

lemma stun_frame_size:
  assumes "isStunMessage f"
  shows "turn_size f = Some (length f) \<and> padTurnFrame f = f"
proof -
  obtain n where n: "readUInt16BE f 2 = Inr n" "n mod 4 = 0" "length f = 20 + nat n" "f ! 0 AND 0xc0 = 0"
    using assms by (auto simp: isStunMessage_def HEADER_LENGTH_def split: sum.splits)
  have n0: "0 \<le> n" using readUIntBE_Inr_bounds [OF n(1)] by simp
  then obtain k where k: "n = int k" using nonneg_int_cases by blast
  then have "int (k mod 4) = 0" using n(2) by (simp add: of_nat_mod)
  then have m: "nat n mod 4 = 0" using k by simp
  then have "paddingLength (nat n) = 0" "paddingLength (length f) = 0" using n(3) by (simp_all add: paddingLength_def mod_add_right_eq [of 20, symmetric])
  then show ?thesis using n by (simp add: turn_size_def turn_frame_at_def isChannelData_def padTurnFrame_def)
qed

lemma paddingLength_head: "4 dvd k \<Longrightarrow> paddingLength (k + n) = paddingLength n"
  by (auto simp: paddingLength_def Let_def mod_add_left_eq [of k, symmetric] dvd_eq_mod_eq_0)

lemma channel_frame:
  assumes c: "0x4000 \<le> c" "c < 0x8000" and w: "encodeChannelData c d = Inr w"
  shows "turn_size (padTurnFrame w) = Some (length (padTurnFrame w)) \<and> decodeChannelData (padTurnFrame w) = Inr (Some \<lparr>channelNumber = c, cd_data = d\<rparr>)"
proof -
  have u: "u16_ok c" "u16_ok (int (length d))" "w = be_bytes 2 c @ be_bytes 2 (int (length d)) @ d"
    using w by (auto simp: encodeChannelData_def writeUIntBE_Inr u16_ok_def)
  let ?z = "buf_alloc (paddingLength (length d))"
  have p: "padTurnFrame w = be_bytes 2 c @ be_bytes 2 (int (length d)) @ d @ ?z"
    using paddingLength_head [of 4 "length d"] by (auto simp: padTurnFrame_def Let_def u(3) buf_alloc_def)
  have r: "readUInt16BE (padTurnFrame w) 0 = Inr c" "readUInt16BE (padTurnFrame w) 2 = Inr (int (length d))"
    unfolding p using u by (simp_all add: wire_simps)
  have "padTurnFrame w ! 0 = word_of_int (c div 256)" by (simp add: p numeral_2_eq_2)
  moreover have "0 \<le> c div 256" "c div 256 < 256" "64 \<le> c div 256" "c div 256 < 128" using c by simp_all
  ultimately have ch: "isChannelData (padTurnFrame w)" using byte_top_bits(1) [of "c div 256"] by (simp add: isChannelData_def p)
  have sl: "buf_slice (padTurnFrame w) 4 (4 + length d) = d" by (simp add: p buf_slice_def)
  have len: "length (padTurnFrame w) = 4 + length d + paddingLength (length d)" by (simp add: p)
  show ?thesis using r ch sl len by (simp add: turn_size_def turn_frame_at_def decodeChannelData_def)
qed

section \<open>Reassembly\<close>

text \<open>C35: whatever pieces the bytes of a sequence of ICE-TCP frames arrive in, the connection hands over exactly
  those frames in order (the empty ones skipped) and keeps nothing.\<close>

theorem tcp_stream_reassembled:
  assumes "rmap encodeTcpFrame fs = Inr ws" "concat cs = concat ws"
  shows "feed tcp_socket_data [] cs = ([], filter (\<lambda>f. f \<noteq> []) fs)"
  using tcp.feed_frames [of ws cs] encodeTcpFrame_sizes [OF assms(1)] assms(2) by simp

lemma tcp_stream_reassembled_witness:
  "feed tcp_socket_data [] [[0], [2, 7, 8, 0, 0, 0], [1], [9]] = ([], [[7, 8], [9]])"
proof -
  have e: "rmap encodeTcpFrame [[7, 8], [], [9]] = Inr [[0, 2, 7, 8], [0, 0], [0, 1, 9]]"
    by (simp add: encodeTcpFrame_def writeUIntBE_def numeral_2_eq_2)
  show ?thesis using tcp_stream_reassembled [OF e, of "[[0], [2, 7, 8, 0, 0, 0], [1], [9]]"] by simp
qed

text \<open>A message of a TURN connection: a STUN message, or channel data on a channel of the TURN range.\<close>

definition turn_message :: "buffer \<Rightarrow> bool" where
  "turn_message f \<longleftrightarrow> isStunMessage f \<or> (\<exists>c d. 0x4000 \<le> c \<and> c < 0x8000 \<and> encodeChannelData c d = Inr f)"

text \<open>C34: whatever pieces the padded messages of a TURN connection arrive in, the client hands over exactly those
  messages in order; a STUN message has no padding and channel data is read through its padding.\<close>

theorem turn_stream_reassembled:
  assumes "list_all turn_message fs" "concat cs = concat (map padTurnFrame fs)"
  shows "feed turn_data_received [] cs = ([], map padTurnFrame fs) \<and>
    (\<forall>f \<in> set fs. (isStunMessage f \<longrightarrow> padTurnFrame f = f) \<and>
      (\<forall>c d. 0x4000 \<le> c \<longrightarrow> c < 0x8000 \<longrightarrow> encodeChannelData c d = Inr f \<longrightarrow>
        decodeChannelData (padTurnFrame f) = Inr (Some \<lparr>channelNumber = c, cd_data = d\<rparr>)))"
proof -
  have "list_all (\<lambda>w. turn_size w = Some (length w)) (map padTurnFrame fs)"
    using assms(1) stun_frame_size channel_frame by (fastforce simp: list_all_iff turn_message_def)
  from turn.feed_frames [OF this assms(2)] show ?thesis using stun_frame_size channel_frame by auto
qed

lemma be_bytes_2: "be_bytes 2 v = [word_of_int (v div 256), word_of_int v]"
  by (simp add: numeral_2_eq_2)

lemma turn_stream_reassembled_witness:
  "feed turn_data_received [] [[0x40, 1, 0, 1, 5, 0], [0, 0, 0x40, 1, 0, 0]] = ([], [[0x40, 1, 0, 1, 5, 0, 0, 0], [0x40, 1, 0, 0]])"
proof -
  have e: "encodeChannelData 0x4001 [5] = Inr [0x40, 1, 0, 1, 5]" "encodeChannelData 0x4001 [] = Inr [0x40, 1, 0, 0]"
    by (simp_all add: encodeChannelData_def writeUIntBE_def be_bytes_2)
  have z: "buf_alloc 3 = [0, 0, 0]" "paddingLength 5 = 3" "paddingLength 4 = 0"
    by (simp_all add: buf_alloc_def paddingLength_def numeral_3_eq_3)
  have p: "padTurnFrame [0x40, 1, 0, 1, 5] = [0x40, 1, 0, 1, 5, 0, 0, 0]" "padTurnFrame [0x40, 1, 0, 0] = [0x40, 1, 0, 0]"
  proof -
    have l: "length [0x40, 1, 0, 1, 5 :: byte] = 5" "length [0x40, 1, 0, 0 :: byte] = 4" by simp_all
    show "padTurnFrame [0x40, 1, 0, 1, 5] = [0x40, 1, 0, 1, 5, 0, 0, 0]" unfolding padTurnFrame_def l z Let_def by simp
    show "padTurnFrame [0x40, 1, 0, 0] = [0x40, 1, 0, 0]" unfolding padTurnFrame_def l z Let_def by simp
  qed
  have a: "list_all turn_message [[0x40, 1, 0, 1, 5], [0x40, 1, 0, 0]]"
    using e by (auto simp: turn_message_def intro!: disjI2 exI [of _ "0x4001"])
  show ?thesis
    using turn_stream_reassembled [OF a, of "[[0x40, 1, 0, 1, 5, 0], [0, 0, 0x40, 1, 0, 0]]"] by (simp add: p)
qed

end
