(* ===== verification/Spec2Isabelle.thy ===== *)
theory Spec2Isabelle
  imports Sctp_Handshake Sctp_Transfer Sctp_Invariant Sctp_Receive Crc Dtls_Replay
    Fifo_Queue Number Srtp Rtcp_Compound Twcc_Receiver Transport_Wide Jitter_Buffer Red_Stream Stun_Secure Tcp_Frame
begin

text \<open>A verification library for werift, a WebRTC stack in TypeScript.

  Every theory models one part of the packages under \<^verbatim>\<open>src/packages/\<close>; a definition has
  the name of the function or method it models and the state of a class is a record with the
  names of its fields.

  Common package.  \<open>Number\<close> (\<^verbatim>\<open>common/src/number.ts\<close>, serial arithmetic), \<open>Crc\<close>
  (\<^verbatim>\<open>crc.ts\<close>, the table-driven checksums, equal to the bit-at-a-time definition), \<open>Fifo_Queue\<close>
  (\<^verbatim>\<open>queue.ts\<close>, the queue over an array with a moving head, which refines a list) and \<open>Binary\<close>
  (\<^verbatim>\<open>binary.ts\<close>, buffers, bit fields).  \<open>Prelude\<close> holds what all share: the result type
  (\<^verbatim>\<open>Inl\<close> an exception, \<^verbatim>\<open>Inr\<close> a value) with its bind, big-endian reads and writes with their
  range checks, and the machine-integer lemmas.  JavaScript numbers that the code keeps as
  integers are \<open>int\<close>; the bitwise operators, which truncate to 32 bits, are written out where a
  value can leave that range.

  SCTP package.  \<open>Sctp_Param\<close>, \<open>Sctp_Chunk\<close> (\<^verbatim>\<open>param.ts\<close>, \<^verbatim>\<open>chunk.ts\<close>: one constructor per chunk
  class, its body codec), \<open>Sctp_Wire\<close> (packet serializer and parser; round trip, detection of
  corruption, exact condition for the parser to return), \<open>Sctp_Inbound\<close> (class
  \<^verbatim>\<open>InboundStream\<close>: reassembly), \<open>Sctp_State\<close> (the record of the class \<^verbatim>\<open>SCTP\<close>, its timers and
  its output log), \<open>Sctp_Receive\<close> (inbound data, acknowledgement state, reconfiguration),
  \<open>Sctp_Send\<close> (sending, retransmission, partial reliability), \<open>Sctp_Handler\<close> (the handshake and
  the dispatch on a chunk), \<open>Sctp_Frame\<close> (what each operation leaves alone), \<open>Sctp_Invariant\<close>
  (the steps of an association, reachability and its invariants), \<open>Sctp_Transfer\<close> (a message
  from one side to the other) and \<open>Sctp_Handshake\<close> (two endpoints to the established state).
  The random tags, the clock, the HMAC and whether the transport accepts a packet come in through
  a record \<open>env\<close>; what is put on the wire, delivered or scheduled is appended to the list \<open>out\<close>.

  DTLS package.  \<open>Dtls_Replay\<close> (\<^verbatim>\<open>antiReplayWindow.ts\<close>).

  RTP package.  \<open>Rtp_Header\<close> (\<^verbatim>\<open>rtp/rtp.ts\<close>, \<^verbatim>\<open>padding.ts\<close>, \<^verbatim>\<open>rtx.ts\<close>, \<^verbatim>\<open>continuity.ts\<close>),
  \<open>Rtcp_Header\<close> (\<^verbatim>\<open>rtcp/header.ts\<close>), \<open>Srtp_Context\<close> (key derivation and rollover counters),
  \<open>Srtp_Cipher\<close> (both protection profiles over an abstract AES and HMAC) and \<open>Srtp\<close> (contexts and
  sessions: what one side protects the other restores).\<close>

end
